(* ===== verification/Prelude.thy ===== *)
theory Prelude
  imports Main
    "HOL-Library.Sublist"
    "HOL-Library.Char_ord"
    "HOL-Library.List_Lexorder"
    "HOL-Library.Multiset"
begin

section \<open>Prelude: the Go operations and the error values the components share\<close>

text \<open>
  This theory holds what every component uses: the error values of the CSI calls, the loop with
  an early return, the functions of Go's \<open>strings\<close> and \<open>strconv\<close> packages the driver calls, and
  two interfaces (a reader of key/value pairs whose result does not depend on the order of the
  pairs, and a text format of separated entries).

  A Go string is a sequence of bytes, and so is a \<^typ>\<open>string\<close> here. A duration and a time are
  whole nanoseconds. A time counts from Go's zero time, so \<open>IsZero\<close> is the test for \<open>0\<close>.
\<close>

named_theorems model_defs \<open>definitions that the proofs of the components unfold\<close>
named_theorems codec_simps \<open>rewrite rules for printing and reading text\<close>

subsection \<open>Types and error values\<close>

type_synonym duration = int
type_synonym time = int

abbreviation second :: duration where "second \<equiv> 1000000000"
abbreviation minute :: duration where "minute \<equiv> 60 * second"
abbreviation hour :: duration where "hour \<equiv> 60 * minute"

text \<open>
  A message keeps its format string and its arguments. The driver renders it with \<open>Sprintf\<close> where
  a person reads it and never reads it back, so the model does not render it.
\<close>

datatype msg = Plain string | Fmt string "arg list" | Cat msg msg
and arg = AStr string | AInt int | ADur duration | ATime time | AMsg msg

abbreviation no_msg :: msg where "no_msg \<equiv> Plain []"

datatype code = InvalidArgument | FailedPrecondition | NotFound | Unavailable | Internal
  | Unimplemented

datatype status = Status (status_code: code) (status_message: msg)

type_synonym 'a result = "status + 'a"

text \<open>A loop over a list whose body can return early with an error.\<close>

primrec foldE :: "('a \<Rightarrow> 's \<Rightarrow> 'e + 's) \<Rightarrow> 'a list \<Rightarrow> 's \<Rightarrow> 'e + 's" where
  "foldE f [] s = Inr s"
| "foldE f (x # xs) s = (case f x s of Inl e \<Rightarrow> Inl e | Inr s' \<Rightarrow> foldE f xs s')"

lemma foldE_append:
  "foldE f (xs @ ys) s = (case foldE f xs s of Inl e \<Rightarrow> Inl e | Inr s' \<Rightarrow> foldE f ys s')"
  by (induction xs arbitrary: s) (auto split: sum.splits)

text \<open>An invariant that every successful step keeps holds when the loop succeeds.\<close>

lemma foldE_invariant:
  assumes "foldE f xs s = Inr t" and "P s"
    and "\<And>x s s'. x \<in> set xs \<Longrightarrow> P s \<Longrightarrow> f x s = Inr s' \<Longrightarrow> P s'"
  shows "P t"
  using assms
proof (induction xs arbitrary: s)
  case Nil
  then show ?case by simp
next
  case (Cons x xs)
  then obtain s' where s': "f x s = Inr s'" "foldE f xs s' = Inr t"
    by (auto split: sum.splits)
  with Cons.prems have "P s'" by auto
  with s'(2) Cons.prems(3) Cons.IH[of s'] show ?case by auto
qed

fun success :: "'e + 'a \<Rightarrow> 'a option" where
  "success (Inl e) = None"
| "success (Inr a) = Some a"

lemma success_iff [simp]: "success r = Some a \<longleftrightarrow> r = Inr a"
  by (cases r) auto

lemma success_none [simp]: "success r = None \<longleftrightarrow> (\<exists>e. r = Inl e)"
  by (cases r) auto

subsection \<open>Readers of key and value pairs\<close>

text \<open>
  The driver reads a volume's attributes and a class's parameters out of a Go map, one pair at a
  time, and stops at the first pair it refuses. Go leaves the order of a map's pairs open. A
  reader whose steps on different keys commute accepts in one order what it accepts in any, with
  the same result.
\<close>

locale pair_reader =
  fixes step :: "'k \<times> 'v \<Rightarrow> 's \<Rightarrow> 'e + 's"
  assumes commutes: "fst x \<noteq> fst y \<Longrightarrow>
    Option.bind (success (step x s)) (\<lambda>s'. success (step y s')) =
    Option.bind (success (step y s)) (\<lambda>s'. success (step x s'))"
begin

lemma success_foldE_Cons:
  "success (foldE step (x # xs) s) =
   Option.bind (success (step x s)) (\<lambda>s'. success (foldE step xs s'))"
  by (cases "step x s") auto

lemma move_to_front:
  "fst x \<notin> fst ` set as \<Longrightarrow>
   success (foldE step (as @ x # bs) s) = success (foldE step (x # as @ bs) s)"
proof (induction as arbitrary: s)
  case Nil
  then show ?case by simp
next
  case (Cons a as)
  then have ne: "fst a \<noteq> fst x" and rest: "fst x \<notin> fst ` set as" by auto
  have "success (foldE step ((a # as) @ x # bs) s) =
      Option.bind (success (step a s)) (\<lambda>s'. success (foldE step (as @ x # bs) s'))"
    by (simp only: append_Cons success_foldE_Cons)
  also have "\<dots> = Option.bind (success (step a s)) (\<lambda>s'.
      Option.bind (success (step x s')) (\<lambda>s''. success (foldE step (as @ bs) s'')))"
    by (simp only: Cons.IH[OF rest] success_foldE_Cons)
  also have "\<dots> = Option.bind (Option.bind (success (step a s)) (\<lambda>s'. success (step x s')))
      (\<lambda>s''. success (foldE step (as @ bs) s''))"
    by (cases "success (step a s)") simp_all
  also have "\<dots> = Option.bind (Option.bind (success (step x s)) (\<lambda>s'. success (step a s')))
      (\<lambda>s''. success (foldE step (as @ bs) s''))"
    by (simp only: commutes[OF ne])
  also have "\<dots> = success (foldE step (x # (a # as) @ bs) s)"
    by (cases "success (step x s)") (auto simp: success_foldE_Cons simp del: foldE.simps)
  finally show ?case .
qed

lemma order_irrelevant:
  "mset xs = mset ys \<Longrightarrow> distinct (map fst xs) \<Longrightarrow>
   success (foldE step xs s) = success (foldE step ys s)"
proof (induction xs arbitrary: ys s)
  case Nil
  then show ?case by simp
next
  case (Cons x xs)
  then have "x \<in> set ys" by (metis list.set_intros(1) set_mset_mset)
  then obtain as bs where ys: "ys = as @ x # bs" by (auto simp: in_set_conv_decomp)
  with Cons.prems(1) have mset: "mset xs = mset (as @ bs)" by simp
  have "fst x \<notin> fst ` set xs" using Cons.prems(2) by auto
  moreover have "set as \<subseteq> set xs" using mset by (metis Un_upper1 set_append set_mset_mset)
  ultimately have "fst x \<notin> fst ` set as" by auto
  then have "success (foldE step ys s) = success (foldE step (x # as @ bs) s)"
    unfolding ys by (rule move_to_front)
  also have "\<dots> = success (foldE step (x # xs) s)"
    using Cons.IH[OF mset] Cons.prems(2)
    by (simp only: success_foldE_Cons distinct.simps list.map)
  finally show ?case by simp
qed

lemma order_irrelevant_cases:
  assumes "mset xs = mset ys" "distinct (map fst xs)"
  shows "case foldE step xs s of
      Inr t \<Rightarrow> foldE step ys s = Inr t | Inl e \<Rightarrow> \<exists>e'. foldE step ys s = Inl e'"
  using order_irrelevant[OF assms, of s] by (cases "foldE step xs s") (auto dest: sym)

end

text \<open>
  The way a reader of that kind comes about: each pair it accepts sets something, whatever was
  read before, and settings of different keys are independent.
\<close>

locale setting_reader =
  fixes step :: "'k \<times> 'v \<Rightarrow> 's \<Rightarrow> 'e + 's"
    and key_of :: "'x \<Rightarrow> 'k"
    and apply_to :: "'x \<Rightarrow> 's \<Rightarrow> 's"
    and ok :: "'x \<Rightarrow> bool"
  assumes shape: "(\<exists>x. key_of x = fst kv \<and> ok x \<and> (\<forall>s. step kv s = Inr (apply_to x s))) \<or>
      (\<exists>e. \<forall>s. step kv s = Inl e)"
    and independent: "key_of x \<noteq> key_of y \<Longrightarrow> apply_to x (apply_to y s) = apply_to y (apply_to x s)"
begin

lemma accepted:
  assumes "step kv s = Inr t"
  obtains x where "key_of x = fst kv" "ok x" "t = apply_to x s"
  using shape[of kv] assms by (metis Inl_Inr_False Inr_inject)

lemma steps_commute:
  assumes ne: "fst x \<noteq> fst y"
  shows "Option.bind (success (step x s)) (\<lambda>s'. success (step y s')) =
    Option.bind (success (step y s)) (\<lambda>s'. success (step x s'))"
proof -
  consider e where "\<forall>s. step x s = Inl e" | e where "\<forall>s. step y s = Inl e"
    | u w where "key_of u = fst x" "key_of w = fst y"
        "\<forall>s. step x s = Inr (apply_to u s)" "\<forall>s. step y s = Inr (apply_to w s)"
    using shape[of x] shape[of y] by metis
  then show ?thesis
  proof cases
    case (1 e)
    then show ?thesis by (cases "success (step y s)") simp_all
  next
    case (2 e)
    then show ?thesis by (cases "success (step x s)") simp_all
  next
    case (3 u w)
    with ne have "apply_to w (apply_to u s) = apply_to u (apply_to w s)"
      by (intro independent) auto
    with 3 show ?thesis by simp
  qed
qed

end

sublocale setting_reader \<subseteq> pair_reader step
  by unfold_locales (rule steps_commute)

subsection \<open>Go's \<open>strings\<close> package\<close>

text \<open>\<open>strings.Cut\<close>: the text before and after the first separator, and whether there is one.\<close>

fun cut :: "string \<Rightarrow> string \<Rightarrow> string \<times> string \<times> bool" where
  "cut sep [] = ([], [], sep = [])"
| "cut sep (c # cs) =
     (if prefix sep (c # cs) then ([], drop (length sep) (c # cs), True)
      else let (before, after, found) = cut sep cs in (c # before, after, found))"

definition contains :: "string \<Rightarrow> string \<Rightarrow> bool" where
  "contains s sub = sublist sub s"

definition trim_suffix :: "string \<Rightarrow> string \<Rightarrow> string" where
  "trim_suffix suf s = (if suffix suf s then take (length s - length suf) s else s)"

definition cut_prefix :: "string \<Rightarrow> string \<Rightarrow> string \<times> bool" where
  "cut_prefix pre s = (if prefix pre s then (drop (length pre) s, True) else (s, False))"

definition trim_right :: "(char \<Rightarrow> bool) \<Rightarrow> string \<Rightarrow> string" where
  "trim_right p s = rev (dropWhile p (rev s))"

definition trim :: "(char \<Rightarrow> bool) \<Rightarrow> string \<Rightarrow> string" where
  "trim p s = trim_right p (dropWhile p s)"

text \<open>\<open>strings.ToLower\<close> on the ASCII letters. Bytes of other letters are kept.\<close>

definition lower_char :: "char \<Rightarrow> char" where
  "lower_char c = (let n = of_char c :: nat in if 65 \<le> n \<and> n \<le> 90 then char_of (n + 32) else c)"

definition to_lower :: "string \<Rightarrow> string" where
  "to_lower = map lower_char"

text \<open>
  The white space of \<open>strings.TrimSpace\<close> and \<open>strings.Fields\<close>: six ASCII characters, and the runes of
  \<open>unicode.IsSpace\<close> above them as the bytes UTF-8 writes them in. Each of those starts with a byte that
  starts a rune, so a text holds the rune exactly where it holds the bytes, in a text that is not UTF-8 too.
\<close>

definition is_space :: "char \<Rightarrow> bool" where
  "is_space c = (c \<in> {CHR 0x09, CHR 0x0A, CHR 0x0B, CHR 0x0C, CHR 0x0D, CHR 0x20})"

definition wide_spaces :: "string list" where
  "wide_spaces = [[CHR 0xC2, CHR 0x85], [CHR 0xC2, CHR 0xA0], [CHR 0xE1, CHR 0x9A, CHR 0x80]] @
     map (\<lambda>c. [CHR 0xE2, CHR 0x80, c]) [CHR 0x80, CHR 0x81, CHR 0x82, CHR 0x83, CHR 0x84, CHR 0x85, CHR 0x86,
       CHR 0x87, CHR 0x88, CHR 0x89, CHR 0x8A, CHR 0xA8, CHR 0xA9, CHR 0xAF] @
     [[CHR 0xE2, CHR 0x81, CHR 0x9F], [CHR 0xE3, CHR 0x80, CHR 0x80]]"

text \<open>The length of the white space a text starts with: one rune, or none.\<close>

definition space_at :: "string list \<Rightarrow> string \<Rightarrow> nat" where
  "space_at wide s = (case s of [] \<Rightarrow> 0 | c # _ \<Rightarrow> if is_space c then 1
     else (case find (\<lambda>u. prefix u s) wide of None \<Rightarrow> 0 | Some u \<Rightarrow> length u))"

lemma space_at_nil [simp]: "space_at wide [] = 0"
  by (simp add: space_at_def)

function skip_spaces :: "string list \<Rightarrow> string \<Rightarrow> string" where
  "skip_spaces wide s = (if space_at wide s = 0 then s else skip_spaces wide (drop (space_at wide s) s))"
  by pat_completeness auto
termination
proof (relation "measure (length \<circ> snd)", simp)
  fix wide s assume "space_at wide s \<noteq> 0"
  then have "s \<noteq> []" by auto
  with \<open>space_at wide s \<noteq> 0\<close> show "((wide, drop (space_at wide s) s), wide, s) \<in> measure (length \<circ> snd)" by simp
qed

declare skip_spaces.simps [simp del]

definition trim_space :: "string \<Rightarrow> string" where
  "trim_space s = rev (skip_spaces (map rev wide_spaces) (rev (skip_spaces wide_spaces s)))"

text \<open>\<open>strings.Split\<close> at one character, and \<open>strings.Join\<close>.\<close>

fun split :: "char \<Rightarrow> string \<Rightarrow> string list" where
  "split sep [] = [[]]"
| "split sep (c # cs) =
     (if c = sep then [] # split sep cs
      else case split sep cs of [] \<Rightarrow> [[c]] | f # fs \<Rightarrow> (c # f) # fs)"

fun join :: "string \<Rightarrow> string list \<Rightarrow> string" where
  "join sep [] = []"
| "join sep [s] = s"
| "join sep (s # ss) = s @ sep @ join sep ss"

text \<open>\<open>strings.SplitN\<close> at one character: at most \<open>n\<close> pieces, the last one unsplit.\<close>

fun splitN :: "nat \<Rightarrow> char \<Rightarrow> string \<Rightarrow> string list" where
  "splitN 0 sep s = []"
| "splitN (Suc 0) sep s = [s]"
| "splitN (Suc n) sep s =
     (if sep \<in> set s
      then takeWhile (\<lambda>c. c \<noteq> sep) s # splitN n sep (tl (dropWhile (\<lambda>c. c \<noteq> sep) s))
      else [s])"

text \<open>\<open>strings.Fields\<close>: the maximal runs of characters that are not white space.\<close>

fun next_word :: "string \<Rightarrow> string" where
  "next_word [] = []"
| "next_word (c # s) = (if space_at wide_spaces (c # s) \<noteq> 0 then [] else c # next_word s)"

lemma skip_spaces_ends: "space_at wide (skip_spaces wide s) = 0 \<and> length (skip_spaces wide s) \<le> length s"
proof (induction wide s rule: skip_spaces.induct)
  case (1 wide s)
  then show ?case by (subst (1 2) skip_spaces.simps) auto
qed

function fields :: "string \<Rightarrow> string list" where
  "fields s =
     (let t = skip_spaces wide_spaces s; word = next_word t
      in if t = [] then [] else word # fields (drop (length word) t))"
  by pat_completeness auto
termination
proof (relation "measure length", simp)
  fix s t word :: string
  assume t: "t = skip_spaces wide_spaces s" and word: "word = next_word t" and ne: "t \<noteq> []"
  have "space_at wide_spaces t = 0" using skip_spaces_ends[of wide_spaces s] t by simp
  with ne have "word \<noteq> []" unfolding word by (cases t) auto
  with ne have "length (drop (length word) t) < length t" by simp
  also have "\<dots> \<le> length s" unfolding t using skip_spaces_ends by blast
  finally show "(drop (length word) t, s) \<in> measure length" by simp
qed

declare fields.simps [simp del]

text \<open>A text without white space, and the word it is.\<close>

definition no_space :: "string \<Rightarrow> bool" where
  "no_space s \<longleftrightarrow> list_all (\<lambda>c. \<not> is_space c) s \<and> list_all (\<lambda>u. \<not> sublist u s) wide_spaces"

lemma wide_chars: "u \<in> set wide_spaces \<Longrightarrow> u \<noteq> [] \<and> list_all (\<lambda>c. \<not> is_space c \<and> (128 :: nat) \<le> of_char c) u"
  by (auto simp: wide_spaces_def is_space_def)

lemma ascii_no_wide: "list_all (\<lambda>c. of_char c < (128 :: nat)) s \<Longrightarrow> list_all (\<lambda>u. \<not> sublist u s) wide_spaces"
proof -
  assume low: "list_all (\<lambda>c. of_char c < (128 :: nat)) s"
  have "\<not> sublist u s" if "u \<in> set wide_spaces" for u
  proof
    assume "sublist u s"
    then have "set u \<subseteq> set s" by (rule set_mono_sublist)
    moreover have "hd u \<in> set u" using wide_chars[OF that] by simp
    ultimately have "hd u \<in> set s" "hd u \<in> set u" by blast+
    with low wide_chars[OF that] show False unfolding list_all_iff by (metis linorder_not_less)
  qed
  then show ?thesis by (simp add: list_all_iff)
qed

lemma no_space_at:
  assumes "no_space (c # s)" and "t = [] \<or> is_space (hd t)"
  shows "space_at wide_spaces (c # s @ t) = 0"
proof -
  have "\<not> prefix u ((c # s) @ t)" if u: "u \<in> set wide_spaces" for u
  proof
    assume "prefix u ((c # s) @ t)"
    then consider "prefix u (c # s)" | rest where "u = (c # s) @ rest" "rest \<noteq> []" "prefix rest t"
      by (auto simp only: prefix_append) (metis append_Nil2 prefix_order.eq_iff)
    then show False
    proof cases
      case 1
      then show ?thesis using assms(1) u by (auto simp: no_space_def list_all_iff dest: prefix_imp_sublist)
    next
      case 2
      then have "hd t \<in> set u" "t \<noteq> []" by (cases rest; cases t; auto)+
      with assms(2) wide_chars[OF u] show ?thesis by (auto simp: list_all_iff)
    qed
  qed
  then have "find (\<lambda>u. prefix u (c # s @ t)) wide_spaces = None" by (simp add: find_None_iff)
  then show ?thesis using assms(1) by (simp add: space_at_def no_space_def)
qed

lemma no_space_tl: "no_space (c # s) \<Longrightarrow> no_space s"
  by (auto simp: no_space_def list_all_iff sublist_Cons_right)

lemma next_word_word: "no_space s \<Longrightarrow> t = [] \<or> is_space (hd t) \<Longrightarrow> next_word (s @ t) = s"
proof (induction s)
  case Nil
  then show ?case by (cases t) (auto simp: space_at_def)
next
  case (Cons c s)
  then show ?case using no_space_at[of c s t] no_space_tl[of c s] by simp
qed

lemma fields_word:
  assumes "no_space word" and "word \<noteq> []" and "s = [] \<or> is_space (hd s)"
  shows "fields (word @ s) = word # fields s"
proof -
  obtain c cs where word: "word = c # cs" using assms(2) by (cases word) auto
  have "skip_spaces wide_spaces (word @ s) = word @ s"
    using no_space_at[of c cs s] assms(1,3) by (subst skip_spaces.simps) (simp add: word)
  then show ?thesis using next_word_word[OF assms(1,3)] assms(2) by (subst fields.simps) (simp add: Let_def)
qed

lemma fields_space: "is_space c \<Longrightarrow> fields (c # s) = fields s"
proof -
  assume "is_space c"
  then have "skip_spaces wide_spaces (c # s) = skip_spaces wide_spaces s"
    by (subst skip_spaces.simps) (simp add: space_at_def)
  then show ?thesis by (subst (1 2) fields.simps) simp
qed

lemma fields_nil [simp]: "fields [] = []"
  by (simp add: fields.simps skip_spaces.simps)

lemma split_ne_Nil [simp]: "split sep s \<noteq> []"
  by (induction sep s rule: split.induct) (auto split: list.splits)

lemma split_no_sep: "sep \<notin> set s \<Longrightarrow> split sep s = [s]"
  by (induction s) auto

lemma split_append_sep:
  "sep \<notin> set s \<Longrightarrow> split sep (s @ sep # t) = s # split sep t"
  by (induction s) auto

lemma join_split: "join [sep] (split sep s) = s"
proof (induction sep s rule: split.induct)
  case (1 sep)
  then show ?case by simp
next
  case (2 sep c cs)
  obtain f fs where fs: "split sep cs = f # fs" by (cases "split sep cs") auto
  show ?case
  proof (cases "c = sep")
    case True
    with 2 fs show ?thesis by simp
  next
    case False
    with 2 fs show ?thesis by (cases fs) auto
  qed
qed

lemma split_pieces: "f \<in> set (split sep s) \<Longrightarrow> sep \<notin> set f"
  by (induction sep s arbitrary: f rule: split.induct) (auto split: list.splits if_splits)

lemma cut_found:
  assumes "cut sep s = (before, after, True)" and "sep \<noteq> []"
  shows "s = before @ sep @ after"
  using assms
proof (induction sep s arbitrary: before rule: cut.induct)
  case (1 sep)
  then show ?case by auto
next
  case (2 sep c cs)
  show ?case
  proof (cases "prefix sep (c # cs)")
    case True
    with "2.prems" show ?thesis by (auto simp: prefix_def)
  next
    case False
    with 2 show ?thesis by (auto split: prod.splits)
  qed
qed

lemma cut_char:
  "cut [c] s = (takeWhile (\<lambda>x. x \<noteq> c) s, tl (dropWhile (\<lambda>x. x \<noteq> c) s), c \<in> set s)"
  by (induction s) auto

lemma trim_suffix_append [simp]: "trim_suffix suf (s @ suf) = s"
  by (auto simp: trim_suffix_def suffix_def)

lemma trim_suffix_other: "\<not> suffix suf s \<Longrightarrow> trim_suffix suf s = s"
  by (simp add: trim_suffix_def)

subsection \<open>Texts of separated entries\<close>

text \<open>
  Git's \<open>-z\<close> reports and the metadata record are sequences of entries that each end with one
  separator character. Reading splits the text at the separator and leaves out every piece that
  does not read. A format whose entries never hold the separator, and whose reader takes an
  entry back, round-trips.
\<close>

fun read_pieces :: "(string \<Rightarrow> 'a option) \<Rightarrow> string list \<Rightarrow> 'a list" where
  "read_pieces dec [] = []"
| "read_pieces dec (s # ss) =
     (case dec s of None \<Rightarrow> read_pieces dec ss | Some r \<Rightarrow> r # read_pieces dec ss)"

locale separated_entries =
  fixes sep :: char
    and enc :: "'a \<Rightarrow> string"
    and dec :: "string \<Rightarrow> 'a option"
    and wf :: "'a \<Rightarrow> bool"
  assumes dec_empty: "dec [] = None"
    and enc_no_sep: "wf r \<Longrightarrow> sep \<notin> set (enc r)"
    and dec_enc: "wf r \<Longrightarrow> dec (enc r) = Some r"
begin

lemma read_back:
  "\<forall>r\<in>set rs. wf r \<Longrightarrow> read_pieces dec (split sep (concat (map (\<lambda>r. enc r @ [sep]) rs))) = rs"
proof (induction rs)
  case Nil
  then show ?case by (simp add: dec_empty)
next
  case (Cons r rs)
  then have "split sep (enc r @ sep # concat (map (\<lambda>r. enc r @ [sep]) rs)) =
      enc r # split sep (concat (map (\<lambda>r. enc r @ [sep]) rs))"
    by (intro split_append_sep enc_no_sep) simp
  with Cons show ?case by (simp add: dec_enc)
qed

end

subsection \<open>Go's \<open>strconv\<close> package\<close>

definition digit_char :: "nat \<Rightarrow> char" where
  "digit_char d = char_of (48 + d)"

definition digit_val :: "char \<Rightarrow> nat" where
  "digit_val c = of_char c - 48"

definition is_digit :: "nat \<Rightarrow> char \<Rightarrow> bool" where
  "is_digit base c = (48 \<le> (of_char c :: nat) \<and> (of_char c :: nat) < 48 + base)"

function show_nat :: "nat \<Rightarrow> nat \<Rightarrow> string" where
  "show_nat base n =
     (if n < base \<or> base < 2 then [digit_char n]
      else show_nat base (n div base) @ [digit_char (n mod base)])"
  by pat_completeness auto
termination by (relation "measure snd") auto

declare show_nat.simps [simp del]

definition read_nat :: "nat \<Rightarrow> string \<Rightarrow> nat" where
  "read_nat base = foldl (\<lambda>acc c. acc * base + digit_val c) 0"

lemma digit_of_char [codec_simps]: "d < 10 \<Longrightarrow> of_char (digit_char d) = 48 + d"
  by (simp add: digit_char_def)

lemma is_digit_digit_char [codec_simps]: "base \<le> 10 \<Longrightarrow> d < base \<Longrightarrow> is_digit base (digit_char d)"
  by (simp add: is_digit_def digit_of_char)

lemma digit_val_digit_char [codec_simps]: "d < 10 \<Longrightarrow> digit_val (digit_char d) = d"
  by (simp add: digit_val_def digit_of_char)

lemma read_nat_snoc [codec_simps]: "read_nat base (s @ [c]) = read_nat base s * base + digit_val c"
  by (simp add: read_nat_def)

lemma show_nat_ne_Nil [simp]: "show_nat base n \<noteq> []"
  by (subst show_nat.simps) simp

lemma show_nat_digits:
  "2 \<le> base \<Longrightarrow> base \<le> 10 \<Longrightarrow> list_all (is_digit base) (show_nat base n)"
proof (induction base n rule: show_nat.induct)
  case (1 base n)
  then show ?case
    by (subst show_nat.simps) (auto simp: codec_simps)
qed

lemma read_show_nat [codec_simps]:
  "2 \<le> base \<Longrightarrow> base \<le> 10 \<Longrightarrow> read_nat base (show_nat base n) = n"
proof (induction base n rule: show_nat.induct)
  case (1 base n)
  show ?case
  proof (cases "n < base")
    case True
    with "1.prems" show ?thesis
      by (subst show_nat.simps) (simp add: read_nat_def codec_simps)
  next
    case False
    with 1 have "read_nat base (show_nat base (n div base)) = n div base" by simp
    moreover have "n mod base < base" using "1.prems" by simp
    then have "n mod base < 10" using "1.prems" by linarith
    ultimately show ?thesis using False "1.prems"
      by (subst show_nat.simps) (simp add: codec_simps)
  qed
qed

text \<open>\<open>strconv.Itoa\<close> and \<open>strconv.Atoi\<close>, whose range is Go's 64-bit \<open>int\<close>.\<close>

definition itoa :: "int \<Rightarrow> string" where
  "itoa i = (if i < 0 then CHR ''-'' # show_nat 10 (nat (- i)) else show_nat 10 (nat i))"

definition atoi :: "string \<Rightarrow> int option" where
  "atoi s =
     (let neg = (s \<noteq> [] \<and> hd s = CHR ''-'');
          ds = (if s \<noteq> [] \<and> (hd s = CHR ''-'' \<or> hd s = CHR ''+'') then tl s else s);
          i = (if neg then - int (read_nat 10 ds) else int (read_nat 10 ds))
      in if ds \<noteq> [] \<and> list_all (is_digit 10) ds \<and> - (2 ^ 63) \<le> i \<and> i < 2 ^ 63
         then Some i else None)"

text \<open>\<open>strconv.ParseUint\<close> with an explicit base and 32 bits.\<close>

definition parse_uint32 :: "nat \<Rightarrow> string \<Rightarrow> nat option" where
  "parse_uint32 base s =
     (if s \<noteq> [] \<and> list_all (is_digit base) s \<and> read_nat base s < 2 ^ 32
      then Some (read_nat base s) else None)"

text \<open>The verb \<open>%04o\<close> and the verb \<open>%d\<close> of \<open>fmt.Sprintf\<close>.\<close>

definition show_octal4 :: "nat \<Rightarrow> string" where
  "show_octal4 n = (let s = show_nat 8 n in replicate (4 - length s) CHR ''0'' @ s)"

lemma is_digit_not_sign: "is_digit 10 c \<Longrightarrow> c \<noteq> CHR ''-'' \<and> c \<noteq> CHR ''+''"
  by (auto simp: is_digit_def)

lemma list_all_hd: "list_all P xs \<Longrightarrow> xs \<noteq> [] \<Longrightarrow> P (hd xs)"
  by (cases xs) auto

lemma atoi_itoa [codec_simps]: "- (2 ^ 63) \<le> i \<Longrightarrow> i < 2 ^ 63 \<Longrightarrow> atoi (itoa i) = Some i"
proof (cases "i < 0")
  case True
  assume "- (2 ^ 63) \<le> i" "i < 2 ^ 63"
  with True show ?thesis
    by (simp add: atoi_def itoa_def show_nat_digits read_show_nat)
next
  case False
  assume "- (2 ^ 63) \<le> i" "i < 2 ^ 63"
  moreover have "is_digit 10 (hd (show_nat 10 (nat i)))"
    by (simp add: list_all_hd show_nat_digits)
  then have "hd (show_nat 10 (nat i)) \<noteq> CHR ''-'' \<and> hd (show_nat 10 (nat i)) \<noteq> CHR ''+''"
    by (rule is_digit_not_sign)
  ultimately show ?thesis using False
    by (simp add: atoi_def itoa_def show_nat_digits read_show_nat)
qed

lemma read_nat_leading_zeros: "read_nat base (replicate k CHR ''0'' @ s) = read_nat base s"
  by (induction k) (simp_all add: read_nat_def digit_val_def)

lemma parse_octal4 [codec_simps]: "n < 2 ^ 32 \<Longrightarrow> parse_uint32 8 (show_octal4 n) = Some n"
  using show_nat_digits[of 8 n]
  by (simp add: parse_uint32_def show_octal4_def Let_def read_nat_leading_zeros read_show_nat
      list_all_iff ball_Un is_digit_def)

lemma itoa_chars: "c \<in> set (itoa i) \<Longrightarrow> is_digit 10 c \<or> c = CHR ''-''"
  using show_nat_digits[of 10 "nat i"] show_nat_digits[of 10 "nat (- i)"]
  by (auto simp: itoa_def list_all_iff split: if_splits)

lemma octal4_chars: "c \<in> set (show_octal4 n) \<Longrightarrow> is_digit 8 c"
  using show_nat_digits[of 8 n]
  by (auto simp: show_octal4_def Let_def list_all_iff is_digit_def)

end
