(* ===== verification/Durations.thy ===== *)
theory Durations
  imports Prelude
begin

section \<open>Durations as text: Go's \<open>time.ParseDuration\<close>\<close>

text \<open>
  The attributes and the class parameters carry durations such as \<open>5m\<close> and \<open>1h30m\<close>, which the
  driver reads with the standard library's \<open>time.ParseDuration\<close>. This is that function. The whole
  part and the sum are kept in Go's 64 bits, with each overflow a refusal. The fraction is the
  exact floor, where Go multiplies in a \<open>float64\<close>, so the two can differ by a nanosecond on a
  fraction with many digits.
\<close>

definition unit_ns :: "string \<Rightarrow> nat option" where
  "unit_ns u =
     (if u = ''ns'' then Some 1
      else if u = ''us'' \<or> u = [CHR 0xC2, CHR 0xB5, CHR ''s''] \<or> u = [CHR 0xCE, CHR 0xBC, CHR ''s'']
      then Some 1000
      else if u = ''ms'' then Some 1000000
      else if u = ''s'' then Some 1000000000
      else if u = ''m'' then Some 60000000000
      else if u = ''h'' then Some 3600000000000
      else None)"

text \<open>The digits after a point: the value and its scale. Digits past 63 bits are dropped.\<close>

fun leading_fraction :: "nat \<Rightarrow> nat \<Rightarrow> string \<Rightarrow> nat \<times> nat" where
  "leading_fraction x scale [] = (x, scale)"
| "leading_fraction x scale (c # cs) =
     (if x > (2 ^ 63 - 1) div 10 \<or> x * 10 + digit_val c > 2 ^ 63 then (x, scale)
      else leading_fraction (x * 10 + digit_val c) (scale * 10) cs)"

abbreviation dec_digit :: "char \<Rightarrow> bool" where "dec_digit \<equiv> is_digit 10"

definition unit_char :: "char \<Rightarrow> bool" where
  "unit_char c = (c \<noteq> CHR ''.'' \<and> \<not> dec_digit c)"

text \<open>One number with its unit, and the text after it.\<close>

definition duration_term :: "string \<Rightarrow> (nat \<times> string) option" where
  "duration_term s =
     (let ds = takeWhile dec_digit s; s1 = dropWhile dec_digit s;
          point = (s1 \<noteq> [] \<and> hd s1 = CHR ''.'');
          fs = (if point then takeWhile dec_digit (tl s1) else []);
          s2 = (if point then dropWhile dec_digit (tl s1) else s1);
          (f, scale) = leading_fraction 0 1 fs;
          u = takeWhile unit_char s2; v = read_nat 10 ds
      in if v > 2 ^ 63 \<or> (ds = [] \<and> fs = []) then None
         else case unit_ns u of
           None \<Rightarrow> None
         | Some unit \<Rightarrow>
             (if v > 2 ^ 63 div unit then None
              else let w = v * unit + f * unit div scale
                   in if w > 2 ^ 63 then None else Some (w, dropWhile unit_char s2)))"

lemma duration_term_shorter:
  assumes "duration_term s = Some (w, rest)" shows "length rest < length s"
proof -
  define s1 where "s1 = dropWhile dec_digit s"
  define s2 where "s2 = (if s1 \<noteq> [] \<and> hd s1 = CHR ''.'' then dropWhile dec_digit (tl s1) else s1)"
  from assms have u: "unit_ns (takeWhile unit_char s2) \<noteq> None" and rest: "rest = dropWhile unit_char s2"
    by (auto simp: duration_term_def Let_def s1_def s2_def split: option.splits if_splits prod.splits)
  from u have ne: "takeWhile unit_char s2 \<noteq> []" by (auto simp: unit_ns_def)
  have "length s2 = length (takeWhile unit_char s2) + length (dropWhile unit_char s2)"
    by (metis length_append takeWhile_dropWhile_id)
  moreover have "length (takeWhile unit_char s2) > 0" using ne by simp
  ultimately have "length rest < length s2" unfolding rest by linarith
  also have "length s2 \<le> length s1"
    by (cases s1) (auto simp: s2_def le_SucI length_dropWhile_le)
  also have "\<dots> \<le> length s" unfolding s1_def by (rule length_dropWhile_le)
  finally show ?thesis .
qed

function duration_terms :: "nat \<Rightarrow> string \<Rightarrow> nat option" where
  "duration_terms d s =
     (if s = [] then Some d
      else case duration_term s of
        None \<Rightarrow> None
      | Some (w, rest) \<Rightarrow>
          (let d' = (d + w) mod 2 ^ 64 in if d' > 2 ^ 63 then None else duration_terms d' rest))"
  by pat_completeness auto
termination by (relation "measure (length \<circ> snd)") (auto dest: duration_term_shorter)

declare duration_terms.simps [simp del]

definition parse_duration :: "string \<Rightarrow> duration option" where
  "parse_duration s =
     (let signed = (s \<noteq> [] \<and> (hd s = CHR ''-'' \<or> hd s = CHR ''+''));
          neg = (s \<noteq> [] \<and> hd s = CHR ''-'');
          body = (if signed then tl s else s)
      in if body = ''0'' then Some 0
         else if body = [] then None
         else case duration_terms 0 body of
           None \<Rightarrow> None
         | Some d \<Rightarrow> (if neg then Some (- int d) else if d > 2 ^ 63 - 1 then None else Some (int d)))"

lemma duration_terms_bound: "d \<le> 2 ^ 63 \<Longrightarrow> duration_terms d s = Some r \<Longrightarrow> r \<le> 2 ^ 63"
proof (induction d s rule: duration_terms.induct)
  case (1 d s)
  then show ?case
    by (subst (asm) (2) duration_terms.simps)
      (auto simp: Let_def split: if_splits option.splits prod.splits)
qed

text \<open>A duration the driver reads fits in the 64 bits Go keeps it in.\<close>

lemma parse_duration_range:
  assumes "parse_duration s = Some d" shows "- (2 ^ 63) \<le> d \<and> d < 2 ^ 63"
  using assms duration_terms_bound[of 0 "if s \<noteq> [] \<and> (hd s = CHR ''-'' \<or> hd s = CHR ''+'') then tl s else s"]
  by (auto simp: parse_duration_def Let_def split: if_splits option.splits)

lemmas duration_eval = parse_duration_def duration_terms.simps duration_term_def unit_ns_def
  read_nat_def digit_val_def is_digit_def unit_char_def Let_def

lemma parse_duration_5m: "parse_duration ''5m'' = Some (5 * minute)"
  by (simp add: duration_eval)

lemma parse_duration_90s: "parse_duration ''1m30s'' = Some (90 * second)"
  by (simp add: duration_eval)

lemma parse_duration_half: "parse_duration ''1.5h'' = Some (90 * minute)"
  by (simp add: duration_eval)

lemma parse_duration_negative: "parse_duration ''-2m'' = Some (- 2 * minute)"
  by (simp add: duration_eval)

lemma parse_duration_no_unit: "parse_duration ''5'' = None"
  by (simp add: duration_eval)

end
