(* ===== verification/Attributes.thy ===== *)
theory Attributes
  imports Durations
begin

section \<open>Volume attributes (\<open>attributes.go\<close>)\<close>

text \<open>
  The attributes of a volume as the kubelet hands them to the driver: what is read, what is
  refused, and what every accepted volume satisfies. A Go map of attributes is the list of its
  pairs in the order one iteration visits them, with distinct keys.
\<close>

subsection \<open>Data\<close>

datatype volumeKind = inlineVolume | readOnlyClaim | writeableVolume

datatype offlinePolicy = offlineRefuse | offlineAllowStale

datatype pullMode = pullNever | pullOnDemand | pullTimed

record pullPolicy =
  pull_mode :: pullMode
  pull_every :: duration

record podReference =
  pod_name :: string
  pod_namespace :: string
  pod_uid :: string

definition no_pod :: podReference where
  "no_pod = \<lparr>pod_name = [], pod_namespace = [], pod_uid = []\<rparr>"

record attributes =
  a_url :: string
  a_ref :: string
  a_pull :: pullPolicy
  a_depth :: int
  a_offline :: offlinePolicy
  a_ephemeral :: bool
  a_pod :: podReference
  a_webhookSecret :: string

text \<open>The part of a \<open>NodePublishVolumeRequest\<close> the driver reads.\<close>

record publishRequest =
  req_volume_id :: string
  req_target_path :: string
  req_readonly :: bool
  req_context :: "(string \<times> string) list"
  req_secrets :: "(string \<times> string) list"

definition ephemeralKey :: string where "ephemeralKey = ''csi.storage.k8s.io/ephemeral''"
definition podNameKey :: string where "podNameKey = ''csi.storage.k8s.io/pod.name''"
definition podNamespaceKey :: string where "podNamespaceKey = ''csi.storage.k8s.io/pod.namespace''"
definition podUIDKey :: string where "podUIDKey = ''csi.storage.k8s.io/pod.uid''"
definition serviceAccountKey :: string where
  "serviceAccountKey = ''csi.storage.k8s.io/serviceAccount.name''"

lemmas context_keys = ephemeralKey_def podNameKey_def podNamespaceKey_def podUIDKey_def
  serviceAccountKey_def

definition defaultRef :: string where "defaultRef = ''main''"
definition defaultPull :: duration where "defaultPull = 5 * minute"

subsection \<open>The pull policy\<close>

definition pullEvery :: "duration \<Rightarrow> pullPolicy" where
  "pullEvery interval = \<lparr>pull_mode = pullTimed, pull_every = interval\<rparr>"

definition follows :: "pullPolicy \<Rightarrow> bool" where
  "follows p = (pull_mode p \<noteq> pullNever)"

definition pull_timer :: "pullPolicy \<Rightarrow> duration \<times> bool" where
  "pull_timer p = (pull_every p, pull_mode p = pullTimed)"

definition parsePull :: "string \<Rightarrow> pullPolicy result" where
  "parsePull value =
     (if value = ''never'' then Inr \<lparr>pull_mode = pullNever, pull_every = 0\<rparr>
      else if value = ''on-demand'' then Inr \<lparr>pull_mode = pullOnDemand, pull_every = 0\<rparr>
      else case parse_duration value of
        None \<Rightarrow> Inl (Status InvalidArgument
          (Fmt ''pull: %q is not a duration, on-demand, or never'' [AStr value]))
      | Some pull \<Rightarrow>
          (if pull \<le> 0
           then Inl (Status InvalidArgument (Fmt ''pull: %q is not longer than zero'' [AStr value]))
           else Inr (pullEvery pull)))"

definition parseDepth :: "string \<Rightarrow> int result" where
  "parseDepth value =
     (case atoi value of
        None \<Rightarrow> Inl (Status InvalidArgument
          (Fmt ''depth: %q is not a whole number of commits'' [AStr value]))
      | Some depth \<Rightarrow>
          (if depth < 0
           then Inl (Status InvalidArgument
             (Fmt ''depth: %q is not a whole number of commits'' [AStr value]))
           else Inr depth))"

subsection \<open>The URL check\<close>

definition alnum :: "char \<Rightarrow> bool" where
  "alnum c = (let n = of_char c :: nat in
     (48 \<le> n \<and> n \<le> 57) \<or> (65 \<le> n \<and> n \<le> 90) \<or> (97 \<le> n \<and> n \<le> 122))"

definition helper_char :: "char \<Rightarrow> bool" where
  "helper_char c = (alnum c \<or> c \<in> {CHR ''+'', CHR ''.'', CHR ''-''})"

text \<open>The regular expression \<open>^[A-Za-z0-9][A-Za-z0-9+.\-]*::\<close>.\<close>

definition transportHelper :: "string \<Rightarrow> bool" where
  "transportHelper s =
     (case s of [] \<Rightarrow> False
      | c # cs \<Rightarrow> alnum c \<and> prefix ''::'' (dropWhile helper_char cs))"

definition checkURL :: "string \<Rightarrow> status option" where
  "checkURL url =
     (if prefix ''-'' url
      then Some (Status InvalidArgument (Fmt ''url: %q reads as an option to git'' [AStr url]))
      else if transportHelper url
      then Some (Status InvalidArgument
        (Fmt ''url: %q names a transport helper, and the driver runs none'' [AStr url]))
      else None)"

subsection \<open>Reading the volume context\<close>

text \<open>One turn of the loop over the context.\<close>

definition readAttribute :: "string \<times> string \<Rightarrow> attributes \<Rightarrow> attributes result" where
  "readAttribute kv parsed =
     (let key = fst kv; value = snd kv in
      if key = ''url'' then Inr (parsed\<lparr>a_url := value\<rparr>)
      else if key = ''ref'' then Inr (parsed\<lparr>a_ref := value\<rparr>)
      else if key = ''pull'' then
        (case parsePull value of Inl e \<Rightarrow> Inl e | Inr pull \<Rightarrow> Inr (parsed\<lparr>a_pull := pull\<rparr>))
      else if key = ''depth'' then
        (case parseDepth value of Inl e \<Rightarrow> Inl e | Inr depth \<Rightarrow> Inr (parsed\<lparr>a_depth := depth\<rparr>))
      else if key = ''webhookSecret'' then Inr (parsed\<lparr>a_webhookSecret := value\<rparr>)
      else if key = ''offline'' then
        (if value = ''refuse'' then Inr (parsed\<lparr>a_offline := offlineRefuse\<rparr>)
         else if value = ''allowStale'' then Inr (parsed\<lparr>a_offline := offlineAllowStale\<rparr>)
         else Inl (Status InvalidArgument
           (Fmt ''offline: %q is not refuse or allowStale'' [AStr value])))
      else if key = ephemeralKey then Inr (parsed\<lparr>a_ephemeral := (value = ''true'')\<rparr>)
      else if key = podNameKey then
        Inr (parsed\<lparr>a_pod := (a_pod parsed)\<lparr>pod_name := value\<rparr>\<rparr>)
      else if key = podNamespaceKey then
        Inr (parsed\<lparr>a_pod := (a_pod parsed)\<lparr>pod_namespace := value\<rparr>\<rparr>)
      else if key = podUIDKey then
        Inr (parsed\<lparr>a_pod := (a_pod parsed)\<lparr>pod_uid := value\<rparr>\<rparr>)
      else if key = serviceAccountKey then Inr parsed
      else Inl (Status InvalidArgument (Fmt ''%s: unknown attribute'' [AStr key])))"

definition defaultAttributes :: attributes where
  "defaultAttributes = \<lparr>a_url = [], a_ref = defaultRef, a_pull = pullEvery defaultPull,
     a_depth = 0, a_offline = offlineRefuse, a_ephemeral = False, a_pod = no_pod,
     a_webhookSecret = []\<rparr>"

definition parseVolumeContext :: "(string \<times> string) list \<Rightarrow> attributes result" where
  "parseVolumeContext context =
     (case foldE readAttribute context defaultAttributes of
        Inl e \<Rightarrow> Inl e
      | Inr parsed \<Rightarrow>
          (if a_url parsed = [] then
             Inl (Status InvalidArgument (Plain ''url: an attribute the volume must set''))
           else case checkURL (a_url parsed) of
             Some e \<Rightarrow> Inl e
           | None \<Rightarrow>
               (if a_ref parsed = []
                then Inl (Status InvalidArgument (Plain ''ref: an empty ref names nothing''))
                else Inr parsed)))"

definition parseAttributes :: "publishRequest \<Rightarrow> attributes result" where
  "parseAttributes request =
     (case parseVolumeContext (req_context request) of
        Inl e \<Rightarrow> Inl e
      | Inr parsed \<Rightarrow>
          (if a_ephemeral parsed \<and> \<not> req_readonly request then
             Inl (Status InvalidArgument
               (Plain ''readOnly: an inline volume of this driver has to be read-only''))
           else if a_ephemeral parsed \<and> a_webhookSecret parsed \<noteq> [] then
             Inl (Status InvalidArgument
               (Plain ''webhookSecret: a webhook marks a PersistentVolume, and an inline volume is none''))
           else if a_ephemeral parsed \<and> pull_mode (a_pull parsed) = pullOnDemand then
             Inl (Status InvalidArgument
               (Plain ''pull: on-demand names a demand on a PersistentVolume, and an inline volume has none''))
           else Inr parsed))"

definition readOnlyAttributes :: "string list" where
  "readOnlyAttributes = [''pull'', ''depth'', ''offline'', ''webhookSecret'']"

definition parseStageAttributes ::
    "volumeKind \<Rightarrow> (string \<times> string) list \<Rightarrow> attributes result" where
  "parseStageAttributes kind context =
     (if kind \<noteq> writeableVolume then parseVolumeContext context
      else case List.find (\<lambda>key. key \<in> fst ` set context) readOnlyAttributes of
        Some key \<Rightarrow> Inl (Status InvalidArgument
          (Fmt ''%s: a writeable volume follows its ref at stage alone'' [AStr key]))
      | None \<Rightarrow> parseVolumeContext context)"

subsection \<open>What a reader sets\<close>

text \<open>
  What one pair sets, when the reader accepts it. Each key has one field of its own, so two
  pairs with different keys set different fields.
\<close>

datatype setting = SetURL string | SetRef string | SetPull pullPolicy | SetDepth int
  | SetWebhookSecret string | SetOffline offlinePolicy | SetEphemeral bool
  | SetPodName string | SetPodNamespace string | SetPodUID string | SetNothing

primrec apply_setting :: "setting \<Rightarrow> attributes \<Rightarrow> attributes" where
  "apply_setting (SetURL u) a = a\<lparr>a_url := u\<rparr>"
| "apply_setting (SetRef r) a = a\<lparr>a_ref := r\<rparr>"
| "apply_setting (SetPull p) a = a\<lparr>a_pull := p\<rparr>"
| "apply_setting (SetDepth d) a = a\<lparr>a_depth := d\<rparr>"
| "apply_setting (SetWebhookSecret w) a = a\<lparr>a_webhookSecret := w\<rparr>"
| "apply_setting (SetOffline f) a = a\<lparr>a_offline := f\<rparr>"
| "apply_setting (SetEphemeral e) a = a\<lparr>a_ephemeral := e\<rparr>"
| "apply_setting (SetPodName n) a = a\<lparr>a_pod := (a_pod a)\<lparr>pod_name := n\<rparr>\<rparr>"
| "apply_setting (SetPodNamespace n) a = a\<lparr>a_pod := (a_pod a)\<lparr>pod_namespace := n\<rparr>\<rparr>"
| "apply_setting (SetPodUID u) a = a\<lparr>a_pod := (a_pod a)\<lparr>pod_uid := u\<rparr>\<rparr>"
| "apply_setting SetNothing a = a"

primrec setting_key :: "setting \<Rightarrow> string" where
  "setting_key (SetURL u) = ''url''"
| "setting_key (SetRef r) = ''ref''"
| "setting_key (SetPull p) = ''pull''"
| "setting_key (SetDepth d) = ''depth''"
| "setting_key (SetWebhookSecret w) = ''webhookSecret''"
| "setting_key (SetOffline f) = ''offline''"
| "setting_key (SetEphemeral e) = ephemeralKey"
| "setting_key (SetPodName n) = podNameKey"
| "setting_key (SetPodNamespace n) = podNamespaceKey"
| "setting_key (SetPodUID u) = podUIDKey"
| "setting_key SetNothing = serviceAccountKey"

lemma apply_setting_commutes:
  "setting_key x \<noteq> setting_key y \<Longrightarrow>
   apply_setting x (apply_setting y a) = apply_setting y (apply_setting x a)"
  by (cases x; cases y) simp_all

text \<open>The values the readers of the pull policy and the depth give.\<close>

fun setting_ok :: "setting \<Rightarrow> bool" where
  "setting_ok (SetPull p) = (pull_mode p = pullTimed \<longrightarrow> 0 < pull_every p \<and> pull_every p < 2 ^ 63)"
| "setting_ok (SetDepth d) = (0 \<le> d \<and> d < 2 ^ 63)"
| "setting_ok _ = True"

lemma parsePull_ok: "parsePull v = Inr p \<Longrightarrow> setting_ok (SetPull p)"
  by (auto simp: parsePull_def pullEvery_def dest: parse_duration_range split: if_splits option.splits)

lemma parseDepth_ok: "parseDepth v = Inr d \<Longrightarrow> setting_ok (SetDepth d)"
  by (auto simp: parseDepth_def atoi_def Let_def split: if_splits option.splits)

lemma readAttribute_setting:
  "(\<exists>x. setting_key x = fst kv \<and> setting_ok x \<and> (\<forall>a. readAttribute kv a = Inr (apply_setting x a))) \<or>
   (\<exists>e. \<forall>a. readAttribute kv a = Inl e)"
proof -
  obtain k v where kv: "kv = (k, v)" by (cases kv)
  define good where "good x \<longleftrightarrow> setting_key x = k \<and> setting_ok x \<and>
    (\<forall>a. readAttribute kv a = Inr (apply_setting x a))" for x
  have "(\<exists>x. good x) \<or> (\<exists>e. \<forall>a. readAttribute kv a = Inl e)"
  proof -
    consider "k = ''url''" | "k = ''ref''" | "k = ''pull''" | "k = ''depth''"
      | "k = ''webhookSecret''" | "k = ''offline''" | "k = ephemeralKey" | "k = podNameKey"
      | "k = podNamespaceKey" | "k = podUIDKey" | "k = serviceAccountKey"
      | "k \<notin> {''url'', ''ref'', ''pull'', ''depth'', ''webhookSecret'', ''offline'', ephemeralKey,
          podNameKey, podNamespaceKey, podUIDKey, serviceAccountKey}"
      by fast
    then show ?thesis
    proof cases
      case 1 then have "good (SetURL v)" by (simp add: good_def kv readAttribute_def)
      then show ?thesis by blast
    next
      case 2 then have "good (SetRef v)" by (simp add: good_def kv readAttribute_def)
      then show ?thesis by blast
    next
      case 3
      show ?thesis
      proof (cases "parsePull v")
        case (Inl e)
        with 3 have "\<forall>a. readAttribute kv a = Inl e" by (simp add: kv readAttribute_def)
        then show ?thesis by blast
      next
        case (Inr p)
        with 3 have "good (SetPull p)"
          by (simp add: good_def kv readAttribute_def parsePull_ok del: setting_ok.simps)
        then show ?thesis by blast
      qed
    next
      case 4
      show ?thesis
      proof (cases "parseDepth v")
        case (Inl e)
        with 4 have "\<forall>a. readAttribute kv a = Inl e" by (simp add: kv readAttribute_def)
        then show ?thesis by blast
      next
        case (Inr d)
        with 4 have "good (SetDepth d)"
          by (simp add: good_def kv readAttribute_def parseDepth_ok del: setting_ok.simps)
        then show ?thesis by blast
      qed
    next
      case 5 then have "good (SetWebhookSecret v)" by (simp add: good_def kv readAttribute_def)
      then show ?thesis by blast
    next
      case 6
      then have "v = ''refuse'' \<Longrightarrow> good (SetOffline offlineRefuse)"
        "v = ''allowStale'' \<Longrightarrow> good (SetOffline offlineAllowStale)"
        "v \<noteq> ''refuse'' \<Longrightarrow> v \<noteq> ''allowStale'' \<Longrightarrow> \<exists>e. \<forall>a. readAttribute kv a = Inl e"
        by (simp_all add: good_def kv readAttribute_def)
      then show ?thesis by blast
    next
      case 7 then have "good (SetEphemeral (v = ''true''))"
        by (simp add: good_def kv readAttribute_def context_keys)
      then show ?thesis by blast
    next
      case 8 then have "good (SetPodName v)"
        by (simp add: good_def kv readAttribute_def context_keys)
      then show ?thesis by blast
    next
      case 9 then have "good (SetPodNamespace v)"
        by (simp add: good_def kv readAttribute_def context_keys)
      then show ?thesis by blast
    next
      case 10 then have "good (SetPodUID v)"
        by (simp add: good_def kv readAttribute_def context_keys)
      then show ?thesis by blast
    next
      case 11 then have "good SetNothing"
        by (simp add: good_def kv readAttribute_def context_keys)
      then show ?thesis by blast
    next
      case 12 then have "\<exists>e. \<forall>a. readAttribute kv a = Inl e" by (simp add: kv readAttribute_def)
      then show ?thesis by blast
    qed
  qed
  then show ?thesis by (simp add: good_def kv)
qed

interpretation attribute_reader: setting_reader readAttribute setting_key apply_setting setting_ok
  by unfold_locales (rule readAttribute_setting, rule apply_setting_commutes)

subsection \<open>What an accepted volume satisfies\<close>

lemma helper_char_colon [simp]: "\<not> helper_char CHR '':''"
  by (simp add: helper_char_def alnum_def)

text \<open>The check of the URL finds every text of git's form \<open>transport::address\<close>.\<close>

lemma transportHelper_iff:
  "transportHelper url \<longleftrightarrow>
   (\<exists>c cs address. url = c # cs @ ''::'' @ address \<and> alnum c \<and> list_all helper_char cs)"
proof
  assume "transportHelper url"
  then obtain c cs where url: "url = c # cs" and c: "alnum c" and p: "prefix ''::'' (dropWhile helper_char cs)"
    by (auto simp: transportHelper_def split: list.splits)
  then obtain address where drop: "dropWhile helper_char cs = ''::'' @ address"
    by (auto simp: prefix_def)
  define pre where "pre = takeWhile helper_char cs"
  have "list_all helper_char pre" unfolding pre_def
    by (auto simp: list_all_iff dest: set_takeWhileD)
  moreover have "cs = pre @ ''::'' @ address"
    using takeWhile_dropWhile_id[of helper_char cs] unfolding drop pre_def by (rule sym)
  ultimately show "\<exists>c cs address. url = c # cs @ ''::'' @ address \<and> alnum c \<and> list_all helper_char cs"
    using url c by blast
next
  assume "\<exists>c cs address. url = c # cs @ ''::'' @ address \<and> alnum c \<and> list_all helper_char cs"
  then obtain c cs address where "url = c # cs @ ''::'' @ address" "alnum c" "list_all helper_char cs"
    by blast
  moreover from this(3) have "dropWhile helper_char (cs @ ''::'' @ address) = ''::'' @ address"
    by (induction cs) auto
  ultimately show "transportHelper url" by (simp add: transportHelper_def)
qed

text \<open>The facts about the fields that every accepted pair keeps.\<close>

definition sane :: "attributes \<Rightarrow> bool" where
  "sane a \<longleftrightarrow> 0 \<le> a_depth a \<and> a_depth a < 2 ^ 63 \<and>
     (pull_mode (a_pull a) = pullTimed \<longrightarrow>
        0 < pull_every (a_pull a) \<and> pull_every (a_pull a) < 2 ^ 63)"

lemma sane_default: "sane defaultAttributes"
  by (simp add: sane_def defaultAttributes_def pullEvery_def defaultPull_def)

lemma readAttribute_sane:
  assumes "readAttribute kv a = Inr b" and "sane a" shows "sane b"
proof -
  from assms(1) obtain x where "setting_ok x" "b = apply_setting x a" by (rule attribute_reader.accepted)
  with assms(2) show ?thesis by (cases x) (auto simp: sane_def)
qed

lemma parseVolumeContext_Inr:
  assumes "parseVolumeContext context = Inr a"
  shows "foldE readAttribute context defaultAttributes = Inr a" "a_url a \<noteq> []"
    "checkURL (a_url a) = None" "a_ref a \<noteq> []"
  using assms by (auto simp: parseVolumeContext_def split: sum.splits if_splits option.splits)

text \<open>
  Property C6. A volume whose attributes the driver accepts names a URL that git reads as a
  repository: it is not empty, it is no option, and it names no transport helper. Its ref is not
  empty, its depth is a whole number, and a timed pull waits longer than zero.
\<close>

theorem accepted_volume_is_safe:
  assumes "parseVolumeContext context = Inr a"
  shows "a_url a \<noteq> [] \<and> hd (a_url a) \<noteq> CHR ''-'' \<and>
    \<not> (\<exists>c cs address. a_url a = c # cs @ ''::'' @ address \<and> alnum c \<and> list_all helper_char cs) \<and>
    a_ref a \<noteq> [] \<and> 0 \<le> a_depth a \<and>
    (pull_mode (a_pull a) = pullTimed \<longrightarrow> 0 < pull_every (a_pull a))"
proof -
  note parsed = parseVolumeContext_Inr[OF assms]
  from parsed(3) have "\<not> prefix ''-'' (a_url a)" "\<not> transportHelper (a_url a)"
    by (auto simp: checkURL_def split: if_splits)
  moreover from this(1) parsed(2) have "hd (a_url a) \<noteq> CHR ''-''" by (cases "a_url a") auto
  moreover have "sane a"
    by (rule foldE_invariant[where P = sane, OF parsed(1) sane_default]) (rule readAttribute_sane)
  ultimately show ?thesis using parsed(2,4) by (auto simp: transportHelper_iff sane_def)
qed

definition sample_context :: "(string \<times> string) list" where
  "sample_context = [(''url'', ''https://code.example.com/home/notes.git''), (''pull'', ''5m''),
     (''depth'', ''1'')]"

lemma sample_context_accepted:
  "parseVolumeContext sample_context =
   Inr (defaultAttributes\<lparr>a_url := ''https://code.example.com/home/notes.git'', a_depth := 1\<rparr>)"
  by (simp add: parseVolumeContext_def sample_context_def readAttribute_def parsePull_def
      parseDepth_def atoi_def checkURL_def transportHelper_def alnum_def helper_char_def
      defaultAttributes_def defaultRef_def parse_duration_5m pullEvery_def defaultPull_def
      read_nat_def digit_val_def is_digit_def Let_def)

theorem accepted_volume_is_safe_witness:
  "a_url (defaultAttributes\<lparr>a_url := ''https://code.example.com/home/notes.git'', a_depth := 1\<rparr>) \<noteq> []"
  using accepted_volume_is_safe[OF sample_context_accepted] by (rule conjunct1)

text \<open>
  Go visits the pairs of the context in any order. Whether the driver accepts a
  volume, and what it reads, does not depend on that order: two orders of one context both give
  the same attributes, or both refuse.
\<close>

theorem context_order_is_irrelevant:
  assumes "mset context = mset context'" and "distinct (map fst context)"
  shows "success (parseVolumeContext context) = success (parseVolumeContext context')"
  using attribute_reader.order_irrelevant_cases[OF assms, of defaultAttributes]
  by (cases "foldE readAttribute context defaultAttributes") (auto simp: parseVolumeContext_def)

theorem context_order_is_irrelevant_witness:
  "success (parseVolumeContext (rev sample_context)) =
   Some (defaultAttributes\<lparr>a_url := ''https://code.example.com/home/notes.git'', a_depth := 1\<rparr>)"
proof -
  have "distinct (map fst sample_context)" by (simp add: sample_context_def)
  from context_order_is_irrelevant[OF _ this, of "rev sample_context"]
  show ?thesis by (simp add: sample_context_accepted)
qed

text \<open>
  An inline volume the driver accepts is read-only, names no webhook Secret, and
  does not wait for demands: a demand is an annotation on a PersistentVolume, and an inline
  volume has none.
\<close>

theorem accepted_inline_volume:
  assumes "parseAttributes request = Inr a" and "a_ephemeral a"
  shows "req_readonly request \<and> a_webhookSecret a = [] \<and>
    pull_mode (a_pull a) \<noteq> pullOnDemand \<and> parseVolumeContext (req_context request) = Inr a"
  using assms by (auto simp: parseAttributes_def split: sum.splits if_splits)

definition sample_inline :: publishRequest where
  "sample_inline = \<lparr>req_volume_id = ''csi-1'', req_target_path = ''/pods/1'', req_readonly = True,
     req_context = [(ephemeralKey, ''true''), (''url'', ''https://code.example.com/a.git''),
       (''pull'', ''never'')], req_secrets = []\<rparr>"

lemma sample_inline_accepted:
  "parseAttributes sample_inline =
   Inr (defaultAttributes\<lparr>a_url := ''https://code.example.com/a.git'', a_ephemeral := True,
     a_pull := \<lparr>pull_mode = pullNever, pull_every = 0\<rparr>\<rparr>)"
  by (simp add: parseAttributes_def parseVolumeContext_def sample_inline_def readAttribute_def
      parsePull_def checkURL_def transportHelper_def alnum_def helper_char_def
      defaultAttributes_def defaultRef_def context_keys Let_def)

theorem accepted_inline_volume_witness:
  "req_readonly sample_inline"
  using accepted_inline_volume[OF sample_inline_accepted] by simp

lemma read_keeps_defaults:
  assumes "readAttribute kv a = Inr b" and "fst kv \<notin> set readOnlyAttributes"
  shows "a_pull b = a_pull a \<and> a_depth b = a_depth a \<and> a_offline b = a_offline a \<and>
    a_webhookSecret b = a_webhookSecret a"
proof -
  from assms(1) obtain x where "setting_key x = fst kv" "b = apply_setting x a"
    by (rule attribute_reader.accepted)
  with assms(2) show ?thesis by (cases x) (auto simp: readOnlyAttributes_def)
qed

text \<open>
  A writeable volume the driver stages follows its ref at stage alone: what a
  read-only volume sets with \<open>pull\<close>, \<open>depth\<close>, \<open>offline\<close>, and \<open>webhookSecret\<close> keeps its default.
\<close>

theorem staged_writeable_volume_keeps_defaults:
  assumes "parseStageAttributes writeableVolume context = Inr a"
  shows "a_pull a = pullEvery defaultPull \<and> a_depth a = 0 \<and> a_offline a = offlineRefuse \<and>
    a_webhookSecret a = []"
proof -
  define kept where "kept b \<longleftrightarrow> a_pull b = pullEvery defaultPull \<and> a_depth b = 0 \<and>
    a_offline b = offlineRefuse \<and> a_webhookSecret b = []" for b :: attributes
  from assms have none: "List.find (\<lambda>key. key \<in> fst ` set context) readOnlyAttributes = None"
    and parsed: "parseVolumeContext context = Inr a"
    by (auto simp: parseStageAttributes_def split: option.splits)
  from none have keys: "fst kv \<notin> set readOnlyAttributes" if "kv \<in> set context" for kv
    using that by (auto simp: find_None_iff)
  have "kept a"
  proof (rule foldE_invariant[where P = kept, OF parseVolumeContext_Inr(1)[OF parsed]])
    show "kept defaultAttributes" by (simp add: kept_def defaultAttributes_def)
    fix kv b b' assume "kv \<in> set context" "kept b" "readAttribute kv b = Inr b'"
    with read_keeps_defaults[OF _ keys] show "kept b'" by (simp add: kept_def)
  qed
  then show ?thesis by (simp add: kept_def)
qed

theorem staged_writeable_volume_keeps_defaults_witness:
  "\<exists>a. parseStageAttributes writeableVolume [(''url'', ''git@code.example.com:home/ha.git'')] = Inr a
     \<and> a_offline a = offlineRefuse"
proof -
  have "parseStageAttributes writeableVolume [(''url'', ''git@code.example.com:home/ha.git'')] =
      Inr (defaultAttributes\<lparr>a_url := ''git@code.example.com:home/ha.git''\<rparr>)"
    by (simp add: parseStageAttributes_def readOnlyAttributes_def parseVolumeContext_def
        readAttribute_def checkURL_def transportHelper_def alnum_def helper_char_def
        defaultAttributes_def defaultRef_def Let_def)
  from staged_writeable_volume_keeps_defaults[OF this] this show ?thesis by blast
qed

end
