(* ===== verification/Policy.thy ===== *)
theory Policy
  imports Durations
begin

section \<open>The policy of a VolumeAttributesClass (\<open>policy.go\<close>)\<close>

text \<open>
  A class's parameters become the rules an armed volume commits and pushes under. The reader of
  Kubernetes quantities (\<open>resource.ParseQuantity\<close> and its \<open>Value\<close>) is not part of the repository:
  it is the parameter \<open>quantity\<close>, which gives the value a text has, if it is a quantity. A Go map
  of parameters is the list of its pairs in any order, with distinct keys.
\<close>

subsection \<open>Data\<close>

definition quiesceParameter :: string where "quiesceParameter = ''push.quiesce''"
definition maxLatencyParameter :: string where "maxLatencyParameter = ''push.maxLatency''"
definition maxFileSizeParameter :: string where "maxFileSizeParameter = ''commit.maxFileSize''"
definition authorParameter :: string where "authorParameter = ''commit.author''"
definition ignoreParameter :: string where "ignoreParameter = ''ignore''"
definition metadataParameter :: string where "metadataParameter = ''metadata''"

lemmas parameter_names = quiesceParameter_def maxLatencyParameter_def maxFileSizeParameter_def
  authorParameter_def ignoreParameter_def metadataParameter_def

definition shortestQuiesce :: duration where "shortestQuiesce = 5 * second"
definition defaultQuiesce :: duration where "defaultQuiesce = 30 * second"
definition defaultMaxLatency :: duration where "defaultMaxLatency = 5 * minute"
definition defaultMaxFileSize :: int where "defaultMaxFileSize = 2 ^ 20"
definition defaultAuthorName :: string where "defaultAuthorName = ''git-csi-driver''"
definition defaultAuthorEmail :: string where "defaultAuthorEmail = ''git-csi-driver@liken.sh''"

lemmas policy_constants = shortestQuiesce_def defaultQuiesce_def defaultMaxLatency_def
  defaultMaxFileSize_def

record policy =
  p_quiesce :: duration
  p_maxLatency :: duration
  p_maxFileSize :: int
  p_authorName :: string
  p_authorEmail :: string
  p_ignore :: "string list"
  p_metadata :: bool

definition defaultPolicy :: policy where
  "defaultPolicy = \<lparr>p_quiesce = defaultQuiesce, p_maxLatency = defaultMaxLatency,
     p_maxFileSize = defaultMaxFileSize, p_authorName = defaultAuthorName,
     p_authorEmail = defaultAuthorEmail, p_ignore = [], p_metadata = True\<rparr>"

subsection \<open>The values\<close>

definition parseQuiesce :: "string \<Rightarrow> duration result" where
  "parseQuiesce value =
     (case parse_duration value of
        None \<Rightarrow> Inl (Status InvalidArgument
          (Fmt ''%s: %q is not a duration'' [AStr quiesceParameter, AStr value]))
      | Some quiesce \<Rightarrow>
          (if quiesce < shortestQuiesce
           then Inl (Status InvalidArgument (Fmt ''%s: %s is shorter than %s''
             [AStr quiesceParameter, ADur quiesce, ADur shortestQuiesce]))
           else Inr quiesce))"

definition neverLatency :: string where "neverLatency = ''never''"

definition parseMaxLatency :: "string \<Rightarrow> duration result" where
  "parseMaxLatency value =
     (if value = neverLatency then Inr 0
      else case parse_duration value of
        None \<Rightarrow> Inl (Status InvalidArgument (Fmt ''%s: %q is not a duration or %s''
          [AStr maxLatencyParameter, AStr value, AStr neverLatency]))
      | Some latency \<Rightarrow> Inr latency)"

definition parseMaxFileSize :: "(string \<Rightarrow> int option) \<Rightarrow> string \<Rightarrow> int result" where
  "parseMaxFileSize quantity value =
     (case quantity value of
        None \<Rightarrow> Inl (Status InvalidArgument
          (Fmt ''%s: %q is not a quantity'' [AStr maxFileSizeParameter, AStr value]))
      | Some bytes \<Rightarrow>
          (if bytes < 0
           then Inl (Status InvalidArgument
             (Fmt ''%s: %q is smaller than zero'' [AStr maxFileSizeParameter, AStr value]))
           else Inr bytes))"

text \<open>
  The regular expression \<open>^(\S.*?)\s+<([^<>\s]+)>$\<close>. The second group holds no \<open><\<close> and no \<open>>\<close>, so
  its \<open><\<close> is the last one of the text. The first group is the shortest that leaves white space
  alone before that \<open><\<close>. The dot takes every character but a newline.
\<close>

definition re_space :: "char \<Rightarrow> bool" where
  "re_space c = (c \<in> {CHR 0x09, CHR 0x0A, CHR 0x0C, CHR 0x0D, CHR 0x20})"

definition authorForm :: "string \<Rightarrow> (string \<times> string) option" where
  "authorForm s =
     (if s = [] \<or> last s \<noteq> CHR ''>'' \<or> CHR ''<'' \<notin> set s then None
      else let body = rev (butlast s);
               email = rev (takeWhile (\<lambda>c. c \<noteq> CHR ''<'') body);
               front = rev (tl (dropWhile (\<lambda>c. c \<noteq> CHR ''<'') body));
               name = trim_right re_space front
           in if email = [] \<or> CHR ''>'' \<in> set email \<or> (\<exists>c\<in>set email. re_space c)
                 \<or> name = [] \<or> name = front \<or> re_space (hd name) \<or> CHR 0x0A \<in> set name
              then None else Some (name, email))"

definition parseAuthor :: "string \<Rightarrow> (string \<times> string) result" where
  "parseAuthor value =
     (case authorForm value of
        None \<Rightarrow> Inl (Status InvalidArgument
          (Fmt ''%s: %q is not Name <email>'' [AStr authorParameter, AStr value]))
      | Some found \<Rightarrow> Inr found)"

definition parseIgnore :: "string \<Rightarrow> string list" where
  "parseIgnore value = filter (\<lambda>p. p \<noteq> []) (map trim_space (split (CHR '','') value))"

definition parseMetadataFlag :: "string \<Rightarrow> bool result" where
  "parseMetadataFlag value =
     (if value = ''true'' then Inr True
      else if value = ''false'' then Inr False
      else Inl (Status InvalidArgument
        (Fmt ''%s: %q is not true or false'' [AStr metadataParameter, AStr value])))"

subsection \<open>Reading the parameters\<close>

text \<open>One turn of the loop over the parameters.\<close>

definition readParameter ::
    "(string \<Rightarrow> int option) \<Rightarrow> string \<times> string \<Rightarrow> policy \<Rightarrow> policy result" where
  "readParameter quantity kv resolved =
     (let name = fst kv; value = snd kv in
      if name = quiesceParameter then
        (case parseQuiesce value of Inl e \<Rightarrow> Inl e | Inr q \<Rightarrow> Inr (resolved\<lparr>p_quiesce := q\<rparr>))
      else if name = maxLatencyParameter then
        (case parseMaxLatency value of Inl e \<Rightarrow> Inl e | Inr l \<Rightarrow> Inr (resolved\<lparr>p_maxLatency := l\<rparr>))
      else if name = maxFileSizeParameter then
        (case parseMaxFileSize quantity value of
           Inl e \<Rightarrow> Inl e | Inr bytes \<Rightarrow> Inr (resolved\<lparr>p_maxFileSize := bytes\<rparr>))
      else if name = authorParameter then
        (case parseAuthor value of
           Inl e \<Rightarrow> Inl e
         | Inr (name, email) \<Rightarrow> Inr (resolved\<lparr>p_authorName := name, p_authorEmail := email\<rparr>))
      else if name = ignoreParameter then Inr (resolved\<lparr>p_ignore := parseIgnore value\<rparr>)
      else if name = metadataParameter then
        (case parseMetadataFlag value of
           Inl e \<Rightarrow> Inl e | Inr flag \<Rightarrow> Inr (resolved\<lparr>p_metadata := flag\<rparr>))
      else Inl (Status InvalidArgument (Fmt ''%s: unknown parameter'' [AStr name])))"

text \<open>
  The names are sorted before they are read, so the pairs are read in the order of their names.
  The check that needs both durations comes last.
\<close>

definition parsePolicy ::
    "(string \<Rightarrow> int option) \<Rightarrow> (string \<times> string) list \<Rightarrow> policy result" where
  "parsePolicy quantity parameters =
     (let latencySet = (maxLatencyParameter \<in> fst ` set parameters);
          names = sort (map fst parameters);
          ordered = map (\<lambda>name. (name, the (map_of parameters name))) names
      in case foldE (readParameter quantity) ordered defaultPolicy of
           Inl e \<Rightarrow> Inl e
         | Inr resolved \<Rightarrow>
             (let resolved = (if \<not> latencySet \<and> p_maxLatency resolved < p_quiesce resolved
                              then resolved\<lparr>p_maxLatency := p_quiesce resolved\<rparr> else resolved)
              in if p_maxLatency resolved \<noteq> 0 \<and> p_maxLatency resolved < p_quiesce resolved
                 then Inl (Status InvalidArgument (Fmt ''%s: %s is shorter than %s %s''
                   [AStr maxLatencyParameter, ADur (p_maxLatency resolved),
                    AStr quiesceParameter, ADur (p_quiesce resolved)]))
                 else Inr resolved))"

text \<open>The environment git reads the author and the committer from (\<open>(*policy).author\<close>).\<close>

definition author :: "policy \<Rightarrow> string list" where
  "author p =
     [''GIT_AUTHOR_NAME='' @ p_authorName p,
      ''GIT_AUTHOR_EMAIL='' @ p_authorEmail p,
      ''GIT_COMMITTER_NAME='' @ p_authorName p,
      ''GIT_COMMITTER_EMAIL='' @ p_authorEmail p]"

subsection \<open>Lemmas on the values\<close>

lemma trim_right_append: "\<exists>ws. s = trim_right p s @ ws \<and> list_all p ws"
proof
  have "s = rev (dropWhile p (rev s)) @ rev (takeWhile p (rev s))"
    by (metis rev_append rev_rev_ident takeWhile_dropWhile_id)
  then show "s = trim_right p s @ rev (takeWhile p (rev s)) \<and> list_all p (rev (takeWhile p (rev s)))"
    by (auto simp: trim_right_def list_all_iff dest: set_takeWhileD)
qed

lemma trim_right_last: "trim_right p s \<noteq> [] \<Longrightarrow> \<not> p (last (trim_right p s))"
  by (simp add: trim_right_def last_rev hd_dropWhile)

lemma trim_right_all: "list_all p ws \<Longrightarrow> s \<noteq> [] \<Longrightarrow> \<not> p (last s) \<Longrightarrow> trim_right p (s @ ws) = s"
proof -
  assume ws: "list_all p ws" and s: "s \<noteq> []" "\<not> p (last s)"
  have "dropWhile p (rev ws @ rev s) = dropWhile p (rev s)"
    using ws by (intro dropWhile_append2) (auto simp: list_all_iff)
  also have "\<dots> = rev s" using s by (cases s rule: rev_cases) auto
  finally show ?thesis by (simp add: trim_right_def)
qed

lemma authorForm_Some:
  assumes "authorForm s = Some (name, email)"
  obtains ws where "s = name @ ws @ ''<'' @ email @ ''>''" "list_all re_space ws" "ws \<noteq> []"
    "name \<noteq> []" "\<not> re_space (hd name)" "\<not> re_space (last name)" "CHR 0x0A \<notin> set name" "email \<noteq> []"
    "list_all (\<lambda>c. c \<noteq> CHR ''<'' \<and> c \<noteq> CHR ''>'' \<and> \<not> re_space c) email"
proof -
  define body where "body = rev (butlast s)"
  define front where "front = rev (tl (dropWhile (\<lambda>c. c \<noteq> CHR ''<'') body))"
  from assms have s: "s \<noteq> []" "last s = CHR ''>''" "CHR ''<'' \<in> set s"
    and email: "email = rev (takeWhile (\<lambda>c. c \<noteq> CHR ''<'') body)" "email \<noteq> []"
      "CHR ''>'' \<notin> set email" "\<forall>c\<in>set email. \<not> re_space c"
    and name: "name = trim_right re_space front" "name \<noteq> []" "name \<noteq> front"
      "\<not> re_space (hd name)" "CHR 0x0A \<notin> set name"
    by (auto simp: authorForm_def Let_def body_def front_def split: if_splits)
  from s have "CHR ''<'' \<in> set body"
    by (cases s rule: rev_cases) (auto simp: body_def)
  then obtain as bs where body: "body = as @ CHR ''<'' # bs" "CHR ''<'' \<notin> set as"
    by (blast dest: split_list_first)
  then have "takeWhile (\<lambda>c. c \<noteq> CHR ''<'') body = as" "dropWhile (\<lambda>c. c \<noteq> CHR ''<'') body = CHR ''<'' # bs"
    by (auto simp: takeWhile_append dropWhile_append)
  with body have "body = rev email @ CHR ''<'' # rev front" and lt: "CHR ''<'' \<notin> set email"
    by (simp_all add: email(1) front_def)
  then have "rev body = front @ CHR ''<'' # email" by simp
  then have "s = front @ ''<'' @ email @ ''>''"
    using s(1,2) append_butlast_last_id[of s] by (simp add: body_def)
  moreover obtain ws where ws: "front = name @ ws" "list_all re_space ws"
    using trim_right_append[of front re_space] name(1) by auto
  moreover have "list_all (\<lambda>c. c \<noteq> CHR ''<'' \<and> c \<noteq> CHR ''>'' \<and> \<not> re_space c) email"
    using email(3,4) lt by (auto simp: list_all_iff)
  moreover have "\<not> re_space (last name)" using name(1,2) by (simp add: trim_right_last)
  moreover have "ws \<noteq> []" using ws(1) name(3) by auto
  ultimately show ?thesis using that[of ws] name(2,4,5) email(2) by simp
qed

lemma authorForm_complete:
  assumes name: "name \<noteq> []" "\<not> re_space (hd name)" "\<not> re_space (last name)" "CHR 0x0A \<notin> set name"
    and ws: "list_all re_space ws" "ws \<noteq> []"
    and email: "email \<noteq> []" "list_all (\<lambda>c. c \<noteq> CHR ''<'' \<and> c \<noteq> CHR ''>'' \<and> \<not> re_space c) email"
  shows "authorForm (name @ ws @ ''<'' @ email @ ''>'') = Some (name, email)"
proof -
  have lt: "CHR ''<'' \<notin> set email" and gt: "CHR ''>'' \<notin> set email" and sp: "\<forall>c\<in>set email. \<not> re_space c"
    using email(2) by (auto simp: list_all_iff)
  have body: "rev (butlast (name @ ws @ ''<'' @ email @ ''>'')) = rev email @ CHR ''<'' # rev ws @ rev name"
    by (simp add: butlast_append)
  have tw: "takeWhile (\<lambda>c. c \<noteq> CHR ''<'') (rev email @ CHR ''<'' # rev ws @ rev name) = rev email"
    and dw: "dropWhile (\<lambda>c. c \<noteq> CHR ''<'') (rev email @ CHR ''<'' # rev ws @ rev name) =
      CHR ''<'' # rev ws @ rev name"
    using lt by (auto simp: takeWhile_append dropWhile_append)
  have "trim_right re_space (name @ ws) = name" using ws(1) name(1,3) by (rule trim_right_all)
  then show ?thesis
    unfolding authorForm_def body Let_def tw dw using name ws(2) email(1) gt sp by simp
qed

text \<open>Two parameters with different names set different fields.\<close>

datatype rule_setting = SetQuiesce duration | SetMaxLatency duration | SetMaxFileSize int
  | SetAuthor string string | SetIgnore "string list" | SetMetadata bool

primrec apply_rule :: "rule_setting \<Rightarrow> policy \<Rightarrow> policy" where
  "apply_rule (SetQuiesce q) p = p\<lparr>p_quiesce := q\<rparr>"
| "apply_rule (SetMaxLatency l) p = p\<lparr>p_maxLatency := l\<rparr>"
| "apply_rule (SetMaxFileSize b) p = p\<lparr>p_maxFileSize := b\<rparr>"
| "apply_rule (SetAuthor n e) p = p\<lparr>p_authorName := n, p_authorEmail := e\<rparr>"
| "apply_rule (SetIgnore i) p = p\<lparr>p_ignore := i\<rparr>"
| "apply_rule (SetMetadata f) p = p\<lparr>p_metadata := f\<rparr>"

primrec rule_name :: "rule_setting \<Rightarrow> string" where
  "rule_name (SetQuiesce q) = quiesceParameter"
| "rule_name (SetMaxLatency l) = maxLatencyParameter"
| "rule_name (SetMaxFileSize b) = maxFileSizeParameter"
| "rule_name (SetAuthor n e) = authorParameter"
| "rule_name (SetIgnore i) = ignoreParameter"
| "rule_name (SetMetadata f) = metadataParameter"

text \<open>What the readers of the values guarantee.\<close>

definition author_ok :: "string \<Rightarrow> string \<Rightarrow> bool" where
  "author_ok n e \<longleftrightarrow> n \<noteq> [] \<and> e \<noteq> [] \<and> CHR 0x0A \<notin> set n \<and> CHR 0x0A \<notin> set e"

fun rule_ok :: "rule_setting \<Rightarrow> bool" where
  "rule_ok (SetQuiesce q) = (shortestQuiesce \<le> q)"
| "rule_ok (SetMaxFileSize b) = (0 \<le> b)"
| "rule_ok (SetAuthor n e) = author_ok n e"
| "rule_ok _ = True"

lemma parseQuiesce_ok: "parseQuiesce v = Inr q \<Longrightarrow> shortestQuiesce \<le> q"
  by (auto simp: parseQuiesce_def split: option.splits if_splits)

lemma parseMaxFileSize_ok: "parseMaxFileSize quantity v = Inr b \<Longrightarrow> 0 \<le> b"
  by (auto simp: parseMaxFileSize_def split: option.splits if_splits)

lemma parseAuthor_ok:
  assumes "parseAuthor v = Inr (n, e)" shows "author_ok n e"
proof -
  from assms have "authorForm v = Some (n, e)" by (auto simp: parseAuthor_def split: option.splits)
  then show ?thesis
    by (rule authorForm_Some) (auto simp: author_ok_def list_all_iff re_space_def)
qed

lemma readParameter_rule:
  "(\<exists>x. rule_name x = fst kv \<and> rule_ok x \<and> (\<forall>p. readParameter quantity kv p = Inr (apply_rule x p))) \<or>
   (\<exists>e. \<forall>p. readParameter quantity kv p = Inl e)"
proof -
  obtain k v where kv: "kv = (k, v)" by (cases kv)
  define good where "good x \<longleftrightarrow> rule_name x = k \<and> rule_ok x \<and>
    (\<forall>p. readParameter quantity kv p = Inr (apply_rule x p))" for x
  note unfolds = good_def kv readParameter_def parameter_names
  have "(\<exists>x. good x) \<or> (\<exists>e. \<forall>p. readParameter quantity kv p = Inl e)"
  proof -
    consider "k = quiesceParameter" | "k = maxLatencyParameter" | "k = maxFileSizeParameter"
      | "k = authorParameter" | "k = ignoreParameter" | "k = metadataParameter"
      | "k \<notin> {quiesceParameter, maxLatencyParameter, maxFileSizeParameter, authorParameter,
          ignoreParameter, metadataParameter}"
      by fast
    then show ?thesis
    proof cases
      case 1
      show ?thesis
      proof (cases "parseQuiesce v")
        case (Inl e)
        with 1 have "\<forall>p. readParameter quantity kv p = Inl e" by (simp add: unfolds)
        then show ?thesis by blast
      next
        case (Inr q)
        with 1 have "good (SetQuiesce q)" by (simp add: unfolds parseQuiesce_ok)
        then show ?thesis by blast
      qed
    next
      case 2
      show ?thesis
      proof (cases "parseMaxLatency v")
        case (Inl e)
        with 2 have "\<forall>p. readParameter quantity kv p = Inl e" by (simp add: unfolds)
        then show ?thesis by blast
      next
        case (Inr q)
        with 2 have "good (SetMaxLatency q)" by (simp add: unfolds)
        then show ?thesis by blast
      qed
    next
      case 3
      show ?thesis
      proof (cases "parseMaxFileSize quantity v")
        case (Inl e)
        with 3 have "\<forall>p. readParameter quantity kv p = Inl e" by (simp add: unfolds)
        then show ?thesis by blast
      next
        case (Inr b)
        with 3 have "good (SetMaxFileSize b)" by (simp add: unfolds parseMaxFileSize_ok)
        then show ?thesis by blast
      qed
    next
      case 4
      show ?thesis
      proof (cases "parseAuthor v")
        case (Inl e)
        with 4 have "\<forall>p. readParameter quantity kv p = Inl e" by (simp add: unfolds)
        then show ?thesis by blast
      next
        case (Inr ne)
        obtain n e where ne: "ne = (n, e)" by (cases ne)
        with 4 Inr have "good (SetAuthor n e)" by (simp add: unfolds parseAuthor_ok)
        then show ?thesis by blast
      qed
    next
      case 5 then have "good (SetIgnore (parseIgnore v))" by (simp add: unfolds)
      then show ?thesis by blast
    next
      case 6
      show ?thesis
      proof (cases "parseMetadataFlag v")
        case (Inl e)
        with 6 have "\<forall>p. readParameter quantity kv p = Inl e" by (simp add: unfolds)
        then show ?thesis by blast
      next
        case (Inr f)
        with 6 have "good (SetMetadata f)" by (simp add: unfolds)
        then show ?thesis by blast
      qed
    next
      case 7
      then have "\<exists>e. \<forall>p. readParameter quantity kv p = Inl e" by (simp add: kv readParameter_def)
      then show ?thesis by blast
    qed
  qed
  then show ?thesis by (simp add: good_def kv)
qed

lemma apply_rule_commutes:
  "rule_name x \<noteq> rule_name y \<Longrightarrow> apply_rule x (apply_rule y p) = apply_rule y (apply_rule x p)"
  by (cases x; cases y) simp_all

interpretation parameter_reader:
  setting_reader "readParameter quantity" rule_name apply_rule rule_ok for quantity
  by unfold_locales (rule readParameter_rule, rule apply_rule_commutes)

subsection \<open>What an accepted class satisfies\<close>

definition rules_ok :: "policy \<Rightarrow> bool" where
  "rules_ok p \<longleftrightarrow> shortestQuiesce \<le> p_quiesce p \<and> 0 \<le> p_maxFileSize p \<and>
     author_ok (p_authorName p) (p_authorEmail p)"

lemma rules_ok_default: "rules_ok defaultPolicy"
  by (simp add: rules_ok_def defaultPolicy_def policy_constants author_ok_def
      defaultAuthorName_def defaultAuthorEmail_def)

lemma readParameter_rules_ok:
  assumes "readParameter quantity kv p = Inr p'" and "rules_ok p" shows "rules_ok p'"
proof -
  from assms(1) obtain x where "rule_ok x" "p' = apply_rule x p"
    by (rule parameter_reader.accepted)
  with assms(2) show ?thesis by (cases x) (auto simp: rules_ok_def)
qed

lemma parsePolicy_Inr:
  assumes "parsePolicy quantity parameters = Inr p"
  obtains r where
    "foldE (readParameter quantity)
       (map (\<lambda>name. (name, the (map_of parameters name))) (sort (map fst parameters))) defaultPolicy = Inr r"
    "p = r \<or> p = r\<lparr>p_maxLatency := p_quiesce r\<rparr>"
    "p_maxLatency p = 0 \<or> p_quiesce p \<le> p_maxLatency p"
  using assms that by (auto simp: parsePolicy_def Let_def split: sum.splits if_splits)

text \<open>
  Property C31. A class the driver accepts agrees with itself: the quiesce has its floor, a push
  is never forced before the tree has rested (the maximum latency is off or not shorter than the
  quiesce), the size guard is not negative, and the author git commits under has a name and an
  address, each on one line.
\<close>

theorem accepted_policy_is_consistent:
  assumes "parsePolicy quantity parameters = Inr p"
  shows "shortestQuiesce \<le> p_quiesce p \<and>
    (p_maxLatency p = 0 \<or> p_quiesce p \<le> p_maxLatency p) \<and> 0 \<le> p_maxFileSize p \<and>
    p_authorName p \<noteq> [] \<and> p_authorEmail p \<noteq> [] \<and> (\<forall>line\<in>set (author p). CHR 0x0A \<notin> set line)"
  using assms
proof (rule parsePolicy_Inr)
  fix r
  assume fold: "foldE (readParameter quantity)
      (map (\<lambda>name. (name, the (map_of parameters name))) (sort (map fst parameters))) defaultPolicy = Inr r"
    and p: "p = r \<or> p = r\<lparr>p_maxLatency := p_quiesce r\<rparr>"
    and latency: "p_maxLatency p = 0 \<or> p_quiesce p \<le> p_maxLatency p"
  have "rules_ok r"
    by (rule foldE_invariant[where P = rules_ok, OF fold rules_ok_default])
      (rule readParameter_rules_ok)
  with p have "rules_ok p" by (auto simp: rules_ok_def)
  with latency show ?thesis by (auto simp: rules_ok_def author_ok_def author_def)
qed

definition sample_class :: "(string \<times> string) list" where
  "sample_class = [(''push.quiesce'', ''10m''), (''commit.author'', ''Home Assistant <ha@home.example>''),
     (''ignore'', ''*.log, ,.storage/'')]"

lemma parse_duration_10m: "parse_duration ''10m'' = Some (10 * minute)"
  by (simp add: duration_eval)

lemma authorForm_sample:
  "authorForm ''Home Assistant <ha@home.example>'' = Some (''Home Assistant'', ''ha@home.example'')"
  by (simp add: authorForm_def trim_right_def re_space_def Let_def)

lemma parseIgnore_sample: "parseIgnore ''*.log, ,.storage/'' = [''*.log'', ''.storage/'']"
  by code_simp

lemma sample_class_accepted:
  "parsePolicy quantity sample_class = Inr (defaultPolicy\<lparr>p_quiesce := 10 * minute,
     p_maxLatency := 10 * minute, p_authorName := ''Home Assistant'',
     p_authorEmail := ''ha@home.example'', p_ignore := [''*.log'', ''.storage/'']\<rparr>)"
  by (simp add: parsePolicy_def sample_class_def parameter_names readParameter_def parseQuiesce_def
      parse_duration_10m parseAuthor_def authorForm_sample parseIgnore_sample defaultPolicy_def policy_constants Let_def less_char_def
      less_eq_char_def)

theorem accepted_policy_is_consistent_witness:
  "shortestQuiesce \<le> p_quiesce (defaultPolicy\<lparr>p_quiesce := 10 * minute,
     p_maxLatency := 10 * minute, p_authorName := ''Home Assistant'',
     p_authorEmail := ''ha@home.example'', p_ignore := [''*.log'', ''.storage/'']\<rparr>)"
  using accepted_policy_is_consistent[OF sample_class_accepted] by blast

text \<open>
  The parameters are read in the order of their names, so a pass over a class gives
  one answer whatever order Go visits the map in: the same rules, or the same refusal.
\<close>

theorem parameter_order_is_irrelevant:
  assumes "mset parameters = mset parameters'" and "distinct (map fst parameters)"
  shows "parsePolicy quantity parameters = parsePolicy quantity parameters'"
proof -
  have "mset (map fst parameters) = mset (map fst parameters')"
    using assms(1) by (metis mset_map)
  then have names: "sort (map fst parameters) = sort (map fst parameters')"
    by (metis properties_for_sort mset_sort sorted_sort)
  have "distinct (map fst parameters')"
    using \<open>mset (map fst parameters) = mset (map fst parameters')\<close> assms(2)
    by (metis mset_eq_imp_distinct_iff)
  then have "map_of parameters = map_of parameters'"
    using assms by (intro map_of_inject_set[THEN iffD2]) (auto dest: mset_eq_setD)
  moreover have "fst ` set parameters = fst ` set parameters'"
    using assms(1) by (metis mset_eq_setD)
  ultimately show ?thesis by (simp add: parsePolicy_def names)
qed

theorem parameter_order_is_irrelevant_witness:
  "parsePolicy (\<lambda>q. Some 5) (rev sample_class) = parsePolicy (\<lambda>q. Some 5) sample_class"
proof (rule parameter_order_is_irrelevant)
  show "mset (rev sample_class) = mset sample_class" by simp
  show "distinct (map fst (rev sample_class))" by (simp add: sample_class_def)
qed

text \<open>
  The reader of \<open>commit.author\<close> takes exactly the texts \<open>Name <email>\<close>: a name that
  starts and ends with a character that is not white space and has no newline, white space, and an
  address between angle brackets that holds no bracket and no white space. It gives that name and
  that address.
\<close>

theorem author_form_is_exact:
  "parseAuthor value = Inr (name, email) \<longleftrightarrow>
   (\<exists>ws. value = name @ ws @ ''<'' @ email @ ''>'' \<and> ws \<noteq> [] \<and> list_all re_space ws \<and>
      name \<noteq> [] \<and> \<not> re_space (hd name) \<and> \<not> re_space (last name) \<and> CHR 0x0A \<notin> set name \<and>
      email \<noteq> [] \<and> list_all (\<lambda>c. c \<noteq> CHR ''<'' \<and> c \<noteq> CHR ''>'' \<and> \<not> re_space c) email)"
proof
  assume "parseAuthor value = Inr (name, email)"
  then have "authorForm value = Some (name, email)"
    by (auto simp: parseAuthor_def split: option.splits)
  then show "\<exists>ws. value = name @ ws @ ''<'' @ email @ ''>'' \<and> ws \<noteq> [] \<and> list_all re_space ws \<and>
      name \<noteq> [] \<and> \<not> re_space (hd name) \<and> \<not> re_space (last name) \<and> CHR 0x0A \<notin> set name \<and>
      email \<noteq> [] \<and> list_all (\<lambda>c. c \<noteq> CHR ''<'' \<and> c \<noteq> CHR ''>'' \<and> \<not> re_space c) email"
    by (rule authorForm_Some) blast
next
  assume "\<exists>ws. value = name @ ws @ ''<'' @ email @ ''>'' \<and> ws \<noteq> [] \<and> list_all re_space ws \<and>
      name \<noteq> [] \<and> \<not> re_space (hd name) \<and> \<not> re_space (last name) \<and> CHR 0x0A \<notin> set name \<and>
      email \<noteq> [] \<and> list_all (\<lambda>c. c \<noteq> CHR ''<'' \<and> c \<noteq> CHR ''>'' \<and> \<not> re_space c) email"
  then obtain ws where "value = name @ ws @ ''<'' @ email @ ''>''" and
    "authorForm (name @ ws @ ''<'' @ email @ ''>'') = Some (name, email)"
    using authorForm_complete by blast
  then show "parseAuthor value = Inr (name, email)" by (simp add: parseAuthor_def)
qed

lemma zero_latency_is_never:
  "parsePolicy quantity [(maxLatencyParameter, ''0s'')] = parsePolicy quantity [(maxLatencyParameter, ''never'')]"
  by (simp add: parsePolicy_def readParameter_def parameter_names parseMaxLatency_def
      neverLatency_def duration_eval)

end
