(* ===== verification/Credentials.thy ===== *)
theory Credentials
  imports Prelude
begin

section \<open>Credentials (\<open>credentials.go\<close>)\<close>

text \<open>
  A Secret's data becomes the environment of one git call. This theory holds the pure part: what
  the driver reads from the Secret, and the texts it writes for ssh, for the shell and for git.
  The files around a git call are in the theory of the outside world.

  Two readers state what the driver relies on: how a POSIX shell splits a command into words, and
  how it reads a here-document whose terminator is quoted.
\<close>

subsection \<open>The Secret\<close>

definition privateKeyKey :: string where "privateKeyKey = ''ssh-privatekey''"
definition knownHostsKey :: string where "knownHostsKey = ''known_hosts''"
definition tokenKey :: string where "tokenKey = ''token''"
definition usernameKey :: string where "usernameKey = ''username''"
definition defaultUsername :: string where "defaultUsername = ''git''"

record credentials =
  cr_privateKey :: string
  cr_knownHosts :: string
  cr_token :: string
  cr_username :: string

definition secret_value :: "(string \<times> string) list \<Rightarrow> string \<Rightarrow> string" where
  "secret_value secrets k = (case map_of secrets k of None \<Rightarrow> [] | Some v \<Rightarrow> v)"

definition parseCredentials :: "(string \<times> string) list \<Rightarrow> credentials option result" where
  "parseCredentials secrets =
     (if secrets = [] then Inr None
      else
        let parsed = \<lparr>cr_privateKey = secret_value secrets privateKeyKey,
              cr_knownHosts = secret_value secrets knownHostsKey,
              cr_token = secret_value secrets tokenKey,
              cr_username = secret_value secrets usernameKey\<rparr>
        in if cr_privateKey parsed = [] \<and> cr_token parsed = []
           then Inl (Status InvalidArgument
             (Fmt ''nodePublishSecretRef: the Secret carries no %s and no %s''
               [AStr privateKeyKey, AStr tokenKey]))
           else Inr (Some (if cr_username parsed = [] then parsed\<lparr>cr_username := defaultUsername\<rparr>
                           else parsed)))"

text \<open>Whether two credentials hold the same keys (\<open>republish.go\<close>).\<close>

definition same :: "credentials option \<Rightarrow> credentials option \<Rightarrow> bool" where
  "same c other =
     (case (c, other) of
        (Some a, Some b) \<Rightarrow> a = b
      | (None, None) \<Rightarrow> True
      | _ \<Rightarrow> False)"

subsection \<open>The texts\<close>

text \<open>Every single quote of the path ends the quoted part, adds an escaped quote, and starts the next.\<close>

definition quote :: "string \<Rightarrow> string" where
  "quote path = [CHR 0x27] @ concat (map (\<lambda>c. if c = CHR 0x27 then [CHR 0x27, CHR 0x5C, CHR 0x27, CHR 0x27] else [c]) path) @ [CHR 0x27]"

definition sshCommand :: "string \<Rightarrow> string \<Rightarrow> bool \<Rightarrow> string" where
  "sshCommand key hosts knownHosts =
     (let checking = (if knownHosts then ''yes'' else ''accept-new'') in
      join '' '' [''ssh'', ''-i'', quote key, ''-o'', ''IdentitiesOnly=yes'', ''-o'', ''BatchMode=yes'',
        ''-o'', ''UserKnownHostsFile='' @ quote hosts, ''-o'', ''StrictHostKeyChecking='' @ checking])"

abbreviation newline :: char where "newline \<equiv> CHR 0x0A"

definition helper_terminator :: string where "helper_terminator = ''GIT_CSI_CREDENTIAL''"

definition credentialHelper :: "string \<Rightarrow> string \<Rightarrow> string" where
  "credentialHelper username token =
     join [newline] [''#!/bin/sh'', ''cat <<'' @ [CHR 0x27] @ helper_terminator @ [CHR 0x27],
       ''username='' @ username, ''password='' @ token, helper_terminator, []]"

definition endWithNewline :: "string \<Rightarrow> string" where
  "endWithNewline text = (if suffix [newline] text then text else text @ [newline])"

subsection \<open>How a shell reads them\<close>

text \<open>
  A POSIX shell's word splitting, on the part of its input language the driver writes: blanks
  between words, single quotes, and the backslash. A plain character outside quotes has to be one
  the shell gives no meaning of its own, and any other text has no reading here.
\<close>

datatype shell_place = Between | InWord | Quoted | Escaped

definition plain_char :: "char \<Rightarrow> bool" where
  "plain_char c \<longleftrightarrow> (let n = of_char c :: nat in
     48 \<le> n \<and> n \<le> 57 \<or> 65 \<le> n \<and> n \<le> 90 \<or> 97 \<le> n \<and> n \<le> 122) \<or> c \<in> set ''-=_./,:@%+''"

fun shell_words :: "shell_place \<Rightarrow> string \<Rightarrow> string \<Rightarrow> string list option" where
  "shell_words Between w [] = Some []"
| "shell_words InWord w [] = Some [rev w]"
| "shell_words Quoted w [] = None"
| "shell_words Escaped w [] = None"
| "shell_words Quoted w (c # cs) =
     (if c = CHR 0x27 then shell_words InWord w cs else shell_words Quoted (c # w) cs)"
| "shell_words Escaped w (c # cs) = shell_words InWord (c # w) cs"
| "shell_words Between w (c # cs) =
     (if c = CHR '' '' then shell_words Between [] cs
      else if c = CHR 0x27 then shell_words Quoted [] cs
      else if c = CHR 0x5C then shell_words Escaped [] cs
      else if plain_char c then shell_words InWord [c] cs else None)"
| "shell_words InWord w (c # cs) =
     (if c = CHR '' '' then map_option ((#) (rev w)) (shell_words Between [] cs)
      else if c = CHR 0x27 then shell_words Quoted w cs
      else if c = CHR 0x5C then shell_words Escaped w cs
      else if plain_char c then shell_words InWord (c # w) cs else None)"

lemma words_of_quoted:
  "shell_words Quoted w (concat (map (\<lambda>c. if c = CHR 0x27
       then [CHR 0x27, CHR 0x5C, CHR 0x27, CHR 0x27] else [c]) path) @ CHR 0x27 # rest) =
   shell_words InWord (rev path @ w) rest"
  by (induction path arbitrary: w) auto

lemma words_of_quote:
  "shell_words Between [] (quote path @ rest) = shell_words InWord (rev path) rest"
  "shell_words InWord w (quote path @ rest) = shell_words InWord (rev path @ w) rest"
  by (simp_all add: quote_def words_of_quoted)

lemma words_of_plain:
  "list_all plain_char s \<Longrightarrow> shell_words InWord w (s @ rest) = shell_words InWord (rev s @ w) rest"
proof (induction s arbitrary: w)
  case Nil
  then show ?case by simp
next
  case (Cons c s)
  then have "plain_char c" by simp
  then have "c \<noteq> CHR '' ''" "c \<noteq> CHR 0x27" "c \<noteq> CHR 0x5C"
    by (auto simp: plain_char_def)
  with Cons show ?case by simp
qed

lemma words_start:
  "list_all plain_char (c # s) \<Longrightarrow>
   shell_words Between [] (c # s @ rest) = shell_words InWord (rev s @ [c]) rest"
proof -
  assume plain: "list_all plain_char (c # s)"
  then have "plain_char c" by simp
  then have "c \<noteq> CHR '' ''" "c \<noteq> CHR 0x27" "c \<noteq> CHR 0x5C"
    by (auto simp: plain_char_def)
  with plain show ?thesis by (simp add: words_of_plain)
qed

text \<open>A here-document with a quoted terminator: its lines as they are, and the lines after it.\<close>

fun here_document :: "string \<Rightarrow> string list \<Rightarrow> string list \<times> string list" where
  "here_document term [] = ([], [])"
| "here_document term (l # ls) =
     (if l = term then ([], ls) else let (body, rest) = here_document term ls in (l # body, rest))"

text \<open>
  A script of the helper's form: the lines \<open>cat\<close> prints, and the lines the shell then runs as
  commands. Text of another form has no reading here.
\<close>

definition helper_script :: "string \<Rightarrow> (string list \<times> string list) option" where
  "helper_script script =
     (case split newline script of
        shebang # command # ls \<Rightarrow>
          if shebang = ''#!/bin/sh'' \<and> command = ''cat <<'' @ [CHR 0x27] @ helper_terminator @ [CHR 0x27]
          then (let (body, rest) = here_document helper_terminator ls in
                Some (body, filter (\<lambda>l. l \<noteq> []) rest))
          else None
      | _ \<Rightarrow> None)"

lemma split_joined:
  "\<forall>p\<in>set ps. sep \<notin> set p \<Longrightarrow> ps \<noteq> [] \<Longrightarrow> split sep (join [sep] ps) = ps"
proof (induction ps rule: induct_list012)
  case (3 p q ps)
  then show ?case by (simp add: split_append_sep)
qed (auto simp: split_no_sep)

subsection \<open>Properties\<close>

text \<open>
  Property C32. A shell reads the ssh command the driver writes as ssh and its own options, with
  the key's path and the hosts file's path as one word each, whatever bytes the two paths hold.
\<close>

theorem ssh_command_reads_back:
  "shell_words Between [] (sshCommand key hosts knownHosts) =
   Some [''ssh'', ''-i'', key, ''-o'', ''IdentitiesOnly=yes'', ''-o'', ''BatchMode=yes'', ''-o'',
     ''UserKnownHostsFile='' @ hosts, ''-o'',
     ''StrictHostKeyChecking='' @ (if knownHosts then ''yes'' else ''accept-new'')]"
  by (simp add: sshCommand_def Let_def words_of_quote plain_char_def)

text \<open>
  The helper script answers git with the user and the token and runs nothing else,
  for every user name and token without a newline.
\<close>

theorem helper_answers_the_credential:
  assumes "newline \<notin> set username" and "newline \<notin> set token"
  shows "helper_script (credentialHelper username token) =
    Some ([''username='' @ username, ''password='' @ token], [])"
proof -
  have "split newline (credentialHelper username token) =
      [''#!/bin/sh'', ''cat <<'' @ [CHR 0x27] @ helper_terminator @ [CHR 0x27],
       ''username='' @ username, ''password='' @ token, helper_terminator, []]"
    unfolding credentialHelper_def using assms
    by (intro split_joined) (auto simp: helper_terminator_def)
  then show ?thesis by (simp add: helper_script_def helper_terminator_def)
qed

theorem helper_answers_the_credential_witness:
  "helper_script (credentialHelper ''git'' ''s3cret'') = Some ([''username=git'', ''password=s3cret''], [])"
  using helper_answers_the_credential[of "''git''" "''s3cret''"] by simp

text \<open>
  Without that condition it runs what the token says: a token of three lines, the second one the
  terminator, puts its third line among the commands of the shell.
\<close>

lemma helper_runs_a_token_line:
  "helper_script (credentialHelper ''git'' (''x'' @ [newline] @ helper_terminator @ [newline] @ ''reboot'')) =
   Some ([''username=git'', ''password=x''], [''reboot'', helper_terminator])"
  by (simp add: helper_script_def credentialHelper_def helper_terminator_def)

text \<open>
  An accepted Secret holds a private key or a token and names a user, the key file
  ends with a newline, and no Secret is no credential.
\<close>

theorem accepted_secret_is_usable:
  "(case parseCredentials secrets of
      Inl err \<Rightarrow> secrets \<noteq> [] \<and> status_code err = InvalidArgument \<and>
        secret_value secrets privateKeyKey = [] \<and> secret_value secrets tokenKey = []
    | Inr None \<Rightarrow> secrets = []
    | Inr (Some c) \<Rightarrow> (cr_privateKey c \<noteq> [] \<or> cr_token c \<noteq> []) \<and> cr_username c \<noteq> [] \<and>
        cr_privateKey c = secret_value secrets privateKeyKey \<and>
        cr_token c = secret_value secrets tokenKey \<and>
        last (endWithNewline (cr_privateKey c)) = newline)"
  by (auto simp: parseCredentials_def Let_def defaultUsername_def endWithNewline_def suffix_def)

theorem accepted_secret_is_usable_witness:
  "parseCredentials [(tokenKey, ''t'')] = Inr (Some \<lparr>cr_privateKey = [], cr_knownHosts = [], cr_token = ''t'',
      cr_username = ''git''\<rparr>) \<and> last (endWithNewline []) = newline"
proof -
  have ok: "parseCredentials [(tokenKey, ''t'')] = Inr (Some \<lparr>cr_privateKey = [], cr_knownHosts = [], cr_token = ''t'',
      cr_username = ''git''\<rparr>)"
    by code_simp
  then show ?thesis using accepted_secret_is_usable[of "[(tokenKey, ''t'')]"] by simp
qed

end
