(* ===== verification/Disk.thy ===== *)
theory Disk
  imports Prelude
begin

section \<open>Paths and files\<close>

text \<open>
  The part of Go's \<open>path/filepath\<close> and \<open>os\<close> packages the driver uses, on a model of a file system.

  A path is the list of its elements from the root. A file system maps paths to nodes. The calls
  below say what each call does when the kernel lets it; the outside world's theory lets the kernel
  refuse any of them. The calls on a path that came with a repository, which are those of a metadata
  record, resolve the symbolic links on it as the kernel does. The other calls name the driver's own
  directories, which hold no link, or an entry a listing of a directory reported.
\<close>

subsection \<open>Paths\<close>

type_synonym path = "string list"

text \<open>\<open>filepath.Join\<close>, which cleans the result: an empty element or a dot is nothing, two dots go up.\<close>

definition element :: "path \<Rightarrow> string \<Rightarrow> path" where
  "element p e = (if e = [] \<or> e = ''.'' then p else if e = ''..'' then butlast p else p @ [e])"

definition join_path :: "path \<Rightarrow> string \<Rightarrow> path" where
  "join_path p name = foldl element p (split (CHR ''/'') name)"

definition show_path :: "path \<Rightarrow> string" where
  "show_path p = (if p = [] then ''/'' else concat (map (\<lambda>e. CHR ''/'' # e) p))"

definition read_path :: "string \<Rightarrow> path" where
  "read_path s = join_path [] s"

text \<open>A name of one ordinary element.\<close>

definition plain_name :: "string \<Rightarrow> bool" where
  "plain_name e \<longleftrightarrow> e \<noteq> [] \<and> e \<noteq> ''.'' \<and> e \<noteq> ''..'' \<and> CHR ''/'' \<notin> set e"

lemma join_plain [simp]: "plain_name e \<Longrightarrow> join_path p e = p @ [e]"
  by (simp add: plain_name_def join_path_def split_no_sep element_def)

lemma join_dots: "join_path p ''..'' = butlast p" "join_path p ''.'' = p" "join_path p [] = p"
  by (simp_all add: join_path_def element_def)

lemma read_show_path: "list_all plain_name p \<Longrightarrow> read_path (show_path p) = p"
proof -
  have names: "foldl element q (split (CHR ''/'') (concat (map (\<lambda>e. CHR ''/'' # e) p))) = q @ p"
    if "list_all plain_name p" for p q
    using that
  proof (induction p arbitrary: q)
    case Nil
    then show ?case by (simp add: element_def)
  next
    case (Cons e p)
    then have e: "CHR ''/'' \<notin> set e" "element q e = q @ [e]" for q
      by (auto simp: plain_name_def element_def)
    show ?case
    proof (cases p)
      case Nil
      with e show ?thesis by (simp add: split_no_sep element_def)
    next
      case (Cons e' p')
      have "split (CHR ''/'') (concat (map (\<lambda>e. CHR ''/'' # e) (e # p))) =
          [] # e # tl (split (CHR ''/'') (concat (map (\<lambda>e. CHR ''/'' # e) p)))"
        using e Cons by (simp add: split_append_sep)
      moreover have "split (CHR ''/'') (concat (map (\<lambda>e. CHR ''/'' # e) p)) =
          [] # tl (split (CHR ''/'') (concat (map (\<lambda>e. CHR ''/'' # e) p)))"
        using Cons by simp
      ultimately show ?thesis
        using Cons.IH[of "q @ [e]"] Cons.prems e
        by (metis (no_types, lifting) append.assoc append_Cons append_Nil element_def foldl_Cons
            list.pred_inject(2))
    qed
  qed
  assume "list_all plain_name p"
  with names[of p "[]"] show ?thesis
    by (auto simp: read_path_def join_path_def show_path_def element_def)
qed

subsection \<open>Nodes\<close>

datatype content = Regular string | Directory | Symlink string | Special

record fnode =
  fn_content :: content
  fn_mode :: nat
  fn_uid :: int
  fn_gid :: int
  fn_inode :: nat

type_synonym files = "(path \<times> fnode) list"

definition look :: "files \<Rightarrow> path \<Rightarrow> fnode option" where
  "look fs p = map_of fs p"

definition del :: "files \<Rightarrow> path \<Rightarrow> files" where
  "del fs p = filter (\<lambda>(q, n). q \<noteq> p) fs"

definition put :: "files \<Rightarrow> path \<Rightarrow> fnode \<Rightarrow> files" where
  "put fs p n = (p, n) # del fs p"

text \<open>What a set of named nodes promises its callers.\<close>

locale file_map =
  fixes look :: "'f \<Rightarrow> 'p \<Rightarrow> 'n option" and put :: "'f \<Rightarrow> 'p \<Rightarrow> 'n \<Rightarrow> 'f" and del :: "'f \<Rightarrow> 'p \<Rightarrow> 'f"
  assumes look_put: "look (put fs p n) q = (if q = p then Some n else look fs q)"
    and look_del: "look (del fs p) q = (if q = p then None else look fs q)"
begin

lemma look_dels: "look (foldl del fs ps) q = (if q \<in> set ps then None else look fs q)"
  by (induction ps arbitrary: fs) (auto simp: look_del)

lemma look_puts: "q \<notin> fst ` set kvs \<Longrightarrow> look (foldl (\<lambda>fs (p, n). put fs p n) fs kvs) q = look fs q"
  by (induction kvs arbitrary: fs) (auto simp: look_put split: prod.splits)

text \<open>Files written for a while and removed again leave everything as it was.\<close>

lemma put_then_del:
  assumes "\<forall>p\<in>fst ` set kvs. look fs p = None"
  shows "look (foldl del (foldl (\<lambda>fs (p, n). put fs p n) fs kvs) (map fst kvs)) q = look fs q"
  using assms by (auto simp: look_dels look_puts)

end

interpretation disk: file_map look put del
proof
  fix fs p q and n :: fnode
  show del: "look (del fs p) q = (if q = p then None else look fs q)"
    by (induction fs) (auto simp: look_def del_def)
  show "look (put fs p n) q = (if q = p then Some n else look fs q)"
    using del by (simp add: put_def) (simp add: look_def)
qed

declare disk.look_put [simp] disk.look_del [simp]

definition is_dir :: "files \<Rightarrow> path \<Rightarrow> bool" where
  "is_dir fs p = (p = [] \<or> (case look fs p of Some n \<Rightarrow> fn_content n = Directory | None \<Rightarrow> False))"

definition children :: "files \<Rightarrow> path \<Rightarrow> string list" where
  "children fs p = sort (remdups (map (\<lambda>(q, n). last q) (filter (\<lambda>(q, n). q \<noteq> [] \<and> butlast q = p) fs)))"

definition below :: "files \<Rightarrow> path \<Rightarrow> files" where
  "below fs p = filter (\<lambda>(q, n). prefix p q) fs"

definition fresh_inode :: "files \<Rightarrow> nat" where
  "fresh_inode fs = Suc (foldr (\<lambda>(q, n). max (fn_inode n)) fs 0)"

subsection \<open>Calls\<close>

text \<open>An error reads as Go prints it: the call, the path, the reason.\<close>

definition os_error :: "string \<Rightarrow> path \<Rightarrow> string \<Rightarrow> string" where
  "os_error call p reason = call @ '' '' @ show_path p @ '': '' @ reason"

definition noent :: string where "noent = ''no such file or directory''"
definition notdir :: string where "notdir = ''not a directory''"
definition isdir :: string where "isdir = ''is a directory''"
definition file_exists :: string where "file_exists = ''file exists''"
definition notempty :: string where "notempty = ''directory not empty''"

text \<open>The driver runs as one user, whose ids a new file takes.\<close>

record owner =
  ow_uid :: int
  ow_gid :: int

definition new_node :: "files \<Rightarrow> owner \<Rightarrow> content \<Rightarrow> nat \<Rightarrow> fnode" where
  "new_node fs own c mode = \<lparr>fn_content = c, fn_mode = mode, fn_uid = ow_uid own, fn_gid = ow_gid own,
     fn_inode = fresh_inode fs\<rparr>"

definition os_read :: "path \<Rightarrow> files \<Rightarrow> string + string" where
  "os_read p fs =
     (case look fs p of
        None \<Rightarrow> Inl (os_error ''open'' p noent)
      | Some n \<Rightarrow> (case fn_content n of
            Regular c \<Rightarrow> Inr c
          | Directory \<Rightarrow> Inl (os_error ''read'' p isdir)
          | _ \<Rightarrow> Inl (os_error ''open'' p noent)))"

definition os_write :: "owner \<Rightarrow> path \<Rightarrow> string \<Rightarrow> nat \<Rightarrow> files \<Rightarrow> string + files" where
  "os_write own p c mode fs =
     (if \<not> is_dir fs (butlast p) then Inl (os_error ''open'' p noent)
      else case look fs p of
          None \<Rightarrow> Inr (put fs p (new_node fs own (Regular c) mode))
        | Some n \<Rightarrow> (case fn_content n of
              Regular _ \<Rightarrow> Inr (put fs p (n\<lparr>fn_content := Regular c\<rparr>))
            | _ \<Rightarrow> Inl (os_error ''open'' p isdir)))"

text \<open>
  The node a path leads to. A link in it stands for its target, read from the directory that holds it or
  from the root, and the kernel gives up after forty of them.
\<close>

function walk_links :: "nat \<Rightarrow> files \<Rightarrow> path \<Rightarrow> string list \<Rightarrow> path option" where
  "walk_links n fs here [] = Some here"
| "walk_links n fs here (e # rest) =
     (if \<not> is_dir fs here then None
      else let there = element here e in
        case look fs there of
          None \<Rightarrow> if there = [] then walk_links n fs there rest else None
        | Some node \<Rightarrow> (case fn_content node of
              Symlink target \<Rightarrow>
                if n = 0 then None
                else walk_links (n - 1) fs (if target \<noteq> [] \<and> hd target = CHR ''/'' then [] else here)
                  (split (CHR ''/'') target @ rest)
            | _ \<Rightarrow> walk_links n fs there rest))"
  by pat_completeness auto
termination
  by (relation "measures [\<lambda>(n, fs, here, rest). n, \<lambda>(n, fs, here, rest). length rest]") auto

definition link_limit :: nat where "link_limit = 40"

definition leads_to :: "files \<Rightarrow> path \<Rightarrow> path option" where
  "leads_to fs p = walk_links link_limit fs [] p"

text \<open>
  \<open>os.MkdirAll\<close>: a directory the path leads to is left as it is, a missing one is made in the directory its
  parent leads to, and anything else in the way, a link to nothing too, is an error.
\<close>

fun mkdirs :: "owner \<Rightarrow> nat \<Rightarrow> path \<Rightarrow> path \<Rightarrow> files \<Rightarrow> string + files" where
  "mkdirs own mode p [] fs = Inr fs"
| "mkdirs own mode p (e # es) fs =
     (case leads_to fs (p @ [e]) of
        Some q \<Rightarrow> if is_dir fs q then mkdirs own mode (p @ [e]) es fs else Inl (os_error ''mkdir'' (p @ [e]) notdir)
      | None \<Rightarrow> (case leads_to fs p of
            None \<Rightarrow> Inl (os_error ''mkdir'' (p @ [e]) noent)
          | Some d \<Rightarrow>
              if is_dir fs d \<and> look fs (d @ [e]) = None
              then mkdirs own mode (p @ [e]) es (put fs (d @ [e]) (new_node fs own Directory mode))
              else Inl (os_error ''mkdir'' (p @ [e]) file_exists)))"

definition os_mkdir_all :: "owner \<Rightarrow> path \<Rightarrow> nat \<Rightarrow> files \<Rightarrow> string + files" where
  "os_mkdir_all own p mode fs = mkdirs own mode [] p fs"

definition os_remove :: "path \<Rightarrow> files \<Rightarrow> string + files" where
  "os_remove p fs =
     (case look fs p of
        None \<Rightarrow> Inl (os_error ''remove'' p noent)
      | Some n \<Rightarrow> if fn_content n = Directory \<and> children fs p \<noteq> []
                  then Inl (os_error ''remove'' p notempty) else Inr (del fs p))"

definition os_remove_all :: "path \<Rightarrow> files \<Rightarrow> string + files" where
  "os_remove_all p fs = Inr (filter (\<lambda>(q, n). \<not> prefix p q) fs)"

definition os_stat :: "path \<Rightarrow> files \<Rightarrow> string + fnode" where
  "os_stat p fs =
     (case look fs p of None \<Rightarrow> Inl (os_error ''stat'' p noent) | Some n \<Rightarrow> Inr n)"

definition os_read_dir :: "path \<Rightarrow> files \<Rightarrow> string + string list" where
  "os_read_dir p fs =
     (if is_dir fs p then Inr (children fs p)
      else Inl (os_error ''open'' p (if look fs p = None then noent else notdir)))"

definition moved :: "path \<Rightarrow> path \<Rightarrow> path \<Rightarrow> path" where
  "moved p q r = q @ drop (length p) r"

definition os_rename :: "path \<Rightarrow> path \<Rightarrow> files \<Rightarrow> string + files" where
  "os_rename p q fs =
     (case look fs p of
        None \<Rightarrow> Inl (os_error ''rename'' p noent)
      | Some n \<Rightarrow>
          if \<not> is_dir fs (butlast q) \<or> strict_prefix p q then Inl (os_error ''rename'' p noent)
          else if q = p then Inr fs
          else if fn_content n = Directory \<and> look fs q \<noteq> None \<and> \<not> is_dir fs q then Inl (os_error ''rename'' p notdir)
          else if fn_content n = Directory \<and> children fs q \<noteq> [] then Inl (os_error ''rename'' p notempty)
          else if fn_content n \<noteq> Directory \<and> is_dir fs q then Inl (os_error ''rename'' p isdir)
          else Inr (map (\<lambda>(r, m). (moved p q r, m)) (below fs p) @
                    filter (\<lambda>(r, m). \<not> prefix p r \<and> r \<noteq> q) fs))"

text \<open>\<open>os.Chmod\<close> follows a link to what it names. \<open>os.Lchown\<close> follows the links above the last element and takes that one as it is.\<close>

definition os_chmod :: "path \<Rightarrow> nat \<Rightarrow> files \<Rightarrow> string + files" where
  "os_chmod p mode fs =
     (case leads_to fs p of
        None \<Rightarrow> Inl (os_error ''chmod'' p noent)
      | Some q \<Rightarrow> (case look fs q of
            None \<Rightarrow> Inl (os_error ''chmod'' p noent)
          | Some n \<Rightarrow> Inr (put fs q (n\<lparr>fn_mode := mode\<rparr>))))"

definition os_lchown :: "path \<Rightarrow> int \<Rightarrow> int \<Rightarrow> files \<Rightarrow> string + files" where
  "os_lchown p uid gid fs =
     (case leads_to fs (butlast p) of
        None \<Rightarrow> Inl (os_error ''lchown'' p noent)
      | Some d \<Rightarrow> (let q = (if p = [] then d else d @ [last p]) in case look fs q of
            None \<Rightarrow> Inl (os_error ''lchown'' p noent)
          | Some n \<Rightarrow> Inr (put fs q (n\<lparr>fn_uid := uid, fn_gid := gid\<rparr>))))"

text \<open>On a path without links a call reaches the node the path names, or none.\<close>

definition clear_path :: "files \<Rightarrow> path \<Rightarrow> bool" where
  "clear_path fs p \<longleftrightarrow> (\<forall>q n t. prefix q p \<longrightarrow> look fs q = Some n \<longrightarrow> fn_content n \<noteq> Symlink t)"

lemma clear_prefix: "clear_path fs p \<Longrightarrow> prefix q p \<Longrightarrow> clear_path fs q"
  by (meson clear_path_def prefix_order.order_trans)

lemma walk_clear:
  "list_all plain_name es \<Longrightarrow> clear_path fs (here @ es) \<Longrightarrow> walk_links n fs here es = Some q \<Longrightarrow> q = here @ es"
proof (induction es arbitrary: here)
  case (Cons e es)
  then have e: "element here e = here @ [e]" by (simp add: element_def plain_name_def)
  have "fn_content node \<noteq> Symlink t" if "look fs (here @ [e]) = Some node" for node t
    using Cons.prems(2) that unfolding clear_path_def by (metis append_Cons append_Nil append_assoc prefixI)
  with Cons.prems Cons.IH[of "here @ [e]"] e show ?case by (auto simp: Let_def split: if_splits option.splits content.splits)
qed simp

lemma leads_clear: "list_all plain_name p \<Longrightarrow> clear_path fs p \<Longrightarrow> leads_to fs p = Some q \<Longrightarrow> q = p"
  using walk_clear[of p fs "[]"] by (simp add: leads_to_def)

end
