(* ===== verification/Volume.thy ===== *)
theory Volume
  imports Policy Match Credentials Disk
begin

section \<open>One volume of a node (\<open>volume.go\<close>, \<open>republish.go\<close>)\<close>

text \<open>
  The state the driver keeps about one volume and every operation on it. Each method of the code
  holds the volume's lock for its whole body, so each is one function from the volume's state here.
  A method that reads the clock takes the time as an argument.
\<close>

subsection \<open>State\<close>

text \<open>A path git reports, and the bytes it holds.\<close>

record change =
  ch_path :: string
  ch_size :: int

text \<open>The bare repository of one URL, and one volume's git directory and checkout.\<close>

record repository =
  r_url :: string
  r_name :: string
  r_dir :: path

record workTree =
  w_repository :: repository
  w_directory :: path
  w_gitDir :: path
  w_tree :: path

record volume =
  v_id :: string
  v_attributes :: attributes
  v_credentials :: "credentials option"
  v_directory :: path
  v_tree :: path
  v_target :: string
  v_kind :: volumeKind
  v_work :: "workTree option"
  v_staging :: string
  v_context :: "(string \<times> string) list"
  v_commit :: string
  v_trouble :: msg
  v_pod :: podReference
  v_targets :: "(string \<times> podReference) list"
  v_pending :: "change list"
  v_claim :: claimReference
  v_class :: string
  v_armed :: bool
  v_rules :: "policy option"
  v_invalid :: msg
  v_lastDemand :: time
  v_lastPull :: time
  v_answered :: time
  v_taken :: time
  v_skipped :: "change list"
  v_unpushed :: int
  v_oldest :: time
  v_lastPush :: time
  v_diverged :: string
  v_refDeleted :: bool
  v_abandoned :: msg
  v_abnormal :: bool
  v_credentialLost :: bool
  v_noPublishSecret :: bool

text \<open>What Go gives a volume a composite literal leaves out.\<close>

definition zero_volume :: "string \<Rightarrow> attributes \<Rightarrow> volumeKind \<Rightarrow> path \<Rightarrow> volume" where
  "zero_volume vid parsed kind directory = \<lparr>v_id = vid, v_attributes = parsed,
     v_credentials = None, v_directory = directory, v_tree = directory @ [''tree''], v_target = [],
     v_kind = kind, v_work = None, v_staging = [], v_context = [], v_commit = [], v_trouble = no_msg,
     v_pod = no_pod, v_targets = [], v_pending = [], v_claim = no_claim, v_class = [],
     v_armed = False, v_rules = None, v_invalid = no_msg, v_lastDemand = 0, v_lastPull = 0,
     v_answered = 0, v_taken = 0, v_skipped = [], v_unpushed = 0, v_oldest = 0, v_lastPush = 0,
     v_diverged = [], v_refDeleted = False, v_abandoned = no_msg, v_abnormal = False,
     v_credentialLost = False, v_noPublishSecret = False\<rparr>"

subsection \<open>The side branch, the ref, the sweep's report\<close>

definition reportDiverged :: "string \<Rightarrow> volume \<Rightarrow> volume" where
  "reportDiverged branch v = v\<lparr>v_diverged := branch\<rparr>"

definition reportHealed :: "volume \<Rightarrow> volume" where
  "reportHealed v = v\<lparr>v_diverged := []\<rparr>"

definition divergedFrom :: "volume \<Rightarrow> string" where
  "divergedFrom v = v_diverged v"

definition reportRefDeleted :: "string \<Rightarrow> volume \<Rightarrow> volume" where
  "reportRefDeleted commit v = v\<lparr>v_commit := commit, v_refDeleted := True\<rparr>"

definition refIsDeleted :: "volume \<Rightarrow> bool" where
  "refIsDeleted v = v_refDeleted v"

definition reportAbandoned :: "msg \<Rightarrow> volume \<Rightarrow> volume" where
  "reportAbandoned message v = v\<lparr>v_abandoned := message\<rparr>"

definition policyNow :: "volume \<Rightarrow> policy option" where
  "policyNow v = v_rules v"

definition authorEnv :: "volume \<Rightarrow> string list" where
  "authorEnv v = (case policyNow v of Some rules \<Rightarrow> author rules | None \<Rightarrow> author defaultPolicy)"

definition writeable :: "volume \<Rightarrow> bool" where
  "writeable v = (v_kind v = writeableVolume)"

subsection \<open>Targets, pods, and the claim\<close>

definition setPod :: "podReference \<Rightarrow> volume \<Rightarrow> volume" where
  "setPod pod v = v\<lparr>v_pod := pod\<rparr>"

definition podRef :: "volume \<Rightarrow> podReference" where
  "podRef v = v_pod v"

definition set_entry :: "'k \<Rightarrow> 'a \<Rightarrow> ('k \<times> 'a) list \<Rightarrow> ('k \<times> 'a) list" where
  "set_entry k a m = (k, a) # filter (\<lambda>(k', _). k' \<noteq> k) m"

definition delete_entry :: "'k \<Rightarrow> ('k \<times> 'a) list \<Rightarrow> ('k \<times> 'a) list" where
  "delete_entry k m = filter (\<lambda>(k', _). k' \<noteq> k) m"

lemma map_of_set_entry: "map_of (set_entry k a m) x = (if x = k then Some a else map_of m x)"
  by (induction m) (auto simp: set_entry_def)

lemma map_of_delete_entry: "map_of (delete_entry k m) x = (if x = k then None else map_of m x)"
  by (induction m) (auto simp: delete_entry_def)

definition bind_target :: "string \<Rightarrow> podReference \<Rightarrow> volume \<Rightarrow> volume" where
  "bind_target target pod v = v\<lparr>v_targets := set_entry target pod (v_targets v), v_pod := pod\<rparr>"

definition boundAt :: "string \<Rightarrow> volume \<Rightarrow> bool" where
  "boundAt target v = (map_of (v_targets v) target \<noteq> None)"

definition unbind_target :: "string \<Rightarrow> volume \<Rightarrow> nat \<times> volume" where
  "unbind_target target v =
     (let v' = v\<lparr>v_targets := delete_entry target (v_targets v)\<rparr> in (length (v_targets v'), v'))"

definition boundTargets :: "volume \<Rightarrow> string list" where
  "boundTargets v = sort (map fst (v_targets v))"

definition boundPods :: "volume \<Rightarrow> podReference list" where
  "boundPods v = map snd (v_targets v)"

definition setClaim :: "claimReference \<Rightarrow> volume \<Rightarrow> volume" where
  "setClaim claim v = v\<lparr>v_claim := claim\<rparr>"

definition claimNow :: "volume \<Rightarrow> claimReference" where
  "claimNow v = v_claim v"

definition namespace_of :: "volume \<Rightarrow> string" where
  "namespace_of v = (if v_kind v = inlineVolume then pod_namespace (v_pod v) else cl_namespace (v_claim v))"

subsection \<open>Pending writes, arming, the size guard, and pushes\<close>

definition reportPending :: "change list \<Rightarrow> volume \<Rightarrow> bool \<times> volume" where
  "reportPending found v = (v_pending v = [] \<and> found \<noteq> [], v\<lparr>v_pending := found\<rparr>)"

definition reportArmed ::
    "claimReference \<Rightarrow> string \<Rightarrow> policy option \<Rightarrow> msg \<Rightarrow> volume \<Rightarrow> bool \<times> volume" where
  "reportArmed claim class_name rules invalid v =
     (let armed = (rules \<noteq> None) in
      (armed \<noteq> v_armed v,
       v\<lparr>v_claim := claim, v_class := class_name, v_armed := armed, v_rules := rules, v_invalid := invalid\<rparr>))"

definition reading :: "volume \<Rightarrow> claimReference \<times> bool \<times> nat" where
  "reading v = (v_claim v, v_armed v, length (v_pending v))"

definition reportSkipped :: "change list \<Rightarrow> volume \<Rightarrow> change list \<times> volume" where
  "reportSkipped found v =
     (filter (\<lambda>one. ch_path one \<notin> ch_path ` set (v_skipped v)) found, v\<lparr>v_skipped := found\<rparr>)"

definition reportUnpushed :: "int \<Rightarrow> time \<Rightarrow> volume \<Rightarrow> volume" where
  "reportUnpushed commits oldest v = v\<lparr>v_unpushed := commits, v_oldest := oldest\<rparr>"

definition reportPushed :: "time \<Rightarrow> volume \<Rightarrow> volume" where
  "reportPushed at v = v\<lparr>v_unpushed := 0, v_oldest := 0, v_lastPush := at, v_trouble := no_msg\<rparr>"

definition pushing :: "volume \<Rightarrow> int \<times> time \<times> nat" where
  "pushing v = (v_unpushed v, v_lastPush v, length (v_skipped v))"

definition overdue :: "time \<Rightarrow> volume \<Rightarrow> bool" where
  "overdue now v =
     (v_unpushed v > 0 \<and> (case v_rules v of None \<Rightarrow> False
        | Some rules \<Rightarrow> p_maxLatency rules \<noteq> 0 \<and> v_oldest v \<noteq> 0 \<and> now - v_oldest v > p_maxLatency rules))"

definition reportCommit :: "string \<Rightarrow> volume \<Rightarrow> volume" where
  "reportCommit commit v = v\<lparr>v_commit := commit, v_trouble := no_msg, v_refDeleted := False\<rparr>"

definition reportTrouble :: "msg \<Rightarrow> volume \<Rightarrow> bool \<times> volume" where
  "reportTrouble message v = (v_trouble v = no_msg, v\<lparr>v_trouble := message\<rparr>)"

definition condition :: "volume \<Rightarrow> string \<times> msg" where
  "condition v = (v_commit v, v_trouble v)"

subsection \<open>The credential\<close>

definition lostCredential :: msg where
  "lostCredential = Plain ''the driver restarted and holds no credential for this volume until the kubelet publishes it again''"

definition noPublishSecret_text :: msg where
  "noPublishSecret_text = Plain ''the PersistentVolume names nodeStageSecretRef and no nodePublishSecretRef, so the driver cannot take this volume's credential back after it restarts; create the PersistentVolume again with nodePublishSecretRef equal to nodeStageSecretRef''"

definition credential :: "volume \<Rightarrow> credentials option" where
  "credential v = v_credentials v"

definition needsCredential :: "volume \<Rightarrow> bool" where
  "needsCredential v = (v_credentials v \<noteq> None \<or> v_credentialLost v)"

definition waitsForCredential :: "volume \<Rightarrow> bool" where
  "waitsForCredential v = v_credentialLost v"

definition loseCredential :: "volume \<Rightarrow> volume" where
  "loseCredential v = v\<lparr>v_credentialLost := True\<rparr>"

definition credentialReport :: "volume \<Rightarrow> msg option" where
  "credentialReport v =
     (if \<not> v_credentialLost v then None
      else if v_noPublishSecret v then Some (Cat (Cat lostCredential (Plain '': '')) noPublishSecret_text)
      else Some lostCredential)"

definition takeCredential :: "credentials option \<Rightarrow> volume \<Rightarrow> bool \<times> volume" where
  "takeCredential fresh v = (v_credentialLost v, v\<lparr>v_credentials := fresh, v_credentialLost := False\<rparr>)"

definition reportNoPublishSecret :: "volume \<Rightarrow> bool \<times> volume" where
  "reportNoPublishSecret v = (if v_noPublishSecret v then (False, v) else (True, v\<lparr>v_noPublishSecret := True\<rparr>))"

definition checkSecret :: "volume \<Rightarrow> credentials option \<Rightarrow> status option" where
  "checkSecret held holder =
     (if credential held \<noteq> None \<and> holder \<noteq> None \<and> \<not> same (credential held) holder
      then Some (Status InvalidArgument (Plain ''nodePublishSecretRef: the Secret differs from the credential the volume holds, which came from nodeStageSecretRef or from an earlier publish; name one Secret in both nodeStageSecretRef and nodePublishSecretRef''))
      else None)"

subsection \<open>Demands\<close>

definition demandSkew :: duration where "demandSkew = minute"

definition reportDemanded :: "time \<Rightarrow> volume \<Rightarrow> volume" where
  "reportDemanded at v = v\<lparr>v_lastDemand := at\<rparr>"

definition reportPulled :: "time \<Rightarrow> volume \<Rightarrow> volume" where
  "reportPulled at v = v\<lparr>v_lastPull := at\<rparr>"

definition answerDemandsBefore :: "time \<Rightarrow> volume \<Rightarrow> volume" where
  "answerDemandsBefore start v =
     (let answers = start - demandSkew in
      if answers > v_answered v then v\<lparr>v_answered := answers\<rparr> else v)"

definition takeDemand :: "time \<Rightarrow> time \<Rightarrow> volume \<Rightarrow> bool \<times> volume" where
  "takeDemand at now v =
     (if at = v_taken v \<or> \<not> at > v_answered v then (False, v)
      else let v = v\<lparr>v_taken := at\<rparr>;
               answers = now - demandSkew
           in (True, if answers > v_answered v then v\<lparr>v_answered := answers\<rparr> else v))"

subsection \<open>The report\<close>

definition short :: "string \<Rightarrow> string" where
  "short commit = (if length commit > 7 then take 7 commit else commit)"

definition skippedMessage :: "change list \<Rightarrow> msg" where
  "skippedMessage skipped = Fmt ''%d files over %s: %s'' [AInt (int (length skipped)),
     AStr maxFileSizeParameter, AStr (join '', '' (map ch_path skipped))]"

definition standingReport :: "time \<Rightarrow> volume \<Rightarrow> bool \<times> msg" where
  "standingReport now v =
     (case credentialReport v of
        Some waiting \<Rightarrow> (True, waiting)
      | None \<Rightarrow>
          if v_trouble v \<noteq> no_msg then (True, v_trouble v)
          else if v_refDeleted v then (True, Fmt ''RefDeleted: the remote holds no %s'' [AStr (a_ref (v_attributes v))])
          else if v_diverged v \<noteq> [] then (True, Fmt ''Diverged: the tree pushes to %s, not %s''
            [AStr (v_diverged v), AStr (a_ref (v_attributes v))])
          else if v_invalid v \<noteq> no_msg then (True, v_invalid v)
          else if v_skipped v \<noteq> [] then (True, skippedMessage (v_skipped v))
          else if overdue now v then (True, Fmt ''%d unpushed commits, the oldest older than %s''
            [AInt (v_unpushed v), ADur (case v_rules v of Some rules \<Rightarrow> p_maxLatency rules | None \<Rightarrow> 0)])
          else if v_abandoned v \<noteq> no_msg then (True, v_abandoned v)
          else if v_kind v = writeableVolume \<and> \<not> v_armed v \<and> v_pending v \<noteq> [] then
            (True, Fmt ''unarmed: %d paths pending, no class on claim %s/%s''
              [AInt (int (length (v_pending v))), AStr (cl_namespace (v_claim v)), AStr (cl_name (v_claim v))])
          else if v_pending v \<noteq> [] then (False, Fmt ''%s at %s, %d paths pending''
            [AStr (a_ref (v_attributes v)), AStr (short (v_commit v)), AInt (int (length (v_pending v)))])
          else (False, Fmt ''%s at %s'' [AStr (a_ref (v_attributes v)), AStr (short (v_commit v))]))"

definition pulling :: "volume \<Rightarrow> msg" where
  "pulling v =
     (let said = no_msg;
          said = (if v_lastDemand v \<noteq> 0 then Cat said (Fmt '', demanded %s'' [ATime (v_lastDemand v)]) else said)
      in if v_lastPull v \<noteq> 0 then Cat said (Fmt '', pulled %s'' [ATime (v_lastPull v)]) else said)"

definition reportNow :: "time \<Rightarrow> volume \<Rightarrow> bool \<times> msg" where
  "reportNow now v = (let (abnormal, message) = standingReport now v in (abnormal, Cat message (pulling v)))"


definition takeHealth :: "time \<Rightarrow> volume \<Rightarrow> (bool \<times> msg \<times> bool) \<times> volume" where
  "takeHealth now v =
     (let (abnormal, message) = reportNow now v
      in ((abnormal, message, abnormal \<noteq> v_abnormal v), v\<lparr>v_abnormal := abnormal\<rparr>))"

subsection \<open>Conditions\<close>

text \<open>
  What can be wrong with a volume, in the order a person should hear of it. The report gives the
  first condition that holds.
\<close>

datatype trouble = CredentialLost | Failed | RefDeleted | Diverged | InvalidClass | Skipped
  | Overdue | Abandoned | UnarmedWork

primrec rank :: "trouble \<Rightarrow> nat" where
  "rank CredentialLost = 0"
| "rank Failed = 1"
| "rank RefDeleted = 2"
| "rank Diverged = 3"
| "rank InvalidClass = 4"
| "rank Skipped = 5"
| "rank Overdue = 6"
| "rank Abandoned = 7"
| "rank UnarmedWork = 8"

lemma rank_inject: "rank x = rank y \<Longrightarrow> x = y"
  by (cases x; cases y) simp_all

instantiation trouble :: linorder
begin

definition less_eq_trouble :: "trouble \<Rightarrow> trouble \<Rightarrow> bool" where
  "less_eq_trouble x y = (rank x \<le> rank y)"

definition less_trouble :: "trouble \<Rightarrow> trouble \<Rightarrow> bool" where
  "less_trouble x y = (rank x < rank y)"

instance
  by standard (auto simp: less_eq_trouble_def less_trouble_def dest: rank_inject)

end

primrec holds :: "time \<Rightarrow> volume \<Rightarrow> trouble \<Rightarrow> bool" where
  "holds now v CredentialLost = v_credentialLost v"
| "holds now v Failed = (v_trouble v \<noteq> no_msg)"
| "holds now v RefDeleted = v_refDeleted v"
| "holds now v Diverged = (v_diverged v \<noteq> [])"
| "holds now v InvalidClass = (v_invalid v \<noteq> no_msg)"
| "holds now v Skipped = (v_skipped v \<noteq> [])"
| "holds now v Overdue = overdue now v"
| "holds now v Abandoned = (v_abandoned v \<noteq> no_msg)"
| "holds now v UnarmedWork = (v_kind v = writeableVolume \<and> \<not> v_armed v \<and> v_pending v \<noteq> [])"







subsection \<open>Demands over time\<close>

text \<open>
  What happens to one volume: a fetch that started at a time worked, or the node read a demand
  stamped at a time by another clock, at a time of its own clock.
\<close>

datatype occurrence = Fetched time | Read_demand time time

primrec occur :: "occurrence \<Rightarrow> volume \<Rightarrow> volume" where
  "occur (Fetched start) v = answerDemandsBefore start v"
| "occur (Read_demand at now) v = snd (takeDemand at now v)"

primrec local_time :: "occurrence \<Rightarrow> time" where
  "local_time (Fetched start) = start"
| "local_time (Read_demand at now) = now"

definition after :: "occurrence list \<Rightarrow> volume \<Rightarrow> volume" where
  "after history v = fold occur history v"

lemma after_snoc: "after (history @ [x]) v = occur x (after history v)"
  by (simp add: after_def)

lemma takeDemand_fields:
  "v_taken (snd (takeDemand at now v)) = (if fst (takeDemand at now v) then at else v_taken v)"
  "v_answered (snd (takeDemand at now v)) =
     (if fst (takeDemand at now v) then max (v_answered v) (now - demandSkew) else v_answered v)"
  by (auto simp: takeDemand_def Let_def)

lemma takeDemand_again: "v_taken v = at \<Longrightarrow> takeDemand at now v = (False, v)"
  by (simp add: takeDemand_def)

text \<open>A fetch always pulls; a demand that is read pulls when it is taken.\<close>

definition pulls :: "occurrence \<Rightarrow> volume \<Rightarrow> bool" where
  "pulls x v = (case x of Fetched start \<Rightarrow> True | Read_demand at now \<Rightarrow> fst (takeDemand at now v))"

definition pulled_in :: "occurrence list \<Rightarrow> volume \<Rightarrow> occurrence \<Rightarrow> bool" where
  "pulled_in history v x \<longleftrightarrow> (\<exists>earlier later. history = earlier @ x # later \<and> pulls x (after earlier v))"

lemma pulled_snoc: "pulled_in history v x \<Longrightarrow> pulled_in (history @ [y]) v x"
  by (auto simp: pulled_in_def) blast

lemma pulled_last: "pulls x (after history v) \<Longrightarrow> pulled_in (history @ [x]) v x"
  by (auto simp: pulled_in_def)

lemma answered_comes_from_a_pull:
  "v_answered (after history v) = v_answered v \<or>
   (\<exists>x. pulled_in history v x \<and> v_answered (after history v) = local_time x - demandSkew)"
proof (induction history rule: rev_induct)
  case Nil
  then show ?case by (simp add: after_def)
next
  case (snoc x history)
  have "v_answered (after (history @ [x]) v) = v_answered (after history v) \<or>
      pulls x (after history v) \<and> v_answered (after (history @ [x]) v) = local_time x - demandSkew"
    by (cases x) (auto simp: after_snoc takeDemand_fields answerDemandsBefore_def pulls_def Let_def max_def)
  with snoc show ?case by (auto intro: pulled_snoc pulled_last)
qed

lemma taken_was_pulled:
  "v_taken (after history v) = v_taken v \<or> (\<exists>now. pulled_in history v (Read_demand (v_taken (after history v)) now))"
proof (induction history rule: rev_induct)
  case Nil
  then show ?case by (simp add: after_def)
next
  case (snoc x history)
  have "v_taken (after (history @ [x]) v) = v_taken (after history v) \<or>
      pulls x (after history v) \<and> (\<exists>now. x = Read_demand (v_taken (after (history @ [x]) v)) now)"
    by (cases x) (auto simp: after_snoc takeDemand_fields answerDemandsBefore_def pulls_def Let_def)
  then show ?case
  proof
    assume same: "v_taken (after (history @ [x]) v) = v_taken (after history v)"
    from snoc show ?thesis unfolding same by (blast intro: pulled_snoc)
  next
    assume "pulls x (after history v) \<and> (\<exists>now. x = Read_demand (v_taken (after (history @ [x]) v)) now)"
    then show ?thesis by (metis pulled_last)
  qed
qed

lemma answered_grows: "v_answered v \<le> v_answered (after history v)"
proof (induction history rule: rev_induct)
  case (snoc x history)
  then show ?case
    by (cases x) (auto simp: after_snoc takeDemand_fields answerDemandsBefore_def Let_def)
qed (simp add: after_def)

subsection \<open>Properties\<close>



text \<open>
  Property C24. No demand is lost to a clock that runs behind by less than the skew. After any history of fetches that
  worked and of demands read, a demand is dropped only for a pull of that history: the same reading was taken in it, or
  a fetch, or a demand that was itself taken, answers it, having started at least the skew after the demand's time. A demand
  that was dropped answers nothing.
\<close>

theorem no_demand_is_lost:
  assumes "0 < at" and "v = zero_volume vid parsed kind directory" and "\<not> fst (takeDemand at now (after history v))"
  shows "(\<exists>x. pulled_in history v x \<and> at + demandSkew \<le> local_time x) \<or> (\<exists>seen. pulled_in history v (Read_demand at seen))"
proof -
  have start: "v_answered v = 0" "v_taken v = 0" by (simp_all add: assms(2) zero_volume_def)
  from assms(3) have "at = v_taken (after history v) \<or> at \<le> v_answered (after history v)"
    by (auto simp: takeDemand_def Let_def split: if_splits)
  then show ?thesis
  proof
    assume "at = v_taken (after history v)"
    with taken_was_pulled[of history v] start assms(1) show ?thesis by auto
  next
    assume "at \<le> v_answered (after history v)"
    with answered_comes_from_a_pull[of history v] start assms(1) show ?thesis by fastforce
  qed
qed

theorem no_demand_is_lost_witness:
  "(\<exists>x. pulled_in [Read_demand (500 * second) (600 * second)] (zero_volume ''v'' defaultAttributes readOnlyClaim [''v'']) x \<and>
     510 * second + demandSkew \<le> local_time x) \<or>
   (\<exists>seen. pulled_in [Read_demand (500 * second) (600 * second)] (zero_volume ''v'' defaultAttributes readOnlyClaim [''v''])
     (Read_demand (510 * second) seen))"
  by (rule no_demand_is_lost[of "510 * second" _ "''v''" defaultAttributes readOnlyClaim "[''v'']" "601 * second"])
    (simp_all add: after_def takeDemand_def zero_volume_def demandSkew_def)

text \<open>
  A demand acts once. Taking it records its time, so the same reading again, from a
  list, a resumed watch or the end of a stage, pulls nothing, whatever the fetches in between. The
  pull it starts answers no demand stamped later than the skew before the time of the reading.
\<close>

theorem a_demand_acts_once:
  assumes "fst (takeDemand at now v)"
  shows "\<not> fst (takeDemand at later (after (map Fetched starts) (snd (takeDemand at now v)))) \<and>
    v_answered (snd (takeDemand at now v)) \<le> max (v_answered v) (now - demandSkew)"
proof -
  have keep: "v_taken (after (map Fetched starts) w) = v_taken w" for w
    by (induction starts rule: rev_induct)
      (simp_all add: after_snoc after_def answerDemandsBefore_def Let_def)
  have "v_taken (snd (takeDemand at now v)) = at" using assms by (simp add: takeDemand_fields)
  with keep have "v_taken (after (map Fetched starts) (snd (takeDemand at now v))) = at" by simp
  then show ?thesis using assms by (simp add: takeDemand_fields takeDemand_again)
qed

theorem a_demand_acts_once_witness:
  "\<not> fst (takeDemand 7 9 (after (map Fetched [8]) (snd (takeDemand 7 8
      (zero_volume ''v'' defaultAttributes readOnlyClaim [''v''])))))"
  using a_demand_acts_once[of 7 8 "zero_volume ''v'' defaultAttributes readOnlyClaim [''v'']" 9 "[8]"]
  by (simp add: takeDemand_def zero_volume_def Let_def)

text \<open>
  The size guard posts one Event per file: the reported paths are those of this pass
  that the pass before did not hold, a path that stays is not reported again, and a path that went
  away and came back is.
\<close>

theorem skipped_paths_are_reported_once:
  "(let (fresh, v1) = reportSkipped earlier v; (again, v2) = reportSkipped later v1 in
     (\<forall>one\<in>set again. ch_path one \<notin> ch_path ` set earlier) \<and>
     (\<forall>one\<in>set later. ch_path one \<notin> ch_path ` set earlier \<longrightarrow> one \<in> set again) \<and>
     set again \<subseteq> set later \<and> pushing v2 = (v_unpushed v, v_lastPush v, length later))"
  by (auto simp: reportSkipped_def pushing_def)

theorem skipped_paths_are_reported_once_witness:
  "fst (reportSkipped [\<lparr>ch_path = ''big'', ch_size = 9\<rparr>]
      (snd (reportSkipped [] (zero_volume ''v'' defaultAttributes writeableVolume [''v''])))) =
    [\<lparr>ch_path = ''big'', ch_size = 9\<rparr>]"
  using skipped_paths_are_reported_once[of "[]" "zero_volume ''v'' defaultAttributes writeableVolume [''v'']"
      "[\<lparr>ch_path = ''big'', ch_size = 9\<rparr>]"]
  by (simp add: reportSkipped_def zero_volume_def)

end
