(* ===== verification/World.thy ===== *)
theory World
  imports Volume "HOL-Library.State_Monad"
begin

section \<open>The driver's state and the outside world (\<open>git.go\<close>, \<open>events.go\<close>, \<open>node.go\<close>)\<close>

text \<open>
  One record holds what the driver and the node it runs on keep: the file system, git's own state,
  the log of the git calls, the mounts, the Events posted, the metrics calls, a heap of volumes, and
  the node's maps, whose values are references into that heap. An operation is a state
  transformer on that record (\<open>State_Monad\<close>), so it reads as the code does.

  What is not in the repository is a parameter: a record of functions that say what git, the kernel,
  the clock and the API server answer. Every theorem holds for all of them. Nothing is assumed
  of git at all: it may answer anything and change any file.
\<close>

subsection \<open>The outside\<close>

record gitOutput =
  out_stdout :: string
  out_stderr :: string
  out_code :: int

datatype osCall = CallRead path | CallWrite path string | CallMkdir path | CallRemove path
  | CallRemoveAll path | CallStat path | CallReadDir path | CallRename path path | CallChmod path
  | CallChown path

text \<open>
  The kernel can refuse a call. A refused write may have written a part of the file, and a refused
  removal of a tree may have removed a part of it.
\<close>

datatype partial = Untouched | Cut_short nat | Left "path list"

record fault =
  fa_reason :: string
  fa_effect :: partial

datatype mountCall = Mount string string | Remount string string | Unmount string

datatype mountError = EINVAL | ENOENT | OtherError string

datatype eventType = Normal | Warning

datatype involved = OnPod podReference | OnClaim claimReference

record posted =
  po_object :: involved
  po_type :: eventType
  po_reason :: string
  po_message :: msg
  po_time :: time

text \<open>
  One published volume as the store holds it (\<open>records.go\<close>). Go's JSON package writes and reads the
  text. And what the API server holds of one class: whose it is, and its parameters.
\<close>

record volumeRecord =
  rc_VolumeID :: string
  rc_Attributes :: "(string \<times> string) list"
  rc_Target :: string
  rc_Targets :: "string list"
  rc_Staging :: string
  rc_Ephemeral :: bool
  rc_Kind :: string
  rc_Credentials :: bool

record attributesClass =
  ac_driver :: string
  ac_parameters :: "(string \<times> string) list"

record 'g outside =
  o_git :: "path \<Rightarrow> string list \<Rightarrow> string list \<Rightarrow> files \<times> 'g \<Rightarrow> (gitOutput \<times> string option) \<times> files \<times> 'g"
  o_refuse :: "nat \<Rightarrow> osCall \<Rightarrow> fault option"
  o_mount :: "nat \<Rightarrow> mountCall \<Rightarrow> mountError option"
  o_clock :: "nat \<Rightarrow> time"
  o_PATH :: string
  o_owner :: owner
  o_root :: bool
  o_store :: path
  o_sha256 :: "string \<Rightarrow> string"
  o_cluster :: bool
  o_posts :: "nat \<Rightarrow> posted \<Rightarrow> bool"
  o_volumes :: "nat \<Rightarrow> string + persistentVolume list"
  o_held :: "nat \<Rightarrow> persistentVolume list option"
  o_rfc3339 :: "time \<Rightarrow> string"
  o_parse_time :: "string \<Rightarrow> time option"
  o_demandMin :: duration
  o_quiesce :: duration
  o_sweepAfter :: duration
  o_mountinfo :: "nat \<Rightarrow> string option"
  o_json :: "volumeRecord \<Rightarrow> string"
  o_unjson :: "string \<Rightarrow> volumeRecord option"
  o_class :: "nat \<Rightarrow> string \<Rightarrow> string + attributesClass"
  o_quantity :: "string \<Rightarrow> int option"

subsection \<open>The state\<close>

record gitCall =
  g_dir :: path
  g_env :: "string list"
  g_args :: "string list"
  g_output :: gitOutput
  g_error :: "string option"

datatype metric = Recorded volume | Health volume bool | PushFailed volume | Demanded volume
  | Forgotten volume | FetchTimed string bool | StoreBytes int

record abandonedTree =
  ab_id :: string
  ab_unstaged :: time

text \<open>One fetch loop: the volumes on it, the ones that wait for a pass, and its three wakes.\<close>

record follower =
  fl_volumes :: "(string \<times> nat) list"
  fl_wanted :: "(string \<times> nat) list"
  fl_lastPull :: time
  fl_backoff :: duration
  fl_wake :: bool
  fl_demanded :: bool
  fl_arrived :: bool

text \<open>One watch on a published work tree: its volume, its rest, the last write, and its three wakes.\<close>

record watcher =
  wt_volume :: nat
  wt_quiesce :: duration
  wt_written :: time
  wt_changes :: bool
  wt_arrived :: bool
  wt_classed :: bool

record 'g world =
  w_files :: files
  w_git :: 'g
  w_calls :: nat
  w_log :: "gitCall list"
  w_mounts :: "(string \<times> bool) list"
  w_events :: "posted list"
  w_metrics :: "metric list"
  w_heap :: "nat \<Rightarrow> volume"
  w_next :: nat
  n_volumes :: "(string \<times> nat) list"
  n_staged :: "(string \<times> nat) list"
  n_followers :: "(string \<times> follower) list"
  n_watchers :: "(string \<times> watcher) list"
  n_armings :: "(string \<times> nat) list"
  n_abandoned :: "(string \<times> abandonedTree) list"
  n_kept :: "(string \<times> time) list"
  n_seen :: "(string \<times> time) list"

type_synonym ('g, 'a) io = "('g world, 'a) state"

abbreviation gets :: "('s \<Rightarrow> 'a) \<Rightarrow> ('s, 'a) state" where
  "gets f \<equiv> State (\<lambda>s. (f s, s))"

abbreviation modify :: "('s \<Rightarrow> 's) \<Rightarrow> ('s, unit) state" where
  "modify f \<equiv> State (\<lambda>s. ((), f s))"

abbreviation return :: "'a \<Rightarrow> ('s, 'a) state" where
  "return \<equiv> State_Monad.return"

subsection \<open>Errors, loops, and volumes by reference\<close>

text \<open>
  Go's \<open>if err := m; err != nil { return err }\<close> for a call that answers an error alone, and for one
  that answers a value or an error.
\<close>

definition unless_failed :: "('s, 'e option) state \<Rightarrow> ('s, 'e option) state \<Rightarrow> ('s, 'e option) state" where
  "unless_failed m k = do {
     failed \<leftarrow> m;
     case failed of Some err \<Rightarrow> return (Some err) | None \<Rightarrow> k
   }"

definition bind_ok :: "('s, 'e + 'a) state \<Rightarrow> ('a \<Rightarrow> ('s, 'e + 'b) state) \<Rightarrow> ('s, 'e + 'b) state" where
  "bind_ok m k = do {
     answer \<leftarrow> m;
     case answer of Inl err \<Rightarrow> return (Inl err) | Inr x \<Rightarrow> k x
   }"

primrec for_each :: "('a \<Rightarrow> ('s, unit) state) \<Rightarrow> 'a list \<Rightarrow> ('s, unit) state" where
  "for_each f [] = return ()"
| "for_each f (x # xs) = do { f x; for_each f xs }"

text \<open>A loop whose body can return early with an error.\<close>

primrec each_or_fail :: "('a \<Rightarrow> ('s, 'e option) state) \<Rightarrow> 'a list \<Rightarrow> ('s, 'e option) state" where
  "each_or_fail f [] = return None"
| "each_or_fail f (x # xs) = unless_failed (f x) (each_or_fail f xs)"

definition volume_at :: "nat \<Rightarrow> ('g, volume) io" where
  "volume_at r = gets (\<lambda>w. w_heap w r)"

definition change_volume :: "nat \<Rightarrow> (volume \<Rightarrow> volume) \<Rightarrow> ('g, unit) io" where
  "change_volume r f = modify (\<lambda>w. w\<lparr>w_heap := (w_heap w)(r := f (w_heap w r))\<rparr>)"

definition on_volume :: "nat \<Rightarrow> (volume \<Rightarrow> 'a \<times> volume) \<Rightarrow> ('g, 'a) io" where
  "on_volume r f = State (\<lambda>w. let (x, v) = f (w_heap w r) in (x, w\<lparr>w_heap := (w_heap w)(r := v)\<rparr>))"

definition new_volume :: "volume \<Rightarrow> ('g, nat) io" where
  "new_volume v = State (\<lambda>w. (w_next w, w\<lparr>w_heap := (w_heap w)(w_next w := v), w_next := Suc (w_next w)\<rparr>))"

subsection \<open>The clock, the kernel, and the mounts\<close>

definition time_now :: "'g outside \<Rightarrow> ('g, time) io" where
  "time_now out = State (\<lambda>w. (o_clock out (w_calls w), w\<lparr>w_calls := Suc (w_calls w)\<rparr>))"

definition partly :: "partial \<Rightarrow> osCall \<Rightarrow> owner \<Rightarrow> files \<Rightarrow> files" where
  "partly effect call own fs =
     (case (effect, call) of
        (Cut_short n, CallWrite p c) \<Rightarrow>
          (case os_write own p (take n c) 384 fs of Inl err \<Rightarrow> fs | Inr fs' \<Rightarrow> fs')
      | (Left kept, CallRemoveAll p) \<Rightarrow> filter (\<lambda>(q, n). \<not> prefix p q \<or> q \<in> set kept) fs
      | _ \<Rightarrow> fs)"

definition os_change :: "'g outside \<Rightarrow> osCall \<Rightarrow> (files \<Rightarrow> string + files) \<Rightarrow> ('g, string option) io" where
  "os_change out call f = State (\<lambda>w.
     let n = w_calls w; w = w\<lparr>w_calls := Suc n\<rparr> in
     case o_refuse out n call of
       Some refused \<Rightarrow> (Some (fa_reason refused),
         w\<lparr>w_files := partly (fa_effect refused) call (o_owner out) (w_files w)\<rparr>)
     | None \<Rightarrow> (case f (w_files w) of
           Inl err \<Rightarrow> (Some err, w)
         | Inr fs \<Rightarrow> (None, w\<lparr>w_files := fs\<rparr>)))"

definition os_ask :: "'g outside \<Rightarrow> osCall \<Rightarrow> (files \<Rightarrow> string + 'a) \<Rightarrow> ('g, string + 'a) io" where
  "os_ask out call f = State (\<lambda>w.
     let n = w_calls w; w = w\<lparr>w_calls := Suc n\<rparr> in
     case o_refuse out n call of
       Some refused \<Rightarrow> (Inl (fa_reason refused), w)
     | None \<Rightarrow> (f (w_files w), w))"

definition ReadFile :: "'g outside \<Rightarrow> path \<Rightarrow> ('g, string + string) io" where
  "ReadFile out p = os_ask out (CallRead p) (os_read p)"

definition WriteFile :: "'g outside \<Rightarrow> path \<Rightarrow> string \<Rightarrow> nat \<Rightarrow> ('g, string option) io" where
  "WriteFile out p c mode = os_change out (CallWrite p c) (os_write (o_owner out) p c mode)"

definition MkdirAll :: "'g outside \<Rightarrow> path \<Rightarrow> nat \<Rightarrow> ('g, string option) io" where
  "MkdirAll out p mode = os_change out (CallMkdir p) (os_mkdir_all (o_owner out) p mode)"

definition Remove :: "'g outside \<Rightarrow> path \<Rightarrow> ('g, string option) io" where
  "Remove out p = os_change out (CallRemove p) (os_remove p)"

definition RemoveAll :: "'g outside \<Rightarrow> path \<Rightarrow> ('g, string option) io" where
  "RemoveAll out p = os_change out (CallRemoveAll p) (os_remove_all p)"

definition Rename :: "'g outside \<Rightarrow> path \<Rightarrow> path \<Rightarrow> ('g, string option) io" where
  "Rename out p q = os_change out (CallRename p q) (os_rename p q)"

definition Chmod :: "'g outside \<Rightarrow> path \<Rightarrow> nat \<Rightarrow> ('g, string option) io" where
  "Chmod out p mode = os_change out (CallChmod p) (os_chmod p mode)"

definition Lchown :: "'g outside \<Rightarrow> path \<Rightarrow> int \<Rightarrow> int \<Rightarrow> ('g, string option) io" where
  "Lchown out p uid gid = os_change out (CallChown p) (os_lchown p uid gid)"

definition Stat :: "'g outside \<Rightarrow> path \<Rightarrow> ('g, string + fnode) io" where
  "Stat out p = os_ask out (CallStat p) (os_stat p)"

definition ReadDir :: "'g outside \<Rightarrow> path \<Rightarrow> ('g, string + string list) io" where
  "ReadDir out p = os_ask out (CallReadDir p) (os_read_dir p)"

subsection \<open>git\<close>

definition gitEnvironment :: "'g outside \<Rightarrow> string list" where
  "gitEnvironment out = [''PATH='' @ o_PATH out, ''GIT_CONFIG_GLOBAL=/dev/null'',
     ''GIT_CONFIG_SYSTEM=/dev/null'', ''GIT_TERMINAL_PROMPT=0'', ''LC_ALL=C'']"

definition gitReason :: "gitOutput \<Rightarrow> string \<Rightarrow> string" where
  "gitReason answer err =
     (let said = filter (\<lambda>l. l \<noteq> []) (map trim_space (split newline (out_stderr answer)))
      in if said = [] then err else join '' '' said)"

definition runGit ::
    "'g outside \<Rightarrow> path \<Rightarrow> string list \<Rightarrow> string list \<Rightarrow> ('g, gitOutput \<times> string option) io" where
  "runGit out dir env args = State (\<lambda>w.
     let ((answer, err), fs, git) = o_git out dir (gitEnvironment out @ env) args (w_files w, w_git w);
         said = map_option (\<lambda>e. ''git '' @ join '' '' args @ '': '' @ gitReason answer e) err
     in ((answer, said), w\<lparr>w_files := fs, w_git := git, w_log := w_log w @
          [\<lparr>g_dir = dir, g_env = gitEnvironment out @ env, g_args = args, g_output = answer, g_error = said\<rparr>]\<rparr>))"

text \<open>The newlines at the end of one line of output (\<open>store.go\<close>).\<close>

definition trimLine :: "string \<Rightarrow> string" where
  "trimLine s = rev (dropWhile (\<lambda>c. c = newline \<or> c = CHR 0x0D) (rev s))"

subsection \<open>Events\<close>

definition create_event :: "'g outside \<Rightarrow> involved \<Rightarrow> eventType \<Rightarrow> string \<Rightarrow> msg \<Rightarrow> ('g, unit) io" where
  "create_event out involved type reason message =
     (if \<not> o_cluster out then return ()
      else do {
        now \<leftarrow> time_now out;
        let event = \<lparr>po_object = involved, po_type = type, po_reason = reason, po_message = message, po_time = now\<rparr>;
        modify (\<lambda>w. if o_posts out (w_calls w) event then w\<lparr>w_events := w_events w @ [event]\<rparr> else w)
      })"

definition post :: "'g outside \<Rightarrow> podReference \<Rightarrow> eventType \<Rightarrow> string \<Rightarrow> msg \<Rightarrow> ('g, unit) io" where
  "post out pod type reason message =
     (if pod_name pod = [] \<or> pod_namespace pod = [] then return ()
      else create_event out (OnPod pod) type reason message)"

definition postClaim :: "'g outside \<Rightarrow> claimReference \<Rightarrow> eventType \<Rightarrow> string \<Rightarrow> msg \<Rightarrow> ('g, unit) io" where
  "postClaim out claim type reason message =
     (if cl_name claim = [] \<or> cl_namespace claim = [] then return ()
      else create_event out (OnClaim claim) type reason message)"

definition tell :: "'g outside \<Rightarrow> nat \<Rightarrow> eventType \<Rightarrow> string \<Rightarrow> msg \<Rightarrow> ('g, unit) io" where
  "tell out r type reason message = do {
     held \<leftarrow> volume_at r;
     if v_kind held \<noteq> readOnlyClaim then post out (podRef held) type reason message
     else do {
       for_each (\<lambda>pod. post out pod type reason message) (boundPods held);
       postClaim out (claimNow held) type reason message
     }
   }"

definition report_event ::
    "'g outside \<Rightarrow> nat \<Rightarrow> claimReference \<Rightarrow> eventType \<Rightarrow> string \<Rightarrow> msg \<Rightarrow> ('g, unit) io" where
  "report_event out r claim type reason message = do {
     held \<leftarrow> volume_at r;
     post out (podRef held) type reason message;
     postClaim out claim type reason message
   }"

text \<open>The metrics calls of \<open>metrics.go\<close>, which the theory of the metrics gives their meaning.\<close>

definition metric_call :: "metric \<Rightarrow> ('g, unit) io" where
  "metric_call m = modify (\<lambda>w. w\<lparr>w_metrics := w_metrics w @ [m]\<rparr>)"

definition noteHealth :: "'g outside \<Rightarrow> nat \<Rightarrow> ('g, unit) io" where
  "noteHealth out r = do {
     now \<leftarrow> time_now out;
     (abnormal, message, moved) \<leftarrow> on_volume r (takeHealth now);
     held \<leftarrow> volume_at r;
     metric_call (Health held abnormal)
   }"

definition record_metrics :: "nat \<Rightarrow> ('g, unit) io" where
  "record_metrics r = do {
     held \<leftarrow> volume_at r;
     metric_call (Recorded held)
   }"

definition timeFetch ::
    "string \<Rightarrow> ('g, string option) io \<Rightarrow> ('g, string option) io" where
  "timeFetch repo run = do {
     err \<leftarrow> run;
     metric_call (FetchTimed repo (err \<noteq> None));
     return err
   }"

subsection \<open>What an operation may do\<close>

text \<open>
  A bound on what an operation does to the state is a reflexive and transitive relation between the
  state before and after (\<open>state_io_rel\<close> of the library). Such a bound goes through every
  construct the operations are written with.
\<close>

named_theorems bound_rules \<open>bounds on the constructs and the primitive operations\<close>

locale step_bound =
  fixes R :: "'s \<Rightarrow> 's \<Rightarrow> bool"
  assumes stays: "R s s" and follows_on: "R s t \<Longrightarrow> R t u \<Longrightarrow> R s u"
begin

lemma bound_return: "state_io_rel R (return x)"
  by (simp add: state_io_rel_def stays)

lemma bound_gets: "state_io_rel R (gets f)"
  by (simp add: state_io_rel_def stays)

lemma bound_bind:
  "state_io_rel R m \<Longrightarrow> (\<And>x. state_io_rel R (k x)) \<Longrightarrow> state_io_rel R (m \<bind> k)"
  by (auto simp: state_io_rel_def split: prod.splits intro: follows_on)

lemma bound_unless_failed:
  "state_io_rel R m \<Longrightarrow> state_io_rel R k \<Longrightarrow> state_io_rel R (unless_failed m k)"
  unfolding unless_failed_def
  by (rule bound_bind) (auto split: option.splits simp: bound_return)

lemma bound_bind_ok:
  "state_io_rel R m \<Longrightarrow> (\<And>x. state_io_rel R (k x)) \<Longrightarrow> state_io_rel R (bind_ok m k)"
  unfolding bind_ok_def
  by (rule bound_bind) (auto split: sum.splits simp: bound_return)

lemma bound_for_each: "(\<And>x. x \<in> set xs \<Longrightarrow> state_io_rel R (f x)) \<Longrightarrow> state_io_rel R (for_each f xs)"
proof (induction xs)
  case Nil
  then show ?case by (simp add: bound_return)
next
  case (Cons x xs)
  then show ?case by (simp, intro bound_bind) auto
qed

lemma bound_each_or_fail:
  "(\<And>x. x \<in> set xs \<Longrightarrow> state_io_rel R (f x)) \<Longrightarrow> state_io_rel R (each_or_fail f xs)"
proof (induction xs)
  case Nil
  then show ?case by (simp add: bound_return)
next
  case (Cons x xs)
  then show ?case by (simp, intro bound_unless_failed) auto
qed

lemma bound_if: "(b \<Longrightarrow> state_io_rel R m) \<Longrightarrow> (\<not> b \<Longrightarrow> state_io_rel R k) \<Longrightarrow> state_io_rel R (if b then m else k)"
  by simp

lemma bound_let: "(\<And>x. x = e \<Longrightarrow> state_io_rel R (k x)) \<Longrightarrow> state_io_rel R (let x = e in k x)"
  by simp

lemma bound_prod: "(\<And>a b. p = (a, b) \<Longrightarrow> state_io_rel R (k a b)) \<Longrightarrow> state_io_rel R (case p of (a, b) \<Rightarrow> k a b)"
  by (cases p) simp

lemma bound_option:
  "(e = None \<Longrightarrow> state_io_rel R m) \<Longrightarrow> (\<And>x. e = Some x \<Longrightarrow> state_io_rel R (k x)) \<Longrightarrow>
   state_io_rel R (case e of None \<Rightarrow> m | Some x \<Rightarrow> k x)"
  by (cases e) simp_all

lemma bound_sum:
  "(\<And>x. e = Inl x \<Longrightarrow> state_io_rel R (m x)) \<Longrightarrow> (\<And>x. e = Inr x \<Longrightarrow> state_io_rel R (k x)) \<Longrightarrow>
   state_io_rel R (case e of Inl x \<Rightarrow> m x | Inr x \<Rightarrow> k x)"
  by (cases e) simp_all

lemma bound_traverse: "(\<And>x. state_io_rel R (f x)) \<Longrightarrow> state_io_rel R (traverse_list f xs)"
proof (induction xs)
  case Nil
  then show ?case by (simp add: bound_return)
next
  case (Cons x xs)
  then show ?case by (simp, intro bound_bind bound_return) auto
qed

lemmas bounds = bound_traverse bound_return bound_gets bound_bind bound_unless_failed bound_bind_ok bound_for_each
  bound_each_or_fail bound_if bound_let bound_prod bound_option bound_sum

end

text \<open>The first bound: every git call an operation makes is of a given form.\<close>

definition calls_in ::
    "(path \<Rightarrow> string list \<Rightarrow> string list \<Rightarrow> bool) \<Rightarrow> 'g world \<Rightarrow> 'g world \<Rightarrow> bool" where
  "calls_in Q w w' \<longleftrightarrow> (\<exists>cs. w_log w' = w_log w @ cs \<and> list_all (\<lambda>c. Q (g_dir c) (g_env c) (g_args c)) cs)"

interpretation calls: step_bound "calls_in Q" for Q :: "path \<Rightarrow> string list \<Rightarrow> string list \<Rightarrow> bool"
proof
  show "calls_in Q w w" for w :: "'g world" by (simp add: calls_in_def)
  show "calls_in Q w v" if "calls_in Q w u" "calls_in Q u v" for w u v :: "'g world"
    using that by (auto simp: calls_in_def)
qed

definition no_calls :: "'g world \<Rightarrow> 'g world \<Rightarrow> bool" where
  "no_calls w w' \<longleftrightarrow> w_log w' = w_log w"

interpretation silent: step_bound no_calls
  by unfold_locales (simp_all add: no_calls_def)

lemma silent_calls: "state_io_rel no_calls m \<Longrightarrow> state_io_rel (calls_in Q) m"
  by (auto simp: state_io_rel_def no_calls_def calls_in_def)

lemma silent_primitives:
  "state_io_rel no_calls (volume_at r)"
  "state_io_rel no_calls (change_volume r f)"
  "state_io_rel no_calls (on_volume r g)"
  "state_io_rel no_calls (new_volume v)"
  "state_io_rel no_calls (time_now out)"
  "state_io_rel no_calls (os_change out call h)"
  "state_io_rel no_calls (os_ask out call k)"
  "state_io_rel no_calls (metric_call m)"
  by (auto simp: state_io_rel_def no_calls_def volume_at_def change_volume_def on_volume_def
      new_volume_def time_now_def os_change_def os_ask_def metric_call_def Let_def
      split: prod.splits option.splits sum.splits)

text \<open>
  Most operations change nothing the driver keeps: the volumes, the node's maps and the mounts stay. \<open>untouched\<close>
  adds that no git call is made.
\<close>

definition apart :: "'g world \<Rightarrow> 'g world \<Rightarrow> bool" where
  "apart w w' \<longleftrightarrow> w_heap w' = w_heap w \<and> w_next w' = w_next w \<and> n_volumes w' = n_volumes w \<and>
     n_staged w' = n_staged w \<and> n_followers w' = n_followers w \<and> n_watchers w' = n_watchers w \<and>
     n_armings w' = n_armings w \<and> n_abandoned w' = n_abandoned w \<and> n_kept w' = n_kept w \<and> n_seen w' = n_seen w \<and>
     w_mounts w' = w_mounts w \<and> w_calls w \<le> w_calls w'"

definition untouched :: "'g world \<Rightarrow> 'g world \<Rightarrow> bool" where
  "untouched w w' \<longleftrightarrow> no_calls w w' \<and> apart w w'"

interpretation untouched: step_bound untouched
  by unfold_locales (simp_all add: untouched_def no_calls_def apart_def)

lemma untouched_primitives:
  "state_io_rel untouched (volume_at r)"
  "state_io_rel untouched (time_now out)"
  "state_io_rel untouched (os_change out call h)"
  "state_io_rel untouched (os_ask out call k)"
  "state_io_rel untouched (metric_call m)"
  by (auto simp: state_io_rel_def untouched_def no_calls_def apart_def volume_at_def
      time_now_def os_change_def os_ask_def metric_call_def Let_def
      split: prod.splits option.splits sum.splits)

lemma untouched_os:
  "state_io_rel untouched (ReadFile out p)"
  "state_io_rel untouched (WriteFile out p c mode)"
  "state_io_rel untouched (MkdirAll out p mode)"
  "state_io_rel untouched (Remove out p)"
  "state_io_rel untouched (RemoveAll out p)"
  "state_io_rel untouched (Rename out p q)"
  "state_io_rel untouched (Chmod out p mode)"
  "state_io_rel untouched (Lchown out p uid gid)"
  "state_io_rel untouched (Stat out p)"
  "state_io_rel untouched (ReadDir out p)"
  by (simp_all add: ReadFile_def WriteFile_def MkdirAll_def Remove_def RemoveAll_def Rename_def
      Chmod_def Lchown_def Stat_def ReadDir_def untouched_primitives)

lemma untouched_create_event: "state_io_rel untouched (create_event out involved type reason message)"
  unfolding create_event_def
  by (intro untouched.bounds untouched_primitives) (auto simp: state_io_rel_def untouched_def no_calls_def apart_def)

lemma untouched_reports:
  "state_io_rel untouched (post out pod type reason message)"
  "state_io_rel untouched (postClaim out claim type reason message)"
  "state_io_rel untouched (tell out r type reason message)"
  "state_io_rel untouched (report_event out r claim type reason message)"
  "state_io_rel untouched (record_metrics r)"
proof -
  show post: "state_io_rel untouched (post out pod type reason message)" for pod
    unfolding post_def by (intro untouched.bounds untouched_create_event)
  show claim: "state_io_rel untouched (postClaim out claim type reason message)" for claim
    unfolding postClaim_def by (intro untouched.bounds untouched_create_event)
  show "state_io_rel untouched (tell out r type reason message)"
    unfolding tell_def by (intro untouched.bounds untouched_primitives post claim)
  show "state_io_rel untouched (report_event out r claim type reason message)"
    unfolding report_event_def by (intro untouched.bounds untouched_primitives post claim)
  show "state_io_rel untouched (record_metrics r)"
    unfolding record_metrics_def by (intro untouched.bounds untouched_primitives)
qed

lemmas untouched_ops = untouched_primitives untouched_os untouched_reports

lemma untouched_silent: "state_io_rel untouched m \<Longrightarrow> state_io_rel no_calls m"
  by (simp add: state_io_rel_def untouched_def)

lemma silent_noteHealth: "state_io_rel no_calls (noteHealth out r)"
  unfolding noteHealth_def by (intro silent.bounds silent_primitives)

lemmas silent_ops = silent_primitives untouched_ops[THEN untouched_silent] silent_noteHealth

lemma runGit_calls:
  "Q dir (gitEnvironment out @ env) args \<Longrightarrow> state_io_rel (calls_in Q) (runGit out dir env args)"
  by (auto simp: state_io_rel_def calls_in_def runGit_def Let_def split: prod.splits)

text \<open>
  The second bound sorts the git calls by what they do. \<open>Moves\<close> are the calls that rewrite a tree a
  pod may hold, and \<open>Marks\<close> the ones that move the pushed mark.
\<close>

definition pushedRef :: string where "pushedRef = ''refs/git-csi/pushed''"

datatype kind = Asks | Fetches | Stages | Pushes | Marks | Moves | Refs | Scratches | Configures
  | Creates | Places | Collects

fun words :: "string list \<Rightarrow> string list" where
  "words [] = []"
| "words (a # rest) =
     (if prefix ''--git-dir='' a \<or> prefix ''--work-tree='' a then words rest
      else if a = ''-c'' then words (drop 1 rest) else a # rest)"

definition kind_of_words :: "string list \<Rightarrow> kind" where
  "kind_of_words ws =
     (case ws of [] \<Rightarrow> Asks
      | verb # rest \<Rightarrow>
          if verb = ''push'' then Pushes
          else if verb = ''fetch'' then Fetches
          else if verb = ''reset'' \<or> verb = ''read-tree'' then Moves
          else if verb = ''update-ref'' then (if take 1 rest = [pushedRef] then Marks else Refs)
          else if verb = ''add'' \<or> verb = ''commit'' then Stages
          else if verb = ''rebase'' \<or> verb = ''worktree'' then Scratches
          else if verb = ''config'' then (if take 1 rest = [''--get''] then Asks else Configures)
          else if verb = ''symbolic-ref'' then (if take 1 rest = [''--quiet''] then Asks else Creates)
          else if verb = ''init'' then Creates
          else if verb = ''checkout'' then Places
          else if verb = ''gc'' then Collects
          else if verb = ''hash-object'' \<or> verb = ''update-index'' \<or> verb = ''write-tree'' \<or> verb = ''commit-tree'' then Refs
          else Asks)"

definition kind_of :: "string list \<Rightarrow> kind" where
  "kind_of args = kind_of_words (words args)"

definition calls_of :: "kind set \<Rightarrow> 'g world \<Rightarrow> 'g world \<Rightarrow> bool" where
  "calls_of K w w' \<longleftrightarrow> (\<exists>cs. w_log w' = w_log w @ cs \<and> (\<forall>c\<in>set cs. kind_of (g_args c) \<in> K))"

interpretation kinds: step_bound "calls_of K" for K :: "kind set"
proof
  show "calls_of K w w" for w :: "'g world" by (simp add: calls_of_def)
  show "calls_of K w v" if "calls_of K w u" "calls_of K u v" for w u v :: "'g world"
    using that by (auto simp: calls_of_def)
qed

lemma silent_kinds: "state_io_rel no_calls m \<Longrightarrow> state_io_rel (calls_of K) m"
  by (auto simp: state_io_rel_def no_calls_def calls_of_def)

definition leaf :: "kind set \<Rightarrow> 'g world \<Rightarrow> 'g world \<Rightarrow> bool" where
  "leaf K w w' \<longleftrightarrow> calls_of K w w' \<and> apart w w'"

interpretation leaf: step_bound "leaf K" for K :: "kind set"
proof
  show "leaf K w w" for w :: "'g world" by (simp add: leaf_def apart_def kinds.stays)
  show "leaf K w v" if "leaf K w u" "leaf K u v" for w u v :: "'g world"
    using that kinds.follows_on[of K w u v] by (simp add: leaf_def apart_def)
qed

lemma untouched_leaf: "state_io_rel untouched m \<Longrightarrow> state_io_rel (leaf K) m"
  by (auto simp: state_io_rel_def untouched_def no_calls_def calls_of_def leaf_def)

lemma leaf_calls: "state_io_rel (leaf K) m \<Longrightarrow> state_io_rel (calls_of K) m"
  by (simp add: state_io_rel_def leaf_def)

lemma runGit_kinds: "kind_of args \<in> K \<Longrightarrow> state_io_rel (leaf K) (runGit out dir env args)"
  by (auto simp: state_io_rel_def leaf_def apart_def calls_of_def runGit_def Let_def split: prod.splits)

lemma timeFetch_kinds:
  "state_io_rel (leaf K) run \<Longrightarrow> state_io_rel (leaf K) (timeFetch repo run)"
  unfolding timeFetch_def by (intro leaf.bounds untouched_primitives[THEN untouched_leaf])

lemmas kind_rules = leaf.bounds untouched_ops[THEN untouched_leaf] runGit_kinds timeFetch_kinds
lemmas kind_simps = kind_of_def kind_of_words_def

text \<open>An invariant of the state is a bound too, and an operation that reads a volume may use it.\<close>

definition inv :: "('s \<Rightarrow> bool) \<Rightarrow> 's \<Rightarrow> 's \<Rightarrow> bool" where
  "inv I s s' \<longleftrightarrow> (I s \<longrightarrow> I s')"

interpretation inv: step_bound "inv I" for I
  by unfold_locales (auto simp: inv_def)

lemma inv_read:
  assumes "\<And>w. I w \<Longrightarrow> ok (w_heap w r)" and "\<And>held. ok held \<Longrightarrow> state_io_rel (inv I) (k held)"
  shows "state_io_rel (inv I) (volume_at r \<bind> k)"
  using assms by (auto simp: state_io_rel_def inv_def volume_at_def)

lemma inv_from:
  assumes "state_io_rel R m" and "\<And>w w'. I w \<Longrightarrow> R w w' \<Longrightarrow> I w'"
  shows "state_io_rel (inv I) m"
  using assms by (auto simp: state_io_rel_def inv_def)

lemma calls_of_other:
  assumes "state_io_rel (calls_of K) m" and "\<And>dir env args. kind_of args \<in> K \<Longrightarrow> Q dir env args"
  shows "state_io_rel (calls_in Q) m"
  using assms by (fastforce simp: state_io_rel_def calls_of_def calls_in_def list_all_iff)

subsection \<open>Pre- and postconditions\<close>

definition triple :: "('s \<Rightarrow> bool) \<Rightarrow> ('s, 'a) state \<Rightarrow> ('a \<Rightarrow> 's \<Rightarrow> bool) \<Rightarrow> bool" where
  "triple P m Q = (\<forall>s. P s \<longrightarrow> Q (fst (run_state m s)) (snd (run_state m s)))"

lemma tripleD: "triple P m Q \<Longrightarrow> P s \<Longrightarrow> run_state m s = (x, s') \<Longrightarrow> Q x s'"
  by (fastforce simp: triple_def)

lemma triple_return: "(\<And>s. P s \<Longrightarrow> Q x s) \<Longrightarrow> triple P (return x) Q"
  by (simp add: triple_def)

lemma triple_return_iff: "triple P (return x) Q \<longleftrightarrow> (\<forall>s. P s \<longrightarrow> Q x s)"
  by (simp add: triple_def)

lemma triple_bind: "triple P m R \<Longrightarrow> (\<And>x. triple (R x) (k x) Q) \<Longrightarrow> triple P (m \<bind> k) Q"
  by (simp add: triple_def case_prod_beta)

lemma triple_weaken:
  "triple P' m Q' \<Longrightarrow> (\<And>s. P s \<Longrightarrow> P' s) \<Longrightarrow> (\<And>x s. Q' x s \<Longrightarrow> Q x s) \<Longrightarrow> triple P m Q"
  by (simp add: triple_def)

text \<open>What a bound says of a predicate it preserves.\<close>

lemma triple_bound:
  "state_io_rel R m \<Longrightarrow> (\<And>s s'. P s \<Longrightarrow> R s s' \<Longrightarrow> Q s') \<Longrightarrow> triple P m (\<lambda>x. Q)"
  by (simp add: triple_def state_io_rel_def)

lemma triple_assume: "(b \<Longrightarrow> triple P m Q) \<Longrightarrow> triple (\<lambda>s. b \<and> P s) m Q"
  by (auto simp: triple_def)

text \<open>The same for the constructs that stop at an error: \<open>E\<close> holds where they stopped.\<close>

abbreviation ends :: "('e \<Rightarrow> 's \<Rightarrow> bool) \<Rightarrow> ('a \<Rightarrow> 's \<Rightarrow> bool) \<Rightarrow> 'e + 'a \<Rightarrow> 's \<Rightarrow> bool" where
  "ends E Q answer s \<equiv> (case answer of Inl err \<Rightarrow> E err s | Inr x \<Rightarrow> Q x s)"

abbreviation fails :: "('e \<Rightarrow> 's \<Rightarrow> bool) \<Rightarrow> ('s \<Rightarrow> bool) \<Rightarrow> 'e option \<Rightarrow> 's \<Rightarrow> bool" where
  "fails E Q answer s \<equiv> (case answer of Some err \<Rightarrow> E err s | None \<Rightarrow> Q s)"

lemma triple_bind_ok:
  assumes "triple P m (ends E R)" and "\<And>x. triple (R x) (k x) (ends E Q)"
  shows "triple P (bind_ok m k) (ends E Q)"
  unfolding bind_ok_def
proof (rule triple_bind[OF assms(1)])
  fix answer :: "'b + 'c"
  show "triple (ends E R answer) (case answer of Inl err \<Rightarrow> return (Inl err) | Inr x \<Rightarrow> k x) (ends E Q)"
    using assms(2) by (cases answer) (simp_all add: triple_return)
qed

lemma triple_unless_failed:
  assumes "triple P m (fails E R)" and "triple R k (fails E Q)"
  shows "triple P (unless_failed m k) (fails E Q)"
  unfolding unless_failed_def
proof (rule triple_bind[OF assms(1)])
  fix answer :: "'b option"
  show "triple (fails E R answer) (case answer of None \<Rightarrow> k | Some err \<Rightarrow> return (Some err)) (fails E Q)"
    using assms(2) by (cases answer) (simp_all add: triple_return)
qed

lemma triple_if: "(b \<Longrightarrow> triple P m Q) \<Longrightarrow> (\<not> b \<Longrightarrow> triple P k Q) \<Longrightarrow> triple P (if b then m else k) Q"
  by simp

subsection \<open>An outside for the examples\<close>

text \<open>
  A node where the kernel refuses nothing, git answers every call with the same output, and no
  cluster is there. The witnesses of the properties run the operations on it.
\<close>

definition still_outside :: "gitOutput \<Rightarrow> string option \<Rightarrow> unit outside" where
  "still_outside answer err = \<lparr>o_git = (\<lambda>dir env args (fs, g). ((answer, err), fs, g)),
     o_refuse = (\<lambda>n call. None), o_mount = (\<lambda>n call. None), o_clock = (\<lambda>n. int n), o_PATH = ''/bin'',
     o_owner = \<lparr>ow_uid = 0, ow_gid = 0\<rparr>, o_root = True, o_store = [''store''], o_sha256 = (\<lambda>s. ''sum''),
     o_cluster = False, o_posts = (\<lambda>n e. True), o_volumes = (\<lambda>n. Inr []), o_held = (\<lambda>n. None),
     o_rfc3339 = (\<lambda>t. ''now''), o_parse_time = (\<lambda>s. Some 1),
     o_demandMin = 10 * second, o_quiesce = 30 * second, o_sweepAfter = 720 * hour,
     o_mountinfo = (\<lambda>n. Some []), o_json = rc_VolumeID, o_unjson = (\<lambda>s. None),
     o_class = (\<lambda>n name. Inl ''not found''), o_quantity = (\<lambda>q. None)\<rparr>"

definition output_of :: "string \<Rightarrow> gitOutput" where
  "output_of text = \<lparr>out_stdout = text, out_stderr = [], out_code = 0\<rparr>"

definition dir_node :: fnode where
  "dir_node = \<lparr>fn_content = Directory, fn_mode = 448, fn_uid = 0, fn_gid = 0, fn_inode = 1\<rparr>"

definition world_of :: "files \<Rightarrow> volume \<Rightarrow> unit world" where
  "world_of fs v = \<lparr>w_files = fs, w_git = (), w_calls = 0, w_log = [], w_mounts = [], w_events = [],
     w_metrics = [], w_heap = (\<lambda>r. v), w_next = 1, n_volumes = [], n_staged = [], n_followers = [],
     n_watchers = [], n_armings = [], n_abandoned = [], n_kept = [], n_seen = []\<rparr>"

lemmas example_simps = still_outside_def output_of_def dir_node_def world_of_def

end
