(* ===== verification/Window.thy ===== *)
theory Window
  imports World
begin

section \<open>The credential window (\<open>credentials.go\<close>: \<open>use\<close>)\<close>

text \<open>
  Around a git call the driver writes the credential's files into the volume's directory, names them
  in the environment, and removes them after. \<open>use\<close> answers the environment and the files that the
  function it returns in the code removes; \<open>remove_written\<close> is that function.
\<close>

definition privateKeyFile :: string where "privateKeyFile = ''ssh-privatekey''"
definition knownHostsFile :: string where "knownHostsFile = ''known_hosts''"
definition helperFile :: string where "helperFile = ''credential-helper''"

definition remove_written :: "'g outside \<Rightarrow> path list \<Rightarrow> ('g, unit) io" where
  "remove_written out written = for_each (\<lambda>p. do { _ \<leftarrow> Remove out p; return () }) written"

text \<open>One file of the window. A write that fails removes the files before it and ends \<open>use\<close>.\<close>

definition write_secret ::
    "'g outside \<Rightarrow> path \<Rightarrow> string \<Rightarrow> nat \<Rightarrow> path list \<Rightarrow> ('g, string + path list) io" where
  "write_secret out p c mode written = do {
     failed \<leftarrow> WriteFile out p c mode;
     case failed of
       Some err \<Rightarrow> do { remove_written out written; return (Inl err) }
     | None \<Rightarrow> return (Inr (written @ [p]))
   }"

definition use ::
    "'g outside \<Rightarrow> credentials option \<Rightarrow> path \<Rightarrow> ('g, string + (string list \<times> path list)) io" where
  "use out holder dir =
     (case holder of
        None \<Rightarrow> return (Inr ([], []))
      | Some c \<Rightarrow>
          bind_ok
            (if cr_privateKey c = [] then return (Inr ([], []))
             else let key = join_path dir privateKeyFile; hosts = join_path dir knownHostsFile in
               bind_ok (write_secret out key (endWithNewline (cr_privateKey c)) 384 []) (\<lambda>written.
               bind_ok (write_secret out hosts (cr_knownHosts c) 384 written) (\<lambda>written.
               return (Inr ([''GIT_SSH_COMMAND='' @
                 sshCommand (show_path key) (show_path hosts) (cr_knownHosts c \<noteq> [])], written)))))
            (\<lambda>(env, written).
              if cr_token c = [] then return (Inr (env, written))
              else let helper = join_path dir helperFile in
                bind_ok (write_secret out helper (credentialHelper (cr_username c) (cr_token c)) 448 written)
                (\<lambda>written. return (Inr (env @ [''GIT_CONFIG_COUNT=1'', ''GIT_CONFIG_KEY_0=credential.helper'',
                   ''GIT_CONFIG_VALUE_0='' @ show_path helper], written)))))"

subsection \<open>Lemmas\<close>

lemma silent_window:
  "state_io_rel untouched (remove_written out written)"
  "state_io_rel untouched (write_secret out p c mode written)"
  "state_io_rel untouched (use out holder dir)"
proof -
  show remove: "state_io_rel untouched (remove_written out written)" for written :: "path list"
    unfolding remove_written_def by (intro untouched.bounds untouched_os)
  show "state_io_rel untouched (write_secret out p c mode written)" for p c mode written
    unfolding write_secret_def by (intro untouched.bounds untouched_os remove)
  then show "state_io_rel untouched (use out holder dir)"
    unfolding use_def by (intro untouched.bounds)
qed

text \<open>A file that holds bytes.\<close>

definition holds_bytes :: "files \<Rightarrow> path \<Rightarrow> bool" where
  "holds_bytes fs p = (case look fs p of None \<Rightarrow> False | Some n \<Rightarrow> fn_content n \<noteq> Directory)"

text \<open>The kernel refused the call at some point between two states.\<close>

definition refused_in :: "'g outside \<Rightarrow> 'g world \<Rightarrow> 'g world \<Rightarrow> osCall \<Rightarrow> bool" where
  "refused_in out w w' call \<longleftrightarrow> (\<exists>n. w_calls w \<le> n \<and> n < w_calls w' \<and> o_refuse out n call \<noteq> None)"

lemma refused_wider:
  "refused_in out w w' call \<Longrightarrow> w_calls u \<le> w_calls w \<Longrightarrow> w_calls w' \<le> w_calls v \<Longrightarrow> refused_in out u v call"
  unfolding refused_in_def by (meson le_trans less_le_trans)

lemma Remove_files:
  assumes "run_state (Remove out p) w = (x, w')"
  shows "w_calls w' = Suc (w_calls w)" and "holds_bytes (w_files w') q \<Longrightarrow>
    holds_bytes (w_files w) q \<and> (q = p \<longrightarrow> refused_in out w w' (CallRemove p))"
  using assms
  by (auto simp: Remove_def os_change_def os_remove_def Let_def holds_bytes_def partly_def refused_in_def
      split: option.splits sum.splits if_splits partial.splits)

lemma remove_written_files:
  "w_calls w \<le> w_calls (snd (run_state (remove_written out written) w)) \<and>
   (holds_bytes (w_files (snd (run_state (remove_written out written) w))) q \<longrightarrow> holds_bytes (w_files w) q \<and>
     (q \<in> set written \<longrightarrow> refused_in out w (snd (run_state (remove_written out written) w)) (CallRemove q)))"
proof (induction written arbitrary: w)
  case Nil
  then show ?case by (simp add: remove_written_def)
next
  case (Cons p written)
  obtain x w1 where one: "run_state (Remove out p) w = (x, w1)" by fastforce
  let ?w2 = "snd (run_state (remove_written out written) w1)"
  have rest: "snd (run_state (remove_written out (p # written)) w) = ?w2"
    by (simp add: remove_written_def one)
  note calls = Remove_files(1)[OF one]
  have "holds_bytes (w_files w) q \<and> (q \<in> set (p # written) \<longrightarrow> refused_in out w ?w2 (CallRemove q))"
    if "holds_bytes (w_files ?w2) q"
  proof -
    from Cons.IH[of w1] that have later: "holds_bytes (w_files w1) q" "q \<in> set written \<Longrightarrow> refused_in out w1 ?w2 (CallRemove q)"
      and grows: "w_calls w1 \<le> w_calls ?w2" by blast+
    from Remove_files(2)[OF one later(1)] have first: "holds_bytes (w_files w) q" "q = p \<Longrightarrow> refused_in out w w1 (CallRemove q)" by auto
    from first(2) later(2) grows calls show ?thesis
      using first(1) by (auto intro: refused_wider[of out w w1] refused_wider[of out w1 ?w2])
  qed
  with Cons.IH[of w1] calls show ?case unfolding rest by auto
qed

text \<open>
  What may lie on the disk since a state: the files that lay there, the ones written, one whose write the kernel
  refused, which it may have begun, and one it refused to remove.
\<close>

definition residue :: "'g outside \<Rightarrow> path list \<Rightarrow> 'g world \<Rightarrow> 'g world \<Rightarrow> bool" where
  "residue out written w w' \<longleftrightarrow> w_calls w \<le> w_calls w' \<and> (\<forall>q. holds_bytes (w_files w') q \<longrightarrow>
     holds_bytes (w_files w) q \<or> q \<in> set written \<or> (\<exists>c. refused_in out w w' (CallWrite q c)) \<or> refused_in out w w' (CallRemove q))"

lemma WriteFile_files:
  assumes "run_state (WriteFile out p c mode) w = (failed, w')"
  shows "w_calls w' = Suc (w_calls w)" and "holds_bytes (w_files w') q \<Longrightarrow> failed \<noteq> None \<or> q \<noteq> p \<Longrightarrow>
    holds_bytes (w_files w) q \<or> q = p \<and> refused_in out w w' (CallWrite p c)"
  using assms
  by (auto simp: WriteFile_def os_change_def os_write_def Let_def holds_bytes_def refused_in_def
      partly_def split: option.splits sum.splits if_splits content.splits partial.splits)

lemma residue_written:
  assumes "residue out written w0 w" and "run_state (WriteFile out p c mode) w = (failed, w')"
  shows "residue out (if failed = None then written @ [p] else written) w0 w'"
proof -
  note calls = WriteFile_files(1)[OF assms(2)]
  have grown: "refused_in out w0 w call \<Longrightarrow> refused_in out w0 w' call" "refused_in out w w' call \<Longrightarrow> refused_in out w0 w' call" for call
    using assms(1) calls by (auto simp: residue_def intro: refused_wider)
  have "holds_bytes (w_files w0) q \<or> q \<in> set (if failed = None then written @ [p] else written) \<or>
      (\<exists>c. refused_in out w0 w' (CallWrite q c)) \<or> refused_in out w0 w' (CallRemove q)" if "holds_bytes (w_files w') q" for q
  proof (cases "failed = None \<and> q = p")
    case False
    then have "failed \<noteq> None \<or> q \<noteq> p" by simp
    from WriteFile_files(2)[OF assms(2) that this]
    have "holds_bytes (w_files w) q \<or> q = p \<and> refused_in out w w' (CallWrite p c)" .
    moreover have "holds_bytes (w_files w) q \<Longrightarrow> holds_bytes (w_files w0) q \<or> q \<in> set written \<or>
        (\<exists>c. refused_in out w0 w (CallWrite q c)) \<or> refused_in out w0 w (CallRemove q)"
      using assms(1) by (simp add: residue_def)
    moreover have "set written \<subseteq> set (if failed = None then written @ [p] else written)" by auto
    ultimately show ?thesis using grown by blast
  qed simp
  with assms(1) calls show ?thesis by (simp add: residue_def)
qed

lemma residue_removed:
  assumes "residue out written w0 w"
  shows "residue out [] w0 (snd (run_state (remove_written out written) w))"
proof -
  let ?w' = "snd (run_state (remove_written out written) w)"
  have calls: "w_calls w \<le> w_calls ?w'" using remove_written_files[of w out written] by blast
  have grown: "refused_in out w0 w call \<Longrightarrow> refused_in out w0 ?w' call" "refused_in out w ?w' call \<Longrightarrow> refused_in out w0 ?w' call" for call
    using assms calls by (auto simp: residue_def intro: refused_wider)
  have "holds_bytes (w_files w0) q \<or> (\<exists>c. refused_in out w0 ?w' (CallWrite q c)) \<or> refused_in out w0 ?w' (CallRemove q)"
    if "holds_bytes (w_files ?w') q" for q
  proof -
    from remove_written_files[of w out written q] that have "holds_bytes (w_files w) q"
      "q \<in> set written \<Longrightarrow> refused_in out w ?w' (CallRemove q)" by blast+
    moreover from this(1) assms have "holds_bytes (w_files w0) q \<or> q \<in> set written \<or>
        (\<exists>c. refused_in out w0 w (CallWrite q c)) \<or> refused_in out w0 w (CallRemove q)" by (simp add: residue_def)
    ultimately show ?thesis using grown by blast
  qed
  with assms calls show ?thesis by (simp add: residue_def)
qed

definition secret_files :: "credentials option \<Rightarrow> path \<Rightarrow> path list" where
  "secret_files holder dir =
     (case holder of None \<Rightarrow> []
      | Some c \<Rightarrow> (if cr_privateKey c = [] then [] else [join_path dir privateKeyFile, join_path dir knownHostsFile]) @
          (if cr_token c = [] then [] else [join_path dir helperFile]))"

lemma write_secret_written:
  "run_state (write_secret out p c mode written) w = (Inr written', w') \<Longrightarrow> written' = written @ [p]"
  by (auto simp: write_secret_def split: prod.splits option.splits)

lemma run_bind_ok:
  "run_state (bind_ok m k) w = (case run_state m w of
     (Inl err, w') \<Rightarrow> (Inl err, w') | (Inr x, w') \<Rightarrow> run_state (k x) w')"
  by (auto simp: bind_ok_def split: prod.splits sum.splits)

lemma use_written:
  "run_state (use out holder dir) w = (Inr (env, written), w') \<Longrightarrow> written = secret_files holder dir"
  by (auto simp: use_def secret_files_def run_bind_ok Let_def dest!: write_secret_written
      split: option.splits if_splits prod.splits sum.splits)

lemma residue_refl: "residue out [] w w"
  by (simp add: residue_def)

lemma secret_step:
  "triple (residue out written w0) (write_secret out p c mode written)
    (ends (\<lambda>err. residue out [] w0) (\<lambda>written. residue out written w0))"
  unfolding triple_def
proof (intro allI impI)
  fix w assume pre: "residue out written w0 w"
  obtain answer w' where run: "run_state (write_secret out p c mode written) w = (answer, w')" by fastforce
  obtain failed w1 where w1: "run_state (WriteFile out p c mode) w = (failed, w1)" by fastforce
  note wrote = residue_written[OF pre w1]
  have "ends (\<lambda>err. residue out [] w0) (\<lambda>written. residue out written w0) answer w'"
  proof (cases failed)
    case None
    with run w1 have "answer = Inr (written @ [p])" "w' = w1" by (auto simp: write_secret_def)
    with wrote None show ?thesis by simp
  next
    case (Some err)
    with run w1 have "answer = Inl err" "w' = snd (run_state (remove_written out written) w1)"
      by (auto simp: write_secret_def split: prod.splits)
    with wrote Some residue_removed[of out written w0 w1] show ?thesis by simp
  qed
  with run show "ends (\<lambda>err. residue out [] w0) (\<lambda>written. residue out written w0)
      (fst (run_state (write_secret out p c mode written) w)) (snd (run_state (write_secret out p c mode written) w))" by (simp only: run fst_conv snd_conv)
qed

lemma use_new:
  "triple (\<lambda>w. w = w0) (use out holder dir) (ends (\<lambda>err. residue out [] w0) (\<lambda>answer. residue out (snd answer) w0))"
proof (cases holder)
  case None
  then show ?thesis by (simp add: use_def triple_return_iff residue_refl)
next
  case (Some c)
  note step = secret_step
  have start: "triple (\<lambda>w. w = w0) (write_secret out p c mode [])
      (ends (\<lambda>err. residue out [] w0) (\<lambda>written. residue out written w0))" for p c mode
    by (rule triple_weaken[OF step[of out "[]" w0]]) (auto simp: residue_refl)
  have key: "triple (\<lambda>w. w = w0)
      (if cr_privateKey c = [] then return (Inr ([], []))
       else let key = join_path dir privateKeyFile; hosts = join_path dir knownHostsFile in
         bind_ok (write_secret out key (endWithNewline (cr_privateKey c)) 384 []) (\<lambda>written.
         bind_ok (write_secret out hosts (cr_knownHosts c) 384 written) (\<lambda>written.
         return (Inr ([''GIT_SSH_COMMAND='' @
           sshCommand (show_path key) (show_path hosts) (cr_knownHosts c \<noteq> [])], written)))))
      (ends (\<lambda>err. residue out [] w0) (\<lambda>answer. residue out (snd answer) w0))"
    unfolding Let_def
    by (rule triple_if, simp add: triple_return_iff residue_refl)
      (rule triple_bind_ok[OF start], rule triple_bind_ok[OF step], simp add: triple_return_iff)
  show ?thesis
    unfolding use_def Some option.case
  proof (rule triple_bind_ok[OF key])
    fix answer :: "string list \<times> path list"
    obtain env written where "answer = (env, written)" by fastforce
    then show "triple (residue out (snd answer) w0)
        (case answer of (env, written) \<Rightarrow>
          if cr_token c = [] then return (Inr (env, written))
          else let helper = join_path dir helperFile in
            bind_ok (write_secret out helper (credentialHelper (cr_username c) (cr_token c)) 448 written)
            (\<lambda>written. return (Inr (env @ [''GIT_CONFIG_COUNT=1'', ''GIT_CONFIG_KEY_0=credential.helper'',
               ''GIT_CONFIG_VALUE_0='' @ show_path helper], written))))
        (ends (\<lambda>err. residue out [] w0) (\<lambda>answer. residue out (snd answer) w0))"
      by (auto simp: triple_return_iff Let_def intro!: triple_if triple_bind_ok[OF step])
  qed
qed

end
