(* ===== verification/Store.thy ===== *)
theory Store
  imports Window
begin

section \<open>The store and the bare repositories (\<open>store.go\<close>)\<close>

text \<open>
  The driver's directories on the node: one bare repository per URL under \<open>repos\<close>, and one directory
  per volume under \<open>volumes\<close>. The lock of a repository keeps a fetch and a publish of one URL apart;
  an operation here runs alone, so the lock has no state in the model.
\<close>

definition refPrefix :: string where "refPrefix = ''refs/git-csi/''"
definition repositoryURLFile :: string where "repositoryURLFile = ''url''"
definition nextTree :: string where "nextTree = ''next''"
definition placedFile :: string where "placedFile = ''commit''"

definition repository_of :: "'g outside \<Rightarrow> string \<Rightarrow> repository" where
  "repository_of out url =
     (let name = o_sha256 out url in
      \<lparr>r_url = url, r_name = name, r_dir = join_path (join_path (o_store out) ''repos'') name\<rparr>)"

definition volumeDir :: "'g outside \<Rightarrow> string \<Rightarrow> path" where
  "volumeDir out vid = join_path (join_path (o_store out) ''volumes'') vid"

definition repo_exists :: "'g outside \<Rightarrow> repository \<Rightarrow> ('g, bool) io" where
  "repo_exists out r = do {
     found \<leftarrow> Stat out (join_path (r_dir r) ''HEAD'');
     return (case found of Inl err \<Rightarrow> False | Inr n \<Rightarrow> True)
   }"

text \<open>A git call of which only the error counts.\<close>

definition git_step ::
    "'g outside \<Rightarrow> path \<Rightarrow> string list \<Rightarrow> string list \<Rightarrow> ('g, string option) io" where
  "git_step out dir env args = do {
     (answer, err) \<leftarrow> runGit out dir env args;
     return err
   }"

definition repo_create :: "'g outside \<Rightarrow> repository \<Rightarrow> ('g, string option) io" where
  "repo_create out r =
     unless_failed (MkdirAll out (r_dir r) 493)
     (unless_failed (git_step out (r_dir r) [] [''init'', ''--quiet'', ''--bare''])
     (WriteFile out (join_path (r_dir r) repositoryURLFile) (r_url r @ [newline]) 420))"

definition repo_fetch ::
    "'g outside \<Rightarrow> repository \<Rightarrow> string list \<Rightarrow> string \<Rightarrow> int \<Rightarrow> ('g, string option) io" where
  "repo_fetch out r env ref depth =
     (let args = [''fetch'', ''--quiet'', ''--no-tags''];
          args = (if depth > 0 then args @ [''--depth='' @ itoa depth] else args);
          args = args @ [r_url r, ''+'' @ ref @ '':'' @ refPrefix @ ref]
      in git_step out (r_dir r) env args)"

definition repo_resolve :: "'g outside \<Rightarrow> repository \<Rightarrow> string \<Rightarrow> ('g, string + string) io" where
  "repo_resolve out r ref = do {
     (answer, err) \<leftarrow> runGit out (r_dir r) []
       [''rev-parse'', ''--verify'', ''--end-of-options'', refPrefix @ ref @ ''^{commit}''];
     return (case err of Some e \<Rightarrow> Inl e | None \<Rightarrow> Inr (trimLine (out_stdout answer)))
   }"

definition index_of :: "path \<Rightarrow> path" where
  "index_of dir = butlast dir @ [last dir @ ''.index'']"

definition checkout :: "'g outside \<Rightarrow> repository \<Rightarrow> string \<Rightarrow> path \<Rightarrow> ('g, string option) io" where
  "checkout out r commit dir =
     unless_failed (MkdirAll out dir 493)
     (do {
       let index = index_of dir;
       err \<leftarrow> git_step out (r_dir r) [''GIT_INDEX_FILE='' @ show_path index]
         [''--work-tree='' @ show_path dir, ''-c'', ''core.bare=false'', ''checkout'', ''--force'', commit, ''--'', ''.''];
       _ \<leftarrow> Remove out index;
       return err
     })"

definition recordPlaced :: "'g outside \<Rightarrow> path \<Rightarrow> string \<Rightarrow> ('g, string option) io" where
  "recordPlaced out directory commit =
     (let next = join_path directory (placedFile @ ''.next'') in
      unless_failed (WriteFile out next (commit @ [newline]) 420)
      (Rename out next (join_path directory placedFile)))"

definition placedCommit :: "'g outside \<Rightarrow> path \<Rightarrow> ('g, string) io" where
  "placedCommit out directory = do {
     content \<leftarrow> ReadFile out (join_path directory placedFile);
     return (trimLine (case content of Inl err \<Rightarrow> [] | Inr c \<Rightarrow> c))
   }"

text \<open>
  Replacing a tree entry by entry. The directories nest, so the call descends at most as deep as the
  fuel, which is the depth of the arriving tree; where it ran out the result says so.
\<close>

definition no_fuel :: string where "no_fuel = ''the tree is deeper than the fuel''"

definition is_directory :: "fnode \<Rightarrow> bool" where
  "is_directory n = (fn_content n = Directory)"

definition entry_is_dir :: "path \<Rightarrow> ('g, bool) io" where
  "entry_is_dir p = gets (\<lambda>w. is_dir (w_files w) p)"

primrec replaceTree :: "nat \<Rightarrow> 'g outside \<Rightarrow> path \<Rightarrow> path \<Rightarrow> ('g, string option) io" where
  "replaceTree 0 out fresh published = return (Some no_fuel)"
| "replaceTree (Suc fuel) out fresh published = do {
     arriving \<leftarrow> ReadDir out fresh;
     case arriving of Inl err \<Rightarrow> return (Some err) | Inr arriving \<Rightarrow> do {
     standing \<leftarrow> ReadDir out published;
     case standing of Inl err \<Rightarrow> return (Some err) | Inr standing \<Rightarrow>
     unless_failed
       (each_or_fail (\<lambda>entry. if entry \<in> set arriving then return None
          else RemoveAll out (published @ [entry])) standing)
     (each_or_fail (\<lambda>entry. do {
          entry_dir \<leftarrow> entry_is_dir (fresh @ [entry]);
          there \<leftarrow> Stat out (published @ [entry]);
          case there of
            Inl err \<Rightarrow> Rename out (fresh @ [entry]) (published @ [entry])
          | Inr there_node \<Rightarrow>
              if entry_dir \<and> is_directory there_node
              then replaceTree fuel out (fresh @ [entry]) (published @ [entry])
              else if entry_dir \<noteq> is_directory there_node
              then unless_failed (RemoveAll out (published @ [entry]))
                (Rename out (fresh @ [entry]) (published @ [entry]))
              else Rename out (fresh @ [entry]) (published @ [entry])
          }) arriving) }}"

definition tree_depth :: "files \<Rightarrow> path \<Rightarrow> nat" where
  "tree_depth fs p = Suc (foldr (\<lambda>(q, n). max (length q - length p)) (below fs p) 0)"

definition arrive :: "'g outside \<Rightarrow> path \<Rightarrow> path \<Rightarrow> ('g, string option) io" where
  "arrive out fresh tree = do {
     found \<leftarrow> Stat out tree;
     case found of
       Inl err \<Rightarrow> Rename out fresh tree
     | Inr n \<Rightarrow> do {
         depth \<leftarrow> gets (\<lambda>w. tree_depth (w_files w) fresh);
         unless_failed (replaceTree depth out fresh tree)
           (do { _ \<leftarrow> RemoveAll out fresh; return None })
       }
   }"

definition place :: "'g outside \<Rightarrow> repository \<Rightarrow> string \<Rightarrow> path \<Rightarrow> path \<Rightarrow> ('g, string option) io" where
  "place out r commit directory tree =
     (let fresh = join_path directory nextTree in
      unless_failed (RemoveAll out fresh)
      (unless_failed (checkout out r commit fresh)
      (unless_failed (arrive out fresh tree)
      (recordPlaced out directory commit))))"

text \<open>The bytes of a tree's regular files.\<close>

definition os_tree_size :: "path \<Rightarrow> files \<Rightarrow> string + int" where
  "os_tree_size dir fs =
     (if look fs dir = None then Inl (os_error ''lstat'' dir noent)
      else Inr (sum_list (map (\<lambda>(q, n). case fn_content n of Regular c \<Rightarrow> int (length c) | _ \<Rightarrow> 0)
        (below fs dir))))"

definition treeSize :: "'g outside \<Rightarrow> path \<Rightarrow> ('g, string + int) io" where
  "treeSize out dir = os_ask out (CallStat dir) (os_tree_size dir)"

subsection \<open>The calls these operations make\<close>

lemma silent_window_kinds:
  "state_io_rel (leaf K) (remove_written out written)"
  "state_io_rel (leaf K) (use out holder dir)"
  by (simp_all add: silent_window untouched_leaf)

lemma git_step_kinds: "kind_of args \<in> K \<Longrightarrow> state_io_rel (leaf K) (git_step out dir env args)"
  unfolding git_step_def by (intro kind_rules)

lemma prefix_append_simp: "prefix p (p @ s)"
  by simp

lemma repo_exists_kinds: "state_io_rel (leaf K) (repo_exists out r)"
  unfolding repo_exists_def by (intro kind_rules)

lemma repo_create_kinds: "{Creates} \<subseteq> K \<Longrightarrow> state_io_rel (leaf K) (repo_create out r)"
  unfolding repo_create_def by (intro kind_rules git_step_kinds) (simp add: kind_simps)

lemma repo_fetch_kinds: "{Fetches} \<subseteq> K \<Longrightarrow> state_io_rel (leaf K) (repo_fetch out r env ref depth)"
  unfolding repo_fetch_def Let_def by (intro git_step_kinds) (simp add: kind_simps)

lemma repo_resolve_kinds: "{Asks} \<subseteq> K \<Longrightarrow> state_io_rel (leaf K) (repo_resolve out r ref)"
  unfolding repo_resolve_def by (intro kind_rules) (simp add: kind_simps)

lemma checkout_kinds: "{Places} \<subseteq> K \<Longrightarrow> state_io_rel (leaf K) (checkout out r commit dir)"
  unfolding checkout_def by (intro kind_rules git_step_kinds) (simp add: kind_simps)

lemmas repository_kinds = repo_exists_kinds repo_create_kinds repo_fetch_kinds repo_resolve_kinds
  checkout_kinds

lemma silent_entry_is_dir: "state_io_rel untouched (entry_is_dir p)"
  unfolding entry_is_dir_def by (rule untouched.bound_gets)

lemma silent_placing:
  "state_io_rel untouched (recordPlaced out directory commit)"
  "state_io_rel untouched (placedCommit out directory)"
  "state_io_rel untouched (replaceTree fuel out fresh published)"
  "state_io_rel untouched (arrive out fresh tree)"
  "state_io_rel untouched (treeSize out dir)"
proof -
  show replace: "state_io_rel untouched (replaceTree fuel out fresh published)" for fuel fresh published
    by (induction fuel arbitrary: fresh published)
      (simp_all only: replaceTree.simps, (intro untouched.bounds untouched_ops silent_entry_is_dir; blast?)+)
  show "state_io_rel untouched (recordPlaced out directory commit)"
    unfolding recordPlaced_def by (intro untouched.bounds untouched_ops)
  show "state_io_rel untouched (placedCommit out directory)"
    unfolding placedCommit_def by (intro untouched.bounds untouched_ops)
  show "state_io_rel untouched (arrive out fresh tree)"
    unfolding arrive_def by (intro untouched.bounds untouched_ops replace)
  show "state_io_rel untouched (treeSize out dir)"
    unfolding treeSize_def by (intro untouched_ops)
qed

lemma place_kinds: "{Places} \<subseteq> K \<Longrightarrow> state_io_rel (leaf K) (place out r commit directory tree)"
  unfolding place_def
  by (intro kind_rules repository_kinds silent_placing[THEN untouched_leaf])

end
