(* ===== verification/WorkTree.thy ===== *)
theory WorkTree
  imports Store
begin

section \<open>Work trees (\<open>worktree.go\<close>, and their methods in \<open>push.go\<close>, \<open>diverged.go\<close>, \<open>reconcile.go\<close>, \<open>commit.go\<close>)\<close>

text \<open>
  The tree a pod writes, the git directory beside it, and the git calls on them. Each method is one
  call or a short sequence of calls; what git answers is the outside's.
\<close>

definition alternatesFile :: string where "alternatesFile = ''objects/info/alternates''"
definition metadataRef :: string where "metadataRef = refPrefix @ ''metadata''"
definition divergedKey :: string where "divergedKey = ''git-csi.diverged''"
definition rejectionWords :: "string list" where
  "rejectionWords = [''rejected'', ''non-fast-forward'', ''fetch first'']"
definition excludeFile :: string where "excludeFile = ''info/exclude''"
definition stageBatch :: nat where "stageBatch = 100"
definition literalPathspecs :: "string list" where "literalPathspecs = [''GIT_LITERAL_PATHSPECS=1'']"
definition scratchTree :: string where "scratchTree = ''scratch''"

definition no_repository :: repository where
  "no_repository = \<lparr>r_url = [], r_name = [], r_dir = []\<rparr>"

definition tree_of :: "'g outside \<Rightarrow> string \<Rightarrow> workTree" where
  "tree_of out vid =
     (let directory = volumeDir out vid in
      \<lparr>w_repository = no_repository, w_directory = directory,
       w_gitDir = join_path directory ''git'', w_tree = join_path directory ''tree''\<rparr>)"

definition workTree_of :: "'g outside \<Rightarrow> repository \<Rightarrow> string \<Rightarrow> workTree" where
  "workTree_of out repo vid = (tree_of out vid)\<lparr>w_repository := repo\<rparr>"

subsection \<open>Calls\<close>

definition work_args :: "workTree \<Rightarrow> string list \<Rightarrow> string list" where
  "work_args w args = [''--git-dir='' @ show_path (w_gitDir w), ''--work-tree='' @ show_path (w_tree w)] @ args"

definition gitWith ::
    "'g outside \<Rightarrow> workTree \<Rightarrow> string list \<Rightarrow> string list \<Rightarrow> ('g, gitOutput \<times> string option) io" where
  "gitWith out w env args = runGit out (w_directory w) env (work_args w args)"

text \<open>A call of which only the error counts, and one of which the output counts when it worked.\<close>

definition work_step :: "'g outside \<Rightarrow> workTree \<Rightarrow> string list \<Rightarrow> string list \<Rightarrow> ('g, string option) io" where
  "work_step out w env args = do { (answer, err) \<leftarrow> gitWith out w env args; return err }"

definition work_ask :: "'g outside \<Rightarrow> workTree \<Rightarrow> string list \<Rightarrow> ('g, string + string) io" where
  "work_ask out w args = do {
     (answer, err) \<leftarrow> gitWith out w [] args;
     return (case err of Some e \<Rightarrow> Inl e | None \<Rightarrow> Inr (out_stdout answer))
   }"

definition alternate :: "'g outside \<Rightarrow> workTree \<Rightarrow> ('g, path option) io" where
  "alternate out w = do {
     content \<leftarrow> ReadFile out (join_path (w_gitDir w) alternatesFile);
     return (case content of Inl err \<Rightarrow> None | Inr c \<Rightarrow> Some (butlast (read_path (trimLine c))))
   }"

definition originURL :: "'g outside \<Rightarrow> workTree \<Rightarrow> ('g, string) io" where
  "originURL out w = do {
     bare \<leftarrow> alternate out w;
     case bare of None \<Rightarrow> return [] | Some dir \<Rightarrow> do {
       content \<leftarrow> ReadFile out (join_path dir repositoryURLFile);
       return (case content of Inl err \<Rightarrow> [] | Inr c \<Rightarrow> trimLine c)
     }
   }"

definition work_exists :: "'g outside \<Rightarrow> workTree \<Rightarrow> ('g, bool) io" where
  "work_exists out w = do {
     found \<leftarrow> Stat out (join_path (w_gitDir w) ''HEAD'');
     return (case found of Inl err \<Rightarrow> False | Inr n \<Rightarrow> True)
   }"

definition work_create :: "'g outside \<Rightarrow> workTree \<Rightarrow> string \<Rightarrow> string \<Rightarrow> ('g, string option) io" where
  "work_create out w ref commit =
     unless_failed (MkdirAll out (w_tree w) 493)
     (unless_failed (work_step out w [] [''init'', ''--quiet''])
     (let alternates = join_path (w_gitDir w) alternatesFile in
      unless_failed (MkdirAll out (butlast alternates) 493)
     (let objects = join_path (r_dir (w_repository w)) ''objects'' in
      unless_failed (WriteFile out alternates (show_path objects @ [newline]) 420)
     (unless_failed (work_step out w [] [''symbolic-ref'', ''HEAD'', ''refs/heads/'' @ ref])
     (work_step out w [] [''reset'', ''--hard'', ''--quiet'', commit])))))"

definition head_commit :: "'g outside \<Rightarrow> workTree \<Rightarrow> ('g, string + string) io" where
  "head_commit out w =
     bind_ok (work_ask out w [''rev-parse'', ''--verify'', ''--end-of-options'', ''HEAD''])
       (\<lambda>answer. return (Inr (trimLine answer)))"

definition refCommit :: "'g outside \<Rightarrow> workTree \<Rightarrow> string \<Rightarrow> ('g, string) io" where
  "refCommit out w ref = do {
     answer \<leftarrow> work_ask out w [''rev-parse'', ''--verify'', ''--quiet'', ''--end-of-options'', ref];
     return (case answer of Inl err \<Rightarrow> [] | Inr said \<Rightarrow> trimLine said)
   }"

definition followedRef :: "'g outside \<Rightarrow> workTree \<Rightarrow> ('g, string) io" where
  "followedRef out w = do {
     (answer, err) \<leftarrow> gitWith out w [] [''symbolic-ref'', ''--quiet'', ''HEAD''];
     return (fst (cut_prefix ''refs/heads/'' (trimLine (out_stdout answer))))
   }"

subsection \<open>Reports of git\<close>

definition zero_byte :: char where "zero_byte = CHR 0x00"

text \<open>The size of a path git named, and zero for a path that is no regular file.\<close>

definition sizeOf :: "'g outside \<Rightarrow> workTree \<Rightarrow> string \<Rightarrow> ('g, int) io" where
  "sizeOf out w name = do {
     info \<leftarrow> Stat out (join_path (w_tree w) name);
     return (case info of Inl err \<Rightarrow> 0
       | Inr n \<Rightarrow> (case fn_content n of Regular c \<Rightarrow> int (length c) | _ \<Rightarrow> 0))
   }"

text \<open>
  The paths of a \<open>-z\<close> report of \<open>git status\<close>: two status letters, a space, the path, and a second path
  after a rename or a copy, which the loop passes over.
\<close>

fun changed_names :: "string list \<Rightarrow> string list" where
  "changed_names [] = []"
| "changed_names (entry # entries) =
     (if length entry < 4 then changed_names entries
      else drop 3 entry # changed_names
        (if hd entry = CHR ''R'' \<or> hd entry = CHR ''C'' then drop 1 entries else entries))"

definition changes :: "'g outside \<Rightarrow> workTree \<Rightarrow> string \<Rightarrow> ('g, change list) io" where
  "changes out w answer =
     traverse_list (\<lambda>name. do {
       bytes \<leftarrow> sizeOf out w name;
       return \<lparr>ch_path = name, ch_size = bytes\<rparr>
     }) (changed_names (split zero_byte answer))"

definition pending :: "'g outside \<Rightarrow> workTree \<Rightarrow> ('g, string + change list) io" where
  "pending out w =
     bind_ok (work_ask out w [''status'', ''--porcelain'', ''-z'', ''--untracked-files=all''])
       (\<lambda>answer. do { found \<leftarrow> changes out w answer; return (Inr found) })"

definition splitZero :: "string \<Rightarrow> string list" where
  "splitZero answer = filter (\<lambda>entry. entry \<noteq> []) (split zero_byte answer)"

definition changedPaths :: "'g outside \<Rightarrow> workTree \<Rightarrow> string \<Rightarrow> string \<Rightarrow> ('g, string list) io" where
  "changedPaths out w old new = do {
     (answer, err) \<leftarrow> gitWith out w [] [''diff-tree'', ''-r'', ''-z'', ''--name-only'', ''--end-of-options'', old, new];
     return (splitZero (out_stdout answer))
   }"

definition unix_epoch :: time where "unix_epoch = 62135596800 * second"

definition commitTime :: "string \<Rightarrow> time" where
  "commitTime field = (case atoi field of None \<Rightarrow> 0 | Some seconds \<Rightarrow> unix_epoch + seconds * second)"

definition unpushed :: "'g outside \<Rightarrow> workTree \<Rightarrow> string \<Rightarrow> ('g, string + int \<times> time) io" where
  "unpushed out w ref =
     bind_ok (work_ask out w [''log'', ''--format=%ct'', ''--reverse'', ''--end-of-options'',
       pushedRef @ ''..refs/heads/'' @ ref])
       (\<lambda>answer. let times = Prelude.fields answer in
         return (Inr (if times = [] then (0, 0) else (int (length times), commitTime (hd times)))))"

subsection \<open>The mark, the pushes, the side branch\<close>

definition markPushed :: "'g outside \<Rightarrow> workTree \<Rightarrow> string \<Rightarrow> ('g, string option) io" where
  "markPushed out w commit = work_step out w [] [''update-ref'', pushedRef, commit]"

definition pushTo ::
    "'g outside \<Rightarrow> workTree \<Rightarrow> string list \<Rightarrow> string \<Rightarrow> string \<Rightarrow> string
     \<Rightarrow> ('g, gitOutput \<times> string option) io" where
  "pushTo out w env url ref remote = do {
     record \<leftarrow> refCommit out w metadataRef;
     let specs = [''refs/heads/'' @ ref @ '':refs/heads/'' @ remote];
     let specs = (if record \<noteq> [] then specs @ [metadataRef @ '':'' @ metadataRef] else specs);
     gitWith out w env ([''push'', ''--quiet'', url] @ specs)
   }"

definition fetchMetadata ::
    "'g outside \<Rightarrow> workTree \<Rightarrow> string list \<Rightarrow> string \<Rightarrow> string \<Rightarrow> ('g, string option) io" where
  "fetchMetadata out w env url into =
     work_step out w env [''fetch'', ''--quiet'', ''--no-tags'', url, ''+'' @ metadataRef @ '':'' @ into]"

definition sideBranch :: "string \<Rightarrow> string \<Rightarrow> string" where
  "sideBranch ref vid = ref @ ''.'' @ vid"

definition rejectedPush :: "gitOutput \<Rightarrow> bool" where
  "rejectedPush answer = list_ex (contains (out_stderr answer)) rejectionWords"

definition divergedBranch :: "'g outside \<Rightarrow> workTree \<Rightarrow> ('g, string) io" where
  "divergedBranch out w = do {
     answer \<leftarrow> work_ask out w [''config'', ''--get'', ''--'', divergedKey];
     return (case answer of Inl err \<Rightarrow> [] | Inr said \<Rightarrow> trimLine said)
   }"

definition markDiverged :: "'g outside \<Rightarrow> workTree \<Rightarrow> string \<Rightarrow> ('g, string option) io" where
  "markDiverged out w branch = work_step out w [] [''config'', ''--local'', ''--'', divergedKey, branch]"

definition clearDiverged :: "'g outside \<Rightarrow> workTree \<Rightarrow> ('g, string option) io" where
  "clearDiverged out w = work_step out w [] [''config'', ''--unset'', ''--'', divergedKey]"

definition deleteBranch ::
    "'g outside \<Rightarrow> workTree \<Rightarrow> string list \<Rightarrow> string \<Rightarrow> string \<Rightarrow> ('g, string option) io" where
  "deleteBranch out w env url branch =
     work_step out w env [''push'', ''--quiet'', url, '':refs/heads/'' @ branch]"

subsection \<open>Moving the tree\<close>

definition ancestor :: "'g outside \<Rightarrow> workTree \<Rightarrow> string \<Rightarrow> string \<Rightarrow> ('g, bool) io" where
  "ancestor out w old new = do {
     err \<leftarrow> work_step out w [] [''merge-base'', ''--is-ancestor'', ''--end-of-options'', old, new];
     return (err = None)
   }"

definition reset :: "'g outside \<Rightarrow> workTree \<Rightarrow> string \<Rightarrow> ('g, string option) io" where
  "reset out w commit = work_step out w [] [''reset'', ''--hard'', ''--quiet'', ''--end-of-options'', commit]"

definition removeScratch :: "'g outside \<Rightarrow> workTree \<Rightarrow> path \<Rightarrow> ('g, unit) io" where
  "removeScratch out w dir = do {
     _ \<leftarrow> work_step out w [] [''worktree'', ''remove'', ''--force'', ''--end-of-options'', show_path dir];
     _ \<leftarrow> RemoveAll out dir;
     _ \<leftarrow> work_step out w [] [''worktree'', ''prune''];
     return ()
   }"

definition scratch :: "'g outside \<Rightarrow> workTree \<Rightarrow> ('g, string + path) io" where
  "scratch out w = (let dir = join_path (w_directory w) scratchTree in do {
     removeScratch out w dir;
     err \<leftarrow> work_step out w [] [''worktree'', ''add'', ''--detach'', ''--quiet'', ''--end-of-options'', show_path dir, ''HEAD''];
     return (case err of Some e \<Rightarrow> Inl e | None \<Rightarrow> Inr dir)
   })"

definition take_tree :: "'g outside \<Rightarrow> workTree \<Rightarrow> string \<Rightarrow> string \<Rightarrow> ('g, string option) io" where
  "take_tree out w old new =
     unless_failed (work_step out w [] [''read-tree'', ''-m'', ''-u'', ''--end-of-options'', old, new])
     (do {
       ref \<leftarrow> followedRef out w;
       work_step out w [] [''update-ref'', ''refs/heads/'' @ ref, new]
     })"

subsection \<open>Staging and committing\<close>

definition exclude :: "'g outside \<Rightarrow> workTree \<Rightarrow> string list \<Rightarrow> ('g, string option) io" where
  "exclude out w patterns =
     (let file = join_path (w_gitDir w) excludeFile;
          content = (if patterns \<noteq> [] then join [newline] patterns @ [newline] else [])
      in do {
        standing \<leftarrow> ReadFile out file;
        if standing = Inr content then return None
        else unless_failed (MkdirAll out (butlast file) 493) (WriteFile out file content 420)
      })"

text \<open>\<open>slices.Chunk\<close>: the list in pieces of at most \<open>n\<close>, in order.\<close>

fun chunks :: "nat \<Rightarrow> 'a list \<Rightarrow> 'a list list" where
  "chunks n xs = (if xs = [] \<or> n = 0 then [] else take n xs # chunks n (drop n xs))"

declare chunks.simps [simp del]

definition staged_paths :: "'g outside \<Rightarrow> workTree \<Rightarrow> ('g, string + string list) io" where
  "staged_paths out w =
     bind_ok (work_ask out w [''diff'', ''--cached'', ''--name-only'', ''-z''])
       (\<lambda>answer. return (Inr (splitZero answer)))"

definition too_big :: "policy \<Rightarrow> change \<Rightarrow> bool" where
  "too_big rules one = (p_maxFileSize rules > 0 \<and> ch_size one > p_maxFileSize rules)"

definition stageChanges ::
    "'g outside \<Rightarrow> workTree \<Rightarrow> change list \<Rightarrow> policy \<Rightarrow> ('g, (string + string list) \<times> change list) io" where
  "stageChanges out w found rules =
     (let skipped = filter (too_big rules) found;
          paths = map ch_path (filter (\<lambda>one. \<not> too_big rules one) found)
      in do {
        failed \<leftarrow> each_or_fail (\<lambda>batch. work_step out w literalPathspecs ([''add'', ''--''] @ batch))
          (chunks stageBatch paths);
        case failed of
          Some err \<Rightarrow> return (Inl err, skipped)
        | None \<Rightarrow> do { staged \<leftarrow> staged_paths out w; return (staged, skipped) }
      })"

definition commit_message :: "string list \<Rightarrow> string" where
  "commit_message staged =
     ''Update '' @ itoa (int (length staged)) @ '' paths'' @ [newline, newline] @ join [newline] staged"

definition work_commit :: "'g outside \<Rightarrow> workTree \<Rightarrow> policy \<Rightarrow> string list \<Rightarrow> ('g, string option) io" where
  "work_commit out w rules staged =
     work_step out w (author rules) [''commit'', ''--quiet'', ''-m'', commit_message staged]"

subsection \<open>The calls these operations make\<close>

lemma words_work [simp]: "kind_of (work_args w args) = kind_of args"
  by (simp add: kind_of_def work_args_def)

lemma work_call_kinds:
  "kind_of args \<in> K \<Longrightarrow> state_io_rel (leaf K) (gitWith out w env args)"
  "kind_of args \<in> K \<Longrightarrow> state_io_rel (leaf K) (work_step out w env args)"
  "kind_of args \<in> K \<Longrightarrow> state_io_rel (leaf K) (work_ask out w args)"
  unfolding work_step_def work_ask_def gitWith_def
  by (auto intro!: leaf.bounds runGit_kinds)

lemma silent_work:
  "state_io_rel untouched (alternate out w)"
  "state_io_rel untouched (originURL out w)"
  "state_io_rel untouched (work_exists out w)"
  "state_io_rel untouched (sizeOf out w name)"
  "state_io_rel untouched (changes out w answer)"
  "state_io_rel untouched (exclude out w patterns)"
proof -
  show alternate: "state_io_rel untouched (alternate out w)"
    unfolding alternate_def by (intro untouched.bounds untouched_ops)
  show "state_io_rel untouched (originURL out w)"
    unfolding originURL_def by (intro untouched.bounds untouched_ops alternate)
  show "state_io_rel untouched (work_exists out w)"
    unfolding work_exists_def by (intro untouched.bounds untouched_ops)
  show size: "state_io_rel untouched (sizeOf out w name)" for name
    unfolding sizeOf_def by (intro untouched.bounds untouched_ops)
  show "state_io_rel untouched (changes out w answer)"
    unfolding changes_def by (intro untouched.bounds size)
  show "state_io_rel untouched (exclude out w patterns)"
    unfolding exclude_def Let_def by (intro untouched.bounds untouched_ops)
qed

lemma work_ask_kinds:
  assumes "{Asks} \<subseteq> K"
  shows "state_io_rel (leaf K) (head_commit out w)"
    "state_io_rel (leaf K) (refCommit out w ref)"
    "state_io_rel (leaf K) (pending out w)"
    "state_io_rel (leaf K) (changedPaths out w old new)"
    "state_io_rel (leaf K) (unpushed out w ref)"
    "state_io_rel (leaf K) (divergedBranch out w)"
    "state_io_rel (leaf K) (ancestor out w old new)"
    "state_io_rel (leaf K) (staged_paths out w)"
  using assms
  unfolding head_commit_def refCommit_def pending_def changedPaths_def unpushed_def
    divergedBranch_def ancestor_def staged_paths_def Let_def
  by (auto intro!: leaf.bounds work_call_kinds silent_work[THEN untouched_leaf] simp: kind_simps)

lemma work_step_kinds:
  "{Asks} \<subseteq> K \<Longrightarrow> state_io_rel (leaf K) (followedRef out w)"
  "{Creates, Moves} \<subseteq> K \<Longrightarrow> state_io_rel (leaf K) (work_create out w ref commit)"
  "{Marks} \<subseteq> K \<Longrightarrow> state_io_rel (leaf K) (markPushed out w commit)"
  "{Asks, Pushes} \<subseteq> K \<Longrightarrow> state_io_rel (leaf K) (pushTo out w env url ref remote)"
  "{Fetches} \<subseteq> K \<Longrightarrow> state_io_rel (leaf K) (fetchMetadata out w env url into)"
  "{Configures} \<subseteq> K \<Longrightarrow> state_io_rel (leaf K) (markDiverged out w branch)"
  "{Configures} \<subseteq> K \<Longrightarrow> state_io_rel (leaf K) (clearDiverged out w)"
  "{Pushes} \<subseteq> K \<Longrightarrow> state_io_rel (leaf K) (deleteBranch out w env url branch)"
  "{Moves} \<subseteq> K \<Longrightarrow> state_io_rel (leaf K) (reset out w commit)"
  "{Scratches} \<subseteq> K \<Longrightarrow> state_io_rel (leaf K) (removeScratch out w dir)"
  "{Scratches} \<subseteq> K \<Longrightarrow> state_io_rel (leaf K) (scratch out w)"
  "{Asks, Moves, Refs} \<subseteq> K \<Longrightarrow> state_io_rel (leaf K) (take_tree out w old new)"
  "{Asks, Stages} \<subseteq> K \<Longrightarrow> state_io_rel (leaf K) (stageChanges out w found rules)"
  "{Stages} \<subseteq> K \<Longrightarrow> state_io_rel (leaf K) (work_commit out w rules staged)"
  unfolding followedRef_def work_create_def markPushed_def pushTo_def fetchMetadata_def
    markDiverged_def clearDiverged_def deleteBranch_def reset_def removeScratch_def scratch_def
    take_tree_def stageChanges_def work_commit_def Let_def
  by (auto intro!: leaf.bounds work_call_kinds work_ask_kinds untouched_ops[THEN untouched_leaf]
      simp: kind_simps pushedRef_def)

lemmas work_kinds = work_ask_kinds work_step_kinds silent_work[THEN untouched_leaf]

subsection \<open>Lemmas on the reports and the batches\<close>

text \<open>One entry of \<open>git status --porcelain -z\<close>, as git documents it.\<close>

record status_entry =
  se_x :: char
  se_y :: char
  se_path :: string
  se_origin :: "string option"

definition show_entry :: "status_entry \<Rightarrow> string" where
  "show_entry e = [se_x e, se_y e, CHR '' ''] @ se_path e @ [zero_byte] @
     (case se_origin e of None \<Rightarrow> [] | Some origin \<Rightarrow> origin @ [zero_byte])"

definition entry_ok :: "status_entry \<Rightarrow> bool" where
  "entry_ok e \<longleftrightarrow> se_path e \<noteq> [] \<and> zero_byte \<notin> set (se_path e) \<and> se_x e \<noteq> zero_byte \<and> se_y e \<noteq> zero_byte \<and>
     (case se_origin e of None \<Rightarrow> se_x e \<noteq> CHR ''R'' \<and> se_x e \<noteq> CHR ''C''
      | Some origin \<Rightarrow> (se_x e = CHR ''R'' \<or> se_x e = CHR ''C'') \<and> zero_byte \<notin> set origin)"

lemma split_show_entry:
  "entry_ok e \<Longrightarrow> split zero_byte (show_entry e @ rest) =
   ([se_x e, se_y e, CHR '' ''] @ se_path e) #
     (case se_origin e of None \<Rightarrow> [] | Some origin \<Rightarrow> [origin]) @ split zero_byte rest"
proof -
  assume ok: "entry_ok e"
  have "zero_byte \<noteq> CHR '' ''" by (simp add: zero_byte_def)
  with ok have head: "zero_byte \<notin> set ([se_x e, se_y e, CHR '' ''] @ se_path e)"
    by (auto simp: entry_ok_def)
  show ?thesis
  proof (cases "se_origin e")
    case None
    then show ?thesis using split_append_sep[OF head, of rest] by (simp add: show_entry_def)
  next
    case (Some origin)
    with ok have "zero_byte \<notin> set origin" by (simp add: entry_ok_def)
    then show ?thesis
      using split_append_sep[OF head, of "origin @ zero_byte # rest"] split_append_sep[of zero_byte origin rest] Some
      by (simp add: show_entry_def)
  qed
qed

lemma changed_names_entries:
  "list_all entry_ok es \<Longrightarrow> changed_names (split zero_byte (concat (map show_entry es))) = map se_path es"
proof (induction es)
  case Nil
  then show ?case by simp
next
  case (Cons e es)
  then have ok: "entry_ok e" "se_path e \<noteq> []" by (auto simp: entry_ok_def)
  then have len: "\<not> length ([se_x e, se_y e, CHR '' ''] @ se_path e) < 4"
    by (cases "se_path e") auto
  show ?case
    using Cons ok len split_show_entry[OF ok(1), of "concat (map show_entry es)"]
    by (auto simp: entry_ok_def split: option.splits)
qed

definition path_piece :: "string \<Rightarrow> string option" where
  "path_piece s = (if s = [] then None else Some s)"

interpretation zeros: separated_entries zero_byte "\<lambda>p. p" path_piece
  "\<lambda>p. p \<noteq> [] \<and> zero_byte \<notin> set p"
  by unfold_locales (auto simp: path_piece_def)

lemma splitZero_reads: "splitZero s = read_pieces path_piece (split zero_byte s)"
proof -
  have "filter (\<lambda>entry. entry \<noteq> []) ps = read_pieces path_piece ps" for ps
    by (induction ps) (auto simp: path_piece_def)
  then show ?thesis by (simp add: splitZero_def)
qed

lemma concat_chunks: "0 < n \<Longrightarrow> concat (chunks n xs) = xs"
proof (induction n xs rule: chunks.induct)
  case (1 n xs)
  then show ?case by (subst chunks.simps) auto
qed

lemma chunks_length: "c \<in> set (chunks n xs) \<Longrightarrow> length c \<le> n"
proof (induction n xs rule: chunks.induct)
  case (1 n xs)
  show ?case
  proof (cases "xs = [] \<or> n = 0")
    case True
    with "1.prems" show ?thesis by (subst (asm) chunks.simps) auto
  next
    case False
    with "1.prems" have "c = take n xs \<or> c \<in> set (chunks n (drop n xs))"
      by (subst (asm) chunks.simps) auto
    with "1.IH"[OF False] show ?thesis by auto
  qed
qed

text \<open>The paths the \<open>git add\<close> calls of a log carry.\<close>

definition added :: "gitCall list \<Rightarrow> string list list" where
  "added cs = map (\<lambda>c. drop 2 (words (g_args c))) (filter (\<lambda>c. take 1 (words (g_args c)) = [''add'']) cs)"

lemma added_append: "added (cs @ ds) = added cs @ added ds"
  by (simp add: added_def)

lemma words_work_args: "words (work_args w args) = words args"
  by (simp add: work_args_def)

lemma add_batches_log:
  assumes "run_state (each_or_fail (\<lambda>batch. work_step out w env ([''add'', ''--''] @ batch)) batches) s = (failed, s')"
  shows "\<exists>cs. w_log s' = w_log s @ cs \<and> prefix (added cs) batches \<and> (failed = None \<longrightarrow> added cs = batches)"
  using assms
proof (induction batches arbitrary: s)
  case Nil
  then show ?case by (intro exI[of _ "[]"]) (simp add: added_def)
next
  case (Cons b batches)
  obtain err s1 where s1: "run_state (work_step out w env ([''add'', ''--''] @ b)) s = (err, s1)" by fastforce
  then obtain c where c: "w_log s1 = w_log s @ [c]" "added [c] = [b]"
    by (auto simp: work_step_def gitWith_def runGit_def Let_def added_def words_work_args split: prod.splits)
  show ?case
  proof (cases err)
    case None
    with Cons.prems s1 have "run_state (each_or_fail (\<lambda>batch. work_step out w env ([''add'', ''--''] @ batch)) batches) s1 = (failed, s')"
      by (simp add: unless_failed_def)
    from Cons.IH[OF this] obtain cs where "w_log s' = w_log s1 @ cs" "prefix (added cs) batches"
      "failed = None \<longrightarrow> added cs = batches" by blast
    with c show ?thesis
      by (intro exI[of _ "c # cs"]) (auto simp: added_append[of "[c]" cs, simplified])
  next
    case (Some e)
    with Cons.prems s1 c show ?thesis
      by (intro exI[of _ "[c]"]) (auto simp: unless_failed_def)
  qed
qed

subsection \<open>Properties\<close>

text \<open>
  The driver reads git's status report as git writes it: for every report of entries in
  the porcelain form, with paths of any bytes but zero, it finds each entry's own path, once and in
  order, and takes the old name of a rename or a copy for no path.
\<close>

theorem status_report_reads_back:
  assumes "list_all entry_ok es"
  shows "changed_names (split zero_byte (concat (map show_entry es))) = map se_path es"
  using assms by (rule changed_names_entries)

theorem status_report_reads_back_witness:
  "changed_names (split zero_byte (concat (map show_entry
      [\<lparr>se_x = CHR ''R'', se_y = CHR '' '', se_path = ''new name'', se_origin = Some ''old name''\<rparr>,
       \<lparr>se_x = CHR ''?'', se_y = CHR ''?'', se_path = ''b'', se_origin = None\<rparr>]))) = [''new name'', ''b'']"
  using status_report_reads_back[of "[\<lparr>se_x = CHR ''R'', se_y = CHR '' '', se_path = ''new name'', se_origin = Some ''old name''\<rparr>,
       \<lparr>se_x = CHR ''?'', se_y = CHR ''?'', se_path = ''b'', se_origin = None\<rparr>]"]
  by (simp add: entry_ok_def zero_byte_def)

text \<open>
  A list of paths git ends with zero bytes reads back as that list.
\<close>

theorem path_list_reads_back:
  assumes "\<forall>p\<in>set paths. p \<noteq> [] \<and> zero_byte \<notin> set p"
  shows "splitZero (concat (map (\<lambda>p. p @ [zero_byte]) paths)) = paths"
  unfolding splitZero_reads by (rule zeros.read_back) (use assms in blast)

theorem path_list_reads_back_witness:
  "splitZero (concat (map (\<lambda>p. p @ [zero_byte]) [''a b'', ''c''])) = [''a b'', ''c'']"
  by (rule path_list_reads_back) (simp add: zero_byte_def)

text \<open>
  Property C26. Staging loses no path and exceeds no command line. The size guard leaves out exactly
  the paths over the limit. Every \<open>git add\<close> carries at most a hundred paths; when staging works, the
  calls together carried every other path once and in order; when a call fails, the calls made so
  far carried the first of them.
\<close>

theorem staging_is_complete:
  assumes "run_state (stageChanges out w found rules) s = ((answer, skipped), s')"
  shows "\<exists>cs. w_log s' = w_log s @ cs \<and>
    skipped = filter (\<lambda>one. 0 < p_maxFileSize rules \<and> p_maxFileSize rules < ch_size one) found \<and>
    (\<forall>batch\<in>set (added cs). length batch \<le> 100) \<and>
    (let paths = map ch_path (filter (\<lambda>one. one \<notin> set skipped) found) in
      prefix (concat (added cs)) paths \<and> (\<forall>staged. answer = Inr staged \<longrightarrow> concat (added cs) = paths))"
proof -
  let ?paths = "map ch_path (filter (\<lambda>one. \<not> too_big rules one) found)"
  let ?adds = "each_or_fail (\<lambda>batch. work_step out w literalPathspecs ([''add'', ''--''] @ batch)) (chunks stageBatch ?paths)"
  obtain failed s1 where s1: "run_state ?adds s = (failed, s1)" by fastforce
  from add_batches_log[OF s1] obtain cs where cs: "w_log s1 = w_log s @ cs"
    "prefix (added cs) (chunks stageBatch ?paths)" "failed = None \<longrightarrow> added cs = chunks stageBatch ?paths" by blast
  have all: "concat (chunks stageBatch ?paths) = ?paths" by (rule concat_chunks) (simp add: stageBatch_def)
  from cs(2) obtain rest where rest: "chunks stageBatch ?paths = added cs @ rest" by (auto simp: prefix_def)
  have short: "\<forall>batch\<in>set (added cs). length batch \<le> 100"
    using chunks_length[of _ stageBatch ?paths] unfolding rest by (auto simp: stageBatch_def)
  have skipped: "skipped = filter (too_big rules) found" "failed = Some e \<Longrightarrow> answer = Inl e \<and> s' = s1"
    "failed = None \<Longrightarrow> (answer, s') = run_state (staged_paths out w) s1" for e
    using assms s1 by (auto simp: stageChanges_def Let_def split: prod.splits option.splits)
  have "\<exists>ds. w_log s' = w_log s @ cs @ ds \<and> added ds = []"
  proof (cases failed)
    case None
    with skipped(3) show ?thesis
      by (auto simp: cs(1) staged_paths_def bind_ok_def work_ask_def gitWith_def runGit_def Let_def
          added_def words_work_args split: prod.splits sum.splits option.splits)
  next
    case (Some e)
    with skipped(2) cs(1) show ?thesis by (intro exI[of _ "[]"]) (simp add: added_def)
  qed
  then obtain ds where ds: "w_log s' = w_log s @ cs @ ds" "added ds = []" by blast
  have paths: "map ch_path (filter (\<lambda>one. one \<notin> set skipped) found) = ?paths"
    unfolding skipped(1) by (rule arg_cong[where f = "map ch_path"], rule filter_cong) auto
  have "prefix (concat (added cs)) ?paths" using all unfolding rest by (metis concat_append prefixI)
  moreover have "concat (added cs) = ?paths" if "answer = Inr staged" for staged
    using cs(3) all skipped(2) that by (cases failed) auto
  ultimately show ?thesis
    using ds short skipped(1) paths
    by (intro exI[of _ "cs @ ds"]) (simp add: added_append too_big_def[abs_def] Let_def)
qed

lemma each_or_fail_works:
  "(\<And>x s. fst (run_state (f x) s) = None) \<Longrightarrow> fst (run_state (each_or_fail f xs) s) = None"
proof (induction xs arbitrary: s)
  case (Cons x xs)
  from Cons.prems[of x s] Cons.IH[OF Cons.prems] show ?case
    by (cases "run_state (f x) s") (auto simp: unless_failed_def)
qed simp

lemma still_step_works: "fst (run_state (work_step (still_outside answer None) w env args) s) = None"
  by (simp add: work_step_def gitWith_def runGit_def still_outside_def Let_def)

theorem staging_is_complete_witness:
  "let out = still_outside (output_of []) None;
       w = tree_of out ''v'';
       s = world_of [] (zero_volume ''v'' defaultAttributes writeableVolume [''v'']);
       ((answer, skipped), s') = run_state (stageChanges out w
         [\<lparr>ch_path = ''a'', ch_size = 1\<rparr>, \<lparr>ch_path = ''big'', ch_size = 2 ^ 30\<rparr>] defaultPolicy) s
   in \<exists>cs. w_log s' = cs \<and> concat (added cs) = [''a'']"
proof -
  let ?out = "still_outside (output_of []) None"
  let ?s = "world_of [] (zero_volume ''v'' defaultAttributes writeableVolume [''v''])"
  let ?found = "[\<lparr>ch_path = ''a'', ch_size = 1\<rparr>, \<lparr>ch_path = ''big'', ch_size = 2 ^ 30\<rparr>]"
  obtain answer skipped s' where run:
    "run_state (stageChanges ?out (tree_of ?out ''v'') ?found defaultPolicy) ?s = ((answer, skipped), s')"
    by (metis prod.exhaust)
  have "\<exists>staged. answer = Inr staged"
  proof -
    let ?adds = "each_or_fail (\<lambda>batch. work_step ?out (tree_of ?out ''v'') literalPathspecs ([''add'', ''--''] @ batch))
      (chunks stageBatch (map ch_path (filter (\<lambda>one. \<not> too_big defaultPolicy one) ?found)))"
    have "fst (run_state ?adds ?s) = None" by (rule each_or_fail_works) (rule still_step_works)
    then obtain s1 where "run_state ?adds ?s = (None, s1)" by (metis prod.collapse)
    with run show ?thesis
      by (simp add: stageChanges_def Let_def staged_paths_def work_ask_def bind_ok_def gitWith_def
          runGit_def still_outside_def del: filter.simps) auto
  qed
  with staging_is_complete[OF run] show ?thesis
    unfolding Let_def run by (simp add: defaultPolicy_def defaultMaxFileSize_def example_simps)
qed

end
