(* ===== verification/Metadata.thy ===== *)
theory Metadata
  imports WorkTree
begin

section \<open>The metadata record (\<open>metadata.go\<close>)\<close>

text \<open>
  What a git checkout cannot carry: modes, owners, and empty directories. The driver writes them as a
  text of one line per path, commits that text on a ref of its own, and replays it on a checkout. The
  text can come from the remote, so a reader of it is a trust boundary.
\<close>

definition metadataFile :: string where "metadataFile = ''metadata''"
definition metadataRecordFile :: string where "metadataRecordFile = ''metadata.record''"
definition metadataIndexFile :: string where "metadataIndexFile = ''metadata.index''"
definition remoteMetadataRef :: string where "remoteMetadataRef = metadataRef @ ''.remote''"
definition metadataMessage :: string where "metadataMessage = ''Update the metadata record''"
definition defaultFileMode :: nat where "defaultFileMode = 420"
definition defaultDirMode :: nat where "defaultDirMode = 493"

record metadataRecord =
  mr_path :: string
  mr_directory :: bool
  mr_mode :: nat
  mr_uid :: int
  mr_gid :: int

subsection \<open>The text\<close>

definition metadataLine :: "metadataRecord \<Rightarrow> string" where
  "metadataLine one = show_octal4 (mr_mode one) @ '' '' @ itoa (mr_uid one) @ '' '' @ itoa (mr_gid one) @ '' '' @
     (if mr_directory one then mr_path one @ ''/'' else mr_path one)"

definition metadataContent :: "metadataRecord list \<Rightarrow> string" where
  "metadataContent records = concat (map (\<lambda>one. metadataLine one @ [newline]) records)"

text \<open>\<open>filepath.IsLocal\<close>: a relative path none of whose elements climbs above where it starts.\<close>

fun climbs :: "nat \<Rightarrow> string list \<Rightarrow> bool" where
  "climbs depth [] = False"
| "climbs depth (e # es) =
     (if e = [] \<or> e = ''.'' then climbs depth es
      else if e = ''..'' then (depth = 0 \<or> climbs (depth - 1) es)
      else climbs (Suc depth) es)"

definition isLocal :: "string \<Rightarrow> bool" where
  "isLocal s = (s \<noteq> [] \<and> hd s \<noteq> CHR ''/'' \<and> \<not> climbs 0 (split (CHR ''/'') s))"

definition parseMetadataLine :: "string \<Rightarrow> metadataRecord option" where
  "parseMetadataLine line =
     (case splitN 4 (CHR '' '') line of
        [mode, uid, gid, shown] \<Rightarrow>
          (case parse_uint32 8 mode of None \<Rightarrow> None | Some mode \<Rightarrow>
          (case atoi uid of None \<Rightarrow> None | Some uid \<Rightarrow>
          (case atoi gid of None \<Rightarrow> None | Some gid \<Rightarrow>
            let name = trim_suffix ''/'' shown in
            if \<not> isLocal name then None
            else Some \<lparr>mr_path = name, mr_directory = suffix ''/'' shown, mr_mode = mode,
                   mr_uid = uid, mr_gid = gid\<rparr>)))
      | _ \<Rightarrow> None)"

definition parseMetadataContent :: "string \<Rightarrow> metadataRecord list" where
  "parseMetadataContent content = read_pieces parseMetadataLine (split newline content)"

subsection \<open>Reading the tree\<close>

text \<open>The path below the tree as git writes it.\<close>

definition tree_name :: "path \<Rightarrow> path \<Rightarrow> string" where
  "tree_name tree p = join ''/'' (drop (length tree) p)"

definition pathRecord :: "owner \<Rightarrow> files \<Rightarrow> string \<Rightarrow> path \<Rightarrow> fnode \<Rightarrow> metadataRecord \<times> bool" where
  "pathRecord own fs name p info =
     (let one = \<lparr>mr_path = name, mr_directory = (fn_content info = Directory), mr_mode = fn_mode info mod 512,
            mr_uid = fn_uid info, mr_gid = fn_gid info\<rparr>;
          other = (fn_uid info \<noteq> ow_uid own \<or> fn_gid info \<noteq> ow_gid own)
      in case fn_content info of
          Directory \<Rightarrow> (one, mr_mode one \<noteq> defaultDirMode \<or> other \<or> children fs p = [])
        | Regular c \<Rightarrow> (one, mr_mode one \<noteq> defaultFileMode \<or> other)
        | _ \<Rightarrow> (one, False))"

definition walk_records :: "owner \<Rightarrow> path \<Rightarrow> files \<Rightarrow> metadataRecord list" where
  "walk_records own tree fs =
     sort_key mr_path (map fst (filter snd (map (\<lambda>(p, info). pathRecord own fs (tree_name tree p) p info)
       (filter (\<lambda>(p, info). p \<noteq> tree \<and> newline \<notin> set (tree_name tree p) \<and> CHR 0x0D \<notin> set (tree_name tree p))
         (below fs tree)))))"

definition walkTreeMetadata :: "'g outside \<Rightarrow> path \<Rightarrow> ('g, string + metadataRecord list) io" where
  "walkTreeMetadata out tree =
     os_ask out (CallReadDir tree) (\<lambda>fs.
       if is_dir fs tree then Inr (walk_records (o_owner out) tree fs)
       else Inl (os_error ''lstat'' tree noent))"

subsection \<open>The commit on the driver's own ref\<close>

definition metadata_record :: "'g outside \<Rightarrow> workTree \<Rightarrow> string \<Rightarrow> ('g, string + string) io" where
  "metadata_record out w ref = work_ask out w [''show'', ''--no-textconv'', ref @ '':'' @ metadataFile]"

text \<open>
  A sequence of plumbing calls that holds the first failure: a step after it does nothing and answers
  the empty string.
\<close>

definition run_step ::
    "'g outside \<Rightarrow> workTree \<Rightarrow> string option \<Rightarrow> string list \<Rightarrow> string list \<Rightarrow> ('g, string \<times> string option) io" where
  "run_step out w failed env args =
     (if failed \<noteq> None then return ([], failed)
      else do {
        (answer, err) \<leftarrow> gitWith out w env args;
        return (trimLine (out_stdout answer), err)
      })"

definition commitMetadata ::
    "'g outside \<Rightarrow> workTree \<Rightarrow> policy \<Rightarrow> string \<Rightarrow> ('g, string option) io" where
  "commitMetadata out w rules content =
     (let recorded = join_path (w_directory w) metadataRecordFile;
          index = join_path (w_directory w) metadataIndexFile;
          indexed = [''GIT_INDEX_FILE='' @ show_path index]
      in do {
        failed \<leftarrow> unless_failed (WriteFile out recorded content 384) (do {
          (blob, failed) \<leftarrow> run_step out w None [] [''hash-object'', ''-w'', ''--'', show_path recorded];
          (_, failed) \<leftarrow> run_step out w failed indexed
            [''update-index'', ''--add'', ''--cacheinfo'', ''100644,'' @ blob @ '','' @ metadataFile];
          (tree, failed) \<leftarrow> run_step out w failed indexed [''write-tree''];
          parent \<leftarrow> refCommit out w metadataRef;
          let args = [''commit-tree'', ''-m'', metadataMessage] @ (if parent \<noteq> [] then [''-p'', parent] else []);
          (commit, failed) \<leftarrow> run_step out w failed (author rules) (args @ [tree]);
          (_, failed) \<leftarrow> run_step out w failed [] [''update-ref'', metadataRef, commit];
          return failed
        });
        _ \<leftarrow> Remove out recorded;
        _ \<leftarrow> Remove out index;
        return failed
      })"

definition recordMetadata :: "'g outside \<Rightarrow> workTree \<Rightarrow> policy \<Rightarrow> ('g, string option) io" where
  "recordMetadata out w rules = do {
     records \<leftarrow> walkTreeMetadata out (w_tree w);
     case records of Inl err \<Rightarrow> return (Some err) | Inr records \<Rightarrow> do {
       let content = metadataContent records;
       standing \<leftarrow> metadata_record out w metadataRef;
       if standing = Inr content then return None else commitMetadata out w rules content
     }
   }"

definition reparentMetadata :: "'g outside \<Rightarrow> workTree \<Rightarrow> string list \<Rightarrow> ('g, string option) io" where
  "reparentMetadata out w author_env = do {
     remote \<leftarrow> refCommit out w remoteMetadataRef;
     own \<leftarrow> refCommit out w metadataRef;
     if remote = [] \<or> own = [] then return None
     else do {
       above \<leftarrow> ancestor out w remote own;
       if above then return None
       else do {
         (tree, failed) \<leftarrow> run_step out w None [] [''rev-parse'', ''--verify'', ''--end-of-options'', own @ ''^{tree}''];
         (commit, failed) \<leftarrow> run_step out w failed author_env [''commit-tree'', ''-m'', metadataMessage, ''-p'', remote, tree];
         (_, failed) \<leftarrow> run_step out w failed [] [''update-ref'', metadataRef, commit];
         return failed
       }
     }
   }"

subsection \<open>Replaying\<close>

definition replay_one :: "'g outside \<Rightarrow> workTree \<Rightarrow> bool \<Rightarrow> metadataRecord \<Rightarrow> ('g, unit) io" where
  "replay_one out w owners one = (let place = join_path (w_tree w) (mr_path one) in do {
     failed \<leftarrow> (if mr_directory one then MkdirAll out place (mr_mode one) else return None);
     if failed \<noteq> None then return ()
     else do {
       failed \<leftarrow> Chmod out place (mr_mode one);
       if failed \<noteq> None \<or> \<not> owners then return ()
       else do { _ \<leftarrow> Lchown out place (mr_uid one) (mr_gid one); return () }
     }
   })"

definition replayRecords :: "'g outside \<Rightarrow> workTree \<Rightarrow> bool \<Rightarrow> metadataRecord list \<Rightarrow> ('g, unit) io" where
  "replayRecords out w owners records = for_each (replay_one out w owners) records"

definition replayMetadata :: "'g outside \<Rightarrow> workTree \<Rightarrow> bool \<Rightarrow> ('g, string option) io" where
  "replayMetadata out w owners = do {
     content \<leftarrow> metadata_record out w metadataRef;
     case content of Inl err \<Rightarrow> return (Some err) | Inr content \<Rightarrow> do {
       replayRecords out w owners (parseMetadataContent content);
       return None
     }
   }"

text \<open>\<open>path.Dir\<close> and \<open>path.Clean\<close> on the slash-separated paths git reports.\<close>

definition clean_step :: "bool \<Rightarrow> string list \<Rightarrow> string \<Rightarrow> string list" where
  "clean_step rooted kept e =
     (if e = [] \<or> e = ''.'' then kept
      else if e = ''..'' then
        (if kept = [] then (if rooted then [] else [''..''])
         else if last kept = ''..'' then kept @ [''..''] else butlast kept)
      else kept @ [e])"

definition clean :: "string \<Rightarrow> string" where
  "clean s =
     (let rooted = (s \<noteq> [] \<and> hd s = CHR ''/'');
          kept = foldl (clean_step rooted) [] (split (CHR ''/'') s)
      in if rooted then ''/'' @ join ''/'' kept else if kept = [] then ''.'' else join ''/'' kept)"

definition path_dir :: "string \<Rightarrow> string" where
  "path_dir s = clean (rev (dropWhile (\<lambda>c. c \<noteq> CHR ''/'') (rev s)))"

text \<open>
  The directories that hold a path, from the path up to the root. A relative path has fewer elements
  than characters, so its length is fuel enough; the loop of the code does not end on an absolute
  path, which git never reports.
\<close>

fun holding_dirs :: "nat \<Rightarrow> string \<Rightarrow> string list" where
  "holding_dirs 0 dir = []"
| "holding_dirs (Suc fuel) dir = (if dir = ''.'' then [] else dir # holding_dirs fuel (path_dir dir))"

definition recordsUnder :: "metadataRecord list \<Rightarrow> string list \<Rightarrow> metadataRecord list" where
  "recordsUnder records changed =
     (let holding = concat (map (\<lambda>one. holding_dirs (length one) (path_dir one)) changed) in
      filter (\<lambda>one. mr_path one \<in> set changed \<or>
        mr_directory one \<and> (mr_path one \<in> set holding \<or> path_dir (mr_path one) \<in> set holding)) records)"

definition replayMetadataFor ::
    "'g outside \<Rightarrow> workTree \<Rightarrow> bool \<Rightarrow> string list \<Rightarrow> ('g, string option) io" where
  "replayMetadataFor out w owners changed = do {
     content \<leftarrow> metadata_record out w remoteMetadataRef;
     case content of Inl err \<Rightarrow> return (Some err) | Inr content \<Rightarrow> do {
       replayRecords out w owners (recordsUnder (parseMetadataContent content) changed);
       return None
     }
   }"

subsection \<open>The calls these operations make\<close>

lemma metadata_silent:
  "state_io_rel untouched (walkTreeMetadata out tree)"
  "state_io_rel untouched (replayRecords out w owners records)"
proof -
  show "state_io_rel untouched (walkTreeMetadata out tree)"
    unfolding walkTreeMetadata_def by (rule untouched_ops)
  have "state_io_rel untouched (replay_one out w owners one)" for one
    unfolding replay_one_def by (intro untouched.bounds untouched_ops)
  then show "state_io_rel untouched (replayRecords out w owners records)"
    unfolding replayRecords_def by (intro untouched.bounds)
qed

lemma run_step_kinds: "kind_of args \<in> K \<Longrightarrow> state_io_rel (leaf K) (run_step out w failed env args)"
  unfolding run_step_def by (intro leaf.bounds work_call_kinds)

lemma metadata_kinds:
  "{Asks} \<subseteq> K \<Longrightarrow> state_io_rel (leaf K) (metadata_record out w ref)"
  "{Asks, Refs} \<subseteq> K \<Longrightarrow> state_io_rel (leaf K) (commitMetadata out w rules content)"
  "{Asks, Refs} \<subseteq> K \<Longrightarrow> state_io_rel (leaf K) (recordMetadata out w rules)"
  "{Asks, Refs} \<subseteq> K \<Longrightarrow> state_io_rel (leaf K) (reparentMetadata out w author_env)"
  "{Asks} \<subseteq> K \<Longrightarrow> state_io_rel (leaf K) (replayMetadata out w owners)"
  "{Asks} \<subseteq> K \<Longrightarrow> state_io_rel (leaf K) (replayMetadataFor out w owners changed)"
proof -
  show ask: "{Asks} \<subseteq> K \<Longrightarrow> state_io_rel (leaf K) (metadata_record out w ref)" for ref
    unfolding metadata_record_def by (rule work_call_kinds) (simp add: kind_simps)
  have update: "kind_of [''update-ref'', metadataRef, c] = Refs" for c
    by (simp add: kind_simps metadataRef_def pushedRef_def refPrefix_def)
  show commit: "{Asks, Refs} \<subseteq> K \<Longrightarrow> state_io_rel (leaf K) (commitMetadata out w rules content)" for content
    unfolding commitMetadata_def Let_def
    by (intro leaf.bounds run_step_kinds work_kinds untouched_ops[THEN untouched_leaf])
      (auto simp: update, auto simp: kind_simps)
  show "{Asks, Refs} \<subseteq> K \<Longrightarrow> state_io_rel (leaf K) (recordMetadata out w rules)"
    unfolding recordMetadata_def Let_def
    by (intro leaf.bounds ask commit metadata_silent[THEN untouched_leaf]) auto
  show "{Asks, Refs} \<subseteq> K \<Longrightarrow> state_io_rel (leaf K) (reparentMetadata out w author_env)"
    unfolding reparentMetadata_def Let_def
    by (intro leaf.bounds run_step_kinds work_kinds)
      (auto simp: update, auto simp: kind_simps)
  show "{Asks} \<subseteq> K \<Longrightarrow> state_io_rel (leaf K) (replayMetadata out w owners)"
    unfolding replayMetadata_def by (intro leaf.bounds ask metadata_silent[THEN untouched_leaf])
  show "{Asks} \<subseteq> K \<Longrightarrow> state_io_rel (leaf K) (replayMetadataFor out w owners changed)"
    unfolding replayMetadataFor_def by (intro leaf.bounds ask metadata_silent[THEN untouched_leaf])
qed

subsection \<open>Lemmas on the text\<close>

definition record_ok :: "metadataRecord \<Rightarrow> bool" where
  "record_ok one \<longleftrightarrow> mr_mode one < 2 ^ 32 \<and> - (2 ^ 63) \<le> mr_uid one \<and> mr_uid one < 2 ^ 63 \<and>
     - (2 ^ 63) \<le> mr_gid one \<and> mr_gid one < 2 ^ 63 \<and> isLocal (mr_path one) \<and>
     newline \<notin> set (mr_path one) \<and> last (mr_path one) \<noteq> CHR ''/''"

lemma splitN_piece: "0 < n \<Longrightarrow> sep \<notin> set a \<Longrightarrow> splitN (Suc n) sep (a @ sep # rest) = a # splitN n sep rest"
  by (cases n) (simp_all add: takeWhile_append dropWhile_append)

lemma no_blank_in_number:
  "CHR '' '' \<notin> set (show_octal4 n)" "CHR '' '' \<notin> set (itoa i)" "newline \<notin> set (show_octal4 n)"
  "newline \<notin> set (itoa i)"
  using octal4_chars[of "CHR '' ''" n] itoa_chars[of "CHR '' ''" i]
    octal4_chars[of newline n] itoa_chars[of newline i]
  by (auto simp: is_digit_def)

lemma split_metadataLine:
  "splitN 4 (CHR '' '') (metadataLine one) =
   [show_octal4 (mr_mode one), itoa (mr_uid one), itoa (mr_gid one),
    if mr_directory one then mr_path one @ ''/'' else mr_path one]"
  by (simp add: metadataLine_def numeral_eq_Suc splitN_piece no_blank_in_number del: splitN.simps(3))

lemma parse_metadataLine:
  assumes "record_ok one"
  shows "parseMetadataLine (metadataLine one) = Some one"
proof -
  have "mr_path one \<noteq> []" using assms by (simp add: record_ok_def isLocal_def)
  then have "\<not> suffix ''/'' (mr_path one)"
    using assms by (auto simp: record_ok_def suffix_def)
  with assms show ?thesis
    by (simp add: parseMetadataLine_def split_metadataLine record_ok_def codec_simps Let_def
        trim_suffix_other)
qed

interpretation metadata_lines: separated_entries newline metadataLine parseMetadataLine record_ok
proof
  show "parseMetadataLine [] = None" by (simp add: parseMetadataLine_def numeral_eq_Suc)
  show "newline \<notin> set (metadataLine r)" if "record_ok r" for r
    using that by (auto simp: metadataLine_def record_ok_def no_blank_in_number)
  show "parseMetadataLine (metadataLine r) = Some r" if "record_ok r" for r
    using that by (rule parse_metadataLine)
qed

text \<open>A local name joined to a directory is the directory or a path below it.\<close>

lemma elements_stay:
  "\<not> climbs (length s) es \<Longrightarrow> prefix tree (foldl element (tree @ s) es)"
proof (induction es arbitrary: s)
  case Nil
  then show ?case by simp
next
  case (Cons e es)
  consider "e = [] \<or> e = ''.''" | "e = ''..''" | "e \<noteq> []" "e \<noteq> ''.''" "e \<noteq> ''..''" by blast
  then show ?case
  proof cases
    case 1
    with Cons show ?thesis by (auto simp: element_def)
  next
    case 2
    with Cons.prems have "s \<noteq> []" "\<not> climbs (length (butlast s)) es" by auto
    with Cons.IH[of "butlast s"] 2 show ?thesis by (simp add: element_def butlast_append)
  next
    case 3
    with Cons.prems Cons.IH[of "s @ [e]"] show ?thesis by (simp add: element_def)
  qed
qed

lemma local_stays: "isLocal name \<Longrightarrow> prefix tree (join_path tree name)"
  using elements_stay[of "[]"] by (simp add: isLocal_def join_path_def)

lemma parsed_records_local: "one \<in> set (parseMetadataContent content) \<Longrightarrow> isLocal (mr_path one)"
proof -
  have line: "isLocal (mr_path one)" if "parseMetadataLine l = Some one" for l
    using that by (auto simp: parseMetadataLine_def Let_def split: list.splits option.splits if_splits)
  have "isLocal (mr_path one)" if "one \<in> set (read_pieces parseMetadataLine ls)" for ls
    using that by (induction ls) (auto split: option.splits dest: line)
  then show "one \<in> set (parseMetadataContent content) \<Longrightarrow> isLocal (mr_path one)"
    by (simp add: parseMetadataContent_def)
qed

subsection \<open>Where a replay writes\<close>

text \<open>The directory stands: it and every directory above it is there.\<close>

definition standing :: "path \<Rightarrow> files \<Rightarrow> bool" where
  "standing tree fs \<longleftrightarrow> (\<forall>r. r \<noteq> [] \<and> prefix r tree \<longrightarrow> look fs r \<noteq> None)"

text \<open>
  Nothing outside the tree changes while no link stands on the way to the given places, and the change puts none there.
\<close>

definition inside :: "path \<Rightarrow> path set \<Rightarrow> files \<Rightarrow> files \<Rightarrow> bool" where
  "inside tree places fs fs' \<longleftrightarrow> (standing tree fs \<and> (\<forall>p\<in>places. clear_path fs p) \<longrightarrow>
     standing tree fs' \<and> (\<forall>p\<in>places. clear_path fs' p) \<and> (\<forall>q. \<not> prefix tree q \<longrightarrow> look fs' q = look fs q))"

definition changes_inside :: "path \<Rightarrow> path set \<Rightarrow> 'g world \<Rightarrow> 'g world \<Rightarrow> bool" where
  "changes_inside tree places w w' \<longleftrightarrow> inside tree places (w_files w) (w_files w')"

interpretation inside: step_bound "changes_inside tree places" for tree places
  by unfold_locales (auto simp: changes_inside_def inside_def)

lemma mkdirs_adds:
  "list_all plain_name (p @ es) \<Longrightarrow> clear_path fs (p @ es) \<Longrightarrow> mkdirs own mode p es fs = Inr fs' \<Longrightarrow>
   look fs' q = look fs q \<or> q \<noteq> [] \<and> look fs q = None \<and> (\<exists>n. look fs' q = Some n \<and> fn_content n = Directory) \<and> prefix q (p @ es)"
proof (induction own mode p es fs rule: mkdirs.induct)
  case (2 own mode p e es fs)
  have plain: "list_all plain_name (p @ [e])" "list_all plain_name p" "list_all plain_name ((p @ [e]) @ es)" using "2.prems"(1) by simp_all
  have clear: "clear_path fs (p @ [e])" "clear_path fs p" "clear_path fs ((p @ [e]) @ es)"
    using "2.prems"(2) by (auto elim: clear_prefix)
  let ?fs = "put fs (p @ [e]) (new_node fs own Directory mode)"
  have clear': "clear_path ?fs ((p @ [e]) @ es)" using clear(3) by (auto simp: clear_path_def new_node_def)
  show ?case
  proof (cases "leads_to fs (p @ [e])")
    case None
    with "2.prems"(3) obtain d where d: "leads_to fs p = Some d" by (auto split: option.splits)
    with leads_clear[OF plain(2) clear(2)] have "d = p" by simp
    with None d "2.prems"(3) have free: "is_dir fs d \<and> look fs (d @ [e]) = None" and "mkdirs own mode (p @ [e]) es ?fs = Inr fs'"
      by (simp_all split: if_splits)
    with "2.IH"(1)[OF None d free plain(3)] \<open>d = p\<close> clear' have
      "look fs' q = look ?fs q \<or> q \<noteq> [] \<and> look ?fs q = None \<and> (\<exists>n. look fs' q = Some n \<and> fn_content n = Directory) \<and> prefix q ((p @ [e]) @ es)"
      by simp
    with free \<open>d = p\<close> show ?thesis by (cases "q = p @ [e]") (auto simp: new_node_def)
  next
    case (Some r)
    with "2.prems"(3) have dir: "is_dir fs r" and "mkdirs own mode (p @ [e]) es fs = Inr fs'" by (simp_all split: if_splits)
    with "2.IH"(2)[OF Some dir plain(3) clear(3)] show ?thesis by simp
  qed
qed simp

lemma MkdirAll_inside:
  assumes "prefix tree p" and "list_all plain_name p" and "p \<in> places" and "os_mkdir_all own p mode fs = Inr fs'"
  shows "inside tree places fs fs'"
  unfolding inside_def
proof (intro impI)
  assume pre: "standing tree fs \<and> (\<forall>p\<in>places. clear_path fs p)"
  with assms(3) have clear: "clear_path fs p" by blast
  have adds: "look fs' q = look fs q \<or> q \<noteq> [] \<and> look fs q = None \<and> (\<exists>n. look fs' q = Some n \<and> fn_content n = Directory) \<and> prefix q p" for q
    using mkdirs_adds[of "[]" p fs own mode fs' q] assms(2,4) clear by (simp add: os_mkdir_all_def)
  have "standing tree fs'" using pre adds unfolding standing_def by (metis option.distinct(1))
  moreover have "clear_path fs' p'" if "clear_path fs p'" for p'
    using that adds unfolding clear_path_def by (metis content.distinct(7) option.sel)
  moreover have "look fs' q = look fs q" if "\<not> prefix tree q" for q
  proof (rule ccontr)
    assume "look fs' q \<noteq> look fs q"
    with adds[of q] have q: "q \<noteq> []" "look fs q = None" "prefix q p" by auto
    with assms(1) that have "prefix q tree" by (metis prefix_same_cases)
    with pre q(1,2) show False unfolding standing_def by blast
  qed
  ultimately show "standing tree fs' \<and> (\<forall>p\<in>places. clear_path fs' p) \<and> (\<forall>q. \<not> prefix tree q \<longrightarrow> look fs' q = look fs q)"
    using pre by blast
qed

lemma put_inside:
  assumes "prefix tree p" and "look fs p = Some n" and "fn_content n' = fn_content n"
  shows "inside tree places fs (put fs p n')"
  using assms by (auto simp: inside_def standing_def clear_path_def)

lemma chmod_inside:
  assumes "prefix tree p" and "list_all plain_name p" and "p \<in> places" and "os_chmod p mode fs = Inr fs'"
  shows "inside tree places fs fs'"
proof (cases "clear_path fs p")
  case True
  from assms(4) obtain q n where q: "leads_to fs p = Some q" "look fs q = Some n" "fs' = put fs q (n\<lparr>fn_mode := mode\<rparr>)"
    by (auto simp: os_chmod_def split: option.splits)
  with leads_clear[OF assms(2) True] have "q = p" by simp
  with q put_inside[OF assms(1), of fs n "n\<lparr>fn_mode := mode\<rparr>"] show ?thesis by simp
qed (use assms(3) in \<open>auto simp: inside_def\<close>)

lemma lchown_inside:
  assumes "prefix tree p" and "list_all plain_name p" and "p \<in> places" and "os_lchown p uid gid fs = Inr fs'"
  shows "inside tree places fs fs'"
proof (cases "clear_path fs p")
  case True
  from assms(4) obtain d n where d: "leads_to fs (butlast p) = Some d"
    and n: "look fs (if p = [] then d else d @ [last p]) = Some n"
    "fs' = put fs (if p = [] then d else d @ [last p]) (n\<lparr>fn_uid := uid, fn_gid := gid\<rparr>)"
    by (auto simp: os_lchown_def Let_def split: option.splits)
  have "list_all plain_name (butlast p)" using assms(2) by (auto simp: list_all_iff dest: in_set_butlastD)
  moreover have "clear_path fs (butlast p)" using True by (rule clear_prefix) (simp add: prefixeq_butlast)
  ultimately have "d = butlast p" using leads_clear d by blast
  then have "(if p = [] then d else d @ [last p]) = p" by simp
  with n put_inside[OF assms(1), of fs n "n\<lparr>fn_uid := uid, fn_gid := gid\<rparr>"] show ?thesis by simp
qed (use assms(3) in \<open>auto simp: inside_def\<close>)

lemma os_change_inside:
  assumes "\<And>fs fs'. f fs = Inr fs' \<Longrightarrow> inside tree places fs fs'"
    and "\<forall>p c. call \<noteq> CallWrite p c" and "\<forall>p. call \<noteq> CallRemoveAll p"
  shows "state_io_rel (changes_inside tree places) (os_change out call f)"
proof -
  have partly: "partly effect call own fs = fs" for effect own fs
    using assms(2,3) by (cases call; cases effect) (simp_all add: partly_def)
  have refl: "inside tree places fs fs" for fs by (simp add: inside_def)
  show ?thesis
    using assms(1)
    by (auto simp: state_io_rel_def changes_inside_def os_change_def Let_def partly refl
        split: option.splits sum.splits)
qed

lemma elements_plain: "list_all plain_name p \<Longrightarrow> list_all (\<lambda>e. CHR ''/'' \<notin> set e) es \<Longrightarrow> list_all plain_name (foldl element p es)"
proof (induction es arbitrary: p)
  case (Cons e es)
  have "list_all plain_name (butlast p)"
    using Cons.prems(1) unfolding list_all_iff by (blast dest: in_set_butlastD)
  moreover have "plain_name e" if "e \<noteq> []" "e \<noteq> ''.''" "e \<noteq> ''..''"
    using that Cons.prems(2) by (simp add: plain_name_def)
  ultimately have "list_all plain_name (element p e)"
    using Cons.prems(1) by (simp add: element_def)
  with Cons show ?case by simp
qed simp

lemma joined_plain: "list_all plain_name p \<Longrightarrow> list_all plain_name (join_path p name)"
  unfolding join_path_def by (rule elements_plain) (auto simp: list_all_iff dest: split_pieces)

lemma replay_inside:
  fixes records :: "metadataRecord list"
  assumes "\<forall>one\<in>set records. isLocal (mr_path one)" and "list_all plain_name (w_tree w)"
  shows "state_io_rel (changes_inside (w_tree w) ((\<lambda>one. join_path (w_tree w) (mr_path one)) ` set records))
    (replayRecords out w owners records)"
  unfolding replayRecords_def
proof (rule inside.bound_for_each)
  fix one assume one: "one \<in> set records"
  let ?places = "(\<lambda>one. join_path (w_tree w) (mr_path one)) ` set records"
  have place: "prefix (w_tree w) (join_path (w_tree w) (mr_path one))" "list_all plain_name (join_path (w_tree w) (mr_path one))"
    "join_path (w_tree w) (mr_path one) \<in> ?places"
    using one assms by (simp_all add: local_stays joined_plain)
  have mkdir: "state_io_rel (changes_inside (w_tree w) ?places) (MkdirAll out (join_path (w_tree w) (mr_path one)) mode)" for mode
    unfolding MkdirAll_def by (rule os_change_inside) (auto intro: MkdirAll_inside[OF place])
  have chmod: "state_io_rel (changes_inside (w_tree w) ?places) (Chmod out (join_path (w_tree w) (mr_path one)) mode)" for mode
    unfolding Chmod_def by (rule os_change_inside) (auto intro: chmod_inside[OF place])
  have chown: "state_io_rel (changes_inside (w_tree w) ?places) (Lchown out (join_path (w_tree w) (mr_path one)) uid gid)" for uid gid
    unfolding Lchown_def by (rule os_change_inside) (auto intro: lchown_inside[OF place])
  show "state_io_rel (changes_inside (w_tree w) ?places) (replay_one out w owners one)"
    unfolding replay_one_def Let_def by (intro inside.bounds mkdir chmod chown)
qed

subsection \<open>Lemmas on the selection\<close>

text \<open>A path as git reports it: plain names with slashes between.\<close>

definition git_path :: "string list \<Rightarrow> string" where
  "git_path es = join ''/'' es"

lemma join_slash: "es \<noteq> [] \<Longrightarrow> join ''/'' (es @ [e]) = join ''/'' es @ ''/'' @ e"
proof (induction es rule: induct_list012)
  case (3 x y es)
  then show ?case by simp
qed auto

lemma clean_plain:
  "list_all plain_name es \<Longrightarrow> foldl (clean_step False) kept es = kept @ es"
  by (induction es arbitrary: kept) (auto simp: clean_step_def plain_name_def)

lemma split_plain: "list_all plain_name es \<Longrightarrow> es \<noteq> [] \<Longrightarrow> split (CHR ''/'') (join ''/'' es) = es"
  by (rule split_joined) (auto simp: plain_name_def list_all_iff)

lemma git_path_head: "list_all plain_name es \<Longrightarrow> es \<noteq> [] \<Longrightarrow> git_path es \<noteq> [] \<and> hd (git_path es) \<noteq> CHR ''/''"
proof -
  assume "list_all plain_name es" "es \<noteq> []"
  then obtain e rest where es: "es = e # rest" "plain_name e" by (cases es) auto
  then obtain c cs where "e = c # cs" "c \<noteq> CHR ''/''" by (cases e) (auto simp: plain_name_def)
  with es show ?thesis by (cases rest) (auto simp: git_path_def)
qed

lemma split_trailing_slash:
  "list_all plain_name es \<Longrightarrow> es \<noteq> [] \<Longrightarrow> split (CHR ''/'') (join ''/'' es @ ''/'') = es @ [[]]"
proof -
  assume a: "list_all plain_name es" "es \<noteq> []"
  have "join ''/'' (es @ [[]]) = join ''/'' es @ ''/''" using a(2) by (simp add: join_slash)
  moreover have "split (CHR ''/'') (join ''/'' (es @ [[]])) = es @ [[]]"
    by (rule split_joined) (use a in \<open>auto simp: plain_name_def list_all_iff\<close>)
  ultimately show ?thesis by simp
qed

lemma path_dir_git_path:
  assumes "list_all plain_name (es @ [e])"
  shows "path_dir (git_path (es @ [e])) = (if es = [] then ''.'' else git_path es)"
proof -
  have e: "list_all plain_name es" "CHR ''/'' \<notin> set e" using assms by (auto simp: plain_name_def)
  have dw: "dropWhile (\<lambda>c. c \<noteq> CHR ''/'') (rev e @ r) = dropWhile (\<lambda>c. c \<noteq> CHR ''/'') r" for r
    using e(2) by (intro dropWhile_append2) auto
  show ?thesis
  proof (cases "es = []")
    case True
    have none: "dropWhile (\<lambda>c. c \<noteq> CHR ''/'') (rev e) = []" using dw[of "[]"] by simp
    show ?thesis
      unfolding path_dir_def git_path_def True append_Nil join.simps none
      by (simp add: clean_def clean_step_def)
  next
    case False
    then have "rev (dropWhile (\<lambda>c. c \<noteq> CHR ''/'') (rev (git_path (es @ [e])))) = git_path es @ ''/''"
      by (simp add: git_path_def join_slash dw)
    then have "path_dir (git_path (es @ [e])) = clean (git_path es @ ''/'')"
      by (simp add: path_dir_def)
    also have "\<dots> = git_path es"
    proof -
      have "hd (git_path es @ ''/'') \<noteq> CHR ''/''" using git_path_head[OF e(1) False] by simp
      moreover have "foldl (clean_step False) [] (es @ [[]]) = es"
        using clean_plain[OF e(1), of "[]"] by (simp add: clean_step_def)
      ultimately show ?thesis
        using False split_trailing_slash[OF e(1) False] by (simp add: clean_def git_path_def Let_def)
    qed
    finally show ?thesis using False by simp
  qed
qed

lemma git_path_length: "list_all plain_name es \<Longrightarrow> length es \<le> length (git_path es)"
proof (induction es rule: rev_induct)
  case (snoc e es)
  then have "0 < length e" by (simp add: plain_name_def)
  with snoc show ?case
    by (cases "es = []") (simp_all add: git_path_def join_slash Suc_le_eq)
qed simp

lemma git_path_not_dot: "list_all plain_name es \<Longrightarrow> es \<noteq> [] \<Longrightarrow> git_path es \<noteq> ''.''"
proof
  assume a: "list_all plain_name es" "es \<noteq> []" and "git_path es = ''.''"
  then have "split (CHR ''/'') ''.'' = es" using split_plain[OF a] by (simp add: git_path_def)
  then have "es = [''.'']" by simp
  with a show False by (simp add: plain_name_def)
qed

text \<open>The directories that hold a git path are its proper prefixes.\<close>

lemma holding_dirs_prefixes:
  assumes "list_all plain_name es" and "length es \<le> fuel"
  shows "set (holding_dirs fuel (if es = [] then ''.'' else git_path es)) = {git_path (take k es) |k. 0 < k \<and> k \<le> length es}"
  using assms
proof (induction es arbitrary: fuel rule: rev_induct)
  case Nil
  then show ?case by (cases fuel) auto
next
  case (snoc e es)
  then obtain n where n: "fuel = Suc n" "length es \<le> n" "list_all plain_name es" by (cases fuel) auto
  have "set (holding_dirs fuel (git_path (es @ [e]))) =
      insert (git_path (es @ [e])) {git_path (take k es) |k. 0 < k \<and> k \<le> length es}"
    using snoc.IH[OF n(3,2)] git_path_not_dot[OF snoc.prems(1)] path_dir_git_path[OF snoc.prems(1)]
    by (simp add: n(1))
  also have "\<dots> = {git_path (take k (es @ [e])) |k. 0 < k \<and> k \<le> length (es @ [e])}"
  proof (rule set_eqI, rule iffI)
    fix p assume "p \<in> insert (git_path (es @ [e])) {git_path (take k es) |k. 0 < k \<and> k \<le> length es}"
    then consider "p = git_path (es @ [e])" | k where "p = git_path (take k es)" "0 < k" "k \<le> length es" by blast
    then show "p \<in> {git_path (take k (es @ [e])) |k. 0 < k \<and> k \<le> length (es @ [e])}"
    proof cases
      case 1
      then show ?thesis by (auto intro!: exI[of _ "length (es @ [e])"])
    next
      case (2 k)
      then show ?thesis by (auto intro!: exI[of _ k])
    qed
  next
    fix p assume "p \<in> {git_path (take k (es @ [e])) |k. 0 < k \<and> k \<le> length (es @ [e])}"
    then obtain k where k: "p = git_path (take k (es @ [e]))" "0 < k" "k \<le> Suc (length es)" by auto
    then show "p \<in> insert (git_path (es @ [e])) {git_path (take k es) |k. 0 < k \<and> k \<le> length es}"
      by (cases "k = Suc (length es)") auto
  qed
  finally show ?case by simp
qed

subsection \<open>Properties\<close>

text \<open>
  Property C30. The metadata record reads back: for records of any local path without a newline, any
  mode of 32 bits and any owner of 64 bits, the text the driver writes parses to those records.
\<close>

theorem metadata_record_reads_back:
  assumes "\<forall>one\<in>set records. record_ok one"
  shows "parseMetadataContent (metadataContent records) = records"
  unfolding parseMetadataContent_def metadataContent_def
  by (rule metadata_lines.read_back) (use assms in blast)

definition sample_record :: metadataRecord where
  "sample_record = \<lparr>mr_path = ''my dir'', mr_directory = True, mr_mode = 448, mr_uid = 1000, mr_gid = -1\<rparr>"

lemma sample_record_ok: "record_ok sample_record"
  by (simp add: record_ok_def sample_record_def isLocal_def)

theorem metadata_record_reads_back_witness:
  "parseMetadataContent (metadataContent [sample_record]) = [sample_record]"
  by (rule metadata_record_reads_back) (simp add: sample_record_ok)

text \<open>
  Property C21. A restore writes only inside the volume's tree, as long as no link leads it out. Whatever text
  the remote's record holds, and whatever the kernel refuses, replaying it changes no node outside a tree that
  stands, when no symbolic link lies on the way to a path the record names.
\<close>

theorem restore_stays_in_the_tree:
  assumes "standing (w_tree w) (w_files s)" and "list_all plain_name (w_tree w)"
    and "\<And>one. one \<in> set (parseMetadataContent content) \<Longrightarrow> clear_path (w_files s) (join_path (w_tree w) (mr_path one))"
    and "\<not> prefix (w_tree w) p"
  shows "look (w_files (snd (run_state (replayRecords out w owners (parseMetadataContent content)) s))) p =
    look (w_files s) p"
  using replay_inside[of "parseMetadataContent content" w out owners] assms
  by (auto simp: state_io_rel_def changes_inside_def inside_def parsed_records_local)

definition linked_tree :: files where
  "linked_tree = [([''etc''], dir_node), ([''etc'', ''passwd''], dir_node\<lparr>fn_content := Regular ''root'', fn_mode := 420\<rparr>),
     ([''t''], dir_node), ([''t'', ''out''], dir_node\<lparr>fn_content := Symlink ''../etc''\<rparr>), ([''t'', ''own''], dir_node)]"

definition linked_work :: workTree where
  "linked_work = (tree_of (still_outside (output_of []) None) ''v'')\<lparr>w_tree := [''t'']\<rparr>"

definition record_at :: "string \<Rightarrow> metadataRecord" where
  "record_at p = \<lparr>mr_path = p, mr_directory = False, mr_mode = 511, mr_uid = 0, mr_gid = 0\<rparr>"

definition replayed :: "string \<Rightarrow> files" where
  "replayed p = w_files (snd (run_state (replayRecords (still_outside (output_of []) None) linked_work True
     (parseMetadataContent (metadataContent [record_at p])))
     (world_of linked_tree (zero_volume ''v'' defaultAttributes writeableVolume [''v'']))))"

lemma record_at_parses: "isLocal p \<Longrightarrow> newline \<notin> set p \<Longrightarrow> last p \<noteq> CHR ''/'' \<Longrightarrow> parseMetadataContent (metadataContent [record_at p]) = [record_at p]"
  unfolding parseMetadataContent_def metadataContent_def
  by (rule metadata_lines.read_back) (simp add: record_ok_def record_at_def)

theorem restore_stays_in_the_tree_witness: "look (replayed ''own'') [''etc'', ''passwd''] = look linked_tree [''etc'', ''passwd'']"
proof -
  let ?w = "world_of linked_tree (zero_volume ''v'' defaultAttributes writeableVolume [''v''])"
  have parsed: "parseMetadataContent (metadataContent [record_at ''own'']) = [record_at ''own'']"
    by (rule record_at_parses) (simp_all add: isLocal_def)
  have place: "join_path [''t''] ''own'' = [''t'', ''own'']" by (simp add: plain_name_def)
  have st: "standing (w_tree linked_work) (w_files ?w)"
    by (auto simp: standing_def linked_work_def world_of_def linked_tree_def look_def prefix_Cons)
  have plain: "list_all plain_name (w_tree linked_work)" by (simp add: linked_work_def plain_name_def)
  have clear: "clear_path (w_files ?w) (join_path (w_tree linked_work) (mr_path one))"
    if "one \<in> set (parseMetadataContent (metadataContent [record_at ''own'']))" for one
    using that unfolding parsed by (auto simp: record_at_def linked_work_def place clear_path_def world_of_def linked_tree_def look_def prefix_Cons dir_node_def)
  have outs: "\<not> prefix (w_tree linked_work) [''etc'', ''passwd'']" by (simp add: linked_work_def)
  from restore_stays_in_the_tree[OF st plain clear outs] show ?thesis by (simp add: replayed_def world_of_def)
qed

text \<open>
  With a link the replay leaves the tree: a repository that commits a link to a directory of the node, and a record for a
  path under the link, sets the mode of a file there.
\<close>

theorem a_restore_follows_a_committed_link: "map_option fn_mode (look (replayed ''out/passwd'') [''etc'', ''passwd'']) = Some 511"
proof -
  let ?w = "world_of linked_tree (zero_volume ''v'' defaultAttributes writeableVolume [''v''])"
  have place: "join_path [''t''] ''out/passwd'' = [''t'', ''out'', ''passwd'']" by code_simp
  have lead: "leads_to linked_tree [''t'', ''out'', ''passwd''] = Some [''etc'', ''passwd'']" by code_simp
  have parsed: "parseMetadataContent (metadataContent [record_at ''out/passwd'']) = [record_at ''out/passwd'']"
    by (rule record_at_parses) (simp_all add: isLocal_def)
  let ?fs = "put linked_tree [''etc'', ''passwd''] (dir_node\<lparr>fn_content := Regular ''root'', fn_mode := 511\<rparr>)"
  have chmod: "os_chmod [''t'', ''out'', ''passwd''] 511 linked_tree = Inr ?fs"
    by (simp add: os_chmod_def lead) (simp add: linked_tree_def look_def)
  have keeps: "map_option fn_mode (look fs [''etc'', ''passwd'']) = Some 511" if "os_lchown [''t'', ''out'', ''passwd''] 0 0 ?fs = Inr fs" for fs
    using that by (auto simp: os_lchown_def Let_def split: option.splits if_splits)
  have still: "o_refuse (still_outside (output_of []) None) n call = None" for n call by (simp add: still_outside_def)
  have one: "w_tree linked_work = [''t'']" "mr_path (record_at p) = p" "\<not> mr_directory (record_at p)" "mr_mode (record_at p) = 511"
    "mr_uid (record_at p) = 0" "mr_gid (record_at p) = 0" for p
    by (simp_all add: linked_work_def record_at_def)
  have start: "w_files ?w = linked_tree" by (simp add: world_of_def)
  show ?thesis
    unfolding replayed_def parsed replayRecords_def
    by (auto simp: replay_one_def one place Chmod_def Lchown_def os_change_def still start chmod Let_def dest: keeps[simplified] split: sum.splits)
qed
text \<open>
  A rebase replays the remote's record on the rewritten paths alone. For the paths git
  reports, a record is replayed exactly when its path was rewritten, or when it names a directory that
  holds a rewritten path or lies directly in one that does; a directory at the root that holds no
  rewritten path is never replayed.
\<close>

theorem replay_selects_the_rewritten:
  assumes "\<forall>es\<in>set changed. es \<noteq> [] \<and> list_all plain_name es"
    and "mr_path one = git_path (ds @ [d])" and "list_all plain_name (ds @ [d])" and "one \<in> set records"
  shows "one \<in> set (recordsUnder records (map git_path changed)) \<longleftrightarrow>
    ds @ [d] \<in> set changed \<or>
    mr_directory one \<and> (\<exists>es\<in>set changed. strict_prefix (ds @ [d]) es \<or> (ds \<noteq> [] \<and> strict_prefix ds es))"
proof -
  have inj: "git_path as = git_path bs \<longleftrightarrow> as = bs" if "list_all plain_name as" "list_all plain_name bs" "as \<noteq> []" "bs \<noteq> []" for as bs
    using split_plain[OF that(1,3)] split_plain[OF that(2,4)] unfolding git_path_def by metis
  have hold: "git_path as \<in> set (holding_dirs (length (git_path es)) (path_dir (git_path es))) \<longleftrightarrow> strict_prefix as es"
    if as: "list_all plain_name as" "as \<noteq> []" and es: "es \<in> set changed" for as es
  proof -
    from es assms(1) have "es \<noteq> []" "list_all plain_name es" by auto
    then obtain bs b where bs: "es = bs @ [b]" "list_all plain_name bs" "list_all plain_name (bs @ [b])"
      by (cases es rule: rev_cases) auto
    have "set (holding_dirs (length (git_path es)) (path_dir (git_path es))) =
        {git_path (take k bs) |k. 0 < k \<and> k \<le> length bs}"
      using holding_dirs_prefixes[OF bs(2), of "length (git_path es)"] git_path_length[OF bs(3)] bs(1)
      by (simp add: path_dir_git_path[OF bs(3)])
    also have "git_path as \<in> \<dots> \<longleftrightarrow> (\<exists>k. 0 < k \<and> k \<le> length bs \<and> as = take k bs)"
    proof -
      have plain: "list_all plain_name (take k bs)" for k
        using bs(2) by (auto simp: list_all_iff dest: in_set_takeD)
      have "git_path as = git_path (take k bs) \<longleftrightarrow> as = take k bs"
        if "0 < k" "k \<le> length bs" for k
        by (rule inj[OF as(1) plain as(2)]) (use that in auto)
      then show ?thesis by blast
    qed
    also have "\<dots> \<longleftrightarrow> strict_prefix as es"
    proof
      assume "\<exists>k. 0 < k \<and> k \<le> length bs \<and> as = take k bs"
      then have "prefix as bs" by (auto simp: take_is_prefix)
      then show "strict_prefix as es" unfolding bs(1) by (auto simp: strict_prefix_def prefix_def)
    next
      assume "strict_prefix as es"
      then have "prefix as bs" unfolding bs(1) by (auto simp: strict_prefix_def prefix_snoc)
      then show "\<exists>k. 0 < k \<and> k \<le> length bs \<and> as = take k bs"
        using as(2) by (auto simp: prefix_def intro!: exI[of _ "length as"])
    qed
    finally show ?thesis .
  qed
  have changed: "git_path (ds @ [d]) \<in> set (map git_path changed) \<longleftrightarrow> ds @ [d] \<in> set changed"
    using inj[OF assms(3)] assms(1) by auto
  have self: "(\<exists>es\<in>set changed. git_path (ds @ [d]) \<in> set (holding_dirs (length (git_path es)) (path_dir (git_path es)))) \<longleftrightarrow>
      (\<exists>es\<in>set changed. strict_prefix (ds @ [d]) es)"
    using hold[OF assms(3)] by auto
  have parent: "(\<exists>es\<in>set changed. path_dir (git_path (ds @ [d])) \<in> set (holding_dirs (length (git_path es)) (path_dir (git_path es)))) \<longleftrightarrow>
      (\<exists>es\<in>set changed. ds \<noteq> [] \<and> strict_prefix ds es)"
  proof (cases "ds = []")
    case True
    have "''.'' \<notin> set (holding_dirs n p)" for n p
      by (induction n p rule: holding_dirs.induct) auto
    moreover have "path_dir (git_path (ds @ [d])) = ''.''" using True path_dir_git_path[OF assms(3)] by simp
    ultimately show ?thesis using True by metis
  next
    case False
    then show ?thesis using hold[of ds] assms(3) by (auto simp: path_dir_git_path[OF assms(3)])
  qed
  show ?thesis
    using assms(2,4) changed self parent by (auto simp: recordsUnder_def Let_def)
qed

theorem replay_selects_the_rewritten_witness:
  "\<lparr>mr_path = ''a'', mr_directory = True, mr_mode = 448, mr_uid = 0, mr_gid = 0\<rparr>
     \<notin> set (recordsUnder [\<lparr>mr_path = ''a'', mr_directory = True, mr_mode = 448, mr_uid = 0, mr_gid = 0\<rparr>]
         (map git_path [[''b'', ''c'']]))"
  using replay_selects_the_rewritten[of "[[''b'', ''c'']]"
      "\<lparr>mr_path = ''a'', mr_directory = True, mr_mode = 448, mr_uid = 0, mr_gid = 0\<rparr>" "[]" "''a''"
      "[\<lparr>mr_path = ''a'', mr_directory = True, mr_mode = 448, mr_uid = 0, mr_gid = 0\<rparr>]"]
  by (simp add: plain_name_def git_path_def strict_prefix_def)

end
