(* ===== verification/Push.thy ===== *)
theory Push
  imports Metadata
begin

section \<open>Commits, pushes, rebases, and the side branch (\<open>commit.go\<close>, \<open>push.go\<close>, \<open>reconcile.go\<close>, \<open>diverged.go\<close>)\<close>

text \<open>
  What the driver does with the work of a writeable volume: it commits what the pod wrote, pushes it,
  puts it on top of what another writer pushed first, and falls back to a side branch when that cannot
  be done. A volume is a reference into the heap, and its work tree is the one the volume names.
\<close>

definition reasonArmed :: string where "reasonArmed = ''GitVolumeArmed''"
definition reasonUnarmed :: string where "reasonUnarmed = ''GitVolumeUnarmed''"
definition reasonPending :: string where "reasonPending = ''GitVolumePending''"
definition reasonPushed :: string where "reasonPushed = ''GitVolumePushed''"
definition reasonPushFailed :: string where "reasonPushFailed = ''GitVolumePushFailed''"
definition reasonSkipped :: string where "reasonSkipped = ''GitVolumeFileSkipped''"
definition reasonDiverged :: string where "reasonDiverged = ''GitVolumeDiverged''"
definition reasonHealed :: string where "reasonHealed = ''GitVolumeHealed''"
definition reasonRebased :: string where "reasonRebased = ''GitVolumeRebased''"

definition work_of :: "volume \<Rightarrow> workTree" where
  "work_of v = (case v_work v of Some w \<Rightarrow> w
     | None \<Rightarrow> \<lparr>w_repository = no_repository, w_directory = v_directory v, w_gitDir = [], w_tree = v_tree v\<rparr>)"

definition ref_of :: "volume \<Rightarrow> string" where
  "ref_of v = a_ref (v_attributes v)"

definition url_of :: "volume \<Rightarrow> string" where
  "url_of v = a_url (v_attributes v)"

subsection \<open>The claim of a volume (\<open>arming.go\<close>, \<open>demand.go\<close>)\<close>

definition carries :: "string \<Rightarrow> persistentVolume \<Rightarrow> bool" where
  "carries handle held =
     (case pv_csi held of None \<Rightarrow> False
      | Some source \<Rightarrow> src_driver source = driverName \<and> src_handle source = handle)"

text \<open>The one copy the watch's store holds for the handle.\<close>

definition heldVolume :: "'g outside \<Rightarrow> string \<Rightarrow> ('g, persistentVolume option) io" where
  "heldVolume out handle = State (\<lambda>w.
     (case o_held out (w_calls w) of None \<Rightarrow> None
      | Some known \<Rightarrow> (case filter (carries handle) known of [held] \<Rightarrow> Some held | _ \<Rightarrow> None),
      w\<lparr>w_calls := Suc (w_calls w)\<rparr>))"

definition list_volumes :: "'g outside \<Rightarrow> ('g, string + persistentVolume list) io" where
  "list_volumes out = State (\<lambda>w. (o_volumes out (w_calls w), w\<lparr>w_calls := Suc (w_calls w)\<rparr>))"

definition bound_claim :: "persistentVolume option \<Rightarrow> claimReference option" where
  "bound_claim known =
     (case known of None \<Rightarrow> None
      | Some held \<Rightarrow> if pv_phase held = VolumeBound then pv_claimRef held else None)"

definition claimOf :: "'g outside \<Rightarrow> string \<Rightarrow> ('g, msg + claimReference) io" where
  "claimOf out handle = do {
     known \<leftarrow> heldVolume out handle;
     case bound_claim known of
       Some claim \<Rightarrow> return (Inr claim)
     | None \<Rightarrow> do {
         volumes \<leftarrow> list_volumes out;
         return (case volumes of
             Inl err \<Rightarrow> Inl (Plain err)
           | Inr items \<Rightarrow> (case find (carries handle) items of
                 None \<Rightarrow> Inl (Fmt ''no PersistentVolume of %s carries the handle %s'' [AStr driverName, AStr handle])
               | Some held \<Rightarrow> (case pv_claimRef held of
                     None \<Rightarrow> Inl (Fmt ''the PersistentVolume %s is bound to no claim'' [AStr (pv_name held)])
                   | Some claim \<Rightarrow> Inr claim)))
       }
   }"

definition claimFor :: "'g outside \<Rightarrow> nat \<Rightarrow> ('g, claimReference) io" where
  "claimFor out r = do {
     held \<leftarrow> volume_at r;
     let (claim, _, _) = reading held;
     if cl_name claim \<noteq> [] \<or> \<not> o_cluster out then return claim
     else do {
       found \<leftarrow> claimOf out (v_id held);
       return (case found of Inl err \<Rightarrow> claim | Inr found \<Rightarrow> found)
     }
   }"

subsection \<open>Talking to the remote\<close>

text \<open>
  The body runs in a credential window: the code opens it with \<open>use\<close> and defers the removal. A window
  that does not open answers what the code returns then.
\<close>

definition within_window ::
    "'g outside \<Rightarrow> nat \<Rightarrow> (string \<Rightarrow> 'a) \<Rightarrow> (string list \<Rightarrow> ('g, 'a) io) \<Rightarrow> ('g, 'a) io" where
  "within_window out r failed body = do {
     held \<leftarrow> volume_at r;
     opened \<leftarrow> use out (credential held) (v_directory held);
     case opened of
       Inl err \<Rightarrow> return (failed err)
     | Inr (env, written) \<Rightarrow> do {
         answer \<leftarrow> body env;
         remove_written out written;
         return answer
       }
   }"

definition fetchUpstream :: "'g outside \<Rightarrow> nat \<Rightarrow> ('g, string + string) io" where
  "fetchUpstream out r = do {
     held \<leftarrow> volume_at r;
     let work = work_of held; let repo = w_repository work;
     within_window out r Inl (\<lambda>env. do {
       failed \<leftarrow> timeFetch (r_name repo) (repo_fetch out repo env (ref_of held) 0);
       case failed of Some err \<Rightarrow> return (Inl err) | None \<Rightarrow> do {
         _ \<leftarrow> fetchMetadata out work env (url_of held) remoteMetadataRef;
         repo_resolve out repo (ref_of held)
       }
     })
   }"

definition no_output :: gitOutput where
  "no_output = \<lparr>out_stdout = [], out_stderr = [], out_code = 0\<rparr>"

definition sendTo :: "'g outside \<Rightarrow> nat \<Rightarrow> string \<Rightarrow> ('g, gitOutput \<times> string option) io" where
  "sendTo out r remote = do {
     held \<leftarrow> volume_at r;
     within_window out r (\<lambda>err. (no_output, Some err))
       (\<lambda>env. pushTo out (work_of held) env (url_of held) (ref_of held) remote)
   }"

definition deleteSide :: "'g outside \<Rightarrow> nat \<Rightarrow> string \<Rightarrow> ('g, string option) io" where
  "deleteSide out r branch = do {
     held \<leftarrow> volume_at r;
     within_window out r Some (\<lambda>env. deleteBranch out (work_of held) env (url_of held) branch)
   }"

definition removeSide :: "'g outside \<Rightarrow> nat \<Rightarrow> string \<Rightarrow> ('g, unit) io" where
  "removeSide out r branch = do { _ \<leftarrow> deleteSide out r branch; return () }"

text \<open>
  The metadata record of the remote, fetched in a window of its own and replayed (\<open>stage.go\<close>: \<open>restore\<close>).
\<close>

definition restore :: "'g outside \<Rightarrow> nat \<Rightarrow> ('g, unit) io" where
  "restore out r = do {
     held \<leftarrow> volume_at r;
     let work = work_of held;
     failed \<leftarrow> within_window out r Some (\<lambda>env. fetchMetadata out work env (url_of held) metadataRef);
     if failed \<noteq> None then return ()
     else do { _ \<leftarrow> replayMetadata out work (o_root out); return () }
   }"

subsection \<open>Rebasing aside\<close>

text \<open>The rebase in the scratch tree, and the commit it landed on.\<close>

definition replay :: "'g outside \<Rightarrow> path \<Rightarrow> string list \<Rightarrow> string \<Rightarrow> ('g, string + string) io" where
  "replay out dir author_env upstream = do {
     (_, err) \<leftarrow> runGit out dir author_env [''rebase'', ''--quiet'', ''--end-of-options'', upstream];
     case err of
       Some e \<Rightarrow> do { _ \<leftarrow> runGit out dir [] [''rebase'', ''--abort'']; return (Inl e) }
     | None \<Rightarrow> do {
         (answer, _) \<leftarrow> runGit out dir [] [''rev-parse'', ''--verify'', ''--end-of-options'', ''HEAD''];
         return (Inr (trimLine (out_stdout answer)))
       }
   }"

definition replayTaken :: "'g outside \<Rightarrow> nat \<Rightarrow> string list \<Rightarrow> ('g, unit) io" where
  "replayTaken out r changed = do {
     held \<leftarrow> volume_at r;
     _ \<leftarrow> replayMetadataFor out (work_of held) (o_root out) changed;
     return ()
   }"

definition rebaseAside :: "'g outside \<Rightarrow> nat \<Rightarrow> string \<Rightarrow> ('g, string option) io" where
  "rebaseAside out r upstream = do {
     held \<leftarrow> volume_at r;
     let work = work_of held;
     head \<leftarrow> refCommit out work ''HEAD'';
     made \<leftarrow> scratch out work;
     case made of Inl err \<Rightarrow> return (Some err) | Inr dir \<Rightarrow> do {
       rebased \<leftarrow> replay out dir (authorEnv held) upstream;
       removeScratch out work dir;
       case rebased of Inl err \<Rightarrow> return (Some err) | Inr rebased \<Rightarrow>
         unless_failed (take_tree out work head rebased) (do {
           changed \<leftarrow> changedPaths out work head rebased;
           replayTaken out r changed;
           return None
         })
     }
   }"

subsection \<open>The side branch\<close>

definition diverge :: "'g outside \<Rightarrow> nat \<Rightarrow> ('g, unit) io" where
  "diverge out r = do {
     held \<leftarrow> volume_at r;
     let branch = sideBranch (ref_of held) (v_id held);
     _ \<leftarrow> markDiverged out (work_of held) branch;
     change_volume r (reportDiverged branch);
     claim \<leftarrow> claimFor out r;
     report_event out r claim Warning reasonDiverged
       (Fmt ''diverged: every push goes to %s, not %s'' [AStr branch, AStr (ref_of held)]);
     record_metrics r;
     noteHealth out r
   }"

definition healed :: "'g outside \<Rightarrow> nat \<Rightarrow> string \<Rightarrow> ('g, string option) io" where
  "healed out r branch = do {
     held \<leftarrow> volume_at r;
     unless_failed (clearDiverged out (work_of held)) (do {
       change_volume r reportHealed;
       claim \<leftarrow> claimFor out r;
       report_event out r claim Normal reasonHealed
         (Fmt ''healed: the tree is back on %s and %s is gone'' [AStr (ref_of held), AStr branch]);
       record_metrics r;
       noteHealth out r;
       return None
     })
   }"

definition heal :: "'g outside \<Rightarrow> nat \<Rightarrow> string \<Rightarrow> string \<Rightarrow> string \<Rightarrow> ('g, string option) io" where
  "heal out r branch upstream side = do {
     held \<leftarrow> volume_at r;
     let work = work_of held;
     unless_failed (reset out work upstream)
     (unless_failed (markPushed out work upstream) (do {
       restore out r;
       (if side \<noteq> [] then removeSide out r branch else return ());
       healed out r branch
     }))
   }"

definition healOrHold ::
    "'g outside \<Rightarrow> nat \<Rightarrow> string \<Rightarrow> string \<Rightarrow> string \<Rightarrow> string \<Rightarrow> ('g, string option) io" where
  "healOrHold out r branch head upstream side = do {
     held \<leftarrow> volume_at r;
     merged \<leftarrow> ancestor out (work_of held) head upstream;
     if \<not> merged then do {
       change_volume r (reportDiverged branch);
       record_metrics r;
       noteHealth out r;
       return None
     } else heal out r branch upstream side
   }"

definition healInTree :: "'g outside \<Rightarrow> nat \<Rightarrow> string \<Rightarrow> string \<Rightarrow> ('g, string option) io" where
  "healInTree out r branch upstream =
     unless_failed (rebaseAside out r upstream)
     (do { removeSide out r branch; healed out r branch })"

definition healIfMerged :: "'g outside \<Rightarrow> nat \<Rightarrow> string \<Rightarrow> ('g, bool) io" where
  "healIfMerged out r branch = do {
     fetched \<leftarrow> fetchUpstream out r;
     case fetched of Inl err \<Rightarrow> return False | Inr upstream \<Rightarrow> do {
       held \<leftarrow> volume_at r;
       merged \<leftarrow> ancestor out (work_of held) pushedRef upstream;
       if \<not> merged then return False
       else do {
         failed \<leftarrow> healInTree out r branch upstream;
         return (failed = None)
       }
     }
   }"

subsection \<open>Reconciling at stage\<close>

definition fastForward :: "'g outside \<Rightarrow> nat \<Rightarrow> string \<Rightarrow> ('g, string option) io" where
  "fastForward out r upstream = do {
     held \<leftarrow> volume_at r;
     let work = work_of held;
     unless_failed (reset out work upstream)
     (unless_failed (markPushed out work upstream)
     (do { restore out r; return None }))
   }"

definition rebase :: "'g outside \<Rightarrow> nat \<Rightarrow> string \<Rightarrow> ('g, string option) io" where
  "rebase out r upstream = do {
     failed \<leftarrow> rebaseAside out r upstream;
     if failed \<noteq> None then do { diverge out r; return None }
     else do {
       held \<leftarrow> volume_at r;
       unless_failed (markPushed out (work_of held) upstream)
       (do { restore out r; return None })
     }
   }"

definition reconcile ::
    "'g outside \<Rightarrow> nat \<Rightarrow> string \<Rightarrow> string \<Rightarrow> string \<Rightarrow> ('g, string option) io" where
  "reconcile out r head upstream side = do {
     held \<leftarrow> volume_at r;
     let work = work_of held;
     branch \<leftarrow> divergedBranch out work;
     if branch \<noteq> [] then healOrHold out r branch head upstream side
     else if head = upstream then return None
     else do {
       ahead \<leftarrow> ancestor out work upstream head;
       if ahead then return None
       else do {
         found \<leftarrow> pending out work;
         let found = (case found of Inl err \<Rightarrow> [] | Inr found \<Rightarrow> found);
         if found \<noteq> [] then do {
           _ \<leftarrow> on_volume r (reportTrouble (Fmt ''upstream moved: %s is at %s and the tree holds %d uncommitted paths''
             [AStr (ref_of held), AStr (short upstream), AInt (int (length found))]));
           return None
         } else do {
           behind \<leftarrow> ancestor out work head upstream;
           if behind then fastForward out r upstream else rebase out r upstream
         }
       }
     }
   }"

subsection \<open>Pushing\<close>

definition rebaseAttempts :: nat where "rebaseAttempts = 3"

primrec rebase_attempts :: "nat \<Rightarrow> 'g outside \<Rightarrow> nat \<Rightarrow> int \<Rightarrow> ('g, string option) io" where
  "rebase_attempts 0 out r commits = return None"
| "rebase_attempts (Suc n) out r commits = do {
     fetched \<leftarrow> fetchUpstream out r;
     case fetched of Inl err \<Rightarrow> return None | Inr upstream \<Rightarrow> do {
     held \<leftarrow> volume_at r;
     let work = work_of held;
     before \<leftarrow> refCommit out work ''HEAD'';
     failed \<leftarrow> rebaseAside out r upstream;
     if failed \<noteq> None then return None
     else do {
     failed \<leftarrow> reparentMetadata out work (authorEnv held);
     if failed \<noteq> None then return None
     else do {
     head \<leftarrow> refCommit out work ''HEAD'';
     (_, failed) \<leftarrow> sendTo out r (ref_of held);
     if failed \<noteq> None then rebase_attempts n out r commits
     else do {
       (if head \<noteq> before then do {
         held \<leftarrow> volume_at r;
         let (claim, _, _) = reading held;
         report_event out r claim Normal reasonRebased
           (Fmt ''rebased %d commits onto %s and pushed to %s'' [AInt commits, AStr (short upstream), AStr (ref_of held)])
       } else return ());
       return (Some head)
     }}}}}"

definition rebaseAndRetry :: "'g outside \<Rightarrow> nat \<Rightarrow> int \<Rightarrow> ('g, string option) io" where
  "rebaseAndRetry out r commits = rebase_attempts rebaseAttempts out r commits"

definition pushFailed :: "'g outside \<Rightarrow> nat \<Rightarrow> msg \<Rightarrow> ('g, unit) io" where
  "pushFailed out r message = do {
     fresh \<leftarrow> on_volume r (reportTrouble message);
     (if fresh then do {
       held \<leftarrow> volume_at r;
       let (claim, _, _) = reading held;
       report_event out r claim Warning reasonPushFailed message
     } else return ());
     held \<leftarrow> volume_at r;
     metric_call (PushFailed held);
     noteHealth out r
   }"

text \<open>
  What \<open>pushNow\<close> does once it has read the commit and the branch: the first push, and for a push the
  remote rejected the rebase or the side branch. It answers the remote's branch, the commit that
  landed there, and the error.
\<close>

definition send_or_rebase ::
    "'g outside \<Rightarrow> nat \<Rightarrow> int \<Rightarrow> string \<Rightarrow> string \<Rightarrow> ('g, string \<times> string \<times> string option) io" where
  "send_or_rebase out r commits branch head = do {
     held \<leftarrow> volume_at r;
     let remote = (if branch \<noteq> [] then branch else ref_of held);
     (answer, pushErr) \<leftarrow> sendTo out r remote;
     if pushErr \<noteq> None \<and> branch = [] \<and> rejectedPush answer then do {
       landed \<leftarrow> rebaseAndRetry out r commits;
       case landed of
         Some rebased \<Rightarrow> return (remote, rebased, None)
       | None \<Rightarrow> do {
           diverge out r;
           held \<leftarrow> volume_at r;
           let remote = divergedFrom held;
           head \<leftarrow> refCommit out (work_of held) ''HEAD'';
           (_, pushErr) \<leftarrow> sendTo out r remote;
           return (remote, head, pushErr)
         }
     } else return (remote, head, pushErr)
   }"

definition pushNow :: "'g outside \<Rightarrow> nat \<Rightarrow> int \<Rightarrow> ('g, unit) io" where
  "pushNow out r commits = do {
     held \<leftarrow> volume_at r;
     if refIsDeleted held \<or> waitsForCredential held then return ()
     else do {
     let work = work_of held;
     head \<leftarrow> head_commit out work;
     case head of Inl err \<Rightarrow> return () | Inr head \<Rightarrow> do {
     let branch = divergedFrom held;
     merged \<leftarrow> (if branch \<noteq> [] then healIfMerged out r branch else return False);
     let branch = (if merged then [] else branch);
     head \<leftarrow> (if merged then refCommit out work ''HEAD'' else return head);
     (remote, head, pushErr) \<leftarrow> send_or_rebase out r commits branch head;
     case pushErr of
       Some err \<Rightarrow> pushFailed out r (Plain err)
     | None \<Rightarrow> do {
         _ \<leftarrow> markPushed out work head;
         now \<leftarrow> time_now out;
         change_volume r (reportPushed now);
         held \<leftarrow> volume_at r;
         let (claim, _, _) = reading held;
         report_event out r claim Normal reasonPushed
           (Fmt ''pushed %d commits to %s at %s'' [AInt commits, AStr remote, AStr (short head)]);
         record_metrics r;
         noteHealth out r
       }
     }}}"

definition counted :: "'g outside \<Rightarrow> nat \<Rightarrow> ('g, string + int \<times> time) io" where
  "counted out r = do {
     held \<leftarrow> volume_at r;
     bind_ok (unpushed out (work_of held) (ref_of held)) (\<lambda>(commits, oldest). do {
       change_volume r (reportUnpushed commits oldest);
       return (Inr (commits, oldest))
     })
   }"

definition pushDue :: "policy \<Rightarrow> int \<Rightarrow> time \<Rightarrow> time \<Rightarrow> duration \<Rightarrow> bool" where
  "pushDue rules commits oldest now quiet =
     (if commits = 0 then False
      else if quiet \<ge> p_quiesce rules then True
      else p_maxLatency rules \<noteq> 0 \<and> oldest \<noteq> 0 \<and> now - oldest > p_maxLatency rules)"

definition pushIfDue :: "'g outside \<Rightarrow> nat \<Rightarrow> policy option \<Rightarrow> duration \<Rightarrow> ('g, unit) io" where
  "pushIfDue out r rules quiet =
     (case rules of None \<Rightarrow> return ()
      | Some rules \<Rightarrow> do {
          answer \<leftarrow> counted out r;
          case answer of Inl err \<Rightarrow> return () | Inr (commits, oldest) \<Rightarrow> do {
            now \<leftarrow> time_now out;
            if pushDue rules commits oldest now quiet then pushNow out r commits else return ()
          }
        })"

definition push_now_or_report :: "'g outside \<Rightarrow> nat \<Rightarrow> ('g, unit) io" where
  "push_now_or_report out r = do {
     answer \<leftarrow> counted out r;
     case answer of Inl err \<Rightarrow> return () | Inr (commits, oldest) \<Rightarrow>
       if commits = 0 then return ()
       else do {
         held \<leftarrow> volume_at r;
         if waitsForCredential held
         then pushFailed out r (Fmt ''%d commits stay on this node: %s'' [AInt commits, AMsg lostCredential])
         else pushNow out r commits
       }
   }"

subsection \<open>Committing\<close>

definition skipping :: "'g outside \<Rightarrow> nat \<Rightarrow> change list \<Rightarrow> ('g, unit) io" where
  "skipping out r skipped = do {
     held \<leftarrow> volume_at r;
     let (claim, _, _) = reading held;
     fresh \<leftarrow> on_volume r (reportSkipped skipped);
     for_each (\<lambda>one. report_event out r claim Warning reasonSkipped
       (Fmt ''%s is %d bytes, over %s'' [AStr (ch_path one), AInt (ch_size one), AStr maxFileSizeParameter])) fresh
   }"

definition stageAndCommit :: "'g outside \<Rightarrow> nat \<Rightarrow> policy \<Rightarrow> ('g, string + string list) io" where
  "stageAndCommit out r rules = do {
     held \<leftarrow> volume_at r;
     let work = work_of held;
     failed \<leftarrow> exclude out work (p_ignore rules);
     case failed of Some err \<Rightarrow> return (Inl err) | None \<Rightarrow>
     bind_ok (pending out work) (\<lambda>found. do {
       (staged, skipped) \<leftarrow> stageChanges out work found rules;
       skipping out r skipped;
       case staged of Inl err \<Rightarrow> return (Inl err) | Inr staged \<Rightarrow>
         if staged = [] then return (Inr [])
         else do {
           failed \<leftarrow> work_commit out work rules staged;
           return (case failed of Some err \<Rightarrow> Inl err | None \<Rightarrow> Inr staged)
         }
     })
   }"

definition commit :: "'g outside \<Rightarrow> nat \<Rightarrow> policy \<Rightarrow> ('g, unit) io" where
  "commit out r rules = do {
     held \<leftarrow> volume_at r;
     (if p_metadata rules then do { _ \<leftarrow> recordMetadata out (work_of held) rules; return () } else return ());
     _ \<leftarrow> stageAndCommit out r rules;
     return ()
   }"

subsection \<open>The calls these operations make\<close>

lemma untouched_lookup:
  "state_io_rel untouched (heldVolume out handle)"
  "state_io_rel untouched (list_volumes out)"
  by (auto simp: state_io_rel_def untouched_def no_calls_def apart_def heldVolume_def list_volumes_def)

lemma untouched_claims:
  "state_io_rel untouched (claimOf out handle)"
  "state_io_rel untouched (claimFor out r)"
proof -
  show claim: "state_io_rel untouched (claimOf out handle)" for handle
    unfolding claimOf_def by (intro untouched.bounds untouched_lookup)
  show "state_io_rel untouched (claimFor out r)"
    unfolding claimFor_def by (intro untouched.bounds untouched_ops claim)
qed

lemma within_window_kinds:
  "(\<And>env. state_io_rel (leaf K) (body env)) \<Longrightarrow> state_io_rel (leaf K) (within_window out r failed body)"
  unfolding within_window_def by (intro kind_rules silent_window[THEN untouched_leaf])

lemma remote_kinds:
  "{Asks, Fetches} \<subseteq> K \<Longrightarrow> state_io_rel (leaf K) (fetchUpstream out r)"
  "{Asks, Pushes} \<subseteq> K \<Longrightarrow> state_io_rel (leaf K) (sendTo out r remote)"
  "{Pushes} \<subseteq> K \<Longrightarrow> state_io_rel (leaf K) (deleteSide out r branch)"
  "{Pushes} \<subseteq> K \<Longrightarrow> state_io_rel (leaf K) (removeSide out r branch)"
  "{Asks, Fetches} \<subseteq> K \<Longrightarrow> state_io_rel (leaf K) (restore out r)"
proof -
  show "{Asks, Fetches} \<subseteq> K \<Longrightarrow> state_io_rel (leaf K) (fetchUpstream out r)"
    unfolding fetchUpstream_def Let_def by (intro kind_rules within_window_kinds repository_kinds work_kinds; blast?)
  show "{Asks, Pushes} \<subseteq> K \<Longrightarrow> state_io_rel (leaf K) (sendTo out r remote)"
    unfolding sendTo_def by (intro kind_rules within_window_kinds work_kinds)
  show side: "{Pushes} \<subseteq> K \<Longrightarrow> state_io_rel (leaf K) (deleteSide out r branch)"
    unfolding deleteSide_def by (intro kind_rules within_window_kinds work_kinds)
  show "{Pushes} \<subseteq> K \<Longrightarrow> state_io_rel (leaf K) (removeSide out r branch)"
    unfolding removeSide_def by (intro kind_rules side)
  show "{Asks, Fetches} \<subseteq> K \<Longrightarrow> state_io_rel (leaf K) (restore out r)"
    unfolding restore_def Let_def by (intro kind_rules within_window_kinds work_kinds metadata_kinds; blast?)
qed

lemma aside_kinds:
  "{Asks, Scratches} \<subseteq> K \<Longrightarrow> state_io_rel (leaf K) (replay out dir author_env upstream)"
  "{Asks} \<subseteq> K \<Longrightarrow> state_io_rel (leaf K) (replayTaken out r changed)"
  "{Asks, Scratches, Moves, Refs} \<subseteq> K \<Longrightarrow> state_io_rel (leaf K) (rebaseAside out r upstream)"
proof -
  show replay: "{Asks, Scratches} \<subseteq> K \<Longrightarrow> state_io_rel (leaf K) (replay out dir author_env upstream)"
    for dir author_env
    unfolding replay_def by (intro kind_rules; simp add: kind_simps)
  show taken: "{Asks} \<subseteq> K \<Longrightarrow> state_io_rel (leaf K) (replayTaken out r changed)" for changed
    unfolding replayTaken_def by (intro kind_rules metadata_kinds)
  show "{Asks, Scratches, Moves, Refs} \<subseteq> K \<Longrightarrow> state_io_rel (leaf K) (rebaseAside out r upstream)"
    unfolding rebaseAside_def Let_def by (intro kind_rules work_kinds replay taken; blast)
qed

lemmas push_leaves = untouched_claims[THEN untouched_leaf] remote_kinds aside_kinds work_kinds
  metadata_kinds untouched_ops[THEN untouched_leaf]

subsection \<open>Where a push goes\<close>

text \<open>
  The pushes a volume may make: its ref onto its ref or onto one of its side branches, with the
  metadata ref beside it, or the removal of the side branch it is on. No refspec starts with a plus
  and no option forces, so git refuses each of them unless it is a fast-forward.
\<close>

definition side_branches :: "volume \<Rightarrow> string set" where
  "side_branches v = {v_diverged v, sideBranch (ref_of v) (v_id v)} - {[]}"

definition branch_specs :: "volume \<Rightarrow> string list set" where
  "branch_specs v = {[''refs/heads/'' @ ref_of v @ '':refs/heads/'' @ remote] |remote. remote \<in> insert (ref_of v) (side_branches v)}"

definition push_specs :: "volume \<Rightarrow> string list set" where
  "push_specs v = branch_specs v \<union> {specs @ [metadataRef @ '':'' @ metadataRef] |specs. specs \<in> branch_specs v} \<union>
     {['':refs/heads/'' @ branch] |branch. branch \<in> side_branches v}"

definition own_push :: "volume \<Rightarrow> string list \<Rightarrow> bool" where
  "own_push v args \<longleftrightarrow> kind_of args = Pushes \<longrightarrow>
     (\<exists>specs\<in>push_specs v. words args = [''push'', ''--quiet'', url_of v] @ specs)"

definition same_volume :: "volume \<Rightarrow> volume \<Rightarrow> bool" where
  "same_volume v0 v \<longleftrightarrow> v_attributes v = v_attributes v0 \<and> v_id v = v_id v0 \<and> v_work v = v_work v0 \<and>
     v_directory v = v_directory v0 \<and> v_tree v = v_tree v0 \<and> v_diverged v \<in> insert [] (side_branches v0)"

definition sends_own :: "nat \<Rightarrow> volume \<Rightarrow> 'g world \<Rightarrow> 'g world \<Rightarrow> bool" where
  "sends_own r v0 w0 w \<longleftrightarrow> calls_in (\<lambda>dir env. own_push v0) w0 w \<and> same_volume v0 (w_heap w r)"

lemma side_branch_nonempty [simp]: "sideBranch ref vid \<noteq> []"
  by (simp add: sideBranch_def)

lemma sends_own_leaf:
  assumes "state_io_rel (leaf K) m" and "Pushes \<notin> K"
  shows "state_io_rel (inv (sends_own r v0 w0)) m"
proof (rule inv_from[OF assms(1)])
  fix w w' assume own: "sends_own r v0 w0 w" and leaf: "leaf K w w'"
  from leaf have "calls_in (\<lambda>dir env. own_push v0) w w'"
  proof -
    from leaf obtain cs where "w_log w' = w_log w @ cs" "\<forall>c\<in>set cs. kind_of (g_args c) \<in> K"
      by (auto simp: leaf_def calls_of_def)
    moreover from this(2) assms(2) have "\<forall>c\<in>set cs. own_push v0 (g_args c)" by (metis own_push_def)
    ultimately show ?thesis by (auto simp: calls_in_def list_all_iff)
  qed
  with own leaf show "sends_own r v0 w0 w'"
    unfolding sends_own_def leaf_def apart_def by (auto intro: calls.follows_on)
qed

lemma sends_own_untouched: "state_io_rel untouched m \<Longrightarrow> state_io_rel (inv (sends_own r v0 w0)) m"
  by (rule sends_own_leaf[OF untouched_leaf[where K = "{}"]]) simp_all

lemma sends_own_read:
  assumes "\<And>held. same_volume v0 held \<Longrightarrow> state_io_rel (inv (sends_own r v0 w0)) (k held)"
  shows "state_io_rel (inv (sends_own r v0 w0)) (volume_at r \<bind> k)"
  using assms by (auto intro!: inv_read[where ok = "same_volume v0"] simp: sends_own_def)

lemma sends_own_change:
  assumes "\<And>v. same_volume v0 v \<Longrightarrow> same_volume v0 (f v)"
  shows "state_io_rel (inv (sends_own r v0 w0)) (change_volume r f)"
  using assms by (auto simp: state_io_rel_def inv_def change_volume_def sends_own_def calls_in_def)

lemma sends_own_on:
  assumes "\<And>v. same_volume v0 v \<Longrightarrow> same_volume v0 (snd (g v))"
  shows "state_io_rel (inv (sends_own r v0 w0)) (on_volume r g)"
  using assms by (auto simp: state_io_rel_def inv_def on_volume_def sends_own_def calls_in_def case_prod_beta Let_def)

lemma same_volume_reports:
  assumes "same_volume v0 v"
  shows "same_volume v0 (snd (takeHealth now v))" "same_volume v0 (snd (reportTrouble message v))"
    "same_volume v0 (reportHealed v)" "same_volume v0 (reportPushed now v)"
    "same_volume v0 (reportUnpushed commits oldest v)" "same_volume v0 (snd (reportSkipped found v))"
    "branch \<in> side_branches v0 \<Longrightarrow> same_volume v0 (reportDiverged branch v)"
  using assms
  by (auto simp: same_volume_def takeHealth_def reportTrouble_def reportHealed_def reportPushed_def
      reportUnpushed_def reportSkipped_def reportDiverged_def case_prod_beta)

lemma sends_own_health: "state_io_rel (inv (sends_own r v0 w0)) (noteHealth out r)"
  unfolding noteHealth_def
  by (intro inv.bounds sends_own_on same_volume_reports sends_own_untouched untouched_ops)

lemma same_volume_side:
  "same_volume v0 held \<Longrightarrow> sideBranch (ref_of held) (v_id held) \<in> side_branches v0"
  by (simp add: same_volume_def side_branches_def ref_of_def)

lemma sends_own_push:
  assumes "specs \<in> push_specs v0"
  shows "state_io_rel (inv (sends_own r v0 w0)) (gitWith out w env ([''push'', ''--quiet'', url_of v0] @ specs))"
    (is "state_io_rel _ ?m")
proof -
  have own: "state_io_rel (calls_in (\<lambda>dir env. own_push v0)) ?m"
    unfolding gitWith_def
    by (rule runGit_calls) (use assms in \<open>auto simp: own_push_def words_work_args\<close>)
  have "state_io_rel (leaf UNIV) ?m" by (rule work_call_kinds) simp
  with own have "state_io_rel (\<lambda>u u'. calls_in (\<lambda>dir env. own_push v0) u u' \<and> apart u u') ?m"
    by (simp add: state_io_rel_def leaf_def)
  then show ?thesis
    by (rule inv_from) (auto simp: sends_own_def apart_def intro: calls.follows_on)
qed

lemma same_volume_names:
  "same_volume v0 held \<Longrightarrow> ref_of held = ref_of v0 \<and> url_of held = url_of v0"
  by (simp add: same_volume_def ref_of_def url_of_def)

lemma sends_own_window:
  "(\<And>env. state_io_rel (inv (sends_own r v0 w0)) (body env)) \<Longrightarrow>
   state_io_rel (inv (sends_own r v0 w0)) (within_window out r failed body)"
  unfolding within_window_def
  by (intro sends_own_read inv.bounds silent_window[THEN sends_own_untouched])

lemma sends_own_sendTo:
  assumes "remote \<in> insert (ref_of v0) (side_branches v0)"
  shows "state_io_rel (inv (sends_own r v0 w0)) (sendTo out r remote)"
proof -
  have branch: "[''refs/heads/'' @ ref_of v0 @ '':refs/heads/'' @ remote] \<in> branch_specs v0"
    using assms by (auto simp: branch_specs_def)
  then have specs: "[''refs/heads/'' @ ref_of v0 @ '':refs/heads/'' @ remote] \<in> push_specs v0"
    "[''refs/heads/'' @ ref_of v0 @ '':refs/heads/'' @ remote, metadataRef @ '':'' @ metadataRef] \<in> push_specs v0"
    by (auto simp: push_specs_def)
  have asks: "state_io_rel (inv (sends_own r v0 w0)) (refCommit out w ref)" for w ref
    by (rule sends_own_leaf[where K = "{Asks}"]) (auto intro: work_kinds)
  have "state_io_rel (inv (sends_own r v0 w0)) (pushTo out w env (url_of v0) (ref_of v0) remote)" for w env
    unfolding pushTo_def Let_def
    using sends_own_push[OF specs(1)] sends_own_push[OF specs(2)]
    by (intro inv.bounds asks) auto
  then show ?thesis
    unfolding sendTo_def
    by (intro sends_own_read sends_own_window) (simp add: same_volume_names)
qed

lemma sends_own_removeSide:
  assumes "branch \<in> side_branches v0"
  shows "state_io_rel (inv (sends_own r v0 w0)) (removeSide out r branch)"
proof -
  have "['':refs/heads/'' @ branch] \<in> push_specs v0" using assms by (auto simp: push_specs_def)
  from sends_own_push[OF this]
  have "state_io_rel (inv (sends_own r v0 w0)) (deleteBranch out w env (url_of v0) branch)" for w env
    unfolding deleteBranch_def work_step_def by (intro inv.bounds) simp
  then show ?thesis
    unfolding removeSide_def deleteSide_def
    by (intro sends_own_read sends_own_window inv.bounds) (simp add: same_volume_names)
qed

lemma sends_own_leaves:
  "state_io_rel (inv (sends_own r v0 w0)) (fetchUpstream out r)"
  "state_io_rel (inv (sends_own r v0 w0)) (rebaseAside out r upstream)"
  "state_io_rel (inv (sends_own r v0 w0)) (refCommit out w ref)"
  "state_io_rel (inv (sends_own r v0 w0)) (head_commit out w)"
  "state_io_rel (inv (sends_own r v0 w0)) (ancestor out w old new)"
  "state_io_rel (inv (sends_own r v0 w0)) (markPushed out w c)"
  "state_io_rel (inv (sends_own r v0 w0)) (markDiverged out w c)"
  "state_io_rel (inv (sends_own r v0 w0)) (clearDiverged out w)"
  "state_io_rel (inv (sends_own r v0 w0)) (reparentMetadata out w author_env)"
  "state_io_rel (inv (sends_own r v0 w0)) (unpushed out w ref)"
  by (rule sends_own_leaf[where K = "- {Pushes}"]; auto intro!: push_leaves)+

lemma sends_own_tail:
  "state_io_rel (inv (sends_own r v0 w0)) (claimFor out r)"
  "state_io_rel (inv (sends_own r v0 w0)) (report_event out r claim type reason message)"
  "state_io_rel (inv (sends_own r v0 w0)) (record_metrics r)"
  "state_io_rel (inv (sends_own r v0 w0)) (metric_call m)"
  "state_io_rel (inv (sends_own r v0 w0)) (time_now out)"
  by (intro sends_own_untouched untouched_claims untouched_ops)+

lemmas sends_own_rules = sends_own_read inv.bounds sends_own_leaves sends_own_tail sends_own_health
  sends_own_change sends_own_on same_volume_reports

lemma sends_own_diverge: "state_io_rel (inv (sends_own r v0 w0)) (diverge out r)"
  unfolding diverge_def Let_def by (intro sends_own_rules same_volume_side) simp_all

lemma sends_own_healed: "state_io_rel (inv (sends_own r v0 w0)) (healed out r branch)"
  unfolding healed_def Let_def by (intro sends_own_rules)

lemma sends_own_healIfMerged:
  "branch \<in> side_branches v0 \<Longrightarrow> state_io_rel (inv (sends_own r v0 w0)) (healIfMerged out r branch)"
  unfolding healIfMerged_def healInTree_def Let_def
  by (intro sends_own_rules sends_own_removeSide sends_own_healed)

text \<open>After \<open>diverge\<close> the volume is on a side branch.\<close>

definition on_side :: "nat \<Rightarrow> volume \<Rightarrow> 'g world \<Rightarrow> bool" where
  "on_side r v0 w \<longleftrightarrow> v_diverged (w_heap w r) \<in> side_branches v0"

lemma on_side_untouched: "state_io_rel untouched m \<Longrightarrow> state_io_rel (inv (on_side r v0)) m"
  by (rule inv_from[of untouched]) (auto simp: on_side_def untouched_def apart_def)

lemma on_side_health: "state_io_rel (inv (on_side r v0)) (noteHealth out r)"
proof -
  have "state_io_rel (inv (on_side r v0)) (on_volume r (takeHealth now))" for now
    by (auto simp: state_io_rel_def inv_def on_volume_def on_side_def takeHealth_def case_prod_beta Let_def)
  then show ?thesis
    unfolding noteHealth_def by (intro inv.bounds untouched_ops[THEN on_side_untouched])
qed

lemma triple_inv: "state_io_rel (inv I) m \<Longrightarrow> triple I m (\<lambda>x. I)"
  by (simp add: triple_def state_io_rel_def inv_def)

lemma inv_triple: "triple I m (\<lambda>x. I) \<Longrightarrow> state_io_rel (inv I) m"
  by (simp add: triple_def state_io_rel_def inv_def)

lemma triple_and: "triple P m Q \<Longrightarrow> triple P' m Q' \<Longrightarrow> triple (\<lambda>s. P s \<and> P' s) m (\<lambda>x s. Q x s \<and> Q' x s)"
  by (simp add: triple_def)

lemma diverge_on_side: "triple (sends_own r v0 w0) (diverge out r) (\<lambda>x. on_side r v0)"
proof -
  have report: "triple (sends_own r v0 w0) (change_volume r (reportDiverged branch)) (\<lambda>x. on_side r v0)"
    if "branch \<in> side_branches v0" for branch
    using that by (auto simp: triple_def change_volume_def on_side_def reportDiverged_def)
  have tail: "triple (on_side r v0) (do { claim \<leftarrow> claimFor out r;
      report_event out r claim Warning reasonDiverged message; record_metrics r; noteHealth out r }) (\<lambda>x. on_side r v0)" for message
    by (intro triple_inv inv.bounds untouched_claims[THEN on_side_untouched]
        untouched_ops[THEN on_side_untouched] on_side_health)
  have read: "triple (sends_own r v0 w0) (volume_at r) (\<lambda>held w. same_volume v0 held \<and> sends_own r v0 w0 w)"
    by (auto simp: triple_def volume_at_def sends_own_def)
  have mark: "triple (sends_own r v0 w0) (markDiverged out work branch) (\<lambda>x. sends_own r v0 w0)" for work branch
    by (rule triple_inv) (rule sends_own_leaves)
  show ?thesis
    unfolding diverge_def Let_def
    by (intro triple_bind[OF read] triple_assume triple_bind[OF mark] triple_bind[OF report] same_volume_side tail)
qed

lemma sends_own_after_diverge:
  assumes "\<And>held. same_volume v0 held \<Longrightarrow> v_diverged held \<in> side_branches v0 \<Longrightarrow>
      state_io_rel (inv (sends_own r v0 w0)) (k held)"
  shows "state_io_rel (inv (sends_own r v0 w0)) (do { diverge out r; held \<leftarrow> volume_at r; k held })"
proof (rule inv_triple, rule triple_bind)
  show "triple (sends_own r v0 w0) (diverge out r) (\<lambda>x w. sends_own r v0 w0 w \<and> on_side r v0 w)"
    using triple_and[OF triple_inv[OF sends_own_diverge] diverge_on_side]
    by (rule triple_weaken) simp_all
  show "triple (\<lambda>w. sends_own r v0 w0 w \<and> on_side r v0 w) (volume_at r \<bind> k) (\<lambda>x. sends_own r v0 w0)"
    using assms by (auto simp: triple_def volume_at_def sends_own_def on_side_def state_io_rel_def inv_def)
qed

lemma sends_own_back: "same_volume v0 held \<Longrightarrow> state_io_rel (inv (sends_own r v0 w0)) (sendTo out r (ref_of held))"
  by (rule sends_own_sendTo) (simp add: same_volume_names)

lemma sends_own_attempts: "state_io_rel (inv (sends_own r v0 w0)) (rebase_attempts n out r commits)"
proof (induction n)
  case 0
  then show ?case by (simp add: inv.bound_return)
next
  case (Suc n)
  show ?case
    unfolding rebase_attempts.simps Let_def
    by (intro sends_own_rules Suc sends_own_back)
qed

lemma sends_own_send:
  assumes "branch \<in> insert [] (side_branches v0)"
  shows "state_io_rel (inv (sends_own r v0 w0)) (send_or_rebase out r commits branch head)"
proof -
  have first: "state_io_rel (inv (sends_own r v0 w0)) (sendTo out r (if branch \<noteq> [] then branch else ref_of held))"
    if "same_volume v0 held" for held
    using assms that by (intro sends_own_sendTo) (auto simp: same_volume_names)
  show ?thesis
    unfolding send_or_rebase_def rebaseAndRetry_def Let_def
    by (intro sends_own_after_diverge sends_own_read inv.bounds first sends_own_attempts sends_own_leaves
        sends_own_sendTo) (simp_all add: divergedFrom_def)
qed

lemma sends_own_pushFailed: "state_io_rel (inv (sends_own r v0 w0)) (pushFailed out r message)"
  unfolding pushFailed_def Let_def by (intro sends_own_rules)

lemma sends_own_pushNow: "state_io_rel (inv (sends_own r v0 w0)) (pushNow out r commits)"
proof -
  have branch: "divergedFrom held \<noteq> [] \<Longrightarrow> divergedFrom held \<in> side_branches v0"
    "(if merged then [] else divergedFrom held) \<in> insert [] (side_branches v0)"
    if "same_volume v0 held" for held merged
    using that by (auto simp: same_volume_def divergedFrom_def)
  show ?thesis
    unfolding pushNow_def Let_def
    by (intro sends_own_rules sends_own_healIfMerged sends_own_send sends_own_pushFailed branch) assumption+
qed

lemma sends_own_pushes:
  "state_io_rel (inv (sends_own r v0 w0)) (counted out r)"
  "state_io_rel (inv (sends_own r v0 w0)) (pushIfDue out r rules quiet)"
  "state_io_rel (inv (sends_own r v0 w0)) (push_now_or_report out r)"
proof -
  show counted: "state_io_rel (inv (sends_own r v0 w0)) (counted out r)"
    unfolding counted_def by (intro sends_own_rules)
  show "state_io_rel (inv (sends_own r v0 w0)) (pushIfDue out r rules quiet)"
    unfolding pushIfDue_def by (intro sends_own_rules counted sends_own_pushNow)
  show "state_io_rel (inv (sends_own r v0 w0)) (push_now_or_report out r)"
    unfolding push_now_or_report_def by (intro sends_own_rules counted sends_own_pushNow sends_own_pushFailed)
qed

subsection \<open>When the mark moves\<close>

definition push_landed :: "gitCall \<Rightarrow> bool" where
  "push_landed c \<longleftrightarrow> kind_of (g_args c) = Pushes \<and> g_error c = None"

definition marks_follow_pushes :: "gitCall list \<Rightarrow> bool" where
  "marks_follow_pushes cs \<longleftrightarrow>
     (\<forall>i<length cs. kind_of (g_args (cs ! i)) = Marks \<longrightarrow> 0 < i \<and> push_landed (cs ! (i - 1)))"

definition marking :: "bool \<Rightarrow> 'g world \<Rightarrow> 'g world \<Rightarrow> bool" where
  "marking landed w0 w \<longleftrightarrow> (\<exists>cs. w_log w = w_log w0 @ cs \<and> marks_follow_pushes cs \<and>
     (landed \<longrightarrow> cs \<noteq> [] \<and> push_landed (last cs)))"

lemma marks_snoc:
  "marks_follow_pushes cs \<Longrightarrow>
   (kind_of (g_args c) = Marks \<Longrightarrow> cs \<noteq> [] \<and> push_landed (last cs)) \<Longrightarrow> marks_follow_pushes (cs @ [c])"
  by (auto simp: marks_follow_pushes_def nth_append last_conv_nth less_Suc_eq)

lemma marks_append:
  "marks_follow_pushes cs \<Longrightarrow> \<forall>c\<in>set ds. kind_of (g_args c) \<noteq> Marks \<Longrightarrow> marks_follow_pushes (cs @ ds)"
proof (induction ds rule: rev_induct)
  case (snoc d ds)
  then show ?case using marks_snoc[of "cs @ ds" d] by simp
qed simp

lemma marking_weaken: "marking b w0 w \<Longrightarrow> marking False w0 w"
  by (auto simp: marking_def)

lemma marking_calls:
  assumes "state_io_rel (calls_of K) m" and "Marks \<notin> K"
  shows "triple (marking b w0) m (\<lambda>x. marking False w0)"
proof (rule triple_bound[OF assms(1)])
  fix w w' assume "marking b w0 w" "calls_of K w w'"
  then obtain cs ds where log: "w_log w = w_log w0 @ cs" "marks_follow_pushes cs" "w_log w' = w_log w @ ds"
    and ds: "\<forall>c\<in>set ds. kind_of (g_args c) \<in> K" by (auto simp: marking_def calls_of_def)
  from ds assms(2) have "\<forall>c\<in>set ds. kind_of (g_args c) \<noteq> Marks" by metis
  with log(2) have "marks_follow_pushes (cs @ ds)" by (rule marks_append)
  with log(1,3) show "marking False w0 w'" by (auto simp: marking_def)
qed

lemma marking_silent:
  assumes "state_io_rel no_calls m"
  shows "triple (marking b w0) m (\<lambda>x. marking b w0)"
  by (rule triple_bound[OF assms]) (auto simp: marking_def no_calls_def)

lemma marking_untouched: "state_io_rel untouched m \<Longrightarrow> triple (marking b w0) m (\<lambda>x. marking b w0)"
  by (rule marking_silent) (rule untouched_silent)

lemma marking_push:
  "triple (marking b w0) (gitWith out w env ([''push'', ''--quiet'', url] @ specs))
    (\<lambda>x. marking (snd x = None) w0)"
proof -
  have kind: "kind_of (''push'' # rest) = Pushes" for rest by (simp add: kind_simps)
  show ?thesis
    by (auto simp: triple_def gitWith_def runGit_def Let_def marking_def push_landed_def kind
        split: prod.splits intro!: marks_snoc)
qed

lemma marking_pushTo: "triple (marking b w0) (pushTo out w env url ref remote) (\<lambda>x. marking (snd x = None) w0)"
proof -
  have ask: "triple (marking b w0) (refCommit out w metadataRef) (\<lambda>x. marking False w0)"
    by (rule marking_calls[where K = "{Asks}"]) (auto intro: work_kinds leaf_calls)
  show ?thesis unfolding pushTo_def Let_def by (rule triple_bind[OF ask marking_push])
qed

lemma marking_window:
  assumes "\<And>env. triple (marking False w0) (body env) (\<lambda>x. marking (good x) w0)" and "\<And>err. \<not> good (failed err)"
  shows "triple (marking False w0) (within_window out r failed body) (\<lambda>x. marking (good x) w0)"
  unfolding within_window_def
proof (rule triple_bind[OF marking_untouched[OF untouched_primitives(1)]],
    rule triple_bind[OF marking_untouched[OF silent_window(3)]])
  fix held :: volume and opened :: "string + string list \<times> path list"
  show "triple (marking False w0)
      (case opened of Inl err \<Rightarrow> return (failed err)
       | Inr (env, written) \<Rightarrow> do { answer \<leftarrow> body env; remove_written out written; return answer })
      (\<lambda>x. marking (good x) w0)"
  proof (cases opened)
    case (Inl err)
    then show ?thesis using assms(2) by (simp add: triple_return_iff)
  next
    case (Inr answer)
    then show ?thesis
      by (cases answer) (auto intro!: triple_bind[OF assms(1)] triple_bind[OF marking_untouched[OF silent_window(1)]] triple_return)
  qed
qed

lemma marking_sendTo:
  "triple (marking b w0) (sendTo out r remote) (\<lambda>x. marking (snd x = None) w0)"
proof -
  have "triple (marking False w0) (within_window out r (\<lambda>err. (no_output, Some err))
      (\<lambda>env. pushTo out (work_of held) env (url_of held) (ref_of held) remote))
      (\<lambda>x. marking (snd x = None) w0)" for held
    by (rule marking_window) (simp_all add: marking_pushTo)
  then have "triple (marking False w0) (sendTo out r remote) (\<lambda>x. marking (snd x = None) w0)"
    unfolding sendTo_def by (rule triple_bind[OF marking_untouched[OF untouched_primitives(1)]])
  then show ?thesis by (rule triple_weaken) (auto intro: marking_weaken)
qed

lemma side_calls:
  "{Configures} \<subseteq> K \<Longrightarrow> state_io_rel (calls_of K) (diverge out r)"
  "{Configures} \<subseteq> K \<Longrightarrow> state_io_rel (calls_of K) (healed out r branch)"
  "{Asks, Fetches, Scratches, Moves, Refs, Pushes, Configures} \<subseteq> K \<Longrightarrow>
    state_io_rel (calls_of K) (healIfMerged out r branch)"
  "state_io_rel (calls_of K) (pushFailed out r message)"
proof -
  note rules = kinds.bounds push_leaves[THEN leaf_calls] silent_ops[THEN silent_kinds]
  show "{Configures} \<subseteq> K \<Longrightarrow> state_io_rel (calls_of K) (diverge out r)"
    unfolding diverge_def Let_def by (intro rules)
  show healed: "{Configures} \<subseteq> K \<Longrightarrow> state_io_rel (calls_of K) (healed out r branch)"
    unfolding healed_def Let_def by (intro rules)
  show "{Asks, Fetches, Scratches, Moves, Refs, Pushes, Configures} \<subseteq> K \<Longrightarrow>
      state_io_rel (calls_of K) (healIfMerged out r branch)"
    unfolding healIfMerged_def healInTree_def Let_def by (intro rules healed; blast)
  show "state_io_rel (calls_of K) (pushFailed out r message)"
    unfolding pushFailed_def Let_def by (intro rules)
qed

lemma marking_leaf: "state_io_rel (leaf K) m \<Longrightarrow> Marks \<notin> K \<Longrightarrow> triple (marking b w0) m (\<lambda>x. marking False w0)"
  by (rule marking_calls[OF leaf_calls])

lemma marking_return: "(good x \<longrightarrow> b) \<Longrightarrow> triple (marking b w0) (return x) (\<lambda>x. marking (good x) w0)"
  by (auto simp: triple_return_iff marking_def)

lemma marking_sum:
  "(\<And>err. triple P (m err) Q) \<Longrightarrow> (\<And>x. triple P (k x) Q) \<Longrightarrow>
   triple P (case answer of Inl err \<Rightarrow> m err | Inr x \<Rightarrow> k x) Q"
  by (cases answer) simp_all

lemma marking_sent:
  "(triple (marking False w0) m Q) \<Longrightarrow> (triple (marking True w0) k Q) \<Longrightarrow>
   triple (marking (snd sent = None) w0) (case sent of (x, failed) \<Rightarrow> if failed \<noteq> None then m else k) Q"
  by (cases sent) auto

lemma marking_attempts:
  "triple (marking b w0) (rebase_attempts n out r commits) (\<lambda>x. marking (x \<noteq> None) w0)"
proof (induction n arbitrary: b)
  case 0
  then show ?case by (auto simp: triple_return_iff intro: marking_weaken)
next
  case (Suc n)
  have read: "triple (marking c w0) (volume_at r) (\<lambda>x. marking c w0)" for c
    by (rule marking_untouched) (rule untouched_primitives)
  have fetch: "triple (marking b w0) (fetchUpstream out r) (\<lambda>x. marking False w0)"
    by (rule marking_leaf[where K = "- {Marks}"]) (auto intro: push_leaves)
  have ref: "triple (marking False w0) (refCommit out work ref) (\<lambda>x. marking False w0)" for work ref
    by (rule marking_leaf[where K = "- {Marks}"]) (auto intro: push_leaves)
  have aside: "triple (marking False w0) (rebaseAside out r upstream) (\<lambda>x. marking False w0)" for upstream
    by (rule marking_leaf[where K = "- {Marks}"]) (auto intro: push_leaves)
  have reparent: "triple (marking False w0) (reparentMetadata out work env) (\<lambda>x. marking False w0)" for work env
    by (rule marking_leaf[where K = "- {Marks}"]) (auto intro: push_leaves)
  have event: "triple (marking True w0) (report_event out r claim type reason message) (\<lambda>x. marking True w0)"
    for claim type reason message by (rule marking_untouched) (rule untouched_ops)
  have none: "triple (marking False w0) (return None) (\<lambda>x. marking (x \<noteq> None) w0)"
    by (rule marking_return) simp
  have some: "triple (marking True w0) (return (Some head)) (\<lambda>x. marking (x \<noteq> None) w0)" for head :: string
    by (rule marking_return) simp
  have tell: "triple (marking True w0)
      (if moved then do { held \<leftarrow> volume_at r; case reading held of (claim, x, y) \<Rightarrow>
         report_event out r claim type reason (message held) } else return ()) (\<lambda>x. marking True w0)"
    for moved type reason message
    by (auto intro!: triple_if triple_bind[OF read] event triple_return split: prod.splits)
  have again: "triple (marking False w0) (rebase_attempts n out r commits) (\<lambda>x. marking (x \<noteq> None) w0)"
    by (rule Suc)
  show ?case
    unfolding rebase_attempts.simps Let_def
    by (rule triple_bind[OF fetch], rule marking_sum, rule none, rule triple_bind[OF read],
        rule triple_bind[OF ref], rule triple_bind[OF aside], rule triple_if, rule none,
        rule triple_bind[OF reparent], rule triple_if, rule none, rule triple_bind[OF ref],
        rule triple_bind[OF marking_sendTo], rule marking_sent, rule again, rule triple_bind[OF tell], rule some)
qed

lemma marking_send:
  "triple (marking b w0) (send_or_rebase out r commits branch head) (\<lambda>x. marking (snd (snd x) = None) w0)"
proof -
  have read: "triple (marking c w0) (volume_at r) (\<lambda>x. marking c w0)" for c
    by (rule marking_untouched) (rule untouched_primitives)
  have diverge: "triple (marking c w0) (diverge out r) (\<lambda>x. marking False w0)" for c
    by (rule marking_calls[where K = "- {Marks}"]) (auto intro: side_calls)
  have ref: "triple (marking False w0) (refCommit out work ref) (\<lambda>x. marking False w0)" for work ref
    by (rule marking_leaf[where K = "- {Marks}"]) (auto intro: push_leaves)
  have answer: "triple (marking (snd sent = None) w0) (case sent of (x, err) \<Rightarrow> return (remote, head, err))
      (\<lambda>x. marking (snd (snd x) = None) w0)" for sent :: "gitOutput \<times> string option" and remote head :: string
    by (cases sent) (auto simp: triple_return_iff)
  have side: "triple (marking c w0) (do {
        diverge out r; held \<leftarrow> volume_at r; head \<leftarrow> refCommit out (work_of held) ''HEAD'';
        (_, pushErr) \<leftarrow> sendTo out r (divergedFrom held);
        return (divergedFrom held, head, pushErr) }) (\<lambda>x. marking (snd (snd x) = None) w0)" for c
    by (rule triple_bind[OF diverge], rule triple_bind[OF read], rule triple_bind[OF ref],
        rule triple_bind[OF marking_sendTo], rule answer)
  have retry: "triple (marking c w0) (do {
        landed \<leftarrow> rebaseAndRetry out r commits;
        case landed of
          Some rebased \<Rightarrow> return (remote, rebased, None)
        | None \<Rightarrow> do {
            diverge out r; held \<leftarrow> volume_at r; head \<leftarrow> refCommit out (work_of held) ''HEAD'';
            (_, pushErr) \<leftarrow> sendTo out r (divergedFrom held);
            return (divergedFrom held, head, pushErr) } }) (\<lambda>x. marking (snd (snd x) = None) w0)" for c remote
    unfolding rebaseAndRetry_def
  proof (rule triple_bind[OF marking_attempts])
    fix landed :: "string option"
    show "triple (marking (landed \<noteq> None) w0)
      (case landed of None \<Rightarrow> do {
            diverge out r; held \<leftarrow> volume_at r; head \<leftarrow> refCommit out (work_of held) ''HEAD'';
            (_, pushErr) \<leftarrow> sendTo out r (divergedFrom held);
            return (divergedFrom held, head, pushErr) }
        | Some rebased \<Rightarrow> return (remote, rebased, None)) (\<lambda>x. marking (snd (snd x) = None) w0)"
      using side[of "landed \<noteq> None"] by (cases landed) (simp_all add: triple_return_iff)
  qed
  show ?thesis
    unfolding send_or_rebase_def Let_def
  proof (rule triple_bind[OF read], rule triple_bind[OF marking_sendTo])
    fix held :: volume and sent :: "gitOutput \<times> string option"
    obtain answer err where sent: "sent = (answer, err)" by fastforce
    show "triple (marking (snd sent = None) w0) (case sent of (answer, pushErr) \<Rightarrow>
        if pushErr \<noteq> None \<and> branch = [] \<and> rejectedPush answer then do {
          landed \<leftarrow> rebaseAndRetry out r commits;
          case landed of None \<Rightarrow> do {
              diverge out r; held \<leftarrow> volume_at r; head \<leftarrow> refCommit out (work_of held) ''HEAD'';
              (_, pushErr) \<leftarrow> sendTo out r (divergedFrom held);
              return (divergedFrom held, head, pushErr) }
          | Some rebased \<Rightarrow> return (if branch \<noteq> [] then branch else ref_of held, rebased, None) }
        else return (if branch \<noteq> [] then branch else ref_of held, head, pushErr))
        (\<lambda>x. marking (snd (snd x) = None) w0)"
      unfolding sent prod.case snd_conv by (rule triple_if) (rule retry, simp add: triple_return_iff)
  qed
qed

lemma marking_pushNow: "triple (marking b w0) (pushNow out r commits) (\<lambda>x. marking False w0)"
proof -
  have read: "triple (marking c w0) (volume_at r) (\<lambda>x. marking c w0)" for c
    by (rule marking_untouched) (rule untouched_primitives)
  have head: "triple (marking b w0) (head_commit out work) (\<lambda>x. marking False w0)" for work
    by (rule marking_leaf[where K = "- {Marks}"]) (auto intro: push_leaves)
  have ref: "triple (marking False w0) (refCommit out work ref) (\<lambda>x. marking False w0)" for work ref
    by (rule marking_leaf[where K = "- {Marks}"]) (auto intro: push_leaves)
  have merged: "triple (marking False w0) (if branch \<noteq> [] then healIfMerged out r branch else return False)
      (\<lambda>x. marking False w0)" for branch
    by (rule triple_if, rule marking_calls[where K = "- {Marks}"])
      (auto intro: side_calls simp: triple_return_iff)
  have head2: "triple (marking False w0) (if merged then refCommit out work ref else return head) (\<lambda>x. marking False w0)"
    for merged work ref head by (rule triple_if, rule ref) (simp add: triple_return_iff)
  have failed: "triple (marking c w0) (pushFailed out r message) (\<lambda>x. marking False w0)" for c message
    by (rule marking_calls[where K = "{}"]) (auto intro: side_calls)
  have mark: "triple (marking True w0) (markPushed out work head) (\<lambda>x. marking False w0)" for work head
    by (auto simp: triple_def markPushed_def work_step_def gitWith_def runGit_def Let_def marking_def
        split: prod.splits intro!: marks_snoc)
  have after: "triple (marking False w0) (do {
         now \<leftarrow> time_now out;
         change_volume r (reportPushed now);
         held \<leftarrow> volume_at r;
         case reading held of (claim, x, y) \<Rightarrow> do {
         report_event out r claim Normal reasonPushed
           (Fmt ''pushed %d commits to %s at %s'' [AInt commits, AStr remote, AStr (short head)]);
         record_metrics r;
         noteHealth out r } }) (\<lambda>x. marking False w0)" for remote head
    by (rule marking_silent) (intro silent.bounds silent_ops)
  have landed: "triple (marking True w0) (do {
         _ \<leftarrow> markPushed out work head;
         now \<leftarrow> time_now out;
         change_volume r (reportPushed now);
         held \<leftarrow> volume_at r;
         case reading held of (claim, x, y) \<Rightarrow> do {
         report_event out r claim Normal reasonPushed
           (Fmt ''pushed %d commits to %s at %s'' [AInt commits, AStr remote, AStr (short head)]);
         record_metrics r;
         noteHealth out r } }) (\<lambda>x. marking False w0)" for work remote head
    by (rule triple_bind[OF mark after])
  have finish: "triple (marking (snd (snd sent) = None) w0) (case sent of (remote, head, pushErr) \<Rightarrow>
       (case pushErr of
          None \<Rightarrow> do {
            _ \<leftarrow> markPushed out work head;
            now \<leftarrow> time_now out;
            change_volume r (reportPushed now);
            held \<leftarrow> volume_at r;
            case reading held of (claim, x, y) \<Rightarrow> do {
            report_event out r claim Normal reasonPushed
              (Fmt ''pushed %d commits to %s at %s'' [AInt commits, AStr remote, AStr (short head)]);
            record_metrics r;
            noteHealth out r } }
        | Some err \<Rightarrow> pushFailed out r (Plain err))) (\<lambda>x. marking False w0)" for sent work
  proof -
    obtain remote head err where sent: "sent = (remote, head, err)" by (cases sent) auto
    show ?thesis
      unfolding sent prod.case snd_conv
      using landed failed by (cases err) (simp_all only: option.case refl)
  qed
  show ?thesis
    unfolding pushNow_def Let_def
  proof (rule triple_bind[OF read], rule triple_if)
    show "triple (marking b w0) (return ()) (\<lambda>x. marking False w0)"
      by (auto simp: triple_return_iff intro: marking_weaken)
  qed (rule triple_bind[OF head], rule marking_sum, simp add: triple_return_iff,
      rule triple_bind[OF merged], rule triple_bind[OF head2], rule triple_bind[OF marking_send], rule finish)
qed

subsection \<open>How many pushes there are\<close>

definition pushes_in :: "'g world \<Rightarrow> nat" where
  "pushes_in w = length (filter (\<lambda>c. kind_of (g_args c) = Pushes) (w_log w))"

definition pushes_at_most :: "nat \<Rightarrow> ('g, 'a) io \<Rightarrow> bool" where
  "pushes_at_most n m \<longleftrightarrow> (\<forall>w. pushes_in (snd (run_state m w)) \<le> pushes_in w + n)"

lemma pushes_bind: "pushes_at_most n m \<Longrightarrow> (\<And>x. pushes_at_most k (f x)) \<Longrightarrow> n + k \<le> j \<Longrightarrow> pushes_at_most j (m \<bind> f)"
  unfolding pushes_at_most_def
proof (intro allI)
  fix w
  assume a: "\<forall>w. pushes_in (snd (run_state m w)) \<le> pushes_in w + n"
    "\<And>x. \<forall>w. pushes_in (snd (run_state (f x) w)) \<le> pushes_in w + k" "n + k \<le> j"
  obtain x w1 where x: "run_state m w = (x, w1)" by fastforce
  have "pushes_in w1 \<le> pushes_in w + n" using a(1)[rule_format, of w] x by simp
  moreover have "pushes_in (snd (run_state (f x) w1)) \<le> pushes_in w1 + k" using a(2) by simp
  ultimately show "pushes_in (snd (run_state (m \<bind> f) w)) \<le> pushes_in w + j" using a(3) x by simp
qed

lemma pushes_none:
  assumes "state_io_rel (calls_of K) m" and "Pushes \<notin> K"
  shows "pushes_at_most n m"
proof -
  have "pushes_in w' = pushes_in w" if "calls_of K w w'" for w w' :: "'a world"
  proof -
    from that obtain cs where cs: "w_log w' = w_log w @ cs" "\<forall>c\<in>set cs. kind_of (g_args c) \<in> K"
      by (auto simp: calls_of_def)
    with assms(2) have "filter (\<lambda>c. kind_of (g_args c) = Pushes) cs = []" by (auto simp: filter_empty_conv)
    with cs(1) show ?thesis by (simp add: pushes_in_def)
  qed
  with assms(1) show ?thesis by (metis pushes_at_most_def state_io_rel_def le_add1)
qed

lemma pushes_leaf: "state_io_rel (leaf K) m \<Longrightarrow> Pushes \<notin> K \<Longrightarrow> pushes_at_most n m"
  by (rule pushes_none[OF leaf_calls])

lemma pushes_call: "1 \<le> n \<Longrightarrow> pushes_at_most n (gitWith out w env args)"
  by (auto simp: pushes_at_most_def pushes_in_def gitWith_def runGit_def Let_def split: prod.splits)

lemma pushes_return: "pushes_at_most n (return x)"
  by (simp add: pushes_at_most_def)

lemma pushes_prod: "(\<And>a b. pushes_at_most n (k a b)) \<Longrightarrow> pushes_at_most n (case p of (a, b) \<Rightarrow> k a b)"
  by (cases p) simp

lemma pushes_window:
  assumes "\<And>env. pushes_at_most n (body env)"
  shows "pushes_at_most n (within_window out r failed body)"
  unfolding within_window_def
  by (rule pushes_bind[where n = 0 and k = n], rule pushes_leaf[where K = "{}"],
      rule untouched_leaf[OF untouched_primitives(1)], simp,
      rule pushes_bind[where n = 0 and k = n], rule pushes_leaf[where K = "{}"],
      rule untouched_leaf[OF silent_window(3)], simp)
    (auto split: sum.splits prod.splits simp: pushes_return
      intro!: pushes_bind[OF assms, where k = 0] pushes_bind[OF pushes_leaf[OF untouched_leaf[OF silent_window(1)], where n = 0 and K = "{}"], where k = 0])

lemma pushes_sendTo: "pushes_at_most 1 (sendTo out r remote)"
proof -
  have ask: "pushes_at_most 0 (refCommit out w ref)" for w ref
    by (rule pushes_leaf[where K = "{Asks}"]) (auto intro: work_kinds)
  have "pushes_at_most 1 (pushTo out w env url ref remote)" for w env url ref
    unfolding pushTo_def Let_def by (rule pushes_bind[OF ask pushes_call[of 1]]) simp_all
  then show ?thesis
    unfolding sendTo_def
    by (intro pushes_bind[OF pushes_leaf[where K = "{}" and n = 0], where k = 1] pushes_window)
      (auto intro: untouched_leaf untouched_primitives)
qed

lemma pushes_removeSide: "pushes_at_most 1 (removeSide out r branch)"
proof -
  have "pushes_at_most 1 (deleteBranch out w env url branch)" for w env url
    unfolding deleteBranch_def work_step_def
    by (rule pushes_bind[OF pushes_call, where k = 0]) (auto intro!: pushes_prod pushes_return)
  then have side: "pushes_at_most 1 (deleteSide out r branch)"
    unfolding deleteSide_def
    by (intro pushes_bind[OF pushes_leaf[where K = "{}" and n = 0], where k = 1] pushes_window)
      (auto intro: untouched_leaf untouched_primitives)
  show ?thesis
    unfolding removeSide_def by (rule pushes_bind[OF side, where k = 0]) (simp_all add: pushes_return)
qed

lemma pushes_option:
  "pushes_at_most n m \<Longrightarrow> (\<And>x. pushes_at_most n (k x)) \<Longrightarrow> pushes_at_most n (case e of None \<Rightarrow> m | Some x \<Rightarrow> k x)"
  by (cases e) simp_all

lemma pushes_sum:
  "(\<And>x. pushes_at_most n (m x)) \<Longrightarrow> (\<And>x. pushes_at_most n (k x)) \<Longrightarrow> pushes_at_most n (case e of Inl x \<Rightarrow> m x | Inr x \<Rightarrow> k x)"
  by (cases e) simp_all

lemma pushes_if: "pushes_at_most n m \<Longrightarrow> pushes_at_most n k \<Longrightarrow> pushes_at_most n (if b then m else k)"
  by simp

text \<open>An operation without a push, before one with some.\<close>

lemma pushes_before:
  "pushes_at_most 0 m \<Longrightarrow> (\<And>x. pushes_at_most n (f x)) \<Longrightarrow> pushes_at_most n (m \<bind> f)"
  by (rule pushes_bind[where n = 0 and k = n and j = n]) simp_all

lemma pushes_zero:
  "pushes_at_most 0 (volume_at r)" "pushes_at_most 0 (fetchUpstream out r)" "pushes_at_most 0 (refCommit out w ref)"
  "pushes_at_most 0 (head_commit out w)" "pushes_at_most 0 (rebaseAside out r upstream)"
  "pushes_at_most 0 (reparentMetadata out w env)" "pushes_at_most 0 (ancestor out w old new)"
  "pushes_at_most 0 (diverge out r)" "pushes_at_most 0 (healed out r branch)" "pushes_at_most 0 (pushFailed out r message)"
  "pushes_at_most 0 (markPushed out w c)" "pushes_at_most 0 (report_event out r claim type reason message)"
  "pushes_at_most 0 (time_now out)" "pushes_at_most 0 (change_volume r f)" "pushes_at_most 0 (record_metrics r)"
  "pushes_at_most 0 (noteHealth out r)"
  by (rule pushes_none[where K = "- {Pushes}"];
      auto intro!: side_calls push_leaves[THEN leaf_calls] silent_ops[THEN silent_kinds])+

lemmas pushes_rules = pushes_before pushes_prod pushes_option pushes_sum pushes_if pushes_return pushes_zero

lemma pushes_attempts: "pushes_at_most n (rebase_attempts n out r commits)"
proof (induction n)
  case 0
  then show ?case by (simp add: pushes_return)
next
  case (Suc n)
  have finish: "pushes_at_most n (case sent of (x, failed) \<Rightarrow> if failed \<noteq> None then rebase_attempts n out r commits
      else do {
        (if moved then do { held \<leftarrow> volume_at r; case reading held of (claim, x, y) \<Rightarrow>
           report_event out r claim type reason (message held) } else return ());
        return (Some head)
      })" for sent :: "gitOutput \<times> string option" and moved type reason message head
  proof -
    have "pushes_at_most 0 (if moved then do { held \<leftarrow> volume_at r; case reading held of (claim, x, y) \<Rightarrow>
           report_event out r claim type reason (message held) } else return ())"
      by (intro pushes_rules)
    then have "pushes_at_most n (do {
        (if moved then do { held \<leftarrow> volume_at r; case reading held of (claim, x, y) \<Rightarrow>
           report_event out r claim type reason (message held) } else return ());
        return (Some head) })"
      by (rule pushes_before) (rule pushes_return)
    then show ?thesis by (intro pushes_prod pushes_if Suc)
  qed
  show ?case
    unfolding rebase_attempts.simps Let_def
    by (intro pushes_before pushes_zero pushes_sum pushes_return pushes_if
        pushes_bind[OF pushes_sendTo finish]) simp_all
qed

lemma pushes_send: "pushes_at_most 5 (send_or_rebase out r commits branch head)"
proof -
  have attempts: "pushes_at_most 3 (rebaseAndRetry out r commits)"
    unfolding rebaseAndRetry_def using pushes_attempts[of rebaseAttempts] by (simp add: rebaseAttempts_def)
  have side: "pushes_at_most 1 (do {
        diverge out r; held \<leftarrow> volume_at r; head \<leftarrow> refCommit out (work_of held) ''HEAD'';
        (_, pushErr) \<leftarrow> sendTo out r (divergedFrom held);
        return (divergedFrom held, head, pushErr) })"
    by (intro pushes_before pushes_zero pushes_bind[OF pushes_sendTo, where k = 0] pushes_prod pushes_return) simp
  have landed: "pushes_at_most 1 (case landed of
          Some rebased \<Rightarrow> return (remote, rebased, None)
        | None \<Rightarrow> do {
            diverge out r; held \<leftarrow> volume_at r; head \<leftarrow> refCommit out (work_of held) ''HEAD'';
            (_, pushErr) \<leftarrow> sendTo out r (divergedFrom held);
            return (divergedFrom held, head, pushErr) })" for landed :: "string option" and remote
    by (rule pushes_option[OF side pushes_return])
  show ?thesis
    unfolding send_or_rebase_def Let_def
    by (intro pushes_before pushes_zero pushes_bind[OF pushes_sendTo, where k = 4] pushes_prod pushes_if
        pushes_return pushes_bind[OF attempts landed]) simp_all
qed

lemma pushes_pushNow: "pushes_at_most 6 (pushNow out r commits)"
proof -
  have "pushes_at_most 1 (do { removeSide out r branch; healed out r branch })" for branch
    by (rule pushes_bind[OF pushes_removeSide pushes_zero(9)]) simp
  then have "pushes_at_most 1 (healInTree out r branch upstream)" for branch upstream
    unfolding healInTree_def unless_failed_def
    by (intro pushes_before[OF pushes_zero(5)] pushes_option pushes_return)
  then have "pushes_at_most 1 (do { failed \<leftarrow> healInTree out r branch upstream; return (failed = None) })"
    for branch upstream
    by (rule pushes_bind[where k = 0]) (simp_all add: pushes_return)
  then have heal: "pushes_at_most 1 (healIfMerged out r branch)" for branch
    unfolding healIfMerged_def
    by (intro pushes_before[OF pushes_zero(2)] pushes_before[OF pushes_zero(1)] pushes_before[OF pushes_zero(7)]
        pushes_sum pushes_return pushes_if)
  have merged: "pushes_at_most 1 (if branch \<noteq> [] then healIfMerged out r branch else return False)" for branch
    by (intro pushes_if heal pushes_return)
  have finish: "pushes_at_most 0 (case sent of (remote, head, pushErr) \<Rightarrow>
       (case pushErr of
          None \<Rightarrow> do {
            _ \<leftarrow> markPushed out work head;
            now \<leftarrow> time_now out;
            change_volume r (reportPushed now);
            held \<leftarrow> volume_at r;
            case reading held of (claim, x, y) \<Rightarrow> do {
            report_event out r claim Normal reasonPushed
              (Fmt ''pushed %d commits to %s at %s'' [AInt commits, AStr remote, AStr (short head)]);
            record_metrics r;
            noteHealth out r } }
        | Some err \<Rightarrow> pushFailed out r (Plain err)))" for sent work
    by (intro pushes_rules)
  have send: "pushes_at_most 5 (do { head \<leftarrow> (if merged then refCommit out work ref else return head);
      sent \<leftarrow> send_or_rebase out r commits (branch merged) head; k sent })"
    if "\<And>sent. pushes_at_most 0 (k sent)" for merged work ref head branch and k :: "string \<times> string \<times> string option \<Rightarrow> _"
    by (rule pushes_before[OF pushes_if[OF pushes_zero(3) pushes_return]])
      (rule pushes_bind[OF pushes_send that], simp)
  show ?thesis
    unfolding pushNow_def Let_def
    by (intro pushes_before pushes_zero pushes_if pushes_return pushes_sum
        pushes_bind[OF merged send[OF finish]]) simp_all
qed

end
