(* ===== verification/PushLaws.thy ===== *)
theory PushLaws
  imports Push
begin

text \<open>
  What the write side of a volume promises, read off the log of its git calls: where the pushes go,
  when the pushed mark moves, how many pushes one attempt makes, what a lost credential stops, what a
  reconcile may rewrite, and what a commit names. The operations and the bounds that compose are in
  \<open>Push\<close>.
\<close>

subsection \<open>Where the pushes go\<close>

definition pushes_home :: "nat \<Rightarrow> ('g, 'a) io \<Rightarrow> bool" where
  "pushes_home r m \<longleftrightarrow> (\<forall>w. \<exists>cs. w_log (snd (run_state m w)) = w_log w @ cs \<and>
     list_all (\<lambda>c. own_push (w_heap w r) (g_args c)) cs)"

lemma sends_own_start: "sends_own r (w_heap w r) w w"
  by (simp add: sends_own_def same_volume_def side_branches_def calls.stays)

lemma sends_own_home: "(\<And>v0 w0. state_io_rel (inv (sends_own r v0 w0)) m) \<Longrightarrow> pushes_home r m"
  unfolding pushes_home_def
proof
  fix w assume own: "\<And>v0 w0. state_io_rel (inv (sends_own r v0 w0)) m"
  from own[of "w_heap w r" w] sends_own_start[of r w]
  have "sends_own r (w_heap w r) w (snd (run_state m w))"
    by (auto simp: state_io_rel_def inv_def)
  then show "\<exists>cs. w_log (snd (run_state m w)) = w_log w @ cs \<and> list_all (\<lambda>c. own_push (w_heap w r) (g_args c)) cs"
    by (simp add: sends_own_def calls_in_def)
qed

text \<open>
  Property C1. Whatever git answers, the push after a rest (\<open>pushIfDue\<close>), the push at unpublish and at
  unstage (\<open>push_now_or_report\<close>) and the push itself (\<open>pushNow\<close>) send the volume's ref only: to the same ref or to
  the volume's own side branch, with the ref of the metadata record beside it, or the removal of the side branch the tree
  is on. Every one goes to the volume's own URL, with no force option and no plus, so git refuses each that is no
  fast-forward. A stage that heals a tree removes the branch the tree's own configuration names; that push is not in
  the claim.
\<close>

theorem pushes_go_to_own_branches:
  "pushes_home r (pushNow out r commits) \<and> pushes_home r (pushIfDue out r rules quiet) \<and>
   pushes_home r (push_now_or_report out r)"
  by (intro conjI sends_own_home sends_own_pushNow sends_own_pushes)

lemma own_push_no_force:
  assumes "own_push v args" and "kind_of args = Pushes" and "spec \<in> set (drop 3 (words args))"
  shows "\<not> prefix ''+'' spec \<and> \<not> prefix ''-'' spec"
  using assms by (auto simp: own_push_def push_specs_def branch_specs_def metadataRef_def refPrefix_def)

subsection \<open>When the mark moves\<close>

lemma marking_start: "marking False w w"
  by (simp add: marking_def marks_follow_pushes_def)

text \<open>
  Property C10. A push attempt moves the pushed mark only on a push the remote accepted: in the calls of one
  \<open>pushNow\<close>, each update of the mark directly follows a push git answered without an error. A reconcile, a heal and a
  stage move the mark too, to a commit they fetched; they are not in the claim.
\<close>

theorem mark_follows_a_landed_push:
  "\<exists>cs. w_log (snd (run_state (pushNow out r commits) w)) = w_log w @ cs \<and> marks_follow_pushes cs"
  using marking_pushNow[of False w out r commits] marking_start[of w] by (auto simp: triple_def marking_def)

text \<open>
  Property C28. One push attempt ends: it makes at most six pushes, whatever the remote answers. They
  are the removal of a merged side branch, the first push, three rebased ones and the one to the side
  branch.
\<close>

theorem a_losing_push_ends:
  "pushes_in (snd (run_state (pushNow out r commits) w)) \<le> pushes_in w + 6"
  using pushes_pushNow[of out r commits] by (auto simp: pushes_at_most_def)

subsection \<open>What a lost credential stops\<close>

definition sends_nothing :: "gitCall list \<Rightarrow> bool" where
  "sends_nothing cs \<longleftrightarrow> list_all (\<lambda>c. kind_of (g_args c) = Asks) cs"

definition stopped :: "volume \<Rightarrow> bool" where
  "stopped v \<longleftrightarrow> refIsDeleted v \<or> waitsForCredential v"

definition idle :: "nat \<Rightarrow> 'g world \<Rightarrow> 'g world \<Rightarrow> bool" where
  "idle r w0 w \<longleftrightarrow> calls_of {Asks} w0 w \<and> stopped (w_heap w r)"

lemma idle_leaf: "state_io_rel (leaf {Asks}) m \<Longrightarrow> state_io_rel (inv (idle r w0)) m"
  by (rule inv_from, assumption) (auto simp: idle_def leaf_def apart_def intro: kinds.follows_on)

lemma idle_change: "(\<And>v. stopped v \<Longrightarrow> stopped (f v)) \<Longrightarrow> state_io_rel (inv (idle r w0)) (change_volume r f)"
  by (auto simp: state_io_rel_def inv_def change_volume_def idle_def calls_of_def)

lemma idle_read: "(\<And>held. stopped held \<Longrightarrow> state_io_rel (inv (idle r w0)) (k held)) \<Longrightarrow>
    state_io_rel (inv (idle r w0)) (volume_at r \<bind> k)"
  by (rule inv_read) (simp_all add: idle_def)

lemma idle_counted: "state_io_rel (inv (idle r w0)) (counted out r)"
  unfolding counted_def
  by (intro inv.bounds idle_leaf idle_change work_kinds untouched_ops[THEN untouched_leaf])
    (simp_all add: stopped_def refIsDeleted_def waitsForCredential_def reportUnpushed_def)

lemma idle_pushFailed: "state_io_rel (inv (idle r w0)) (pushFailed out r message)"
proof -
  have trouble: "state_io_rel (inv (idle r w0)) (on_volume r (reportTrouble message))"
    by (auto simp: state_io_rel_def inv_def on_volume_def idle_def calls_of_def stopped_def refIsDeleted_def
        waitsForCredential_def reportTrouble_def Let_def)
  have health: "state_io_rel (inv (idle r w0)) (noteHealth out r)"
    by (auto simp: state_io_rel_def inv_def noteHealth_def on_volume_def idle_def calls_of_def stopped_def
        refIsDeleted_def waitsForCredential_def Let_def change_volume_def time_now_def metric_call_def
        volume_at_def takeHealth_def split: prod.splits if_splits)
  show ?thesis
    unfolding pushFailed_def Let_def
    by (intro inv.bounds trouble health idle_leaf untouched_ops[THEN untouched_leaf])
qed

lemma idle_pushNow: "state_io_rel (inv (idle r w0)) (pushNow out r commits)"
proof -
  have "run_state (pushNow out r commits) w = ((), w)" if "idle r w0 w" for w
    using that by (simp add: pushNow_def volume_at_def idle_def stopped_def)
  then show ?thesis by (auto simp: state_io_rel_def inv_def)
qed

lemma idle_pushes:
  "state_io_rel (inv (idle r w0)) (pushIfDue out r rules quiet)"
  "state_io_rel (inv (idle r w0)) (push_now_or_report out r)"
proof -
  show "state_io_rel (inv (idle r w0)) (pushIfDue out r rules quiet)"
    unfolding pushIfDue_def
    by (intro inv.bounds idle_counted idle_pushNow idle_leaf untouched_ops[THEN untouched_leaf])
  show "state_io_rel (inv (idle r w0)) (push_now_or_report out r)"
    unfolding push_now_or_report_def
    by (intro inv.bounds idle_counted idle_pushNow idle_pushFailed idle_leaf untouched_ops[THEN untouched_leaf])
qed

text \<open>
  Property C29. A volume whose ref the remote deleted, or whose credential was taken away, sends
  nothing: a push changes nothing at all, and the push after a rest and the one at unpublish only ask the
  local repository how many commits wait. The volume stays stopped. Its tree is still scanned, and may be committed.
\<close>

theorem a_stopped_volume_sends_nothing:
  assumes "stopped (w_heap w r)"
  shows "run_state (pushNow out r commits) w = ((), w) \<and>
    idle r w (snd (run_state (pushIfDue out r rules quiet) w)) \<and>
    idle r w (snd (run_state (push_now_or_report out r) w))"
proof -
  have start: "idle r w w" using assms by (simp add: idle_def kinds.stays)
  have "idle r w (snd (run_state m w))" if "state_io_rel (inv (idle r w)) m" for m :: "('a, 'b) io"
    using that start by (simp add: state_io_rel_def inv_def)
  then show ?thesis
    using assms idle_pushes[of r w out] idle_pushNow[of r w out]
    by (auto simp: pushNow_def volume_at_def stopped_def)
qed

theorem a_stopped_volume_sends_nothing_witness:
  "let w = world_of [] ((zero_volume ''v'' defaultAttributes writeableVolume [''v'']) \<lparr>v_credentialLost := True\<rparr>)
   in run_state (pushNow (still_outside (output_of ''1'') None) 0 3) w = ((), w)"
  using a_stopped_volume_sends_nothing[of "world_of [] ((zero_volume ''v'' defaultAttributes writeableVolume [''v''])
      \<lparr>v_credentialLost := True\<rparr>)" 0 "still_outside (output_of ''1'') None" 3]
  by (simp add: Let_def stopped_def waitsForCredential_def world_of_def)

subsection \<open>What a reconcile may rewrite\<close>

definition records_side :: "gitCall \<Rightarrow> bool" where
  "records_side c \<longleftrightarrow> words (g_args c) = [''config'', ''--get'', ''--'', divergedKey] \<and> g_error c = None \<and>
     trimLine (out_stdout (g_output c)) \<noteq> []"

definition reports_writes :: "gitCall \<Rightarrow> bool" where
  "reports_writes c \<longleftrightarrow> words (g_args c) = [''status'', ''--porcelain'', ''-z'', ''--untracked-files=all''] \<and>
     g_error c = None \<and> changed_names (split zero_byte (out_stdout (g_output c))) \<noteq> []"

definition since :: "'g world \<Rightarrow> (gitCall list \<Rightarrow> bool) \<Rightarrow> 'g world \<Rightarrow> bool" where
  "since w0 P w \<longleftrightarrow> (\<exists>cs. w_log w = w_log w0 @ cs \<and> P cs)"

definition spared :: "gitCall list \<Rightarrow> bool" where
  "spared cs \<longleftrightarrow> (\<forall>c\<in>set cs. kind_of (g_args c) = Asks) \<or>
     (cs \<noteq> [] \<and> records_side (hd cs)) \<or> (2 < length cs \<and> \<not> reports_writes (cs ! 2))"

lemma spared_append: "spared cs \<Longrightarrow> \<exists>c\<in>set cs. kind_of (g_args c) \<noteq> Asks \<Longrightarrow> spared (cs @ ds)"
  by (auto simp: spared_def nth_append)

lemma spared_side: "records_side (hd cs) \<Longrightarrow> cs \<noteq> [] \<Longrightarrow> spared (cs @ ds)"
  by (simp add: spared_def)

lemma tripleI: "(\<And>s x s'. P s \<Longrightarrow> run_state m s = (x, s') \<Longrightarrow> Q x s') \<Longrightarrow> triple P m Q"
  by (simp add: triple_def)

lemma since_bound:
  assumes "state_io_rel (calls_of K) m" and "\<And>cs ds. P cs \<Longrightarrow> \<forall>c\<in>set ds. kind_of (g_args c) \<in> K \<Longrightarrow> Q (cs @ ds)"
  shows "triple (since w0 P) m (\<lambda>x. since w0 Q)"
  by (rule triple_bound[OF assms(1)]) (auto simp: since_def calls_of_def intro: assms(2))

lemma kind_of_reconcile [simp]:
  "kind_of (''config'' # ''--get'' # rest) = Asks"
  "kind_of (''merge-base'' # rest) = Asks"
  "kind_of (''status'' # rest) = Asks"
  by (simp_all add: kind_simps)

lemma since_divergedBranch:
  "triple (since w0 (\<lambda>cs. cs = [])) (divergedBranch out work)
    (\<lambda>branch. since w0 (\<lambda>cs. \<exists>c. cs = [c] \<and> kind_of (g_args c) = Asks \<and> (branch \<noteq> [] \<longleftrightarrow> records_side c)))"
  by (auto simp: triple_def since_def divergedBranch_def work_ask_def gitWith_def runGit_def records_side_def
      words_work_args Let_def split: prod.splits option.splits)

lemma since_ancestor:
  "triple (since w0 P) (ancestor out work old new)
    (\<lambda>yes. since w0 (\<lambda>cs. \<exists>c bs. cs = bs @ [c] \<and> P bs \<and> kind_of (g_args c) = Asks))"
  by (auto simp: triple_def since_def ancestor_def work_step_def gitWith_def runGit_def Let_def split: prod.splits)

definition asked :: "string list \<Rightarrow> string + string \<Rightarrow> gitCall \<Rightarrow> bool" where
  "asked args answer c \<longleftrightarrow> words (g_args c) = words args \<and>
     (case answer of Inl e \<Rightarrow> g_error c \<noteq> None | Inr said \<Rightarrow> g_error c = None \<and> out_stdout (g_output c) = said)"

lemma since_ask:
  "triple (since w0 P) (work_ask out work args) (\<lambda>answer. since w0 (\<lambda>cs. \<exists>c bs. cs = bs @ [c] \<and> P bs \<and> asked args answer c))"
  by (auto simp: triple_def since_def asked_def work_ask_def gitWith_def runGit_def words_work_args Let_def
      split: prod.splits option.splits)

lemma names_of_changes:
  "fst (run_state (changes out work answer) w) = [] \<longleftrightarrow> changed_names (split zero_byte answer) = []"
proof -
  have "map ch_path (fst (run_state (traverse_list (\<lambda>name. do {
       bytes \<leftarrow> sizeOf out work name; return \<lparr>ch_path = name, ch_size = bytes\<rparr> }) names) w)) = names" for names
    by (induction names arbitrary: w) (simp_all add: case_prod_beta)
  from this[of "changed_names (split zero_byte answer)"] have "map ch_path (fst (run_state (changes out work answer) w)) =
      changed_names (split zero_byte answer)" by (simp add: changes_def)
  then show ?thesis by (metis map_is_Nil_conv)
qed

lemma since_pending:
  "triple (since w0 P) (pending out work) (\<lambda>answer. since w0 (\<lambda>cs. \<exists>c bs. cs = bs @ [c] \<and> P bs \<and>
     kind_of (g_args c) = Asks \<and> (reports_writes c \<longleftrightarrow> (\<exists>found. answer = Inr found \<and> found \<noteq> []))))"
  unfolding pending_def bind_ok_def
proof (rule triple_bind[OF since_ask])
  let ?args = "[''status'', ''--porcelain'', ''-z'', ''--untracked-files=all'']"
  have asks: "kind_of (g_args c) = Asks" if "asked ?args answer c" for answer c
    using that by (simp add: asked_def kind_simps)
  have log: "w_log (snd (run_state (changes out work said) w)) = w_log w" for said w
    using silent_work(5)[of out work said] by (simp add: state_io_rel_def untouched_def no_calls_def)
  fix answer :: "string + string"
  show "triple (since w0 (\<lambda>cs. \<exists>c bs. cs = bs @ [c] \<and> P bs \<and> asked ?args answer c))
      (case answer of Inl err \<Rightarrow> return (Inl err) | Inr said \<Rightarrow> do { found \<leftarrow> changes out work said; return (Inr found) })
      (\<lambda>answer. since w0 (\<lambda>cs. \<exists>c bs. cs = bs @ [c] \<and> P bs \<and>
         kind_of (g_args c) = Asks \<and> (reports_writes c \<longleftrightarrow> (\<exists>found. answer = Inr found \<and> found \<noteq> []))))"
  proof (cases answer)
    case (Inl err)
    have "\<not> reports_writes c" if "asked ?args answer c" for c
      using that by (simp add: Inl asked_def reports_writes_def)
    with asks show ?thesis
      unfolding Inl sum.case triple_return_iff since_def by simp blast
  next
    case (Inr said)
    show ?thesis
      unfolding Inr sum.case
    proof (rule tripleI)
      fix w answer w2 assume "since w0 (\<lambda>cs. \<exists>c bs. cs = bs @ [c] \<and> P bs \<and> asked ?args (Inr said) c) w"
        and did: "run_state (do { found \<leftarrow> changes out work said; return (Inr found) }) w = (answer, w2)"
      then obtain c bs where c: "w_log w = w_log w0 @ bs @ [c]" "P bs" "asked ?args (Inr said) c"
        by (auto simp: since_def)
      obtain found w' where run: "run_state (changes out work said) w = (found, w')" by fastforce
      have w': "w_log w' = w_log w" "found = [] \<longleftrightarrow> changed_names (split zero_byte said) = []"
        using log[of said w] names_of_changes[of out work said w] run by simp_all
      have writes: "reports_writes c \<longleftrightarrow> found \<noteq> []" using c(3) w'(2) by (simp add: asked_def reports_writes_def)
      from run did have "answer = Inr found" "w2 = w'" by simp_all
      with w'(1) c(1,2) asks[OF c(3)] writes
      show "since w0 (\<lambda>cs. \<exists>c bs. cs = bs @ [c] \<and> P bs \<and> kind_of (g_args c) = Asks \<and>
          (reports_writes c \<longleftrightarrow> (\<exists>f. answer = Inr f \<and> f \<noteq> []))) w2"
        by (simp add: since_def)
    qed
  qed
qed

lemmas any_calls = kinds.bounds push_leaves[where K = UNIV, THEN leaf_calls]
  silent_ops(2,3,9)[THEN silent_kinds[where K = UNIV]] silent_noteHealth[THEN silent_kinds[where K = UNIV]]

lemma kinds_reconcile:
  "state_io_rel (calls_of UNIV) (diverge out r)"
  "state_io_rel (calls_of UNIV) (healed out r branch)"
  "state_io_rel (calls_of UNIV) (heal out r branch upstream side)"
  "state_io_rel (calls_of UNIV) (healOrHold out r branch head upstream side)"
  "state_io_rel (calls_of UNIV) (fastForward out r upstream)"
  "state_io_rel (calls_of UNIV) (rebase out r upstream)"
proof -
  show diverge: "state_io_rel (calls_of UNIV) (diverge out r)"
    unfolding diverge_def Let_def by (intro any_calls) simp_all
  show healed: "state_io_rel (calls_of UNIV) (healed out r branch)" for branch
    unfolding healed_def by (intro any_calls) simp_all
  show heal: "state_io_rel (calls_of UNIV) (heal out r branch upstream side)" for branch
    unfolding heal_def Let_def by (intro healed any_calls) simp_all
  show "state_io_rel (calls_of UNIV) (healOrHold out r branch head upstream side)"
    unfolding healOrHold_def by (intro heal any_calls) simp_all
  show "state_io_rel (calls_of UNIV) (fastForward out r upstream)"
    unfolding fastForward_def Let_def by (intro any_calls) simp_all
  show "state_io_rel (calls_of UNIV) (rebase out r upstream)"
    unfolding rebase_def Let_def by (intro diverge any_calls) simp_all
qed

lemma spared_more:
  "\<exists>c bs. cs = bs @ [c] \<and> \<not> reports_writes c \<and> length bs = 2 \<Longrightarrow> spared (cs @ ds)"
  by (auto simp: spared_def nth_append)

lemma triple_pre: "triple P' m Q \<Longrightarrow> (\<And>s. P s \<Longrightarrow> P' s) \<Longrightarrow> triple P m Q"
  by (simp add: triple_def)

lemma since_mono: "(\<And>cs. P cs \<Longrightarrow> Q cs) \<Longrightarrow> since w0 P w \<Longrightarrow> since w0 Q w"
  by (auto simp: since_def)

lemma since_look: "triple (since w0 P) (volume_at r) (\<lambda>x. since w0 P)"
  by (simp add: triple_def volume_at_def)

lemma since_done: "(\<And>cs. P cs \<Longrightarrow> spared cs) \<Longrightarrow> triple (since w0 P) (return x) (\<lambda>x. since w0 spared)"
  by (auto simp: triple_return_iff since_def)

definition asks :: "nat \<Rightarrow> gitCall list \<Rightarrow> bool" where
  "asks n cs \<longleftrightarrow> length cs = n \<and> (\<forall>c\<in>set cs. kind_of (g_args c) = Asks)"

definition asks_last :: "nat \<Rightarrow> (gitCall \<Rightarrow> bool) \<Rightarrow> gitCall list \<Rightarrow> bool" where
  "asks_last n Q cs \<longleftrightarrow> asks (Suc n) cs \<and> Q (cs ! n)"

lemma asks_last_asks: "asks_last n Q cs \<Longrightarrow> asks (Suc n) cs"
  by (simp add: asks_last_def)

lemma spared_asked: "asks n cs \<Longrightarrow> spared cs"
  by (simp add: asks_def spared_def)

lemma since_asks_last:
  "since w0 (\<lambda>cs. \<exists>c bs. cs = bs @ [c] \<and> asks n bs \<and> kind_of (g_args c) = Asks \<and> Q c) w \<Longrightarrow>
   since w0 (asks_last n Q) w"
  by (erule since_mono[rotated]) (auto simp: asks_last_def asks_def nth_append)

text \<open>The calls of a reconcile after the side branch was asked for and none was recorded.\<close>

lemma reconcile_rest:
  fixes f :: "change list \<Rightarrow> volume \<Rightarrow> bool \<times> volume"
  shows "triple (since w0 (asks 2))
    (do { found \<leftarrow> pending out work;
          let found = (case found of Inl err \<Rightarrow> [] | Inr found \<Rightarrow> found);
          if found \<noteq> [] then do { _ \<leftarrow> on_volume r (f found); return None }
          else do { behind \<leftarrow> ancestor out work head upstream;
                    if behind then fastForward out r upstream else rebase out r upstream } })
    (\<lambda>x. since w0 spared)"
proof (rule triple_bind[OF since_pending])
  fix answer :: "string + change list"
  let ?found = "case answer of Inl err \<Rightarrow> [] | Inr found \<Rightarrow> found"
  let ?told = "\<lambda>c. reports_writes c \<longleftrightarrow> (\<exists>found. answer = Inr found \<and> found \<noteq> [])"
  have told: "?told c \<Longrightarrow> reports_writes c \<longleftrightarrow> ?found \<noteq> []" for c by (cases answer) simp_all
  have report: "triple (since w0 (asks_last 2 ?told)) (do { _ \<leftarrow> on_volume r g; return None }) (\<lambda>x. since w0 spared)"
    for g :: "volume \<Rightarrow> bool \<times> volume"
  proof (rule triple_bind[OF since_bound[OF silent_kinds[OF silent_ops(3)], where K = "{}" and Q = "asks 3"]])
    show "asks 3 (cs @ ds)" if "asks_last 2 ?told cs" "\<forall>c\<in>set ds. kind_of (g_args c) \<in> {}" for cs ds
      using that(2) asks_last_asks[OF that(1)] by simp
  qed (auto intro: since_done spared_asked)
  have move: "triple (since w0 (asks_last 2 ?told)) m (\<lambda>x. since w0 spared)"
    if "?found = []" "state_io_rel (calls_of UNIV) m" for m :: "('a, string option) io"
  proof (rule since_bound[OF that(2)])
    show "spared (cs @ ds)" if "asks_last 2 ?told cs" for cs ds
    proof -
      from that have "?told (cs ! 2)" and "length cs = 3" by (simp_all add: asks_last_def asks_def)
      with told[of "cs ! 2"] \<open>?found = []\<close> show ?thesis by (simp add: spared_def nth_append)
    qed
  qed
  have ways: "state_io_rel (calls_of UNIV) (do { behind \<leftarrow> ancestor out work head upstream;
      if behind then fastForward out r upstream else rebase out r upstream })"
    by (intro kinds.bounds kinds_reconcile leaf_calls[OF work_kinds(7)]) simp
  show "triple (since w0 (\<lambda>cs. \<exists>c bs. cs = bs @ [c] \<and> asks 2 bs \<and> kind_of (g_args c) = Asks \<and> ?told c))
     (let found = ?found in
      if found \<noteq> [] then do { _ \<leftarrow> on_volume r (f found); return None }
      else do { behind \<leftarrow> ancestor out work head upstream;
                if behind then fastForward out r upstream else rebase out r upstream })
     (\<lambda>x. since w0 spared)"
    unfolding Let_def
  proof (rule triple_pre[where P' = "since w0 (asks_last 2 ?told)"])
    show "triple (since w0 (asks_last 2 ?told))
       (if ?found \<noteq> [] then do { _ \<leftarrow> on_volume r (f ?found); return None }
        else do { behind \<leftarrow> ancestor out work head upstream;
                  if behind then fastForward out r upstream else rebase out r upstream })
       (\<lambda>x. since w0 spared)"
      by (rule triple_if[OF report move[OF _ ways]]) simp
  qed (rule since_asks_last)
qed


lemma reconcile_spares:
  "triple (since w0 (\<lambda>cs. cs = [])) (reconcile out r head upstream side) (\<lambda>x. since w0 spared)"
proof -
  have side: "triple (since w0 (\<lambda>cs. \<exists>c. cs = [c] \<and> kind_of (g_args c) = Asks \<and> (branch \<noteq> [] \<longleftrightarrow> records_side c)))
      (healOrHold out r branch head upstream side) (\<lambda>x. since w0 spared)" if "branch \<noteq> []" for branch
    by (rule since_bound[OF kinds_reconcile(4)]) (use that in \<open>auto simp: spared_def\<close>)
  have one: "since w0 (asks 1) w" if "since w0 (\<lambda>cs. \<exists>c. cs = [c] \<and> kind_of (g_args c) = Asks \<and> Q c) w" for Q w
    by (rule since_mono[OF _ that]) (auto simp: asks_def)
  have two: "since w0 (asks 2) w" if "since w0 (\<lambda>cs. \<exists>c bs. cs = bs @ [c] \<and> asks 1 bs \<and> kind_of (g_args c) = Asks) w" for w
    by (rule since_mono[OF _ that]) (auto simp: asks_def)
  have more: "triple (since w0 (asks 1)) (do { ahead \<leftarrow> ancestor out work upstream head; if ahead then return None else k })
      (\<lambda>x. since w0 spared)" if "triple (since w0 (asks 2)) k (\<lambda>x. since w0 spared)"
      for work and k :: "('a, string option) io"
    by (rule triple_bind[OF since_ancestor], rule triple_pre[OF _ two])
      (auto intro!: triple_if since_done spared_asked that)
  show ?thesis
    unfolding reconcile_def Let_def
    by (rule triple_bind[OF since_look], rule triple_bind[OF since_divergedBranch], rule triple_if[OF side], assumption,
        rule triple_pre[OF _ one], rule triple_if[OF since_done[OF spared_asked]], assumption,
        rule more, rule reconcile_rest[unfolded Let_def]) assumption
qed

text \<open>
  Property C11. A tree with uncommitted writes is left as it is: a reconcile makes a call that moves
  the tree, its branch, or its mark only where the first call found a recorded side branch or the
  third call, the status of the tree, did not report a changed path.
\<close>

theorem reconcile_spares_uncommitted_writes:
  "\<exists>cs. w_log (snd (run_state (reconcile out r head upstream side) w)) = w_log w @ cs \<and> spared cs"
  using reconcile_spares[of w out r head upstream side] by (auto simp: triple_def since_def)

subsection \<open>What a commit names\<close>

definition index_call :: "string list \<Rightarrow> gitCall \<Rightarrow> bool" where
  "index_call names c \<longleftrightarrow> words (g_args c) = [''diff'', ''--cached'', ''--name-only'', ''-z''] \<and> g_error c = None \<and>
     splitZero (out_stdout (g_output c)) = names"

definition commit_call :: "'g outside \<Rightarrow> policy \<Rightarrow> string list \<Rightarrow> gitCall \<Rightarrow> bool" where
  "commit_call out rules names c \<longleftrightarrow> words (g_args c) = [''commit'', ''--quiet'', ''-m'', commit_message names] \<and>
     g_env c = gitEnvironment out @ author rules \<and> g_error c = None"

definition index_read :: "string + string list \<Rightarrow> gitCall list \<Rightarrow> bool" where
  "index_read answer cs \<longleftrightarrow> (\<forall>names. answer = Inr names \<longrightarrow> cs \<noteq> [] \<and> index_call names (last cs))"

lemma since_staged: "triple (since w0 P) (staged_paths out work) (\<lambda>answer. since w0 (index_read answer))"
  unfolding staged_paths_def bind_ok_def
  by (rule triple_bind[OF since_ask])
    (auto simp: triple_return_iff since_def asked_def index_read_def index_call_def split: sum.splits)

lemma since_stageChanges:
  "triple (since w0 P) (stageChanges out work found rules) (\<lambda>x. since w0 (index_read (fst x)))"
proof -
  have batches: "triple (since w0 P) (each_or_fail (\<lambda>batch. work_step out work literalPathspecs ([''add'', ''--''] @ batch)) bs)
      (\<lambda>x. since w0 (\<lambda>cs. True))" for bs
    by (rule since_bound[OF leaf_calls[OF leaf.bound_each_or_fail[OF work_call_kinds(2)]], where K = UNIV]) simp_all
  have fail: "since w0 (index_read (Inl err)) s" if "since w0 (\<lambda>cs. True) s" for err s
    by (rule since_mono[OF _ that]) (simp add: index_read_def)
  show ?thesis
    unfolding stageChanges_def Let_def
  proof (rule triple_bind[OF batches])
    fix failed :: "string option"
    let ?skipped = "filter (too_big rules) found"
    have staged: "triple (since w0 (\<lambda>cs. True)) (do { staged \<leftarrow> staged_paths out work; return (staged, ?skipped) })
        (\<lambda>x. since w0 (index_read (fst x)))"
      by (rule triple_bind[OF since_staged]) (simp add: triple_return_iff)
    show "triple (since w0 (\<lambda>cs. True))
        (case failed of None \<Rightarrow> do { staged \<leftarrow> staged_paths out work; return (staged, ?skipped) }
         | Some err \<Rightarrow> return (Inl err, ?skipped))
        (\<lambda>x. since w0 (index_read (fst x)))"
      using staged fail by (cases failed) (simp_all add: triple_return_iff)
  qed
qed

lemma since_commit:
  "triple (since w0 P) (work_commit out work rules names)
    (\<lambda>failed. since w0 (\<lambda>cs. \<exists>c bs. cs = bs @ [c] \<and> P bs \<and> (failed = None \<longrightarrow> commit_call out rules names c)))"
  by (auto simp: triple_def since_def work_commit_def work_step_def gitWith_def runGit_def commit_call_def
      words_work_args Let_def split: prod.splits)

definition index_committed :: "'g outside \<Rightarrow> policy \<Rightarrow> string list \<Rightarrow> gitCall list \<Rightarrow> bool" where
  "index_committed out rules names cs \<longleftrightarrow> (\<exists>bs index. index_call names index \<and>
     (if names = [] then cs = bs @ [index] else \<exists>c. cs = bs @ [index, c] \<and> commit_call out rules names c))"

lemma silent_skipping: "state_io_rel no_calls (skipping out r skipped)"
  unfolding skipping_def Let_def by (intro silent.bounds silent_ops)

lemma since_silent: "state_io_rel no_calls m \<Longrightarrow> triple (since w0 P) m (\<lambda>x. since w0 P)"
  by (erule triple_bound) (auto simp: since_def no_calls_def)

definition record_index ::
    "'g outside \<Rightarrow> workTree \<Rightarrow> policy \<Rightarrow> string + string list \<Rightarrow> ('g, string + string list) io" where
  "record_index out work rules staged = (case staged of Inl err \<Rightarrow> return (Inl err) | Inr staged \<Rightarrow>
     if staged = [] then return (Inr [])
     else do { failed \<leftarrow> work_commit out work rules staged;
               return (case failed of Some err \<Rightarrow> Inl err | None \<Rightarrow> Inr staged) })"

definition stage_found ::
    "'g outside \<Rightarrow> nat \<Rightarrow> workTree \<Rightarrow> policy \<Rightarrow> change list \<Rightarrow> ('g, string + string list) io" where
  "stage_found out r work rules found = do {
     (staged, skipped) \<leftarrow> stageChanges out work found rules;
     skipping out r skipped;
     record_index out work rules staged
   }"

abbreviation committed :: "'g world \<Rightarrow> 'g outside \<Rightarrow> policy \<Rightarrow> string + string list \<Rightarrow> 'g world \<Rightarrow> bool" where
  "committed w0 out rules answer \<equiv> since w0 (\<lambda>cs. \<forall>names. answer = Inr names \<longrightarrow> index_committed out rules names cs)"

lemma committed_failed: "triple (since w0 P) (return (Inl err)) (committed w0 out rules)"
  by (auto simp: triple_return_iff since_def)

lemma committed_record:
  "triple (since w0 (index_read staged)) (record_index out work rules staged) (committed w0 out rules)"
proof (cases staged)
  case (Inr names)
  have read: "\<exists>bs i. cs = bs @ [i] \<and> index_call names i" if "index_read (Inr names) cs" for cs
    using that by (cases cs rule: rev_cases) (auto simp: index_read_def)
  have none: "triple (since w0 (index_read (Inr names))) (return (Inr [])) (committed w0 out rules)" if "names = []"
    using read that by (fastforce simp: triple_return_iff since_def index_committed_def)
  have some: "triple (since w0 (index_read (Inr names))) (do { failed \<leftarrow> work_commit out work rules names;
      return (case failed of Some err \<Rightarrow> Inl err | None \<Rightarrow> Inr names) }) (committed w0 out rules)" if "names \<noteq> []"
  proof (rule triple_bind[OF since_commit])
    fix err :: "string option"
    have "index_committed out rules names (cs @ [c])" if "index_read (Inr names) cs" "commit_call out rules names c" for cs c
      using read[OF that(1)] that(2) \<open>names \<noteq> []\<close> by (fastforce simp: index_committed_def)
    then show "triple (since w0 (\<lambda>cs. \<exists>c bs. cs = bs @ [c] \<and> index_read (Inr names) bs \<and> (err = None \<longrightarrow> commit_call out rules names c)))
        (return (case err of Some err \<Rightarrow> Inl err | None \<Rightarrow> Inr names)) (committed w0 out rules)"
      by (cases err) (fastforce simp: triple_return_iff since_def)+
  qed
  show ?thesis using none some by (auto simp: Inr record_index_def)
qed (simp add: committed_failed record_index_def)

lemma committed_found: "triple (since w0 P) (stage_found out r work rules found) (committed w0 out rules)"
  unfolding stage_found_def
proof (rule triple_bind[OF since_stageChanges])
  fix x :: "(string + string list) \<times> change list"
  have "triple (since w0 (index_read (fst x))) (do { skipping out r (snd x); record_index out work rules (fst x) })
      (committed w0 out rules)"
    by (rule triple_bind[OF since_silent[OF silent_skipping] committed_record])
  then show "triple (since w0 (index_read (fst x))) (case x of (staged, skipped) \<Rightarrow>
      do { skipping out r skipped; record_index out work rules staged }) (committed w0 out rules)"
    by (cases x) simp
qed

lemma committed_stageAndCommit: "triple (since w0 P) (stageAndCommit out r rules) (committed w0 out rules)"
  unfolding stageAndCommit_def bind_ok_def Let_def
    record_index_def[symmetric] stage_found_def[symmetric]
proof (rule triple_bind[OF since_look], rule triple_bind[OF since_silent[OF untouched_silent[OF silent_work(6)]]])
  fix held :: volume and err :: "string option"
  have "triple (since w0 P) (do { found \<leftarrow> pending out (work_of held);
      case found of Inl err \<Rightarrow> return (Inl err) | Inr found \<Rightarrow> stage_found out r (work_of held) rules found })
      (committed w0 out rules)"
  proof (rule triple_bind[OF since_pending])
    fix answer :: "string + change list" and Q
    show "triple (since w0 Q) (case answer of Inl err \<Rightarrow> return (Inl err)
        | Inr found \<Rightarrow> stage_found out r (work_of held) rules found) (committed w0 out rules)"
      by (cases answer) (simp_all add: committed_failed committed_found)
  qed
  then show "triple (since w0 P) (case err of None \<Rightarrow> do { found \<leftarrow> pending out (work_of held);
      case found of Inl err \<Rightarrow> return (Inl err) | Inr found \<Rightarrow> stage_found out r (work_of held) rules found }
      | Some err \<Rightarrow> return (Inl err)) (committed w0 out rules)"
    by (cases err) (simp_all add: committed_failed)
qed

text \<open>
  Property C27. A commit carries what it names. When the staging answers a list of paths, the call
  that read the index reported exactly those paths; for an empty list it was the last call, and
  otherwise the one call after it made the commit, with the policy's author, whose message names each
  of those paths.
\<close>

theorem commit_names_what_it_carries:
  assumes "fst (run_state (stageAndCommit out r rules) w) = Inr names"
  shows "\<exists>cs. w_log (snd (run_state (stageAndCommit out r rules) w)) = w_log w @ cs \<and> index_committed out rules names cs"
  using committed_stageAndCommit[of w "\<lambda>cs. cs = []" out r rules] assms by (auto simp: triple_def since_def)

theorem commit_names_what_it_carries_witness:
  "\<exists>cs. w_log (snd (run_state (stageAndCommit (still_outside (output_of ''a'') None) 0 defaultPolicy)
      (world_of [] (zero_volume ''v'' defaultAttributes writeableVolume [''v''])))) = [] @ cs \<and>
    index_committed (still_outside (output_of ''a'') None) defaultPolicy [''a''] cs"
proof -
  have "fst (run_state (stageAndCommit (still_outside (output_of ''a'') None) 0 defaultPolicy)
      (world_of [] (zero_volume ''v'' defaultAttributes writeableVolume [''v'']))) = Inr [''a'']"
    by code_simp
  then show ?thesis
    using commit_names_what_it_carries by (fastforce simp: world_of_def)
qed

subsection \<open>What counts as a rejection\<close>

text \<open>
  \<open>rejectedPush\<close> looks for its words anywhere in git's error output, and git repeats the URL there. An
  unreachable remote whose URL holds the word counts as one that rejected the push.
\<close>

lemma rejection_in_a_url:
  "rejectedPush \<lparr>out_stdout = [], out_stderr = ''fatal: unable to access 'https://host/rejected/': no route'',
     out_code = 128\<rparr>"
  by code_simp

subsection \<open>The credential window\<close>

text \<open>The work in a window makes calls, which only counts them up.\<close>

definition counting :: "'g world \<Rightarrow> 'g world \<Rightarrow> bool" where
  "counting w w' \<longleftrightarrow> w_calls w \<le> w_calls w'"

lemma counting_leaf: "state_io_rel (leaf K) m \<Longrightarrow> state_io_rel counting m"
  by (simp add: state_io_rel_def leaf_def apart_def counting_def)

text \<open>
  Property C12. A credential leaves the disk with the window that needed it, unless the kernel keeps it there. After a
  window around any work, which may change any file itself, a file of the credential holds bytes only if the kernel
  refused to remove it while the window closed or failed to open, or if the window did not open and the
  file was there before or the kernel refused its write, which may leave the part it took: the code removes the files it
  wrote whole, and not the one it failed to write.
\<close>

theorem a_window_leaves_no_secret:
  assumes "\<And>env. state_io_rel counting (body env)"
    and "run_state (within_window out r failed body) w = (x, w')"
    and "p \<in> set (secret_files (credential (w_heap w r)) (v_directory (w_heap w r)))" and "holds_bytes (w_files w') p"
  shows "refused_in out w w' (CallRemove p) \<or>
    (\<exists>err. fst (run_state (use out (credential (w_heap w r)) (v_directory (w_heap w r))) w) = Inl err \<and> x = failed err) \<and>
    (holds_bytes (w_files w) p \<or> (\<exists>c. refused_in out w w' (CallWrite p c)))"
proof -
  let ?use = "use out (credential (w_heap w r)) (v_directory (w_heap w r))"
  obtain opened w1 where use: "run_state ?use w = (opened, w1)" by fastforce
  have residue: "ends (\<lambda>err. residue out [] w) (\<lambda>answer. residue out (snd answer) w) opened w1"
    using tripleD[OF use_new refl use] .
  show ?thesis
  proof (cases opened)
    case (Inl err)
    with assms(2) use have "w' = w1" "x = failed err" by (simp_all add: within_window_def volume_at_def)
    with Inl residue assms(4) use show ?thesis by (auto simp: residue_def)
  next
    case (Inr answer)
    obtain env written where answer: "answer = (env, written)" by fastforce
    have written: "written = secret_files (credential (w_heap w r)) (v_directory (w_heap w r))"
      by (rule use_written) (use use Inr answer in simp)
    obtain y w2 where body: "run_state (body env) w1 = (y, w2)" by fastforce
    have w': "w' = snd (run_state (remove_written out written) w2)"
      using assms(2) use Inr answer body by (simp add: within_window_def volume_at_def split: prod.splits)
    have "w_calls w \<le> w_calls w1" using residue Inr by (simp add: residue_def)
    moreover have "w_calls w1 \<le> w_calls w2"
      using assms(1)[of env] body by (auto simp: state_io_rel_def counting_def dest: spec[of _ w1])
    moreover have "refused_in out w2 w' (CallRemove p)"
      using remove_written_files[of w2 out written p] assms(3,4) unfolding w' written by blast
    ultimately show ?thesis by (auto intro: refused_wider[of out w2 w'])
  qed
qed

definition keyed_volume :: volume where
  "keyed_volume = (zero_volume ''v'' defaultAttributes writeableVolume [''v''])
     \<lparr>v_credentials := Some \<lparr>cr_privateKey = [], cr_knownHosts = [], cr_token = ''t'', cr_username = ''git''\<rparr>\<rparr>"

definition sticky :: "unit outside" where
  "sticky = (still_outside (output_of []) None)\<lparr>o_refuse := (\<lambda>n call. case call of
     CallRemove p \<Rightarrow> Some \<lparr>fa_reason = ''read-only file system'', fa_effect = Untouched\<rparr> | _ \<Rightarrow> None)\<rparr>"

theorem a_window_leaves_no_secret_witness:
  "let w = world_of [([''v''], dir_node)] keyed_volume;
       w' = snd (run_state (within_window sticky 0 Some (\<lambda>env. do { _ \<leftarrow> runGit sticky [''v''] env [''fetch'']; return None })) w)
   in holds_bytes (w_files w') [''v'', ''credential-helper''] \<and> refused_in sticky w w' (CallRemove [''v'', ''credential-helper''])"
proof -
  let ?w = "world_of [([''v''], dir_node)] keyed_volume"
  let ?body = "\<lambda>env. do { _ \<leftarrow> runGit sticky [''v''] env [''fetch'']; return None } :: (unit, string option) io"
  let ?run = "run_state (within_window sticky 0 Some ?body) ?w"
  have counts: "state_io_rel counting (?body env)" for env
    by (auto simp: state_io_rel_def counting_def runGit_def Let_def split: prod.splits)
  have helper: "join_path [''v''] helperFile = [''v'', ''credential-helper'']"
    by (subst join_plain) (simp_all add: plain_name_def helperFile_def)
  have at: "credential (w_heap ?w 0) = Some \<lparr>cr_privateKey = [], cr_knownHosts = [], cr_token = ''t'', cr_username = ''git''\<rparr>"
    "v_directory (w_heap ?w 0) = [''v'']"
    by (simp_all add: world_of_def keyed_volume_def zero_volume_def credential_def)
  then have named: "[''v'', ''credential-helper''] \<in> set (secret_files (credential (w_heap ?w 0)) (v_directory (w_heap ?w 0)))"
    by (simp add: secret_files_def helper)
  have stays: "holds_bytes (w_files (snd ?run)) [''v'', ''credential-helper'']"
    and opens: "\<And>err. fst (run_state (use sticky (credential (w_heap ?w 0)) (v_directory (w_heap ?w 0))) ?w) \<noteq> Inl err"
    by code_simp+
  from a_window_leaves_no_secret[OF counts prod.collapse[symmetric] named stays] opens stays show ?thesis
    by (auto simp: Let_def)
qed

end
