(* ===== verification/Follower.thy ===== *)
theory Follower
  imports Push
begin

section \<open>The fetch loop and the demands (\<open>follow.go\<close>, \<open>demand.go\<close>, \<open>republish.go\<close>)\<close>

text \<open>
  One loop fetches one repository for every read-only volume of the node that follows it. The
  methods that only touch the loop's record, which its lock guards, are functions on that record. The
  operations that touch the disk or the node are state transformers that use them. \<open>loop_step\<close> is the
  select loop of \<open>run\<close> as a step function whose events interleave with what the rest of the node does
  to the record, so a demand may arrive while a pass fetches.
\<close>

definition maxDemandRetry :: duration where "maxDemandRetry = 5 * minute"
definition defaultDemandMin :: duration where "defaultDemandMin = 10 * second"
definition demandAnnotation :: string where "demandAnnotation = ''git.liken.sh/pull-requested-at''"
definition reasonFailed :: string where "reasonFailed = ''GitFetchFailed''"
definition reasonNoPublishSecret :: string where "reasonNoPublishSecret = ''GitVolumeNoPublishSecret''"

subsection \<open>The record of a loop\<close>

definition new_follower :: follower where
  "new_follower = \<lparr>fl_volumes = [], fl_wanted = [], fl_lastPull = 0, fl_backoff = 0,
     fl_wake = False, fl_demanded = False, fl_arrived = False\<rparr>"

definition nudge :: "follower \<Rightarrow> follower" where
  "nudge f = f\<lparr>fl_wake := True\<rparr>"

definition add_volume :: "string \<Rightarrow> nat \<Rightarrow> follower \<Rightarrow> follower" where
  "add_volume vid r f = nudge (f\<lparr>fl_volumes := set_entry vid r (fl_volumes f)\<rparr>)"

definition remove_volume :: "string \<Rightarrow> follower \<Rightarrow> nat \<times> follower" where
  "remove_volume vid f =
     (let f = f\<lparr>fl_volumes := delete_entry vid (fl_volumes f), fl_wanted := delete_entry vid (fl_wanted f)\<rparr>
      in (length (fl_volumes f), nudge f))"

text \<open>The shortest pull of the volumes, given the timer of each.\<close>

definition interval :: "(nat \<Rightarrow> volume) \<Rightarrow> follower \<Rightarrow> duration \<times> bool" where
  "interval heap f =
     (let shortest = foldl (\<lambda>shortest (vid, r).
            let (every, timed) = pull_timer (a_pull (v_attributes (heap r)))
            in if timed \<and> (shortest = 0 \<or> every < shortest) then every else shortest) 0 (fl_volumes f)
      in (shortest, shortest \<noteq> 0))"

definition wantAgain :: "string \<Rightarrow> nat \<Rightarrow> follower \<Rightarrow> bool \<times> follower" where
  "wantAgain vid r f =
     (if map_of (fl_volumes f) vid \<noteq> Some r then (False, f)
      else (True, f\<lparr>fl_wanted := set_entry vid r (fl_wanted f)\<rparr>))"

definition answered :: "time \<Rightarrow> follower \<Rightarrow> (string \<times> nat) list \<times> follower" where
  "answered at f = (fl_wanted f, f\<lparr>fl_wanted := [], fl_lastPull := at\<rparr>)"

definition demandWait :: "duration \<Rightarrow> time \<Rightarrow> follower \<Rightarrow> duration" where
  "demandWait demandMin now f = (if fl_lastPull f = 0 then 0 else demandMin - (now - fl_lastPull f))"

text \<open>
  A demand on a loop: whether it was taken, whether no other waits for the volume, and the record. The
  wake is sent after the record changed; the one slot holds it until the loop reads it.
\<close>

definition demand_volume :: "string \<Rightarrow> nat \<Rightarrow> follower \<Rightarrow> (bool \<times> bool) \<times> follower" where
  "demand_volume vid r f =
     (if map_of (fl_volumes f) vid \<noteq> Some r then ((False, False), f)
      else ((True, map_of (fl_wanted f) vid = None),
        f\<lparr>fl_wanted := set_entry vid r (fl_wanted f), fl_demanded := True\<rparr>))"

definition want_arrived :: "string \<Rightarrow> nat \<Rightarrow> follower \<Rightarrow> follower" where
  "want_arrived vid r f =
     (if map_of (fl_volumes f) vid \<noteq> Some r then f
      else f\<lparr>fl_wanted := set_entry vid r (fl_wanted f), fl_arrived := True\<rparr>)"

text \<open>
  Go's \<open>rand.N(n)\<close> answers a number from 0 to \<open>n - 1\<close>. It is a parameter, and what holds of it is a
  hypothesis where a theorem needs it. Division by 2 of a duration that is not negative is \<open>div\<close>.
\<close>

definition jittered :: "(int \<Rightarrow> int) \<Rightarrow> duration \<Rightarrow> duration \<Rightarrow> duration" where
  "jittered draw backoff floor =
     (if backoff < 2 then backoff
      else let lowest = max floor (backoff div 2)
           in if lowest \<ge> backoff then backoff else lowest + draw (backoff - lowest + 1))"

definition nextRetry :: "(int \<Rightarrow> int) \<Rightarrow> duration \<Rightarrow> follower \<Rightarrow> duration \<times> follower" where
  "nextRetry draw demandMin f =
     (let f = f\<lparr>fl_backoff := min (max (2 * fl_backoff f) demandMin) maxDemandRetry\<rparr>
      in (jittered draw (fl_backoff f) demandMin, f))"

text \<open>What \<open>settle\<close> leaves the retry timer at: stopped, or the wait it was set to.\<close>

definition settle :: "(int \<Rightarrow> int) \<Rightarrow> duration \<Rightarrow> bool \<Rightarrow> follower \<Rightarrow> duration option \<times> follower" where
  "settle draw demandMin failed f =
     (if \<not> failed then (None, f\<lparr>fl_backoff := 0\<rparr>)
      else let (wait, f) = nextRetry draw demandMin f in (Some wait, f))"

subsection \<open>Joining and leaving a loop\<close>

definition loop_name :: "'g outside \<Rightarrow> volume \<Rightarrow> string" where
  "loop_name out v = r_name (repository_of out (url_of v))"

definition loop_at :: "string \<Rightarrow> ('g, follower option) io" where
  "loop_at name = gets (\<lambda>w. map_of (n_followers w) name)"

text \<open>A change of a loop's record, with an answer for a loop the node no longer holds.\<close>

definition on_loop :: "string \<Rightarrow> 'a \<Rightarrow> (follower \<Rightarrow> 'a \<times> follower) \<Rightarrow> ('g, 'a) io" where
  "on_loop name missing g = State (\<lambda>w.
     case map_of (n_followers w) name of None \<Rightarrow> (missing, w)
     | Some f \<Rightarrow> (let (x, f) = g f in (x, w\<lparr>n_followers := set_entry name f (n_followers w)\<rparr>)))"

definition follow :: "'g outside \<Rightarrow> nat \<Rightarrow> ('g, unit) io" where
  "follow out r = do {
     mounting \<leftarrow> volume_at r;
     if \<not> follows (a_pull (v_attributes mounting)) then return ()
     else do {
       let name = loop_name out mounting;
       found \<leftarrow> loop_at name;
       let loop = (case found of Some loop \<Rightarrow> loop | None \<Rightarrow> new_follower);
       modify (\<lambda>w. w\<lparr>n_followers := set_entry name (add_volume (v_id mounting) r loop) (n_followers w)\<rparr>)
     }
   }"

definition unfollow :: "'g outside \<Rightarrow> nat \<Rightarrow> ('g, unit) io" where
  "unfollow out r = do {
     published \<leftarrow> volume_at r;
     if \<not> follows (a_pull (v_attributes published)) then return ()
     else do {
       let name = loop_name out published;
       left \<leftarrow> on_loop name None (\<lambda>f. let (left, f) = remove_volume (v_id published) f in (Some left, f));
       if left = Some 0 then modify (\<lambda>w. w\<lparr>n_followers := delete_entry name (n_followers w)\<rparr>)
       else return ()
     }
   }"

subsection \<open>One pass\<close>

definition trouble_fetching :: "'g outside \<Rightarrow> nat \<Rightarrow> msg \<Rightarrow> ('g, unit) io" where
  "trouble_fetching out r message = do {
     fresh \<leftarrow> on_volume r (reportTrouble message);
     if fresh then tell out r Warning reasonFailed message else return ()
   }"

text \<open>The health is noted only while the loop holds the volume.\<close>

definition loop_noteHealth :: "'g outside \<Rightarrow> string \<Rightarrow> nat \<Rightarrow> ('g, unit) io" where
  "loop_noteHealth out name r = do {
     held \<leftarrow> volume_at r;
     loop \<leftarrow> loop_at name;
     if (case loop of None \<Rightarrow> None | Some f \<Rightarrow> map_of (fl_volumes f) (v_id held)) = Some r
     then noteHealth out r else return ()
   }"

definition fetch_and_place :: "'g outside \<Rightarrow> repository \<Rightarrow> nat \<Rightarrow> ('g, string option) io" where
  "fetch_and_place out repo r = do {
     held \<leftarrow> volume_at r;
     opened \<leftarrow> use out (credential held) (v_directory held);
     case opened of Inl err \<Rightarrow> return (Some err) | Inr (env, written) \<Rightarrow> do {
     fetched \<leftarrow> timeFetch (r_name repo) (repo_fetch out repo env (ref_of held) 0);
     remove_written out written;
     case fetched of Some err \<Rightarrow> return (Some err) | None \<Rightarrow> do {
     resolved \<leftarrow> repo_resolve out repo (ref_of held);
     case resolved of Inl err \<Rightarrow> return (Some err) | Inr tip \<Rightarrow> do {
     standing \<leftarrow> volume_at r;
     if fst (condition standing) = tip then do { change_volume r (reportCommit tip); return None }
     else unless_failed (place out repo tip (v_directory held) (v_tree held))
       (do { change_volume r (reportCommit tip); return None })
     }}}}"

definition refresh :: "'g outside \<Rightarrow> repository \<Rightarrow> nat \<Rightarrow> ('g, bool) io" where
  "refresh out repo r = do {
     failed \<leftarrow> fetch_and_place out repo r;
     (case failed of Some err \<Rightarrow> trouble_fetching out r (Plain err) | None \<Rightarrow> return ());
     loop_noteHealth out (r_name repo) r;
     return (failed = None)
   }"

text \<open>
  One volume of a pass: whether it is one a demand named whose fetch failed. The code visits a
  snapshot of the loop's volumes in the order Go gives a map, and the model in the list's order.
\<close>

definition tick_one ::
    "'g outside \<Rightarrow> repository \<Rightarrow> time \<Rightarrow> (string \<times> nat) list \<Rightarrow> string \<times> nat \<Rightarrow> ('g, bool) io" where
  "tick_one out repo now wanted entry = (case entry of (vid, r) \<Rightarrow> do {
     held \<leftarrow> volume_at r;
     if waitsForCredential held then return False
     else do {
       change_volume r (reportPulled now);
       worked \<leftarrow> refresh out repo r;
       if worked then do { change_volume r (answerDemandsBefore now); return False }
       else if map_of wanted vid \<noteq> None then on_loop (r_name repo) False (wantAgain vid r)
       else return False
     }
   })"

definition tick :: "'g outside \<Rightarrow> repository \<Rightarrow> ('g, bool) io" where
  "tick out repo = do {
     now \<leftarrow> time_now out;
     wanted \<leftarrow> on_loop (r_name repo) [] (answered now);
     loop \<leftarrow> loop_at (r_name repo);
     failed \<leftarrow> traverse_list (tick_one out repo now wanted) (case loop of None \<Rightarrow> [] | Some f \<Rightarrow> fl_volumes f);
     return (True \<in> set failed)
   }"

subsection \<open>Demands\<close>

text \<open>\<open>None\<close> stands for the nil volume.\<close>

definition stagedVolume :: "string \<Rightarrow> ('g, nat option) io" where
  "stagedVolume handle = gets (\<lambda>w. map_of (n_staged w) handle)"

definition loopOf :: "'g outside \<Rightarrow> nat \<Rightarrow> ('g, string option) io" where
  "loopOf out r = do {
     held \<leftarrow> volume_at r;
     let name = loop_name out held;
     loop \<leftarrow> loop_at name;
     return (if loop = None then None else Some name)
   }"

definition follower_demand :: "'g outside \<Rightarrow> string \<Rightarrow> nat \<Rightarrow> ('g, unit) io" where
  "follower_demand out name r = do {
     held \<leftarrow> volume_at r;
     if waitsForCredential held then return ()
     else do {
       (taken, first) \<leftarrow> on_loop name (False, False) (demand_volume (v_id held) r);
       if \<not> taken then return ()
       else do {
         (if first then metric_call (Demanded held) else return ());
         now \<leftarrow> time_now out;
         change_volume r (reportDemanded now)
       }
     }
   }"

definition demand :: "'g outside \<Rightarrow> nat \<Rightarrow> ('g, unit) io" where
  "demand out r = do {
     held \<leftarrow> volume_at r;
     if \<not> follows (a_pull (v_attributes held)) then return ()
     else do {
       loop \<leftarrow> loopOf out r;
       case loop of None \<Rightarrow> return () | Some name \<Rightarrow> follower_demand out name r
     }
   }"

definition resumePull :: "'g outside \<Rightarrow> nat \<Rightarrow> ('g, unit) io" where
  "resumePull out r = do {
     resumed \<leftarrow> volume_at r;
     if \<not> follows (a_pull (v_attributes resumed)) then return ()
     else do {
       loop \<leftarrow> loopOf out r;
       case loop of None \<Rightarrow> return () | Some name \<Rightarrow> follower_demand out name r
     }
   }"

definition actOn :: "'g outside \<Rightarrow> string \<Rightarrow> time \<Rightarrow> ('g, unit) io" where
  "actOn out handle at = do {
     staged \<leftarrow> stagedVolume handle;
     case staged of None \<Rightarrow> return () | Some r \<Rightarrow> do {
       now \<leftarrow> time_now out;
       taken \<leftarrow> on_volume r (takeDemand at now);
       held \<leftarrow> volume_at r;
       if \<not> taken then return ()
       else if writeable held then return ()
       else demand out r
     }
   }"

text \<open>The demand one PersistentVolume of this driver carries.\<close>

definition demand_of :: "'g outside \<Rightarrow> persistentVolume \<Rightarrow> (string \<times> time) option" where
  "demand_of out held =
     (case pv_csi held of None \<Rightarrow> None
      | Some source \<Rightarrow>
          if src_driver source \<noteq> driverName then None
          else let asked = (case map_of (pv_annotations held) demandAnnotation of None \<Rightarrow> [] | Some value \<Rightarrow> value)
               in if asked = [] then None
                  else map_option (Pair (src_handle source)) (o_parse_time out asked))"

definition read :: "'g outside \<Rightarrow> persistentVolume \<Rightarrow> ('g, unit) io" where
  "read out held =
     (case demand_of out held of None \<Rightarrow> return ()
      | Some (handle, at) \<Rightarrow> do {
          modify (\<lambda>w. w\<lparr>n_seen := set_entry handle at (n_seen w)\<rparr>);
          actOn out handle at
        })"

definition forget :: "persistentVolume \<Rightarrow> ('g, unit) io" where
  "forget held =
     (case pv_csi held of None \<Rightarrow> return ()
      | Some source \<Rightarrow> modify (\<lambda>w. w\<lparr>n_seen := delete_entry (src_handle source) (n_seen w)\<rparr>))"

definition arrived :: "'g outside \<Rightarrow> string \<Rightarrow> ('g, unit) io" where
  "arrived out handle = do {
     at \<leftarrow> gets (\<lambda>w. map_of (n_seen w) handle);
     case at of None \<Rightarrow> return () | Some at \<Rightarrow> actOn out handle at
   }"

subsection \<open>A credential that returns\<close>

definition watcher_arrived :: "watcher \<Rightarrow> watcher" where
  "watcher_arrived seeing = seeing\<lparr>wt_arrived := True\<rparr>"

definition on_watcher :: "string \<Rightarrow> nat \<Rightarrow> (watcher \<Rightarrow> watcher) \<Rightarrow> ('g, unit) io" where
  "on_watcher vid r g = modify (\<lambda>w.
     case map_of (n_watchers w) vid of None \<Rightarrow> w
     | Some seeing \<Rightarrow> if wt_volume seeing = r
         then w\<lparr>n_watchers := set_entry vid (g seeing) (n_watchers w)\<rparr> else w)"

definition credentialArrived :: "'g outside \<Rightarrow> nat \<Rightarrow> ('g, unit) io" where
  "credentialArrived out r = do {
     held \<leftarrow> volume_at r;
     on_watcher (v_id held) r watcher_arrived;
     if \<not> follows (a_pull (v_attributes held)) then return ()
     else do {
       loop \<leftarrow> loopOf out r;
       case loop of None \<Rightarrow> return ()
       | Some name \<Rightarrow> on_loop name () (\<lambda>f. ((), want_arrived (v_id held) r f))
     }
   }"

definition noPublishSecret :: "'g outside \<Rightarrow> nat \<Rightarrow> ('g, bool) io" where
  "noPublishSecret out r = do {
     fresh \<leftarrow> on_volume r reportNoPublishSecret;
     if \<not> fresh then return False
     else do {
       tell out r Warning reasonNoPublishSecret noPublishSecret_text;
       held \<leftarrow> volume_at r;
       (if writeable held
        then postClaim out (claimNow held) Warning reasonNoPublishSecret noPublishSecret_text
        else return ());
       noteHealth out r;
       return True
     }
   }"

definition takeSecret :: "'g outside \<Rightarrow> nat \<Rightarrow> credentials option \<Rightarrow> ('g, bool) io" where
  "takeSecret out r holder = do {
     held \<leftarrow> volume_at r;
     if holder = None then (if needsCredential held then noPublishSecret out r else return False)
     else do {
       let old = credential held;
       if same old holder then return False
       else do {
         returned \<leftarrow> on_volume r (takeCredential holder);
         if returned then do { noteHealth out r; credentialArrived out r; return True }
         else if old \<noteq> None then do { credentialArrived out r; return True }
         else return True
       }
     }
   }"

text \<open>\<open>republished\<close> answers whether the call changed anything, which the code uses for its log alone.\<close>

definition republished :: "'g outside \<Rightarrow> nat \<Rightarrow> credentials option \<Rightarrow> ('g, bool) io" where
  "republished out r holder = takeSecret out r holder"

end
