(* ===== verification/FetchLoop.thy ===== *)
theory FetchLoop
  imports Follower
begin

section \<open>The select loop of a fetch loop (\<open>follow.go\<close>: \<open>run\<close>)\<close>

text \<open>
  \<open>run\<close> waits on three wakes and three timers, and the rest of the node changes the loop's record
  while it waits and while a pass fetches. Each such change and each choice of the select is an event.
  A pass is a start, one event per volume of its snapshot in any order, and an end, so every
  interleaving with the node's own operations is a sequence of events. \<open>loop_step\<close> answers no state
  for an event that cannot happen: a wake that was not sent, a timer that does not run, a select while
  a pass runs. A fetch may work or fail, as the event says, and \<open>Wakes\<close> and \<open>Settles\<close> carry what
  \<open>interval\<close> answered the timer, \<open>None\<close> where no volume names one.
\<close>

record pass =
  pa_left :: "(string \<times> nat) list"
  pa_wanted :: "(string \<times> nat) list"
  pa_failed :: bool

record loop =
  lo_follower :: follower
  lo_timer :: "duration option"
  lo_delay :: "duration option"
  lo_retry :: "duration option"
  lo_waiting :: bool
  lo_pass :: "pass option"

datatype loop_event =
    Joins string nat | Leaves string | Demands string nat | CredentialArrives string nat
  | Wakes "duration option" | Demanded_at time | Delay_fires time | Arrived_at time | Timer_fires time | Retry_fires time
  | Passes_over string nat | Fetched string nat bool | Settles "int \<Rightarrow> int" "duration option"

definition start_pass :: "time \<Rightarrow> loop \<Rightarrow> loop" where
  "start_pass now lo =
     (let (wanted, f) = answered now (lo_follower lo)
      in lo\<lparr>lo_follower := f, lo_pass := Some \<lparr>pa_left = fl_volumes f, pa_wanted = wanted, pa_failed = False\<rparr>\<rparr>)"

definition end_fetch :: "string \<Rightarrow> nat \<Rightarrow> bool \<Rightarrow> pass \<Rightarrow> loop \<Rightarrow> loop" where
  "end_fetch vid r worked p lo =
     (let p = p\<lparr>pa_left := remove1 (vid, r) (pa_left p)\<rparr>
      in if \<not> worked \<and> map_of (pa_wanted p) vid \<noteq> None
         then let (again, f) = wantAgain vid r (lo_follower lo)
              in lo\<lparr>lo_follower := f, lo_pass := Some (p\<lparr>pa_failed := pa_failed p \<or> again\<rparr>)\<rparr>
         else lo\<lparr>lo_pass := Some p\<rparr>)"

text \<open>What the node does to the record at any moment.\<close>

fun node_step :: "loop_event \<Rightarrow> loop \<Rightarrow> loop option" where
  "node_step (Joins vid r) lo = Some (lo\<lparr>lo_follower := add_volume vid r (lo_follower lo)\<rparr>)"
| "node_step (Leaves vid) lo = Some (lo\<lparr>lo_follower := snd (remove_volume vid (lo_follower lo))\<rparr>)"
| "node_step (Demands vid r) lo = Some (lo\<lparr>lo_follower := snd (demand_volume vid r (lo_follower lo))\<rparr>)"
| "node_step (CredentialArrives vid r) lo = Some (lo\<lparr>lo_follower := want_arrived vid r (lo_follower lo)\<rparr>)"
| "node_step e lo = None"

text \<open>What the select takes while no pass runs.\<close>

fun select_step :: "duration \<Rightarrow> loop_event \<Rightarrow> loop \<Rightarrow> loop option" where
  "select_step demandMin (Wakes every) lo =
     (if fl_wake (lo_follower lo)
      then Some (lo\<lparr>lo_follower := (lo_follower lo)\<lparr>fl_wake := False\<rparr>, lo_timer := every\<rparr>) else None)"
| "select_step demandMin (Demanded_at now) lo =
     (if fl_demanded (lo_follower lo)
      then let lo = lo\<lparr>lo_follower := (lo_follower lo)\<lparr>fl_demanded := False\<rparr>\<rparr>;
               wait = demandWait demandMin now (lo_follower lo)
           in if lo_waiting lo then Some lo
              else if wait > 0 then Some (lo\<lparr>lo_delay := Some wait, lo_waiting := True\<rparr>)
              else Some (start_pass now lo)
      else None)"
| "select_step demandMin (Delay_fires now) lo =
     (if lo_delay lo \<noteq> None then Some (start_pass now (lo\<lparr>lo_delay := None, lo_waiting := False\<rparr>)) else None)"
| "select_step demandMin (Arrived_at now) lo =
     (if fl_arrived (lo_follower lo)
      then Some (start_pass now (lo\<lparr>lo_follower := (lo_follower lo)\<lparr>fl_arrived := False\<rparr>\<rparr>)) else None)"
| "select_step demandMin (Timer_fires now) lo =
     (if lo_timer lo \<noteq> None then Some (start_pass now (lo\<lparr>lo_timer := None\<rparr>)) else None)"
| "select_step demandMin (Retry_fires now) lo =
     (if lo_retry lo \<noteq> None then Some (start_pass now (lo\<lparr>lo_retry := None\<rparr>)) else None)"
| "select_step demandMin e lo = None"

text \<open>What a running pass does: a volume that waits for its credential, a fetch, the end.\<close>

fun pass_step :: "duration \<Rightarrow> loop_event \<Rightarrow> pass \<Rightarrow> loop \<Rightarrow> loop option" where
  "pass_step demandMin (Passes_over vid r) p lo =
     (if (vid, r) \<in> set (pa_left p)
      then Some (lo\<lparr>lo_pass := Some (p\<lparr>pa_left := remove1 (vid, r) (pa_left p)\<rparr>)\<rparr>) else None)"
| "pass_step demandMin (Fetched vid r worked) p lo =
     (if (vid, r) \<in> set (pa_left p) then Some (end_fetch vid r worked p lo) else None)"
| "pass_step demandMin (Settles draw every) p lo =
     (if pa_left p = []
      then let (retry, f) = settle draw demandMin (pa_failed p) (lo_follower lo)
           in Some (lo\<lparr>lo_follower := f, lo_retry := retry, lo_timer := every, lo_pass := None\<rparr>)
      else None)"
| "pass_step demandMin e p lo = None"

definition loop_step :: "duration \<Rightarrow> loop_event \<Rightarrow> loop \<Rightarrow> loop option" where
  "loop_step demandMin e lo =
     (case node_step e lo of Some lo \<Rightarrow> Some lo
      | None \<Rightarrow> (case lo_pass lo of
          None \<Rightarrow> select_step demandMin e lo
        | Some p \<Rightarrow> pass_step demandMin e p lo))"

text \<open>The loop as \<open>follow\<close> starts it, with its timers stopped but the first.\<close>

definition loop_start :: "duration option \<Rightarrow> loop" where
  "loop_start every = \<lparr>lo_follower = new_follower, lo_timer = every, lo_delay = None, lo_retry = None,
     lo_waiting = False, lo_pass = None\<rparr>"

text \<open>\<open>rand.N(n)\<close> is a number below \<open>n\<close>.\<close>

definition draws_below :: "(int \<Rightarrow> int) \<Rightarrow> bool" where
  "draws_below draw \<longleftrightarrow> (\<forall>n>0. 0 \<le> draw n \<and> draw n < n)"

fun fair_draw :: "loop_event \<Rightarrow> bool" where
  "fair_draw (Settles draw every) = draws_below draw"
| "fair_draw e = True"

inductive loop_reaches :: "duration \<Rightarrow> loop \<Rightarrow> bool" for demandMin where
  start: "loop_reaches demandMin (loop_start every)"
| step: "loop_reaches demandMin lo \<Longrightarrow> fair_draw e \<Longrightarrow> loop_step demandMin e lo = Some lo' \<Longrightarrow>
    loop_reaches demandMin lo'"

subsection \<open>The invariant\<close>

fun pass_pending :: "pass option \<Rightarrow> duration option \<Rightarrow> bool" where
  "pass_pending None retry = (retry \<noteq> None)"
| "pass_pending (Some p) retry = pa_failed p"

definition some_wake :: "loop \<Rightarrow> bool" where
  "some_wake lo \<longleftrightarrow> fl_demanded (lo_follower lo) \<or> fl_arrived (lo_follower lo) \<or> lo_delay lo \<noteq> None \<or>
     pass_pending (lo_pass lo) (lo_retry lo)"

definition retry_in_bounds :: "duration \<Rightarrow> duration \<Rightarrow> bool" where
  "retry_in_bounds demandMin wait \<longleftrightarrow> min demandMin maxDemandRetry \<le> wait \<and> wait \<le> maxDemandRetry"

definition names_in :: "(string \<times> 'a) list \<Rightarrow> string set" where
  "names_in m = fst ` set m"

text \<open>Every wanted volume is on the loop, and something will run a pass for it.\<close>

definition covered :: "loop \<Rightarrow> bool" where
  "covered lo \<longleftrightarrow> (fl_wanted (lo_follower lo) = [] \<or> some_wake lo) \<and>
     names_in (fl_wanted (lo_follower lo)) \<subseteq> names_in (fl_volumes (lo_follower lo))"

definition delay_ok :: "bool \<Rightarrow> duration option \<Rightarrow> bool" where
  "delay_ok waiting delay \<longleftrightarrow> (waiting \<longleftrightarrow> delay \<noteq> None) \<and> list_all (\<lambda>wait. 0 < wait) (case delay of None \<Rightarrow> [] | Some wait \<Rightarrow> [wait])"

definition retry_ok :: "duration \<Rightarrow> duration option \<Rightarrow> bool" where
  "retry_ok demandMin retry \<longleftrightarrow> list_all (retry_in_bounds demandMin) (case retry of None \<Rightarrow> [] | Some wait \<Rightarrow> [wait])"

definition waits_ok :: "duration \<Rightarrow> loop \<Rightarrow> bool" where
  "waits_ok demandMin lo \<longleftrightarrow>
     delay_ok (lo_waiting lo) (lo_delay lo) \<and> retry_ok demandMin (lo_retry lo) \<and>
     0 \<le> fl_backoff (lo_follower lo) \<and> fl_backoff (lo_follower lo) \<le> maxDemandRetry"

lemma jittered_bounds:
  assumes "draws_below draw"
  shows "(backoff div 2 \<le> jittered draw backoff floor \<or> backoff < 2) \<and> jittered draw backoff floor \<le> backoff \<and>
    min floor backoff \<le> jittered draw backoff floor"
proof -
  let ?lowest = "max floor (backoff div 2)"
  have "0 \<le> draw n \<and> draw n < n" if "0 < n" for n
    using assms that by (simp add: draws_below_def)
  from this[of "backoff - ?lowest + 1"]
  have "0 \<le> draw (backoff - ?lowest + 1) \<and> draw (backoff - ?lowest + 1) \<le> backoff - ?lowest" if "?lowest < backoff"
    using that by linarith
  then show ?thesis by (cases "?lowest < backoff") (simp_all add: jittered_def Let_def, linarith+)
qed

lemma nextRetry_bounds:
  assumes "draws_below draw" and "0 \<le> fl_backoff f" and "nextRetry draw demandMin f = (wait, f')"
  shows "retry_in_bounds demandMin wait \<and> 0 \<le> fl_backoff f' \<and> fl_backoff f' \<le> maxDemandRetry \<and>
    fl_volumes f' = fl_volumes f \<and> fl_wanted f' = fl_wanted f \<and> fl_demanded f' = fl_demanded f \<and>
    fl_arrived f' = fl_arrived f"
proof -
  let ?backoff = "min (max (2 * fl_backoff f) demandMin) maxDemandRetry"
  have f': "f' = f\<lparr>fl_backoff := ?backoff\<rparr>" and wait: "wait = jittered draw ?backoff demandMin"
    using assms(3) by (simp_all add: nextRetry_def Let_def)
  have "min demandMin maxDemandRetry \<le> min demandMin ?backoff" by simp
  with jittered_bounds[OF assms(1), of ?backoff demandMin] have "retry_in_bounds demandMin wait"
    unfolding retry_in_bounds_def wait by linarith
  moreover have "0 \<le> ?backoff" using assms(2) by (simp add: maxDemandRetry_def)
  ultimately show ?thesis unfolding f' by simp
qed

lemma entry_keys:
  "names_in (set_entry k a m) = insert k (names_in m)"
  "names_in (delete_entry k m) = names_in m - {k}"
  "names_in [] = {}"
  by (force simp: names_in_def set_entry_def delete_entry_def)+

lemma map_of_key: "map_of m k = Some a \<Longrightarrow> k \<in> names_in m"
  by (force simp: names_in_def dest: map_of_SomeD)

lemma wake_kept:
  "some_wake lo \<Longrightarrow> fl_demanded f = fl_demanded (lo_follower lo) \<Longrightarrow> fl_arrived f = fl_arrived (lo_follower lo) \<Longrightarrow>
   some_wake (lo\<lparr>lo_follower := f\<rparr>)"
  by (simp add: some_wake_def)

lemma node_step_covered: "covered lo \<Longrightarrow> node_step e lo = Some lo' \<Longrightarrow> covered lo'"
proof (induction e lo rule: node_step.induct)
  case (1 vid r lo)
  then show ?case
    using wake_kept[of lo "add_volume vid r (lo_follower lo)"]
    by (auto simp: covered_def add_volume_def nudge_def entry_keys subset_iff)
next
  case (2 vid lo)
  have "delete_entry vid [] = []" by (simp add: delete_entry_def)
  with 2 show ?case
    using wake_kept[of lo "snd (remove_volume vid (lo_follower lo))"]
    by (auto simp: covered_def remove_volume_def nudge_def entry_keys)
next
  case (3 vid r lo)
  then show ?case
    by (cases "map_of (fl_volumes (lo_follower lo)) vid = Some r")
      (auto simp: covered_def demand_volume_def some_wake_def entry_keys map_of_key)
next
  case (4 vid r lo)
  then show ?case
    by (cases "map_of (fl_volumes (lo_follower lo)) vid = Some r")
      (auto simp: covered_def want_arrived_def some_wake_def entry_keys map_of_key)
qed simp_all

lemma node_step_waits: "waits_ok demandMin lo \<Longrightarrow> node_step e lo = Some lo' \<Longrightarrow> waits_ok demandMin lo'"
  by (induction e lo rule: node_step.induct)
    (auto simp: waits_ok_def add_volume_def nudge_def remove_volume_def demand_volume_def want_arrived_def)

lemma start_pass_covered: "covered (start_pass now lo)"
  by (simp add: covered_def start_pass_def answered_def entry_keys)

lemma start_pass_waits: "waits_ok demandMin lo \<Longrightarrow> waits_ok demandMin (start_pass now lo)"
  by (simp add: waits_ok_def start_pass_def answered_def)

lemma select_step_covered:
  assumes "covered lo" "select_step demandMin e lo = Some lo'" "lo_pass lo = None" "waits_ok demandMin lo"
  shows "covered lo'"
proof (cases e)
  case (Wakes every)
  with assms show ?thesis by (auto simp: covered_def some_wake_def split: if_splits)
next
  case (Demanded_at now)
  let ?lo = "lo\<lparr>lo_follower := (lo_follower lo)\<lparr>fl_demanded := False\<rparr>\<rparr>"
  let ?wait = "demandWait demandMin now (lo_follower ?lo)"
  have "covered ?lo" if "lo_waiting lo"
    using assms(1,4) that by (auto simp: covered_def some_wake_def waits_ok_def delay_ok_def)
  moreover have "covered (?lo\<lparr>lo_delay := Some ?wait, lo_waiting := True\<rparr>)"
    using assms(1) by (simp add: covered_def some_wake_def)
  ultimately show ?thesis
    using assms(2) start_pass_covered by (auto simp: Demanded_at Let_def split: if_splits)
qed (use assms start_pass_covered in \<open>auto split: if_splits\<close>)

lemma select_step_waits:
  assumes "waits_ok demandMin lo" "select_step demandMin e lo = Some lo'"
  shows "waits_ok demandMin lo'"
  using assms
  by (cases e) (auto simp: Let_def waits_ok_def start_pass_def answered_def delay_ok_def retry_ok_def split: if_splits)

lemma wantAgain_covered:
  assumes "covered lo" "wantAgain vid r (lo_follower lo) = (again, f)" "lo_pass lo = Some p"
  shows "covered (lo\<lparr>lo_follower := f, lo_pass := Some (p'\<lparr>pa_failed := pa_failed p \<or> again\<rparr>)\<rparr>)"
  using assms
  by (cases "map_of (fl_volumes (lo_follower lo)) vid = Some r")
    (auto simp: covered_def wantAgain_def some_wake_def entry_keys map_of_key)

lemma pass_step_covered:
  assumes "covered lo" "pass_step demandMin e p lo = Some lo'" "lo_pass lo = Some p"
  shows "covered lo'"
proof (cases e)
  case (Passes_over vid r)
  with assms show ?thesis by (auto simp: covered_def some_wake_def split: if_splits)
next
  case (Fetched vid r worked)
  obtain again f where f: "wantAgain vid r (lo_follower lo) = (again, f)" by fastforce
  have same: "covered (lo\<lparr>lo_pass := Some (p\<lparr>pa_left := left\<rparr>)\<rparr>)" for left
    using assms(1,3) by (simp add: covered_def some_wake_def)
  from assms(2) wantAgain_covered[OF assms(1) f assms(3), of "p\<lparr>pa_left := remove1 (vid, r) (pa_left p)\<rparr>"] same
  show ?thesis by (auto simp: Fetched end_fetch_def Let_def f split: if_splits)
next
  case (Settles draw every)
  with assms show ?thesis
    by (auto simp: covered_def some_wake_def settle_def nextRetry_def Let_def split: if_splits)
qed (use assms in simp_all)

lemma pass_step_waits:
  assumes "waits_ok demandMin lo" "pass_step demandMin e p lo = Some lo'" "fair_draw e"
  shows "waits_ok demandMin lo'"
proof (cases e)
  case (Settles draw every)
  obtain wait f where f: "nextRetry draw demandMin (lo_follower lo) = (wait, f)" by fastforce
  have "draws_below draw" using assms(3) by (simp add: Settles)
  from nextRetry_bounds[OF this _ f] assms(1,2) f show ?thesis
    by (auto simp: Settles waits_ok_def settle_def retry_ok_def maxDemandRetry_def split: if_splits)
next
  case (Fetched vid r worked)
  with assms(1,2) show ?thesis
    by (auto simp: end_fetch_def Let_def waits_ok_def wantAgain_def split: if_splits)
qed (use assms in \<open>auto simp: waits_ok_def split: if_splits\<close>)

lemma loop_step_keeps:
  assumes "covered lo" "waits_ok demandMin lo" "fair_draw e" "loop_step demandMin e lo = Some lo'"
  shows "covered lo' \<and> waits_ok demandMin lo'"
proof (cases "node_step e lo")
  case (Some there)
  with assms node_step_covered node_step_waits show ?thesis by (auto simp: loop_step_def)
next
  case None
  show ?thesis
  proof (cases "lo_pass lo")
    case None
    with assms \<open>node_step e lo = None\<close> select_step_covered select_step_waits show ?thesis
      by (simp add: loop_step_def; blast?)
  next
    case (Some p)
    with assms \<open>node_step e lo = None\<close> pass_step_covered pass_step_waits show ?thesis
      by (simp add: loop_step_def; blast?)
  qed
qed

lemma loop_start_ok: "covered (loop_start every) \<and> waits_ok demandMin (loop_start every)"
  by (simp add: loop_start_def new_follower_def covered_def waits_ok_def delay_ok_def retry_ok_def
      entry_keys maxDemandRetry_def)

lemma loop_reaches_ok: "loop_reaches demandMin lo \<Longrightarrow> covered lo \<and> waits_ok demandMin lo"
  by (induction rule: loop_reaches.induct) (use loop_start_ok loop_step_keeps in blast)+

subsection \<open>What the loop promises\<close>

text \<open>
  Property C13. No demand is stranded. In every state the loop can reach, whatever interleaves with it,
  a volume that waits for a pass is on the loop, and something will run that pass: a wake that was sent,
  a wait that runs, the retry, or the pass that runs now and will set the retry.
\<close>

theorem no_demand_is_stranded:
  assumes "loop_reaches demandMin lo" and "vid \<in> names_in (fl_wanted (lo_follower lo))"
  shows "vid \<in> names_in (fl_volumes (lo_follower lo)) \<and> some_wake lo"
  using loop_reaches_ok[OF assms(1)] assms(2) by (auto simp: covered_def entry_keys(3))

definition sample_demanded :: loop where
  "sample_demanded = (loop_start None)\<lparr>lo_follower := new_follower\<lparr>fl_volumes := [(''v'', 0)],
     fl_wanted := [(''v'', 0)], fl_wake := True, fl_demanded := True\<rparr>\<rparr>"

lemma sample_demanded_reached: "loop_reaches (10 * second) sample_demanded"
proof -
  have "loop_reaches (10 * second) ((loop_start None)\<lparr>lo_follower := add_volume ''v'' 0 new_follower\<rparr>)"
    by (rule loop_reaches.step[OF loop_reaches.start, of "Joins ''v'' 0"])
      (simp_all add: loop_step_def loop_start_def)
  then show ?thesis
    by (rule loop_reaches.step[of _ _ "Demands ''v'' 0"])
      (simp_all add: sample_demanded_def loop_step_def loop_start_def demand_volume_def add_volume_def
        nudge_def new_follower_def set_entry_def)
qed

theorem no_demand_is_stranded_witness:
  "''v'' \<in> names_in (fl_volumes (lo_follower sample_demanded)) \<and> some_wake sample_demanded"
  by (rule no_demand_is_stranded[OF sample_demanded_reached]) (simp add: sample_demanded_def names_in_def)

text \<open>
  Property C33. The wait before a demanded fetch is made again is at most five minutes, and it is at
  least \<open>--demand-min-interval\<close> where that is not over five minutes.
\<close>

theorem retry_waits_in_bounds:
  assumes "loop_reaches demandMin lo" and "lo_retry lo = Some wait"
  shows "min demandMin maxDemandRetry \<le> wait \<and> wait \<le> maxDemandRetry"
  using loop_reaches_ok[OF assms(1)] assms(2) by (simp add: waits_ok_def retry_ok_def retry_in_bounds_def)

primrec loop_run :: "duration \<Rightarrow> loop_event list \<Rightarrow> loop \<Rightarrow> loop option" where
  "loop_run demandMin [] lo = Some lo"
| "loop_run demandMin (e # es) lo =
     (case loop_step demandMin e lo of None \<Rightarrow> None | Some lo \<Rightarrow> loop_run demandMin es lo)"

lemma loop_run_reaches:
  "loop_run demandMin es lo = Some lo' \<Longrightarrow> list_all fair_draw es \<Longrightarrow> loop_reaches demandMin lo \<Longrightarrow> loop_reaches demandMin lo'"
  by (induction es arbitrary: lo) (auto split: option.splits intro: loop_reaches.step)

definition failed_once :: "loop_event list" where
  "failed_once = [Joins ''v'' 0, Demands ''v'' 0, Demanded_at 5, Fetched ''v'' 0 False, Settles (\<lambda>n. 0) None]"

theorem retry_waits_in_bounds_witness:
  "min (10 * second) maxDemandRetry \<le> 10 * second \<and> 10 * second \<le> maxDemandRetry"
proof -
  have "map_option lo_retry (loop_run (10 * second) failed_once (loop_start None)) = Some (Some (10 * second))"
    by code_simp
  then obtain lo where run: "loop_run (10 * second) failed_once (loop_start None) = Some lo"
    and retry: "lo_retry lo = Some (10 * second)" by auto
  have "list_all fair_draw failed_once" by (simp add: failed_once_def draws_below_def)
  from retry_waits_in_bounds[OF loop_run_reaches[OF run this loop_reaches.start] retry] show ?thesis .
qed

text \<open>
  The comment on \<open>nextRetry\<close> says the wait never falls below \<open>--demand-min-interval\<close>. An interval over
  five minutes is one it does fall below.
\<close>

lemma retry_below_the_interval:
  "fst (nextRetry (\<lambda>n. 0) (10 * minute) new_follower) = maxDemandRetry \<and> maxDemandRetry < 10 * minute"
  by code_simp

text \<open>
  Property C34. A wanted volume gets its pass. From every state the loop can reach in which no pass
  runs and a volume waits, at any time, at most two steps of the select start a pass that carries every
  waiting volume.
\<close>

theorem a_wanted_volume_gets_a_pass:
  assumes "loop_reaches demandMin lo" and "lo_pass lo = None" and "fl_wanted (lo_follower lo) \<noteq> []"
  shows "\<exists>es lo' p. length es \<le> 2 \<and> loop_run demandMin es lo = Some lo' \<and> lo_pass lo' = Some p \<and>
    pa_wanted p = fl_wanted (lo_follower lo) \<and> pa_left p = fl_volumes (lo_follower lo) \<and>
    fl_lastPull (lo_follower lo') = now"
proof -
  let ?goal = "\<lambda>es. \<exists>lo' p. length es \<le> 2 \<and> loop_run demandMin es lo = Some lo' \<and> lo_pass lo' = Some p \<and>
    pa_wanted p = fl_wanted (lo_follower lo) \<and> pa_left p = fl_volumes (lo_follower lo) \<and>
    fl_lastPull (lo_follower lo') = now"
  have idle: "node_step e lo = None \<Longrightarrow> loop_step demandMin e lo = select_step demandMin e lo" for e
    using assms(2) by (simp add: loop_step_def)
  note pass = start_pass_def answered_def
  from loop_reaches_ok[OF assms(1)] assms(2,3) consider
    "fl_arrived (lo_follower lo)" | "lo_delay lo \<noteq> None" | "lo_retry lo \<noteq> None"
    | "fl_demanded (lo_follower lo)" "lo_delay lo = None" "\<not> lo_waiting lo"
    by (auto simp: covered_def some_wake_def waits_ok_def delay_ok_def)
  then show ?thesis
  proof cases
    case 1
    then have "?goal [Arrived_at now]" by (simp add: idle pass)
    then show ?thesis by blast
  next
    case 2
    then have "?goal [Delay_fires now]" by (simp add: idle pass)
    then show ?thesis by blast
  next
    case 3
    then have "?goal [Retry_fires now]" by (simp add: idle pass)
    then show ?thesis by blast
  next
    case 4
    show ?thesis
    proof (cases "demandWait demandMin now (lo_follower lo) > 0")
      case True
      with 4 assms(2) have "?goal [Demanded_at now, Delay_fires now]"
        by (auto simp: loop_step_def demandWait_def Let_def pass split: if_splits)
      then show ?thesis by blast
    next
      case False
      with 4 have "?goal [Demanded_at now]" by (auto simp: idle demandWait_def Let_def pass split: if_splits)
      then show ?thesis by blast
    qed
  qed
qed

theorem a_wanted_volume_gets_a_pass_witness:
  "\<exists>es lo' p. length es \<le> 2 \<and> loop_run (10 * second) es sample_demanded = Some lo' \<and> lo_pass lo' = Some p \<and>
    pa_wanted p = [(''v'', 0)]"
proof -
  have "lo_pass sample_demanded = None" "fl_wanted (lo_follower sample_demanded) = [(''v'', 0)]"
    by (simp_all add: sample_demanded_def loop_start_def)
  with a_wanted_volume_gets_a_pass[OF sample_demanded_reached, of 7] show ?thesis by fastforce
qed

text \<open>The events of a pass, and how many of them there can be.\<close>

fun in_pass :: "loop_event \<Rightarrow> bool" where
  "in_pass (Passes_over vid r) = True"
| "in_pass (Fetched vid r worked) = True"
| "in_pass (Settles draw every) = True"
| "in_pass e = False"

definition left_in_pass :: "loop \<Rightarrow> nat" where
  "left_in_pass lo = (case lo_pass lo of None \<Rightarrow> 0 | Some p \<Rightarrow> Suc (length (pa_left p)))"

lemma in_pass_step:
  assumes "in_pass e" "loop_step demandMin e lo = Some lo'"
  shows "left_in_pass lo = Suc (left_in_pass lo')"
proof -
  have alone: "node_step e lo = None" using assms(1) by (cases e) simp_all
  obtain p where p: "lo_pass lo = Some p" "pass_step demandMin e p lo = Some lo'"
    using assms alone by (cases "lo_pass lo"; cases e) (auto simp: loop_step_def)
  show ?thesis
    using assms(1) p
    by (cases e) (auto simp: left_in_pass_def end_fetch_def Let_def length_remove1 in_set_conv_decomp
        split: if_splits prod.splits)
qed

text \<open>
  A pass ends. A pass makes one step for each volume of its snapshot and one that
  settles it, so no run of its steps is longer; and in every state of a pass one of them can be made,
  whatever the fetch answers.
\<close>

theorem a_pass_ends:
  "(loop_run demandMin es lo = Some lo' \<and> list_all in_pass es \<longrightarrow> left_in_pass lo = length es + left_in_pass lo') \<and>
   (lo_pass lo \<noteq> None \<longrightarrow> (\<exists>e lo'. in_pass e \<and> loop_step demandMin e lo = Some lo'))"
proof (intro conjI impI)
  assume "loop_run demandMin es lo = Some lo' \<and> list_all in_pass es"
  then show "left_in_pass lo = length es + left_in_pass lo'"
    by (induction es arbitrary: lo) (auto split: option.splits dest: in_pass_step)
next
  assume "lo_pass lo \<noteq> None"
  then obtain p where p: "lo_pass lo = Some p" by blast
  show "\<exists>e lo'. in_pass e \<and> loop_step demandMin e lo = Some lo'"
  proof (cases "pa_left p")
    case Nil
    have "loop_step demandMin (Settles (\<lambda>n. 0) None) lo \<noteq> None"
      by (simp add: loop_step_def p Nil case_prod_beta)
    then show ?thesis by (metis in_pass.simps(3) option.exhaust)
  next
    case (Cons entry rest)
    then have "loop_step demandMin (Fetched (fst entry) (snd entry) True) lo \<noteq> None"
      by (simp add: loop_step_def p)
    then show ?thesis by (metis in_pass.simps(2) option.exhaust)
  qed
qed

theorem a_pass_ends_witness:
  "left_in_pass (start_pass 5 sample_demanded) = length [Passes_over ''v'' 0, Settles (\<lambda>n. 0) None] + 0"
proof -
  have "map_option left_in_pass (loop_run 1 [Passes_over ''v'' 0, Settles (\<lambda>n. 0) None] (start_pass 5 sample_demanded)) = Some 0"
    by code_simp
  then obtain lo' where "loop_run 1 [Passes_over ''v'' 0, Settles (\<lambda>n. 0) None] (start_pass 5 sample_demanded) = Some lo'"
    and "left_in_pass lo' = 0" by auto
  with a_pass_ends[of 1 "[Passes_over ''v'' 0, Settles (\<lambda>n. 0) None]" "start_pass 5 sample_demanded" lo']
  show ?thesis by simp
qed

subsection \<open>The pass of the code is a pass of the loop\<close>

text \<open>Fetching and placing change no loop's record; only \<open>answered\<close> and \<open>wantAgain\<close> do.\<close>

definition loops_kept :: "'g world \<Rightarrow> 'g world \<Rightarrow> bool" where
  "loops_kept w w' \<longleftrightarrow> n_followers w' = n_followers w"

interpretation loops: step_bound loops_kept
  by unfold_locales (simp_all add: loops_kept_def)

lemma loops_leaf: "state_io_rel (leaf K) m \<Longrightarrow> state_io_rel loops_kept m"
  by (simp add: state_io_rel_def leaf_def apart_def loops_kept_def)

lemma loops_untouched: "state_io_rel untouched m \<Longrightarrow> state_io_rel loops_kept m"
  by (rule loops_leaf[OF untouched_leaf])

lemma loops_primitives:
  "state_io_rel loops_kept (change_volume r f)"
  "state_io_rel loops_kept (on_volume r g)"
  "state_io_rel loops_kept (loop_at name)"
  by (auto simp: state_io_rel_def loops_kept_def change_volume_def on_volume_def loop_at_def Let_def split: prod.splits)

lemma loops_noteHealth: "state_io_rel loops_kept (noteHealth out r)"
  unfolding noteHealth_def
  by (intro loops.bounds loops_primitives untouched_ops[THEN loops_untouched])

lemma loops_refresh: "state_io_rel loops_kept (refresh out repo r)"
proof -
  have fetch: "state_io_rel (leaf UNIV) (timeFetch (r_name repo) (repo_fetch out repo env ref depth))" for env ref depth
    by (intro timeFetch_kinds repo_fetch_kinds) simp
  have read: "state_io_rel (leaf UNIV) (repo_resolve out repo ref)"
    "state_io_rel (leaf UNIV) (place out repo tip directory tree)" for ref tip directory tree
    by (intro repo_resolve_kinds place_kinds; simp)+
  have place: "state_io_rel loops_kept (fetch_and_place out repo r)"
    unfolding fetch_and_place_def
    by (intro loops.bounds loops_primitives fetch[THEN loops_leaf] read[THEN loops_leaf]
        silent_window[THEN loops_untouched] untouched_ops(1)[THEN loops_untouched])
  have trouble: "state_io_rel loops_kept (trouble_fetching out r message)" for message
    unfolding trouble_fetching_def
    by (intro loops.bounds loops_primitives untouched_ops[THEN loops_untouched])
  have health: "state_io_rel loops_kept (loop_noteHealth out name r)" for name
    unfolding loop_noteHealth_def
    by (intro loops.bounds loops_primitives loops_noteHealth untouched_ops[THEN loops_untouched])
  show ?thesis
    unfolding refresh_def by (intro loops.bounds place trouble health)
qed

text \<open>The event that stands for what a pass did with one entry of its snapshot.\<close>

fun visits :: "loop_event \<Rightarrow> string \<times> nat \<Rightarrow> bool" where
  "visits (Passes_over vid r) entry = (entry = (vid, r))"
| "visits (Fetched vid r worked) entry = (entry = (vid, r))"
| "visits e entry = False"

lemma on_loop_run:
  "map_of (n_followers w) name = Some f \<Longrightarrow> g f = (x, f') \<Longrightarrow>
   fst (run_state (on_loop name d g) w) = x \<and> map_of (n_followers (snd (run_state (on_loop name d g) w))) name = Some f'"
  by (simp add: on_loop_def set_entry_def)

lemma loops_run:
  "state_io_rel loops_kept m \<Longrightarrow> run_state m w = (x, w') \<Longrightarrow> n_followers w' = n_followers w"
  by (metis snd_conv state_io_rel_def loops_kept_def)

lemma tick_one_visits:
  assumes "map_of (n_followers w) (r_name repo) = Some (lo_follower lo)"
    and "lo_pass lo = Some p" and "pa_wanted p = wanted" and "entry \<in> set (pa_left p)"
    and "run_state (tick_one out repo now wanted entry) w = (failed, w')"
  shows "\<exists>e lo' p'. visits e entry \<and> loop_step demandMin e lo = Some lo' \<and> lo_pass lo' = Some p' \<and>
    pa_wanted p' = wanted \<and> pa_left p' = remove1 entry (pa_left p) \<and> pa_failed p' = (pa_failed p \<or> failed) \<and>
    map_of (n_followers w') (r_name repo) = Some (lo_follower lo')"
proof -
  obtain vid r where entry: "entry = (vid, r)" by fastforce
  show ?thesis
  proof (cases "waitsForCredential (w_heap w r)")
    case True
    with assms(5) have "failed = False" "w' = w" by (simp_all add: tick_one_def entry volume_at_def)
    with assms(1-4) show ?thesis
      by (intro exI[of _ "Passes_over vid r"]) (simp add: entry loop_step_def)
  next
    case False
    obtain w1 where w1: "run_state (change_volume r (reportPulled now)) w = ((), w1)"
      by (simp add: change_volume_def)
    obtain worked w2 where w2: "run_state (refresh out repo r) w1 = (worked, w2)" by fastforce
    have kept: "n_followers w2 = n_followers w"
      using loops_run[OF loops_primitives(1) w1] loops_run[OF loops_refresh w2] by simp
    obtain again f where f: "wantAgain vid r (lo_follower lo) = (again, f)" by fastforce
    obtain lo' p' where lo': "loop_step demandMin (Fetched vid r worked) lo = Some lo'" "lo_pass lo' = Some p'"
      "pa_wanted p' = wanted" "pa_left p' = remove1 entry (pa_left p)"
      "pa_failed p' = (pa_failed p \<or> \<not> worked \<and> map_of wanted vid \<noteq> None \<and> again)"
      "lo_follower lo' = (if \<not> worked \<and> map_of wanted vid \<noteq> None then f else lo_follower lo)"
      using assms(2-4)
      by (cases "\<not> worked \<and> map_of wanted vid \<noteq> None") (force simp: entry loop_step_def end_fetch_def Let_def f)+
    have "failed = (\<not> worked \<and> map_of wanted vid \<noteq> None \<and> again) \<and>
        map_of (n_followers w') (r_name repo) = Some (lo_follower lo')"
    proof (cases "worked \<or> map_of wanted vid = None")
      case True
      have "n_followers w' = n_followers w2"
        using assms(5) False w1 w2 True
        by (auto simp: tick_one_def entry volume_at_def change_volume_def split: if_splits)
      moreover have "\<not> failed" using assms(5) False w1 w2 True
        by (auto simp: tick_one_def entry volume_at_def change_volume_def split: if_splits)
      ultimately show ?thesis using True kept assms(1) lo'(6) by auto
    next
      case False
      with assms(5) \<open>\<not> waitsForCredential (w_heap w r)\<close> w1 w2
      have "run_state (on_loop (r_name repo) False (wantAgain vid r)) w2 = (failed, w')"
        by (simp add: tick_one_def entry volume_at_def)
      with on_loop_run[of w2 "r_name repo" "lo_follower lo" "wantAgain vid r" again f False] f kept assms(1) lo'(6) False
      show ?thesis by fastforce
    qed
    with lo' show ?thesis by (intro exI[of _ "Fetched vid r worked"]) (auto simp: entry)
  qed
qed

lemma tick_visits:
  assumes "map_of (n_followers w) (r_name repo) = Some (lo_follower lo)"
    and "lo_pass lo = Some p" and "pa_wanted p = wanted" and "pa_left p = entries"
    and "run_state (traverse_list (tick_one out repo now wanted) entries) w = (failed, w')"
  shows "\<exists>es lo' p'. list_all2 visits es entries \<and> loop_run demandMin es lo = Some lo' \<and> lo_pass lo' = Some p' \<and>
    pa_left p' = [] \<and> pa_failed p' = (pa_failed p \<or> True \<in> set failed) \<and>
    map_of (n_followers w') (r_name repo) = Some (lo_follower lo')"
  using assms
proof (induction entries arbitrary: w lo p failed)
  case Nil
  then show ?case by (intro exI[of _ "[]"]) simp
next
  case (Cons entry entries)
  obtain one w1 where one: "run_state (tick_one out repo now wanted entry) w = (one, w1)" by fastforce
  obtain more where more: "run_state (traverse_list (tick_one out repo now wanted) entries) w1 = (more, w')"
    and failed: "failed = one # more"
    using Cons.prems(5) one by (auto split: prod.splits)
  obtain e lo1 p1 where e: "visits e entry" "loop_step demandMin e lo = Some lo1" "lo_pass lo1 = Some p1"
    "pa_wanted p1 = wanted" "pa_left p1 = entries" "pa_failed p1 = (pa_failed p \<or> one)"
    "map_of (n_followers w1) (r_name repo) = Some (lo_follower lo1)"
    using tick_one_visits[OF Cons.prems(1-3) _ one, of demandMin] Cons.prems(4) by auto
  from Cons.IH[OF e(7,3,4,5) more] obtain es lo' p' where es: "list_all2 visits es entries"
    "loop_run demandMin es lo1 = Some lo'" "lo_pass lo' = Some p'" "pa_left p' = []"
    "pa_failed p' = (pa_failed p1 \<or> True \<in> set more)" "map_of (n_followers w') (r_name repo) = Some (lo_follower lo')"
    by blast
  with e show ?case by (intro exI[of _ "e # es"]) (auto simp: failed)
qed

text \<open>
  Property C35. A pass of the code is a pass of the loop. Run without interruption on any world, \<open>tick\<close>
  does to the loop's record what the loop's steps do: the start of a pass at the clock's time, one step
  for each volume in order, and it answers whether a demanded fetch failed, which is what the settle
  reads.
\<close>

theorem tick_runs_a_pass:
  assumes "map_of (n_followers w) (r_name repo) = Some (lo_follower lo)"
    and "run_state (tick out repo) w = (failed, w')"
  shows "\<exists>es lo' p'. list_all2 visits es (fl_volumes (lo_follower lo)) \<and>
    loop_run demandMin es (start_pass (o_clock out (w_calls w)) lo) = Some lo' \<and> lo_pass lo' = Some p' \<and>
    pa_left p' = [] \<and> pa_failed p' = failed \<and> map_of (n_followers w') (r_name repo) = Some (lo_follower lo')"
proof -
  let ?now = "o_clock out (w_calls w)"
  let ?f = "snd (answered ?now (lo_follower lo))"
  let ?wanted = "fl_wanted (lo_follower lo)"
  obtain w1 where w1: "run_state (time_now out) w = (?now, w1)" "n_followers w1 = n_followers w"
    by (simp add: time_now_def)
  obtain w2 where w2: "run_state (on_loop (r_name repo) [] (answered ?now)) w1 = (?wanted, w2)"
      "map_of (n_followers w2) (r_name repo) = Some ?f"
    using on_loop_run[of w1 "r_name repo" "lo_follower lo" "answered ?now"] w1(2) assms(1)
    by (metis answered_def prod.collapse snd_conv)
  obtain flags where run: "run_state (traverse_list (tick_one out repo ?now ?wanted) (fl_volumes ?f)) w2 = (flags, w')"
      and failed: "failed = (True \<in> set flags)"
    using assms(2) w1(1) w2 by (auto simp: tick_def loop_at_def split: prod.splits)
  have start: "lo_follower (start_pass ?now lo) = ?f"
    "lo_pass (start_pass ?now lo) = Some \<lparr>pa_left = fl_volumes ?f, pa_wanted = ?wanted, pa_failed = False\<rparr>"
    by (simp_all add: start_pass_def answered_def)
  from tick_visits[of w2 repo "start_pass ?now lo", OF _ start(2) _ _ run] w2(2) start(1) failed
  show ?thesis by (simp add: answered_def)
qed

theorem tick_runs_a_pass_witness:
  "\<exists>es lo' p'. list_all2 visits es [(''v'', 0)] \<and> loop_run 1 es (start_pass 0 sample_demanded) = Some lo' \<and>
    lo_pass lo' = Some p' \<and> pa_failed p' = False"
proof -
  let ?w = "(world_of [] ((zero_volume ''v'' defaultAttributes readOnlyClaim [''v''])\<lparr>v_credentialLost := True\<rparr>))
    \<lparr>n_followers := [(''sum'', lo_follower sample_demanded)]\<rparr>"
  let ?repo = "\<lparr>r_url = ''u'', r_name = ''sum'', r_dir = [''sum'']\<rparr>"
  let ?out = "still_outside (output_of ''c'') None"
  have "fst (run_state (tick ?out ?repo) ?w) = False" by code_simp
  moreover have "map_of (n_followers ?w) (r_name ?repo) = Some (lo_follower sample_demanded)" by simp
  ultimately show ?thesis
    using tick_runs_a_pass[of ?w ?repo sample_demanded ?out False _ 1]
    by (auto simp: still_outside_def world_of_def sample_demanded_def prod_eq_iff)
qed

subsection \<open>A demand during a stage\<close>

text \<open>
  A demand that is read while its volume is being staged is not lost: reading it changes
  nothing but the record of the last demand, and once the stage added the volume, whatever else the
  stage did, the stage's own read acts on it as the watch would have. Deleting the PersistentVolume
  drops the record, and then the stage acts on nothing.
\<close>

theorem a_demand_waits_for_the_stage:
  assumes "demand_of out held = Some (handle, at)" and "map_of (n_staged w) handle = None"
    and "n_seen staged = n_seen (snd (run_state (read out held) w))"
  shows "snd (run_state (read out held) w) = w\<lparr>n_seen := set_entry handle at (n_seen w)\<rparr> \<and>
    run_state (arrived out handle) staged = run_state (actOn out handle at) staged \<and>
    run_state (arrived out handle) (snd (run_state (forget held) staged)) = ((), snd (run_state (forget held) staged))"
proof -
  have read: "snd (run_state (read out held) w) = w\<lparr>n_seen := set_entry handle at (n_seen w)\<rparr>"
    using assms(1,2) by (simp add: read_def actOn_def stagedVolume_def)
  obtain source where source: "pv_csi held = Some source" "src_handle source = handle"
    using assms(1) by (auto simp: demand_of_def Let_def split: option.splits if_splits)
  have "map_of (n_seen staged) handle = Some at" using assms(3) read by (simp add: set_entry_def)
  moreover have "map_of (delete_entry handle (n_seen staged)) handle = None"
    by (auto simp: delete_entry_def map_of_eq_None_iff)
  ultimately show ?thesis using read source by (simp add: arrived_def forget_def)
qed

definition sample_demand :: persistentVolume where
  "sample_demand = \<lparr>pv_name = ''pv'', pv_csi = Some \<lparr>src_driver = driverName, src_handle = ''v'', src_attributes = []\<rparr>,
     pv_claimRef = None, pv_accessModes = [], pv_phase = VolumeBound, pv_annotations = [(demandAnnotation, ''t'')]\<rparr>"

theorem a_demand_waits_for_the_stage_witness:
  "n_seen (snd (run_state (read (still_outside (output_of ''c'') None) sample_demand)
     (world_of [] (zero_volume ''v'' defaultAttributes readOnlyClaim [''v''])))) = [(''v'', 1)]"
proof -
  let ?out = "still_outside (output_of ''c'') None"
  let ?w = "world_of [] (zero_volume ''v'' defaultAttributes readOnlyClaim [''v''])"
  have "demand_of ?out sample_demand = Some (''v'', 1)" by code_simp
  then show ?thesis
    using a_demand_waits_for_the_stage[of ?out sample_demand "''v''" 1 ?w "snd (run_state (read ?out sample_demand) ?w)"]
    by (simp add: world_of_def set_entry_def)
qed

end
