(* ===== verification/Mounts.thy ===== *)
theory Mounts
  imports World
begin

section \<open>Mounts (\<open>mount.go\<close>, and the mount table of \<open>records.go\<close>)\<close>

text \<open>
  The kernel's mounts are a list of targets, the newest first, each with whether a pod may write
  through it: a bind puts one on, a remount takes the writes from the newest one of its target, and an
  unmount takes the newest one of its target off. The kernel may refuse any call, and it answers EINVAL
  itself where no mount is there to change.
\<close>

fun remounted :: "string \<Rightarrow> (string \<times> bool) list \<Rightarrow> (string \<times> bool) list" where
  "remounted target [] = []"
| "remounted target ((t, writes) # rest) =
     (if t = target then (t, False) # rest else (t, writes) # remounted target rest)"

fun unmounted :: "string \<Rightarrow> (string \<times> bool) list \<Rightarrow> (string \<times> bool) list" where
  "unmounted target [] = []"
| "unmounted target ((t, writes) # rest) = (if t = target then rest else (t, writes) # unmounted target rest)"

definition is_mounted :: "string \<Rightarrow> (string \<times> bool) list \<Rightarrow> bool" where
  "is_mounted target mounts = (target \<in> fst ` set mounts)"

fun kernel_mounts :: "mountCall \<Rightarrow> (string \<times> bool) list \<Rightarrow> mountError + (string \<times> bool) list" where
  "kernel_mounts (Mount source target) mounts = Inr ((target, True) # mounts)"
| "kernel_mounts (Remount source target) mounts =
     (if is_mounted target mounts then Inr (remounted target mounts) else Inl EINVAL)"
| "kernel_mounts (Unmount target) mounts =
     (if is_mounted target mounts then Inr (unmounted target mounts) else Inl EINVAL)"

definition mount_call :: "'g outside \<Rightarrow> mountCall \<Rightarrow> ('g, mountError option) io" where
  "mount_call out call = State (\<lambda>w.
     let w' = w\<lparr>w_calls := Suc (w_calls w)\<rparr>
     in case o_mount out (w_calls w) call of Some err \<Rightarrow> (Some err, w')
        | None \<Rightarrow> (case kernel_mounts call (w_mounts w) of
            Inl err \<Rightarrow> (Some err, w')
          | Inr mounts \<Rightarrow> (None, w'\<lparr>w_mounts := mounts\<rparr>)))"

fun mount_reason :: "mountError \<Rightarrow> string" where
  "mount_reason EINVAL = ''invalid argument''"
| "mount_reason ENOENT = ''no such file or directory''"
| "mount_reason (OtherError reason) = reason"

definition bindReadOnly :: "'g outside \<Rightarrow> path \<Rightarrow> string \<Rightarrow> ('g, string option) io" where
  "bindReadOnly out source target = do {
     let from = show_path source;
     bound \<leftarrow> mount_call out (Mount from target);
     case bound of Some err \<Rightarrow> return (Some (''bind '' @ from @ '' onto '' @ target @ '': '' @ mount_reason err))
     | None \<Rightarrow> do {
     sealed \<leftarrow> mount_call out (Remount from target);
     case sealed of None \<Rightarrow> return None
     | Some err \<Rightarrow> do {
         _ \<leftarrow> mount_call out (Unmount target);
         return (Some (''remount '' @ target @ '' read-only: '' @ mount_reason err))
       } } }"

definition unbind :: "'g outside \<Rightarrow> string \<Rightarrow> ('g, string option) io" where
  "unbind out target = do {
     answer \<leftarrow> mount_call out (Unmount target);
     return (case answer of
         None \<Rightarrow> None
       | Some err \<Rightarrow> if err = EINVAL \<or> err = ENOENT then None
                     else Some (''unmount '' @ target @ '': '' @ mount_reason err))
   }"

definition bindReadWrite :: "'g outside \<Rightarrow> path \<Rightarrow> string \<Rightarrow> ('g, string option) io" where
  "bindReadWrite out source target = do {
     let from = show_path source;
     bound \<leftarrow> mount_call out (Mount from target);
     return (case bound of None \<Rightarrow> None
       | Some err \<Rightarrow> Some (''bind '' @ from @ '' onto '' @ target @ '': '' @ mount_reason err))
   }"

text \<open>The kernel refused to detach a target, between two states and up to a state. The mount may stand after it.\<close>

definition held_fast :: "'g outside \<Rightarrow> 'g world \<Rightarrow> 'g world \<Rightarrow> string \<Rightarrow> bool" where
  "held_fast out w w' target \<longleftrightarrow> (\<exists>n. w_calls w \<le> n \<and> n < w_calls w' \<and> o_mount out n (Unmount target) \<noteq> None)"

definition stuck :: "'g outside \<Rightarrow> 'g world \<Rightarrow> string \<Rightarrow> bool" where
  "stuck out w target \<longleftrightarrow> (\<exists>n < w_calls w. o_mount out n (Unmount target) \<noteq> None)"

lemma held_stuck: "held_fast out w w' target \<Longrightarrow> stuck out w' target"
  by (auto simp: held_fast_def stuck_def)

lemma stuck_later: "stuck out w target \<Longrightarrow> w_calls w \<le> w_calls w' \<Longrightarrow> stuck out w' target"
  unfolding stuck_def by (meson less_le_trans)

text \<open>A mount call changes the mounts and nothing else.\<close>

definition only_mounts :: "'g world \<Rightarrow> 'g world \<Rightarrow> bool" where
  "only_mounts w w' \<longleftrightarrow> w' = w\<lparr>w_mounts := w_mounts w', w_calls := w_calls w'\<rparr>"

lemma only_mounts_change: "only_mounts w (w\<lparr>w_calls := n, w_mounts := ms\<rparr>)" "only_mounts w (w\<lparr>w_calls := n\<rparr>)"
  by (simp_all add: only_mounts_def)

interpretation only_mounts: step_bound only_mounts
proof
  show "only_mounts w w" for w :: "'g world" by (simp add: only_mounts_def)
  show "only_mounts w v" if "only_mounts w u" "only_mounts u v" for w u v :: "'g world"
    using that by (cases w, cases u, cases v) (simp add: only_mounts_def)
qed

lemma only_mounts_call: "state_io_rel only_mounts (mount_call out call)"
  by (auto simp: state_io_rel_def mount_call_def Let_def only_mounts_change split: option.splits sum.splits)

lemma only_mounts_ops:
  "state_io_rel only_mounts (bindReadOnly out source target)"
  "state_io_rel only_mounts (unbind out target)"
  "state_io_rel only_mounts (bindReadWrite out source target)"
  unfolding bindReadOnly_def unbind_def bindReadWrite_def
  by (intro only_mounts.bounds only_mounts_call)+

text \<open>
  What each operation leaves of the mounts, whichever of its calls the kernel refuses. Binding read-only adds one mount no pod can
  write through or leaves the mounts as they were, but for the one it could neither seal nor detach; binding read-write
  adds one mount or none; and detaching a target takes one mount of it and no other, or the kernel refused it.
\<close>

lemma mounts_after:
  "run_state (bindReadOnly out source target) w = (x, w') \<Longrightarrow> w_calls w \<le> w_calls w' \<and>
     (w_mounts w' = (if x = None then (target, False) # w_mounts w else w_mounts w) \<or>
      x \<noteq> None \<and> w_mounts w' = (target, True) # w_mounts w \<and> held_fast out w w' target)"
  "run_state (bindReadWrite out source target) w = (x, w') \<Longrightarrow> w_calls w \<le> w_calls w' \<and>
     w_mounts w' = (if x = None then (target, True) # w_mounts w else w_mounts w)"
  "run_state (unbind out target) w = (x, w') \<Longrightarrow> w_calls w \<le> w_calls w' \<and>
     (w_mounts w' = (if is_mounted target (w_mounts w) then unmounted target (w_mounts w) else w_mounts w) \<or>
      w_mounts w' = w_mounts w \<and> held_fast out w w' target)"
  by (auto simp: bindReadOnly_def bindReadWrite_def unbind_def mount_call_def is_mounted_def held_fast_def Let_def
      split: option.splits if_splits) (rule exI[of _ "Suc (Suc (w_calls w))"], simp)

subsection \<open>The mount table\<close>

text \<open>
  The kernel's table has one line per mount, and the fifth field of a line is the mount point with four
  characters written as octal escapes. Go's scanner ends at a line longer than its buffer of 64 KiB.
\<close>

definition backslash :: char where "backslash = CHR 0x5C"

definition escape_of :: "char \<Rightarrow> string" where
  "escape_of c = (if c = CHR '' '' then ''040'' else if c = CHR 0x09 then ''011''
     else if c = newline then ''012'' else ''134'')"

definition escaped_chars :: "char list" where
  "escaped_chars = [CHR '' '', CHR 0x09, newline, backslash]"

text \<open>\<open>mountEscapes.Replace\<close>: from the left, the first escape that is there, or the character itself.\<close>

function mountEscapes :: "string \<Rightarrow> string" where
  "mountEscapes s =
     (case s of [] \<Rightarrow> []
      | c # rest \<Rightarrow>
          (case List.find (\<lambda>e. c = backslash \<and> prefix (escape_of e) rest) escaped_chars of
             Some e \<Rightarrow> e # mountEscapes (drop 3 rest)
           | None \<Rightarrow> c # mountEscapes rest))"
  by pat_completeness auto
termination by (relation "measure length") auto

declare mountEscapes.simps [simp del]

definition scan_limit :: nat where "scan_limit = 65536"

definition strip_cr :: "string \<Rightarrow> string" where
  "strip_cr line = (if line \<noteq> [] \<and> last line = CHR 0x0D then butlast line else line)"

definition scan_lines :: "string \<Rightarrow> string list" where
  "scan_lines text =
     (let lines = split newline text;
          lines = (if last lines = [] then butlast lines else lines)
      in map strip_cr (takeWhile (\<lambda>line. length line < scan_limit) lines))"

definition mountedIn :: "string \<Rightarrow> string \<Rightarrow> bool" where
  "mountedIn table p = list_ex (\<lambda>line. let found = Prelude.fields line in
     4 < length found \<and> mountEscapes (found ! 4) = p) (scan_lines table)"

definition mountedNow :: "'g outside \<Rightarrow> string \<Rightarrow> ('g, bool) io" where
  "mountedNow out p = State (\<lambda>w.
     (case o_mountinfo out (w_calls w) of None \<Rightarrow> False | Some table \<Rightarrow> mountedIn table p,
      w\<lparr>w_calls := Suc (w_calls w)\<rparr>))"

text \<open>How the kernel writes a line.\<close>

definition escape_char :: "char \<Rightarrow> string" where
  "escape_char c = (if c \<in> set escaped_chars then backslash # escape_of c else [c])"

definition mangle :: "string \<Rightarrow> string" where
  "mangle p = concat (map escape_char p)"

record mountLine =
  ml_before :: "string list"
  ml_point :: string
  ml_rest :: "string list"

definition show_mount :: "mountLine \<Rightarrow> string" where
  "show_mount m = join '' '' (ml_before m @ [mangle (ml_point m)] @ ml_rest m)"

definition word_ok :: "string \<Rightarrow> bool" where
  "word_ok s \<longleftrightarrow> s \<noteq> [] \<and> no_space s"

definition mount_ok :: "mountLine \<Rightarrow> bool" where
  "mount_ok m \<longleftrightarrow> length (ml_before m) = 4 \<and> list_all word_ok (ml_before m @ ml_rest m) \<and> ml_point m \<noteq> [] \<and>
     list_all (\<lambda>c. c \<notin> {CHR 0x0B, CHR 0x0C, CHR 0x0D}) (ml_point m) \<and>
     list_all (\<lambda>u. \<not> sublist u (ml_point m)) wide_spaces \<and> length (show_mount m) < scan_limit"

lemma escape_shape: "c \<in> set escaped_chars \<Longrightarrow> length (escape_of c) = 3 \<and> list_all (\<lambda>x. \<not> is_space x) (escape_of c)"
  by (auto simp: escaped_chars_def escape_of_def is_space_def backslash_def)

lemma find_escape:
  "c \<in> set escaped_chars \<Longrightarrow> List.find (\<lambda>e. prefix (escape_of e) (escape_of c @ s)) escaped_chars = Some c"
  by (auto simp: escaped_chars_def escape_of_def backslash_def)

lemma mountEscapes_mangle: "mountEscapes (mangle p) = p"
proof (induction p)
  case Nil
  then show ?case by (simp add: mangle_def mountEscapes.simps)
next
  case (Cons c p)
  show ?case
  proof (cases "c \<in> set escaped_chars")
    case True
    then have "mangle (c # p) = backslash # escape_of c @ mangle p" by (simp add: mangle_def escape_char_def)
    with Cons find_escape[OF True] escape_shape[OF True] show ?thesis
      by (simp add: mountEscapes.simps[of "backslash # s" for s])
  next
    case False
    then have "mangle (c # p) = c # mangle p" and "c \<noteq> backslash"
      by (auto simp: mangle_def escape_char_def escaped_chars_def)
    moreover have "List.find (\<lambda>e. False) escaped_chars = None" by (simp add: find_None_iff)
    ultimately show ?thesis using Cons by (simp add: mountEscapes.simps[of "c # s" for s])
  qed
qed

lemma mangle_Cons: "mangle (c # p) = escape_char c @ mangle p"
  by (simp add: mangle_def)

lemma escape_char_low:
  "escape_char c = [c] \<or> list_all (\<lambda>x. of_char x < (128 :: nat)) (escape_char c)"
  by (auto simp: escape_char_def escaped_chars_def escape_of_def backslash_def)

lemma mangle_prefix: "list_all (\<lambda>x. (128 :: nat) \<le> of_char x) u \<Longrightarrow> prefix u (mangle p) \<Longrightarrow> prefix u p"
proof (induction p arbitrary: u)
  case Nil
  then show ?case by (simp add: mangle_def)
next
  case (Cons c p)
  show ?case
  proof (cases u)
    case (Cons x v)
    have "escape_char c \<noteq> []" by (simp add: escape_char_def)
    then obtain e es where e: "escape_char c = e # es" by (cases "escape_char c") auto
    have "x = e" and high: "(128 :: nat) \<le> of_char x" using Cons.prems Cons by (simp_all add: mangle_Cons e)
    then have "escape_char c = [c]" using escape_char_low[of c] e by auto
    with Cons.prems Cons Cons.IH[of v] show ?thesis by (simp add: mangle_Cons)
  qed simp
qed

lemma mangle_sublist:
  "u \<noteq> [] \<Longrightarrow> list_all (\<lambda>x. (128 :: nat) \<le> of_char x) u \<Longrightarrow> sublist u (mangle p) \<Longrightarrow> sublist u p"
proof (induction p)
  case Nil
  then show ?case by (simp add: mangle_def)
next
  case (Cons c p)
  have skip: "sublist u (xs @ ys) \<Longrightarrow> sublist u ys" if "list_all (\<lambda>x. of_char x < (128 :: nat)) xs" for xs ys
    using that Cons.prems(1,2)
  proof (induction xs)
    case (Cons x xs)
    then show ?case by (cases u) (auto simp: sublist_Cons_right)
  qed simp
  from escape_char_low[of c] show ?case
  proof
    assume one: "escape_char c = [c]"
    from Cons.prems(3) have "prefix u (mangle (c # p)) \<or> sublist u (mangle p)"
      by (simp add: mangle_Cons one sublist_Cons_right)
    then show ?thesis
      using mangle_prefix[OF Cons.prems(2), of "c # p"] Cons.IH[OF Cons.prems(1,2)] by (auto simp: sublist_Cons_right)
  next
    assume "list_all (\<lambda>x. of_char x < (128 :: nat)) (escape_char c)"
    from skip[OF this] Cons.prems(3) Cons.IH[OF Cons.prems(1,2)] show ?thesis
      by (simp add: mangle_Cons sublist_Cons_right)
  qed
qed

lemma mangle_word:
  assumes "p \<noteq> []" and "list_all (\<lambda>c. c \<notin> {CHR 0x0B, CHR 0x0C, CHR 0x0D}) p"
    and "list_all (\<lambda>u. \<not> sublist u p) wide_spaces"
  shows "word_ok (mangle p)"
proof -
  have "list_all (\<lambda>x. \<not> is_space x) (escape_char c)" if "c \<notin> {CHR 0x0B, CHR 0x0C, CHR 0x0D}" for c
    using that escape_shape[of c]
    by (auto simp: escape_char_def escaped_chars_def is_space_def backslash_def)
  with assms(2) have "list_all (\<lambda>x. \<not> is_space x) (mangle p)"
    by (induction p) (auto simp: mangle_def list_all_append)
  moreover have "\<not> sublist u (mangle p)" if u: "u \<in> set wide_spaces" for u
    using mangle_sublist[of u p] wide_chars[OF u] assms(3) u by (auto simp: list_all_iff)
  moreover from assms(1) have "mangle p \<noteq> []" by (cases p) (simp_all add: mangle_def escape_char_def)
  ultimately show ?thesis by (simp add: word_ok_def no_space_def list_all_iff)
qed

lemma fields_join: "list_all word_ok ws \<Longrightarrow> Prelude.fields (join '' '' ws) = ws"
proof (induction ws rule: induct_list012)
  case (2 w)
  then show ?case using fields_word[of w "[]"] by (simp add: word_ok_def)
next
  case (3 w v ws)
  have "is_space (CHR '' '')" by (simp add: is_space_def)
  with 3 fields_word[of w "CHR '' '' # join '' '' (v # ws)"] show ?case by (simp add: fields_space word_ok_def)
qed simp

lemma join_chars: "list_all word_ok ws \<Longrightarrow> c \<in> set (join '' '' ws) \<Longrightarrow> c = CHR '' '' \<or> \<not> is_space c"
  by (induction ws rule: induct_list012) (auto simp: word_ok_def no_space_def list_all_iff)

lemma last_join: "list_all word_ok ws \<Longrightarrow> ws \<noteq> [] \<Longrightarrow> join '' '' ws \<noteq> [] \<and> last (join '' '' ws) = last (last ws)"
  by (induction ws rule: induct_list012) (auto simp: word_ok_def)

lemma split_lines: "list_all (\<lambda>l. newline \<notin> set l) ls \<Longrightarrow> split newline (concat (map (\<lambda>l. l @ [newline]) ls)) = ls @ [[]]"
  by (induction ls) (auto simp: split_append_sep)

lemma show_mount_words:
  assumes "mount_ok m"
  shows "list_all word_ok (ml_before m @ [mangle (ml_point m)] @ ml_rest m)"
  using assms mangle_word[of "ml_point m"] by (auto simp: mount_ok_def)

lemma show_mount_line:
  assumes "mount_ok m"
  shows "newline \<notin> set (show_mount m) \<and> strip_cr (show_mount m) = show_mount m \<and>
    Prelude.fields (show_mount m) ! 4 = mangle (ml_point m) \<and> 4 < length (Prelude.fields (show_mount m))"
proof -
  note words = show_mount_words[OF assms]
  let ?ws = "ml_before m @ [mangle (ml_point m)] @ ml_rest m"
  have "newline \<notin> set (show_mount m)"
    using join_chars[OF words, of newline] by (auto simp: show_mount_def is_space_def)
  moreover have "last ?ws \<in> set ?ws" by (rule last_in_set) simp
  then have "word_ok (last ?ws)" using words by (simp only: list_all_iff)
  then have "\<not> is_space (last (last ?ws))" by (simp add: word_ok_def no_space_def list_all_iff)
  then have "strip_cr (show_mount m) = show_mount m"
    using last_join[OF words] by (auto simp: strip_cr_def show_mount_def is_space_def)
  moreover have "Prelude.fields (show_mount m) = ?ws" unfolding show_mount_def by (rule fields_join[OF words])
  ultimately show ?thesis using assms by (simp add: mount_ok_def nth_append)
qed

text \<open>
  Property C36. The mount table reads back: for a table as the kernel writes it, in lines under the
  scanner's 64 KiB, whose mount points hold no white space but the space, the tab and the newline, which
  the kernel escapes, a path is taken for mounted exactly when a line of the table names it. A mount
  point with a vertical tab, a form feed, a carriage return or a wide space of Unicode is outside the
  claim: \<open>strings.Fields\<close> splits it.
\<close>

theorem mount_table_reads_back:
  assumes "list_all mount_ok table"
  shows "mountedIn (concat (map (\<lambda>m. show_mount m @ [newline]) table)) p \<longleftrightarrow> p \<in> ml_point ` set table"
proof -
  have lines: "split newline (concat (map (\<lambda>m. show_mount m @ [newline]) table)) = map show_mount table @ [[]]"
    using split_lines[of "map show_mount table"] assms show_mount_line by (simp add: list_all_iff comp_def)
  have "list_all (\<lambda>l. length l < scan_limit) (map show_mount table)"
    using assms by (simp add: list_all_iff mount_ok_def)
  then have "takeWhile (\<lambda>l. length l < scan_limit) (map show_mount table) = map show_mount table"
    by (simp add: list_all_iff takeWhile_eq_all_conv)
  moreover have "map strip_cr (map show_mount table) = map show_mount table"
    using assms show_mount_line by (simp add: list_all_iff)
  ultimately have "scan_lines (concat (map (\<lambda>m. show_mount m @ [newline]) table)) = map show_mount table"
    by (simp only: scan_lines_def lines Let_def last_snoc butlast_snoc if_True simp_thms)
  then show ?thesis
    using assms show_mount_line
    by (auto simp: mountedIn_def list_ex_iff list_all_iff mountEscapes_mangle Let_def)
qed

theorem mount_table_reads_back_witness:
  "mountedIn (show_mount \<lparr>ml_before = [''1'', ''2'', ''0:1'', ''/''], ml_point = ''/a b'', ml_rest = [''rw'']\<rparr> @ [newline]) ''/a b''"
  using mount_table_reads_back[of "[\<lparr>ml_before = [''1'', ''2'', ''0:1'', ''/''], ml_point = ''/a b'', ml_rest = [''rw'']\<rparr>]" "''/a b''"]
  by (simp add: mount_ok_def word_ok_def no_space_def ascii_no_wide is_space_def show_mount_def mangle_def escape_char_def escaped_chars_def
      escape_of_def scan_limit_def backslash_def)

end
