(* ===== verification/Watch.thy ===== *)
theory Watch
  imports Follower "HOL-Library.Word"
begin

section \<open>The watch on a work tree, and arming (\<open>watch.go\<close>, \<open>arming.go\<close>)\<close>

text \<open>
  Each published writeable volume has a watch: the kernel's events restart a timer, and when the tree
  has rested for the quiesce the driver commits and pushes what the class allows. The class comes from
  the volume's claim, which another loop reads.
\<close>

definition defaultSweep :: duration where "defaultSweep = minute"

subsection \<open>The kernel's events\<close>

text \<open>
  inotify fills a buffer with events: a descriptor, a mask, a cookie and a length, each 32 bits in the
  machine's order (little endian on the platforms the driver is built for), then a name padded with
  zero bytes. Reading one whose name runs past the buffer would panic; \<open>None\<close> is that panic.
\<close>

definition IN_CREATE :: "32 word" where "IN_CREATE = 0x100"
definition IN_ISDIR :: "32 word" where "IN_ISDIR = 0x40000000"
definition event_header :: nat where "event_header = 16"

definition byte :: "char \<Rightarrow> nat" where "byte c = of_char c"

definition uint32_at :: "string \<Rightarrow> nat \<Rightarrow> 32 word" where
  "uint32_at buffer offset =
     of_nat (foldr (\<lambda>c n. byte c + 256 * n) (take 4 (drop offset buffer)) 0)"

definition trimZeros :: "string \<Rightarrow> string" where
  "trimZeros name = rev (dropWhile (\<lambda>c. c = CHR 0x00) (rev name))"

text \<open>\<open>filepath.Join\<close> of two strings, which leaves an empty one out.\<close>

definition join_names :: "string \<Rightarrow> string \<Rightarrow> string" where
  "join_names a b =
     (if a = [] \<and> b = [] then [] else if a = [] then clean b else if b = [] then clean a else clean (a @ ''/'' @ b))"

definition arrival_of :: "(int \<times> string) list \<Rightarrow> int \<Rightarrow> 32 word \<Rightarrow> string \<Rightarrow> string" where
  "arrival_of watched descriptor bits name =
     (if and bits IN_CREATE \<noteq> 0 \<and> and bits IN_ISDIR \<noteq> 0
      then join_names (case map_of watched descriptor of None \<Rightarrow> [] | Some dir \<Rightarrow> dir) name
      else [])"

function (sequential) events_from :: "(int \<times> string) list \<Rightarrow> string \<Rightarrow> string list option" where
  "events_from watched buffer =
     (if length buffer < event_header then Some []
      else let descriptor = sint (uint32_at buffer 0); bits = uint32_at buffer 4;
               len = unat (uint32_at buffer 12);
               name = trimZeros (take len (drop event_header buffer))
           in if length buffer < event_header + len then None
              else map_option (Cons (arrival_of watched descriptor bits name))
                (events_from watched (drop (event_header + len) buffer)))"
  by pat_completeness auto
termination by (relation "measure (length \<circ> snd)") (auto simp: event_header_def)

declare events_from.simps [simp del]

text \<open>One entry per event: the directory the pod created, or the empty string.\<close>

definition events :: "(int \<times> string) list \<Rightarrow> string \<Rightarrow> string list option" where
  "events watched buffer = events_from watched buffer"

subsection \<open>Starting and ending a watch\<close>

definition watch :: "'g outside \<Rightarrow> nat \<Rightarrow> ('g, unit) io" where
  "watch out r = do {
     published \<leftarrow> volume_at r;
     if \<not> writeable published then return ()
     else do {
       now \<leftarrow> time_now out;
       modify (\<lambda>w. w\<lparr>n_watchers := set_entry (v_id published)
         \<lparr>wt_volume = r, wt_quiesce = o_quiesce out, wt_written = now,
          wt_changes = False, wt_arrived = False, wt_classed = False\<rparr> (n_watchers w)\<rparr>)
     }
   }"

definition unwatch :: "nat \<Rightarrow> ('g, unit) io" where
  "unwatch r = do {
     published \<leftarrow> volume_at r;
     modify (\<lambda>w. w\<lparr>n_watchers := delete_entry (v_id published) (n_watchers w)\<rparr>)
   }"

definition watcher_nudge :: "time \<Rightarrow> watcher \<Rightarrow> watcher" where
  "watcher_nudge now seeing = seeing\<lparr>wt_written := now, wt_changes := True\<rparr>"

definition quietFor :: "time \<Rightarrow> watcher \<Rightarrow> duration" where
  "quietFor now seeing = now - wt_written seeing"

definition rest :: "policy option \<Rightarrow> watcher \<Rightarrow> duration" where
  "rest rules seeing = (case rules of Some rules \<Rightarrow> p_quiesce rules | None \<Rightarrow> wt_quiesce seeing)"

definition watcher_classed :: "watcher \<Rightarrow> watcher" where
  "watcher_classed seeing = seeing\<lparr>wt_classed := True\<rparr>"

definition classChanged :: "nat \<Rightarrow> ('g, unit) io" where
  "classChanged r = do {
     staged \<leftarrow> volume_at r;
     on_watcher (v_id staged) r watcher_classed
   }"

subsection \<open>Reading the tree\<close>

definition pendingMessage :: "nat \<Rightarrow> msg" where
  "pendingMessage n = Fmt ''%d paths pending'' [AInt (int n)]"

definition scan :: "'g outside \<Rightarrow> nat \<Rightarrow> watcher \<Rightarrow> ('g, unit) io" where
  "scan out r seeing = do {
     held \<leftarrow> volume_at r;
     let rules = policyNow held;
     now \<leftarrow> time_now out;
     let quiet = quietFor now seeing;
     (case rules of None \<Rightarrow> return ()
      | Some rules \<Rightarrow> if quiet \<ge> p_quiesce rules then Push.commit out r rules else return ());
     answer \<leftarrow> pending out (work_of held);
     case answer of Inl err \<Rightarrow> return () | Inr found \<Rightarrow> do {
       first \<leftarrow> on_volume r (reportPending found);
       (if first then do {
          held \<leftarrow> volume_at r;
          let (claim, _, n) = reading held;
          report_event out r claim Normal reasonPending (pendingMessage n)
        } else return ());
       pushIfDue out r rules quiet;
       record_metrics r;
       noteHealth out r
     }
   }"

definition pushArrived :: "'g outside \<Rightarrow> nat \<Rightarrow> ('g, unit) io" where
  "pushArrived out r = do { push_now_or_report out r; noteHealth out r }"

text \<open>
  One turn of the watch's select: what was taken, and what the quiesce timer is left at, where
  \<open>Keep\<close> leaves it running or stopped as it was.
\<close>

datatype watch_event = Changed | Classed | Rested | Swept | Returned
datatype quiesce_timer = Keep | Set_to duration

definition watch_turn :: "'g outside \<Rightarrow> nat \<Rightarrow> watcher \<Rightarrow> watch_event \<Rightarrow> ('g, quiesce_timer) io" where
  "watch_turn out r seeing event = do {
     held \<leftarrow> volume_at r;
     case event of
       Changed \<Rightarrow> return (Set_to (rest (policyNow held) seeing))
     | Classed \<Rightarrow> do {
         now \<leftarrow> time_now out;
         return (Set_to (max 0 (rest (policyNow held) seeing - quietFor now seeing)))
       }
     | Rested \<Rightarrow> do { scan out r seeing; return Keep }
     | Swept \<Rightarrow> do { scan out r seeing; return Keep }
     | Returned \<Rightarrow> do { pushArrived out r; return Keep }
   }"

subsection \<open>Arming\<close>

definition arm :: "'g outside \<Rightarrow> nat \<Rightarrow> ('g, unit) io" where
  "arm out r =
     (if \<not> o_cluster out then return ()
      else do {
        staged \<leftarrow> volume_at r;
        modify (\<lambda>w. w\<lparr>n_armings := set_entry (v_id staged) r (n_armings w)\<rparr>)
      })"

definition disarm :: "nat \<Rightarrow> ('g, unit) io" where
  "disarm r = do {
     staged \<leftarrow> volume_at r;
     found \<leftarrow> gets (\<lambda>w. map_of (n_armings w) (v_id staged));
     case found of None \<Rightarrow> return ()
     | Some loop \<Rightarrow> do {
         modify (\<lambda>w. w\<lparr>n_armings := delete_entry (v_id staged) (n_armings w)\<rparr>);
         metric_call (Forgotten staged)
       }
   }"

record heldClaim =
  hc_name :: string
  hc_current :: "string option"
  hc_asked :: "string option"

definition className :: "heldClaim \<Rightarrow> string" where
  "className held =
     (case hc_current held of
        Some current \<Rightarrow> if current \<noteq> [] then current
          else (case hc_asked held of Some asked \<Rightarrow> asked | None \<Rightarrow> [])
      | None \<Rightarrow> (case hc_asked held of Some asked \<Rightarrow> asked | None \<Rightarrow> []))"

definition armed ::
    "'g outside \<Rightarrow> nat \<Rightarrow> claimReference \<Rightarrow> string \<Rightarrow> policy option \<Rightarrow> msg \<Rightarrow> ('g, unit) io" where
  "armed out r claim class_name rules invalid = do {
     staged \<leftarrow> volume_at r;
     let before = policyNow staged;
     moved \<leftarrow> on_volume r (reportArmed claim class_name rules invalid);
     (if moved then
        let (reason, message) =
              (if rules \<noteq> None then (reasonArmed, Fmt ''armed by the class %s'' [AStr class_name])
               else if invalid \<noteq> no_msg then (reasonUnarmed, Cat (Plain ''unarmed: '') invalid)
               else (reasonUnarmed, Plain (''unarmed: the claim names no class of '' @ driverName)))
        in report_event out r claim Normal reason message
      else return ());
     (if rules \<noteq> None \<and> (before = None \<or> p_quiesce (the before) \<noteq> p_quiesce (the rules))
      then classChanged r else return ());
     record_metrics r;
     noteHealth out r
   }"

definition get_class :: "'g outside \<Rightarrow> string \<Rightarrow> ('g, string + attributesClass) io" where
  "get_class out name = State (\<lambda>w. (o_class out (w_calls w) name, w\<lparr>w_calls := Suc (w_calls w)\<rparr>))"

text \<open>One read of a copy of the claim; the answer is the error after which it is made again.\<close>

definition read_claim :: "'g outside \<Rightarrow> nat \<Rightarrow> claimReference \<Rightarrow> heldClaim \<Rightarrow> ('g, string option) io" where
  "read_claim out r claim held =
     (if hc_name held \<noteq> cl_name claim then return None
      else let name = className held in
        if name = [] then do { armed out r claim name None no_msg; return None }
        else do {
          answer \<leftarrow> get_class out name;
          case answer of
            Inl err \<Rightarrow> return (Some (''the class '' @ name @ '' was not read: '' @ err))
          | Inr found \<Rightarrow>
              if ac_driver found \<noteq> driverName then do { armed out r claim name None no_msg; return None }
              else do {
                (case parsePolicy (o_quantity out) (ac_parameters found) of
                   Inr rules \<Rightarrow> armed out r claim name (Some rules) no_msg
                 | Inl err \<Rightarrow> armed out r claim name None
                     (Fmt ''the class %s is not valid: %s'' [AStr name, AMsg (status_message err)]));
                return None
              }
        })"

subsection \<open>The kernel's events read back\<close>

text \<open>One event as the kernel writes it: the name is padded with zero bytes to the length.\<close>

record kernelEvent =
  ke_descriptor :: int
  ke_mask :: "32 word"
  ke_cookie :: "32 word"
  ke_name :: string
  ke_padding :: nat

definition bytes_of :: "32 word \<Rightarrow> string" where
  "bytes_of w = map (\<lambda>i. char_of (unat w div 256 ^ i mod 256)) [0..<4]"

definition padded_name :: "kernelEvent \<Rightarrow> string" where
  "padded_name e = ke_name e @ replicate (ke_padding e) (CHR 0x00)"

definition show_event :: "kernelEvent \<Rightarrow> string" where
  "show_event e = bytes_of (of_int (ke_descriptor e)) @ bytes_of (ke_mask e) @ bytes_of (ke_cookie e) @
     bytes_of (of_nat (length (padded_name e))) @ padded_name e"

definition event_ok :: "kernelEvent \<Rightarrow> bool" where
  "event_ok e \<longleftrightarrow> - (2 ^ 31) \<le> ke_descriptor e \<and> ke_descriptor e < 2 ^ 31 \<and>
     length (padded_name e) < 2 ^ 32 \<and> CHR 0x00 \<notin> set (ke_name e)"

lemma bytes_of_length [simp]: "length (bytes_of w) = 4"
  by (simp add: bytes_of_def)

lemma four_bytes:
  fixes n :: nat
  shows "n mod 256 + 256 * (n div 256 mod 256 + 256 * (n div 65536 mod 256 + 256 * (n div 16777216))) = n"
proof -
  have "n div 65536 mod 256 + 256 * (n div 16777216) = n div 65536"
    using mod_mult_div_eq[of "n div 65536" 256] by (simp add: div_mult2_eq[symmetric])
  moreover have "n div 256 mod 256 + 256 * (n div 65536) = n div 256"
    using mod_mult_div_eq[of "n div 256" 256] by (simp add: div_mult2_eq[symmetric])
  moreover have "n mod 256 + 256 * (n div 256) = n" by simp
  ultimately show ?thesis by presburger
qed

lemma uint32_bytes: "uint32_at (bytes_of w @ s) 0 = w"
proof -
  have "unat w < 2 ^ 32" using unsigned_less[of w] by simp
  with four_bytes[of "unat w"] have "foldr (\<lambda>c n. byte c + 256 * n) (bytes_of w) 0 = unat w"
    by (simp add: bytes_of_def upt_rec byte_def)
  then show ?thesis by (simp add: uint32_at_def)
qed

lemma uint32_drop: "uint32_at (pre @ s) (length pre + n) = uint32_at s n"
  by (simp add: uint32_at_def add.commute)

lemma trimZeros_padded: "CHR 0x00 \<notin> set name \<Longrightarrow> trimZeros (name @ replicate n (CHR 0x00)) = name"
proof -
  assume name: "CHR 0x00 \<notin> set name"
  have "dropWhile (\<lambda>c. c = CHR 0x00) (replicate n (CHR 0x00) @ rev name) = rev name"
    using name by (cases "rev name") (auto simp: dropWhile_append)
  then show ?thesis by (simp add: trimZeros_def)
qed

lemma event_fields:
  assumes "event_ok e"
  shows "sint (uint32_at (show_event e @ s) 0) = ke_descriptor e" "uint32_at (show_event e @ s) 4 = ke_mask e"
    "unat (uint32_at (show_event e @ s) 12) = length (padded_name e)"
    "trimZeros (take (length (padded_name e)) (drop event_header (show_event e @ s))) = ke_name e"
    "drop (event_header + length (padded_name e)) (show_event e @ s) = s"
proof -
  let ?d = "bytes_of (of_int (ke_descriptor e))" and ?m = "bytes_of (ke_mask e)" and ?c = "bytes_of (ke_cookie e)"
  let ?l = "bytes_of (of_nat (length (padded_name e)))"
  have "sint (of_int (ke_descriptor e) :: 32 word) = ke_descriptor e"
    using assms by (simp add: event_ok_def signed_of_int signed_take_bit_int_eq_self)
  then show "sint (uint32_at (show_event e @ s) 0) = ke_descriptor e"
    by (simp add: show_event_def uint32_bytes)
  show "uint32_at (show_event e @ s) 4 = ke_mask e"
    using uint32_drop[of ?d _ 0] by (simp add: show_event_def uint32_bytes)
  have "unat (of_nat (length (padded_name e)) :: 32 word) = length (padded_name e)"
    using assms by (simp add: event_ok_def unsigned_of_nat take_bit_nat_eq_self)
  then show "unat (uint32_at (show_event e @ s) 12) = length (padded_name e)"
    using uint32_drop[of "?d @ ?m @ ?c" _ 0] by (simp add: show_event_def uint32_bytes)
  show "trimZeros (take (length (padded_name e)) (drop event_header (show_event e @ s))) = ke_name e"
    using assms by (simp add: show_event_def event_header_def event_ok_def padded_name_def trimZeros_padded)
  show "drop (event_header + length (padded_name e)) (show_event e @ s) = s"
    by (simp add: show_event_def event_header_def)
qed

lemma show_event_length: "length (show_event e) = event_header + length (padded_name e)"
  by (simp add: show_event_def event_header_def)

text \<open>
  A batch of inotify events reads back as the kernel wrote it: for every list of events,
  with any descriptors, masks and padded names, the reader finds one entry per event, in order, with
  the directory the pod created where the event says so, and it never reads past the batch.
\<close>

theorem kernel_events_read_back:
  assumes "list_all event_ok batch"
  shows "events watched (concat (map show_event batch)) =
    Some (map (\<lambda>e. arrival_of watched (ke_descriptor e) (ke_mask e) (ke_name e)) batch)"
  using assms
proof (induction batch)
  case Nil
  then show ?case by (simp add: events_def events_from.simps event_header_def)
next
  case (Cons e batch)
  then show ?case
    using event_fields[of e "concat (map show_event batch)"] show_event_length[of e]
    by (simp add: events_def events_from.simps[of watched "show_event e @ s" for s] Let_def)
qed

theorem kernel_events_read_back_witness:
  "events [(7, ''/t'')] (show_event \<lparr>ke_descriptor = 7, ke_mask = 0x40000100, ke_cookie = 0, ke_name = ''d'', ke_padding = 15\<rparr>) =
    Some [''/t/d'']"
proof -
  have "arrival_of [(7, ''/t'')] 7 0x40000100 ''d'' = ''/t/d''" by code_simp
  with kernel_events_read_back[of "[\<lparr>ke_descriptor = 7, ke_mask = 0x40000100, ke_cookie = 0, ke_name = ''d'', ke_padding = 15\<rparr>]" "[(7, ''/t'')]"]
  show ?thesis by (simp add: event_ok_def padded_name_def)
qed

subsection \<open>What an unarmed or busy tree is spared\<close>

lemmas unstaged_calls = kinds.bounds push_leaves[where K = "- {Stages}", THEN leaf_calls]
  silent_ops(2,3,9)[THEN silent_kinds[where K = "- {Stages}"]]
  silent_noteHealth[THEN silent_kinds[where K = "- {Stages}"]]

lemma push_stages_nothing:
  "state_io_rel (calls_of (- {Stages})) (pushNow out r commits)"
  "state_io_rel (calls_of (- {Stages})) (pushIfDue out r rules quiet)"
proof -
  have diverge: "state_io_rel (calls_of (- {Stages})) (diverge out r)"
    unfolding diverge_def Let_def by (intro unstaged_calls) simp_all
  have healed: "state_io_rel (calls_of (- {Stages})) (healed out r branch)" for branch
    unfolding healed_def by (intro unstaged_calls) simp_all
  have heal: "state_io_rel (calls_of (- {Stages})) (healIfMerged out r branch)" for branch
    unfolding healIfMerged_def healInTree_def by (intro healed unstaged_calls) simp_all
  have attempts: "state_io_rel (calls_of (- {Stages})) (rebase_attempts n out r commits)" for n commits
    by (induction n) (simp_all only: rebase_attempts.simps Let_def, (intro unstaged_calls; simp?)+)
  have send: "state_io_rel (calls_of (- {Stages})) (send_or_rebase out r commits branch head)" for branch head commits
    unfolding send_or_rebase_def rebaseAndRetry_def Let_def by (intro diverge attempts unstaged_calls) simp_all
  have failed: "state_io_rel (calls_of (- {Stages})) (pushFailed out r message)" for message
    unfolding pushFailed_def Let_def by (intro unstaged_calls)
  show push: "state_io_rel (calls_of (- {Stages})) (pushNow out r commits)" for commits
    unfolding pushNow_def Let_def by (intro heal send failed unstaged_calls) simp_all
  have counted: "state_io_rel (calls_of (- {Stages})) (counted out r)"
    unfolding counted_def by (intro unstaged_calls) simp_all
  show "state_io_rel (calls_of (- {Stages})) (pushIfDue out r rules quiet)"
    unfolding pushIfDue_def by (intro counted push unstaged_calls)
qed

definition read_and_push :: "'g outside \<Rightarrow> nat \<Rightarrow> policy option \<Rightarrow> duration \<Rightarrow> ('g, unit) io" where
  "read_and_push out r rules quiet = do {
     held \<leftarrow> volume_at r;
     answer \<leftarrow> pending out (work_of held);
     case answer of Inl err \<Rightarrow> return () | Inr found \<Rightarrow> do {
       first \<leftarrow> on_volume r (reportPending found);
       (if first then do {
          held \<leftarrow> volume_at r;
          let (claim, _, n) = reading held;
          report_event out r claim Normal reasonPending (pendingMessage n)
        } else return ());
       pushIfDue out r rules quiet;
       record_metrics r;
       noteHealth out r
     }
   }"

lemma scan_without_commit:
  assumes "case policyNow (w_heap w r) of None \<Rightarrow> True | Some rules \<Rightarrow> quietFor (o_clock out (w_calls w)) seeing < p_quiesce rules"
  shows "run_state (scan out r seeing) w =
    run_state (read_and_push out r (policyNow (w_heap w r)) (quietFor (o_clock out (w_calls w)) seeing)) (snd (run_state (time_now out) w))"
  using assms by (simp add: scan_def read_and_push_def volume_at_def time_now_def Let_def split: option.splits)

lemma read_and_push_kinds:
  assumes "state_io_rel (calls_of K) (pushIfDue out r rules quiet)" and "Asks \<in> K"
  shows "state_io_rel (calls_of K) (read_and_push out r rules quiet)"
  unfolding read_and_push_def Let_def
  by (intro kinds.bounds assms(1) silent_ops(1-5)[THEN silent_kinds] silent_ops(3)[THEN silent_kinds]
      untouched_ops[THEN untouched_leaf, THEN leaf_calls] silent_noteHealth[THEN silent_kinds]
      work_kinds(3)[THEN leaf_calls]) (simp add: assms(2))

lemma short_quiet_asks:
  assumes "quiet < p_quiesce rules" and "p_maxLatency rules = 0"
  shows "state_io_rel (calls_of {Asks}) (pushIfDue out r (Some rules) quiet)"
proof -
  have never: "\<not> pushDue rules commits oldest now quiet" for commits oldest now
    using assms by (simp add: pushDue_def)
  have count: "state_io_rel (calls_of {Asks}) (counted out r)"
    unfolding counted_def change_volume_def
    by (intro kinds.bounds silent_ops(1)[THEN silent_kinds] work_kinds[THEN leaf_calls])
       (auto simp: state_io_rel_def calls_of_def)
  show ?thesis
    unfolding pushIfDue_def option.case by (simp only: never if_False) (intro kinds.bounds count silent_ops[THEN silent_kinds])
qed

text \<open>
  Property C37. The driver commits a tree only when a class armed its volume and the tree rested for the
  class's quiesce. A reading of an unarmed tree makes no call but questions to the local repository. So does a reading
  before the rest, where the class sets no maximum latency; where it sets one, such a reading stages and
  commits nothing, but may push what is already committed once its oldest commit has waited that long.
\<close>

theorem a_tree_is_committed_after_its_rest:
  assumes "case policyNow (w_heap w r) of None \<Rightarrow> K = {Asks}
    | Some rules \<Rightarrow> quietFor (o_clock out (w_calls w)) seeing < p_quiesce rules \<and>
        K = (if p_maxLatency rules = 0 then {Asks} else - {Stages})"
  shows "calls_of K w (snd (run_state (scan out r seeing) w))"
proof -
  let ?quiet = "quietFor (o_clock out (w_calls w)) seeing"
  have scan: "run_state (scan out r seeing) w =
      run_state (read_and_push out r (policyNow (w_heap w r)) ?quiet) (snd (run_state (time_now out) w))"
    by (rule scan_without_commit) (use assms in \<open>auto split: option.splits\<close>)
  have "state_io_rel (calls_of K) (pushIfDue out r (policyNow (w_heap w r)) ?quiet)"
  proof (cases "policyNow (w_heap w r)")
    case None
    then show ?thesis by (simp add: pushIfDue_def kinds.bound_return)
  next
    case (Some rules)
    with assms show ?thesis
      using push_stages_nothing(2)[of out r "Some rules" ?quiet] short_quiet_asks[of ?quiet rules out r] by auto
  qed
  moreover have "Asks \<in> K" using assms by (cases "policyNow (w_heap w r)") auto
  ultimately have "state_io_rel (calls_of K) (read_and_push out r (policyNow (w_heap w r)) ?quiet)"
    by (rule read_and_push_kinds)
  then have "calls_of K (snd (run_state (time_now out) w)) (snd (run_state (scan out r seeing) w))"
    unfolding scan by (simp add: state_io_rel_def)
  then show ?thesis by (simp add: time_now_def calls_of_def)
qed

theorem a_tree_is_committed_after_its_rest_witness:
  "calls_of {Asks} (world_of [] (zero_volume ''v'' defaultAttributes writeableVolume [''v'']))
     (snd (run_state (scan (still_outside (output_of ''c'') None) 0
        \<lparr>wt_volume = 0, wt_quiesce = 1, wt_written = 0, wt_changes = False, wt_arrived = False, wt_classed = False\<rparr>)
        (world_of [] (zero_volume ''v'' defaultAttributes writeableVolume [''v'']))))"
  by (rule a_tree_is_committed_after_its_rest) (simp add: world_of_def zero_volume_def policyNow_def)

subsection \<open>What arming does\<close>

definition rules_now :: "nat \<Rightarrow> policy option \<Rightarrow> bool \<Rightarrow> string \<Rightarrow> 'g world \<Rightarrow> bool" where
  "rules_now r rules woken vid w \<longleftrightarrow> policyNow (w_heap w r) = rules \<and>
     (woken \<longrightarrow> list_all (\<lambda>seeing. wt_volume seeing = r \<longrightarrow> wt_classed seeing)
       (case map_of (n_watchers w) vid of None \<Rightarrow> [] | Some seeing \<Rightarrow> [seeing]))"

lemma rules_untouched: "state_io_rel untouched m \<Longrightarrow> state_io_rel (inv (rules_now r rules woken vid)) m"
  by (rule inv_from, assumption) (simp add: rules_now_def untouched_def apart_def)

lemma rules_health: "state_io_rel (inv (rules_now r rules woken vid)) (noteHealth out r)"
  by (auto simp: state_io_rel_def inv_def noteHealth_def on_volume_def rules_now_def Let_def time_now_def
      metric_call_def volume_at_def takeHealth_def policyNow_def split: prod.splits)

lemma classChanged_wakes:
  "v_id (w_heap w r) = vid \<Longrightarrow> rules_now r rules False vid w \<Longrightarrow>
   rules_now r rules True vid (snd (run_state (classChanged r) w)) \<and> v_id (w_heap (snd (run_state (classChanged r) w)) r) = vid"
  by (auto simp: classChanged_def on_watcher_def volume_at_def rules_now_def watcher_classed_def set_entry_def
      split: option.splits)

definition wakes_watch :: "volume \<Rightarrow> policy option \<Rightarrow> bool" where
  "wakes_watch before rules \<longleftrightarrow> rules \<noteq> None \<and> (policyNow before = None \<or> p_quiesce (the (policyNow before)) \<noteq> p_quiesce (the rules))"

lemma armed_sets:
  "rules_now r rules (wakes_watch (w_heap w r) rules) (v_id (w_heap w r)) (snd (run_state (armed out r claim name rules invalid) w))"
proof -
  let ?vid = "v_id (w_heap w r)" and ?wakes = "wakes_watch (w_heap w r) rules"
  let ?armed = "\<lambda>w. rules_now r rules False ?vid w \<and> v_id (w_heap w r) = ?vid"
  have report: "triple ?armed m (\<lambda>x. ?armed)" if "state_io_rel untouched m" for m :: "('a, unit) io"
    by (rule triple_bound[OF that]) (simp add: rules_now_def untouched_def apart_def)
  have set: "triple (\<lambda>s. s = w) (on_volume r (reportArmed claim name rules invalid)) (\<lambda>x. ?armed)"
    by (simp add: triple_def on_volume_def reportArmed_def rules_now_def policyNow_def Let_def)
  have wake: "triple ?armed (if ?wakes then classChanged r else return ()) (\<lambda>x. rules_now r rules ?wakes ?vid)"
    using classChanged_wakes by (auto simp: triple_def)
  have tail: "triple (rules_now r rules ?wakes ?vid) (do { record_metrics r; noteHealth out r }) (\<lambda>x. rules_now r rules ?wakes ?vid)"
    by (rule triple_inv) (intro inv.bounds rules_untouched untouched_ops rules_health)
  let ?event = "let (reason, message) =
              (if rules \<noteq> None then (reasonArmed, Fmt ''armed by the class %s'' [AStr name])
               else if invalid \<noteq> no_msg then (reasonUnarmed, Cat (Plain ''unarmed: '') invalid)
               else (reasonUnarmed, Plain (''unarmed: the claim names no class of '' @ driverName)))
        in report_event out r claim Normal reason message"
  have "triple (\<lambda>s. s = w) (do {
       moved \<leftarrow> on_volume r (reportArmed claim name rules invalid);
       (if moved then m else return ());
       (if ?wakes then classChanged r else return ());
       record_metrics r;
       noteHealth out r }) (\<lambda>x. rules_now r rules ?wakes ?vid)" if "state_io_rel untouched m" for m :: "('a, unit) io"
    by (rule triple_bind[OF set], rule triple_bind[OF triple_if[OF report[OF that] triple_return]], simp,
        rule triple_bind[OF wake], rule tail)
  from this[of ?event] untouched_reports(4)[of out r claim] have "rules_now r rules ?wakes ?vid (snd (run_state (do {
       moved \<leftarrow> on_volume r (reportArmed claim name rules invalid);
       (if moved then ?event else return ());
       (if ?wakes then classChanged r else return ());
       record_metrics r;
       noteHealth out r }) w))" by (simp add: triple_def split: prod.split)
  moreover have "run_state (armed out r claim name rules invalid) w = run_state (do {
       moved \<leftarrow> on_volume r (reportArmed claim name rules invalid);
       (if moved then ?event else return ());
       (if ?wakes then classChanged r else return ());
       record_metrics r;
       noteHealth out r }) w"
    by (simp add: armed_def volume_at_def wakes_watch_def Let_def)
  ultimately show ?thesis by simp
qed

text \<open>
  A class takes effect at once and alone. A copy of the claim whose class is this
  driver's and reads leaves the volume with that class's rules and, where the rest changed, its watch
  with the wake that sets the timer again; one whose class is another driver's, is absent, or does not
  read disarms it. A class the API server does not answer changes nothing and is read again, and a copy
  of another claim is not read.
\<close>

theorem arming_takes_effect:
  assumes "run_state (read_claim out r claim held) w = (failed, w')"
  shows "if hc_name held \<noteq> cl_name claim then failed = None \<and> w' = w
    else if className held = [] then failed = None \<and> policyNow (w_heap w' r) = None
    else case o_class out (w_calls w) (className held) of
      Inl err \<Rightarrow> failed \<noteq> None \<and> w_heap w' = w_heap w \<and> n_watchers w' = n_watchers w
    | Inr found \<Rightarrow> failed = None \<and>
        (let rules = (if ac_driver found = driverName then success (parsePolicy (o_quantity out) (ac_parameters found)) else None)
         in rules_now r rules (wakes_watch (w_heap w r) rules) (v_id (w_heap w r)) w')"
proof -
  have set: "rules_now r rules (wakes_watch (w_heap w r) rules) (v_id (w_heap w r)) w'"
    if "run_state (armed out r claim name rules invalid) (w\<lparr>w_calls := n\<rparr>) = ((), w')" for name rules invalid n
    using armed_sets[of r rules "w\<lparr>w_calls := n\<rparr>" out claim name invalid] that by simp
  show ?thesis
    using assms set[of _ _ _ "w_calls w"] set[of _ _ _ "Suc (w_calls w)"]
    by (auto simp: read_claim_def get_class_def Let_def rules_now_def split: if_splits sum.splits prod.splits)
qed

theorem arming_takes_effect_witness:
  "let out = (still_outside (output_of ''c'') None)\<lparr>o_class := (\<lambda>n name. Inr \<lparr>ac_driver = driverName, ac_parameters = []\<rparr>)\<rparr>;
       w = world_of [] (zero_volume ''v'' defaultAttributes writeableVolume [''v''])
   in policyNow (w_heap (snd (run_state (read_claim out 0 \<lparr>cl_namespace = ''n'', cl_name = ''c''\<rparr>
        \<lparr>hc_name = ''c'', hc_current = None, hc_asked = Some ''k''\<rparr>) w)) 0) = Some defaultPolicy"
proof -
  let ?out = "(still_outside (output_of ''c'') None)\<lparr>o_class := (\<lambda>n name. Inr \<lparr>ac_driver = driverName, ac_parameters = []\<rparr>)\<rparr>"
  let ?w = "world_of [] (zero_volume ''v'' defaultAttributes writeableVolume [''v''])"
  let ?claim = "\<lparr>cl_namespace = ''n'', cl_name = ''c''\<rparr>"
  let ?held = "\<lparr>hc_name = ''c'', hc_current = None, hc_asked = Some ''k''\<rparr>"
  obtain failed w' where run: "run_state (read_claim ?out 0 ?claim ?held) ?w = (failed, w')" by fastforce
  have "success (parsePolicy (\<lambda>q. None) []) = Some defaultPolicy" by code_simp
  with arming_takes_effect[OF run] have "policyNow (w_heap w' 0) = Some defaultPolicy"
    by (simp add: className_def rules_now_def Let_def still_outside_def)
  with run show ?thesis by (simp add: Let_def)
qed

end
