(* ===== verification/Staging.thy ===== *)
theory Staging
  imports Watch Mounts
begin

section \<open>Fetching and staging a tree (\<open>node.go\<close>, \<open>stage.go\<close>, \<open>sweep.go\<close>: \<open>noteAbandoned\<close>)\<close>

text \<open>
  What a stage or a publish does before it mounts: it fetches the ref into the shared repository inside
  a credential window and puts it where the volume reads it, a read-only tree the driver replaces or
  a work tree the pod writes. The calls answer a gRPC status, and \<open>None\<close> is the call that worked.
\<close>

definition recordFile :: string where "recordFile = ''volume.json''"
definition reasonRefused :: string where "reasonRefused = ''GitVolumeRefused''"
definition reasonStale :: string where "reasonStale = ''GitVolumeStale''"

definition internal :: "string \<Rightarrow> status" where
  "internal reason = Status Internal (Plain reason)"

text \<open>An error of a part is an internal error of the call.\<close>

definition unless_internal :: "('g, string option) io \<Rightarrow> ('g, status option) io \<Rightarrow> ('g, status option) io" where
  "unless_internal m k = do {
     failed \<leftarrow> m;
     case failed of Some err \<Rightarrow> return (Some (internal err)) | None \<Rightarrow> k
   }"

definition unless_refused :: "('g, status option) io \<Rightarrow> ('g, status option) io \<Rightarrow> ('g, status option) io" where
  "unless_refused m k = do {
     failed \<leftarrow> m;
     case failed of Some err \<Rightarrow> return (Some err) | None \<Rightarrow> k
   }"

definition create_missing :: "'g outside \<Rightarrow> repository \<Rightarrow> bool \<Rightarrow> ('g, string option) io" where
  "create_missing out repo there = (if there then return None else repo_create out repo)"

subsection \<open>A read-only tree\<close>

text \<open>What a failed fetch means, given what the node holds of the ref.\<close>

definition stage_refusal :: "offlinePolicy \<Rightarrow> string \<Rightarrow> string option \<Rightarrow> string + string \<Rightarrow> status option" where
  "stage_refusal offline ref fetched resolved =
     (case fetched of
        Some err \<Rightarrow>
          if offline = offlineRefuse then Some (Status Unavailable (Plain err))
          else (case resolved of
              Inl missing \<Rightarrow> Some (Status Unavailable (Fmt ''%s, and the node holds no copy of %s'' [AStr err, AStr ref]))
            | Inr tip \<Rightarrow> None)
      | None \<Rightarrow> (case resolved of Inl missing \<Rightarrow> Some (internal missing) | Inr tip \<Rightarrow> None))"

definition stage :: "'g outside \<Rightarrow> nat \<Rightarrow> ('g, status option) io" where
  "stage out r = do {
     mounting \<leftarrow> volume_at r;
     let repo = repository_of out (url_of mounting);
     there \<leftarrow> repo_exists out repo;
     unless_internal (create_missing out repo there) (do {
       let depth = (if there then 0 else a_depth (v_attributes mounting));
       opened \<leftarrow> use out (credential mounting) (v_directory mounting);
       case opened of Inl err \<Rightarrow> return (Some (internal err)) | Inr (env, written) \<Rightarrow> do {
         start \<leftarrow> time_now out;
         fetched \<leftarrow> timeFetch (r_name repo) (repo_fetch out repo env (ref_of mounting) depth);
         remove_written out written;
         (if fetched = None then change_volume r (answerDemandsBefore start) else return ());
         resolved \<leftarrow> repo_resolve out repo (ref_of mounting);
         case stage_refusal (a_offline (v_attributes mounting)) (ref_of mounting) fetched resolved of
           Some refusal \<Rightarrow> return (Some refusal)
         | None \<Rightarrow> (case resolved of Inl missing \<Rightarrow> return (Some (internal missing)) | Inr tip \<Rightarrow>
             unless_internal (place out repo tip (v_directory mounting) (v_tree mounting)) (do {
               change_volume r (reportCommit tip);
               (case fetched of None \<Rightarrow> return ()
                | Some err \<Rightarrow> do {
                    _ \<leftarrow> on_volume r (reportTrouble (Plain err));
                    tell out r Warning reasonStale (Fmt ''%s is published from the node's copy at %s: %s''
                      [AStr (ref_of mounting), AStr (short tip), AStr err])
                  });
               noteHealth out r;
               return None
             }))
       }
     })
   }"

subsection \<open>A work tree\<close>

definition missingRef :: string where "missingRef = ''couldn't find remote ref''"

definition fetchSide :: "'g outside \<Rightarrow> string list \<Rightarrow> repository \<Rightarrow> nat \<Rightarrow> ('g, string) io" where
  "fetchSide out env repo r = do {
     staging \<leftarrow> volume_at r;
     there \<leftarrow> work_exists out (work_of staging);
     if \<not> there then return []
     else do {
       branch \<leftarrow> divergedBranch out (work_of staging);
       if branch = [] then return []
       else do {
         err \<leftarrow> timeFetch (r_name repo) (repo_fetch out repo env branch 0);
         return (if err \<noteq> None then [] else branch)
       }
     }
   }"

definition refDeleted :: "'g outside \<Rightarrow> nat \<Rightarrow> ('g, status option) io" where
  "refDeleted out r = do {
     staging \<leftarrow> volume_at r;
     head \<leftarrow> head_commit out (work_of staging);
     case head of Inl err \<Rightarrow> return (Some (internal err))
     | Inr head \<Rightarrow> do { change_volume r (reportRefDeleted head); return None }
   }"

text \<open>Go cuts a number of hours towards zero.\<close>

definition whole_hours :: "duration \<Rightarrow> int" where
  "whole_hours d = (if d \<ge> 0 then d div hour else - ((- d) div hour))"

definition age :: "time \<Rightarrow> time \<Rightarrow> msg" where
  "age now since = Fmt ''%dh'' [AInt (whole_hours (now - since))]"

definition noteAbandoned :: "'g outside \<Rightarrow> nat \<Rightarrow> ('g, unit) io" where
  "noteAbandoned out r = do {
     staging \<leftarrow> volume_at r;
     found \<leftarrow> gets (\<lambda>w. map_of (n_abandoned w) (url_of staging));
     case found of None \<Rightarrow> return ()
     | Some one \<Rightarrow>
         if ab_id one = v_id staging then return ()
         else do {
           now \<leftarrow> time_now out;
           change_volume r (reportAbandoned
             (Fmt ''the work tree of %s holds unpushed commits and was unstaged %s ago''
               [AStr (ab_id one), AMsg (age now (ab_unstaged one))]))
         }
   }"

text \<open>The first stage of a work tree on this node, and a later one of a tree the node already holds.\<close>

definition create_tree :: "'g outside \<Rightarrow> nat \<Rightarrow> string \<Rightarrow> ('g, status option) io" where
  "create_tree out r tip = do {
     staging \<leftarrow> volume_at r;
     unless_internal (work_create out (work_of staging) (ref_of staging) tip)
     (unless_internal (markPushed out (work_of staging) tip)
     (do {
       restore out r;
       change_volume r (reportCommit tip);
       return None
     }))
   }"

definition mark_missing :: "'g outside \<Rightarrow> workTree \<Rightarrow> string \<Rightarrow> ('g, string option) io" where
  "mark_missing out work head = do {
     mark \<leftarrow> refCommit out work pushedRef;
     if mark = [] then markPushed out work head else return None
   }"

definition return_to_tree :: "'g outside \<Rightarrow> nat \<Rightarrow> string \<Rightarrow> string \<Rightarrow> ('g, status option) io" where
  "return_to_tree out r tip side = do {
     staging \<leftarrow> volume_at r;
     head \<leftarrow> head_commit out (work_of staging);
     case head of Inl err \<Rightarrow> return (Some (internal err))
     | Inr head \<Rightarrow>
         unless_internal (mark_missing out (work_of staging) head)
         (do {
           change_volume r (reportCommit head);
           unless_internal (reconcile out r head tip side)
           (do {
             moved \<leftarrow> refCommit out (work_of staging) ''HEAD'';
             (if moved \<noteq> head then change_volume r (reportCommit moved) else return ());
             return None
           })
         })
   }"

definition stageTree :: "'g outside \<Rightarrow> nat \<Rightarrow> repository \<Rightarrow> ('g, status option) io" where
  "stageTree out r repo = do {
     staging \<leftarrow> volume_at r;
     there \<leftarrow> repo_exists out repo;
     unless_internal (create_missing out repo there) (do {
       opened \<leftarrow> use out (credential staging) (v_directory staging);
       case opened of Inl err \<Rightarrow> return (Some (internal err)) | Inr (env, written) \<Rightarrow> do {
         start \<leftarrow> time_now out;
         fetched \<leftarrow> timeFetch (r_name repo) (repo_fetch out repo env (ref_of staging) 0);
         side \<leftarrow> fetchSide out env repo r;
         remove_written out written;
         case fetched of
           Some err \<Rightarrow> do {
             there \<leftarrow> work_exists out (work_of staging);
             if there \<and> contains err missingRef then refDeleted out r
             else return (Some (Status Unavailable (Plain err)))
           }
         | None \<Rightarrow> do {
             change_volume r (answerDemandsBefore start);
             resolved \<leftarrow> repo_resolve out repo (ref_of staging);
             case resolved of Inl err \<Rightarrow> return (Some (internal err)) | Inr tip \<Rightarrow> do {
               noteAbandoned out r;
               there \<leftarrow> work_exists out (work_of staging);
               if \<not> there then create_tree out r tip else return_to_tree out r tip side
             }
           }
       }
     })
   }"

subsection \<open>The claim\<close>

definition findClaim :: "'g outside \<Rightarrow> nat \<Rightarrow> ('g, unit) io" where
  "findClaim out r =
     (if \<not> o_cluster out then return ()
      else do {
        held \<leftarrow> volume_at r;
        answer \<leftarrow> claimOf out (v_id held);
        case answer of Inl err \<Rightarrow> return () | Inr claim \<Rightarrow> change_volume r (setClaim claim)
      })"

definition refusedClaim :: "'g outside \<Rightarrow> nat \<Rightarrow> status \<Rightarrow> ('g, status) io" where
  "refusedClaim out r err = do {
     held \<leftarrow> volume_at r;
     postClaim out (claimNow held) Warning reasonRefused (status_message err);
     return err
   }"

definition refused :: "'g outside \<Rightarrow> podReference \<Rightarrow> status \<Rightarrow> ('g, unit) io" where
  "refused out pod err = post out pod Warning reasonRefused (status_message err)"

definition podOf :: "(string \<times> string) list \<Rightarrow> podReference" where
  "podOf context = \<lparr>pod_name = lookup context podNameKey, pod_namespace = lookup context podNamespaceKey,
     pod_uid = lookup context podUIDKey\<rparr>"

definition unimplemented :: "string \<Rightarrow> string \<Rightarrow> status" where
  "unimplemented rpc at = Status Unimplemented (Fmt ''%s: %s'' [AStr rpc, AStr at])"

end
