(* ===== verification/Node.thy ===== *)
theory Node
  imports Staging
begin

section \<open>The node service (\<open>node.go\<close>, \<open>stage.go\<close>, \<open>readonly.go\<close>, \<open>records.go\<close>)\<close>

text \<open>
  The calls the kubelet makes, and the resume of a restarted driver. The node keeps three maps of
  volumes by handle and the loops each one runs; a volume is one reference in every map that holds it.
  Each call is the sequence of its effects; where the code takes the node's lock for several changes,
  the model makes them in that order.
\<close>

subsection \<open>The record of a published volume\<close>

definition inlineKind :: string where "inlineKind = ''inline''"
definition readOnlyKind :: string where "readOnlyKind = ''readOnly''"
definition writeableKind :: string where "writeableKind = ''writeable''"

fun kindNames :: "volumeKind \<Rightarrow> string" where
  "kindNames inlineVolume = inlineKind"
| "kindNames readOnlyClaim = readOnlyKind"
| "kindNames writeableVolume = writeableKind"

definition record_kind :: "volumeRecord \<Rightarrow> volumeKind" where
  "record_kind r =
     (if rc_Kind r = inlineKind then inlineVolume
      else if rc_Kind r = readOnlyKind then readOnlyClaim
      else if rc_Kind r = writeableKind then writeableVolume
      else if rc_Ephemeral r then inlineVolume else writeableVolume)"

definition targetPaths :: "volumeRecord \<Rightarrow> string list" where
  "targetPaths r = (if record_kind r = readOnlyClaim then rc_Targets r else [rc_Target r])"

definition record_of :: "volume \<Rightarrow> volumeRecord" where
  "record_of v = \<lparr>rc_VolumeID = v_id v, rc_Attributes = v_context v, rc_Target = v_target v,
     rc_Targets = boundTargets v, rc_Staging = v_staging v, rc_Ephemeral = (v_kind v = inlineVolume),
     rc_Kind = kindNames (v_kind v), rc_Credentials = needsCredential v\<rparr>"

definition write_record :: "'g outside \<Rightarrow> nat \<Rightarrow> ('g, unit) io" where
  "write_record out r = do {
     published \<leftarrow> volume_at r;
     _ \<leftarrow> WriteFile out (join_path (v_directory published) recordFile) (o_json out (record_of published)) 384;
     return ()
   }"

definition forget_record :: "'g outside \<Rightarrow> nat \<Rightarrow> ('g, unit) io" where
  "forget_record out r = do {
     published \<leftarrow> volume_at r;
     _ \<leftarrow> Remove out (join_path (v_directory published) recordFile);
     return ()
   }"

definition readRecord :: "'g outside \<Rightarrow> path \<Rightarrow> ('g, volumeRecord option) io" where
  "readRecord out p = do {
     content \<leftarrow> ReadFile out p;
     return (case content of Inl err \<Rightarrow> None | Inr said \<Rightarrow> o_unjson out said)
   }"

subsection \<open>Mounting a tree at a target\<close>

definition bind_at :: "'g outside \<Rightarrow> string \<Rightarrow> ('g, string option) io \<Rightarrow> ('g, status option) io \<Rightarrow> ('g, status option) io" where
  "bind_at out target attach k =
     unless_internal (MkdirAll out (read_path target) 493)
     (unless_internal (unbind out target)
     (unless_internal attach k))"

definition publish :: "'g outside \<Rightarrow> nat \<Rightarrow> ('g, status option) io" where
  "publish out r = do {
     mounting \<leftarrow> volume_at r;
     unless_internal (MkdirAll out (v_directory mounting) 448)
     (unless_refused (stage out r)
     (bind_at out (v_target mounting) (bindReadOnly out (v_tree mounting) (v_target mounting)) (return None)))
   }"

definition not_read_only :: status where
  "not_read_only = Status InvalidArgument (Plain ''readOnly: a claim on this driver has to be mounted read-only; set readOnly: true on the pod's persistentVolumeClaim volume'')"

definition unless_status :: "status option \<Rightarrow> ('g, status option) io \<Rightarrow> ('g, status option) io" where
  "unless_status failed k = (case failed of Some err \<Rightarrow> return (Some err) | None \<Rightarrow> k)"

definition publishReadOnly ::
    "'g outside \<Rightarrow> nat \<Rightarrow> publishRequest \<Rightarrow> attributes \<Rightarrow> credentials option \<Rightarrow> ('g, status option) io" where
  "publishReadOnly out r request parsed holder =
     (if \<not> req_readonly request then return (Some not_read_only)
      else do {
        staged \<leftarrow> volume_at r;
        let target = req_target_path request;
        if boundAt target staged then do { _ \<leftarrow> republished out r holder; return None }
        else unless_status (checkSecret staged holder)
          (bind_at out target (bindReadOnly out (v_tree staged) target) (do {
            change_volume r (bind_target target (a_pod parsed));
            _ \<leftarrow> takeSecret out r holder;
            write_record out r;
            modify (\<lambda>w. w\<lparr>n_volumes := set_entry (v_id staged) r (n_volumes w)\<rparr>);
            return None
          }))
      })"

definition published_elsewhere :: "string \<Rightarrow> string \<Rightarrow> status" where
  "published_elsewhere vid at = Status FailedPrecondition (Fmt ''volume_id: %s is published at %s'' [AStr vid, AStr at])"

definition publish_writeable ::
    "'g outside \<Rightarrow> nat \<Rightarrow> publishRequest \<Rightarrow> attributes \<Rightarrow> credentials option \<Rightarrow> ('g, status option) io" where
  "publish_writeable out r request parsed holder = do {
     staged \<leftarrow> volume_at r;
     let target = req_target_path request;
     unless_status (checkSecret staged holder) (do {
       change_volume r (setPod (a_pod parsed));
       _ \<leftarrow> takeSecret out r holder;
       bind_at out target (bindReadWrite out (v_tree staged) target) (do {
         change_volume r (\<lambda>v. v\<lparr>v_target := target, v_context := req_context request\<rparr>);
         write_record out r;
         modify (\<lambda>w. w\<lparr>n_volumes := set_entry (req_volume_id request) r (n_volumes w)\<rparr>);
         watch out r;
         return None
       })
     })
   }"

definition publishStaged ::
    "'g outside \<Rightarrow> publishRequest \<Rightarrow> attributes \<Rightarrow> credentials option \<Rightarrow> ('g, status option) io" where
  "publishStaged out request parsed holder = do {
     let vid = req_volume_id request;
     found \<leftarrow> gets (\<lambda>w. map_of (n_staged w) vid);
     standing \<leftarrow> gets (\<lambda>w. map_of (n_volumes w) vid);
     case found of
       None \<Rightarrow> return (Some (Status FailedPrecondition (Fmt ''volume_id: %s is not staged on this node'' [AStr vid])))
     | Some r \<Rightarrow> do {
         staged \<leftarrow> volume_at r;
         if v_kind staged = readOnlyClaim then do {
           answer \<leftarrow> publishReadOnly out r request parsed holder;
           case answer of None \<Rightarrow> return None
           | Some err \<Rightarrow> do { err \<leftarrow> refusedClaim out r err; return (Some err) }
         }
         else case standing of
           Some p \<Rightarrow> do {
             published \<leftarrow> volume_at p;
             if v_target published \<noteq> req_target_path request
             then return (Some (published_elsewhere vid (v_target published)))
             else do { _ \<leftarrow> republished out p holder; return None }
           }
         | None \<Rightarrow> publish_writeable out r request parsed holder
       }
   }"

definition publish_inline ::
    "'g outside \<Rightarrow> publishRequest \<Rightarrow> attributes \<Rightarrow> credentials option \<Rightarrow> ('g, status option) io" where
  "publish_inline out request parsed holder = do {
     let vid = req_volume_id request;
     found \<leftarrow> gets (\<lambda>w. map_of (n_volumes w) vid);
     case found of
       Some p \<Rightarrow> do {
         published \<leftarrow> volume_at p;
         if v_target published \<noteq> req_target_path request
         then return (Some (published_elsewhere vid (v_target published)))
         else do { _ \<leftarrow> republished out p holder; return None }
       }
     | None \<Rightarrow> do {
         let directory = volumeDir out vid;
         r \<leftarrow> new_volume ((zero_volume vid parsed inlineVolume directory)
           \<lparr>v_credentials := holder, v_target := req_target_path request,
            v_context := req_context request, v_pod := a_pod parsed\<rparr>);
         failed \<leftarrow> publish out r;
         case failed of
           Some err \<Rightarrow> do {
             refused out (a_pod parsed) err;
             _ \<leftarrow> RemoveAll out directory;
             return (Some err)
           }
         | None \<Rightarrow> do {
             write_record out r;
             modify (\<lambda>w. w\<lparr>n_volumes := set_entry vid r (n_volumes w)\<rparr>);
             follow out r;
             return None
           }
       }
   }"

definition invalid :: "string \<Rightarrow> status" where
  "invalid reason = Status InvalidArgument (Plain reason)"

definition path_of_id :: "string \<Rightarrow> status option" where
  "path_of_id vid =
     (if vid = [] then Some (invalid ''volume_id: the call names no volume'')
      else if CHR ''/'' \<in> set vid then Some (invalid ''volume_id: a volume id is one path element'')
      else None)"

definition NodePublishVolume :: "'g outside \<Rightarrow> publishRequest \<Rightarrow> ('g, status option) io" where
  "NodePublishVolume out request =
     unless_status (path_of_id (req_volume_id request))
     (unless_status (if req_target_path request = [] then Some (invalid ''target_path: the call names no path'') else None)
     (case parseAttributes request of
        Inl err \<Rightarrow> do { refused out (podOf (req_context request)) err; return (Some err) }
      | Inr parsed \<Rightarrow>
          (case parseCredentials (req_secrets request) of
             Inl err \<Rightarrow> do { refused out (a_pod parsed) err; return (Some err) }
           | Inr holder \<Rightarrow>
               if \<not> a_ephemeral parsed then do {
                 failed \<leftarrow> publishStaged out request parsed holder;
                 case failed of None \<Rightarrow> return None
                 | Some err \<Rightarrow> do { refused out (a_pod parsed) err; return (Some err) }
               }
               else publish_inline out request parsed holder)))"

subsection \<open>Unpublishing\<close>

text \<open>What the node's maps give up, under its lock.\<close>

definition let_go :: "'g outside \<Rightarrow> string \<Rightarrow> string \<Rightarrow> nat \<Rightarrow> ('g, unit) io" where
  "let_go out vid target p = do {
     published \<leftarrow> volume_at p;
     if v_kind published = readOnlyClaim then do {
       left \<leftarrow> on_volume p (unbind_target target);
       (if left = 0 then modify (\<lambda>w. w\<lparr>n_volumes := delete_entry vid (n_volumes w)\<rparr>) else return ())
     }
     else do {
       modify (\<lambda>w. w\<lparr>n_volumes := delete_entry vid (n_volumes w)\<rparr>);
       unfollow out p;
       unwatch p
     }
   }"

text \<open>What follows for each kind once the mount is gone.\<close>

definition last_work :: "'g outside \<Rightarrow> nat \<Rightarrow> ('g, unit) io" where
  "last_work out p = do {
     forget_record out p;
     published \<leftarrow> volume_at p;
     (case policyNow published of None \<Rightarrow> return () | Some rules \<Rightarrow> Push.commit out p rules);
     push_now_or_report out p;
     noteHealth out p
   }"

definition after_unmount :: "'g outside \<Rightarrow> nat \<Rightarrow> ('g, status option) io" where
  "after_unmount out p = do {
     published \<leftarrow> volume_at p;
     if v_kind published = readOnlyClaim then do { write_record out p; return None }
     else if writeable published then do { last_work out p; return None }
     else unless_internal (RemoveAll out (v_directory published)) (do {
       metric_call (Forgotten published);
       return None
     })
   }"

definition NodeUnpublishVolume :: "'g outside \<Rightarrow> string \<Rightarrow> string \<Rightarrow> ('g, status option) io" where
  "NodeUnpublishVolume out vid target =
     (if vid = [] then return (Some (invalid ''volume_id: the call names no volume''))
      else if target = [] then return (Some (invalid ''target_path: the call names no path''))
      else do {
        found \<leftarrow> gets (\<lambda>w. map_of (n_volumes w) vid);
        (case found of None \<Rightarrow> return () | Some p \<Rightarrow> let_go out vid target p);
        unless_internal (unbind out target)
        (unless_internal (RemoveAll out (read_path target))
        (case found of None \<Rightarrow> return None | Some p \<Rightarrow> after_unmount out p))
      })"

subsection \<open>The calls that only answer\<close>

record volumeUsage =
  vu_used :: int
  vu_available :: int
  vu_total :: int

definition NodeGetVolumeStats :: "'g outside \<Rightarrow> string \<Rightarrow> string \<Rightarrow> ('g, status + volumeUsage) io" where
  "NodeGetVolumeStats out vid at =
     (if vid = [] then return (Inl (invalid ''volume_id: the call names no volume''))
      else if at = [] then return (Inl (invalid ''volume_path: the call names no path''))
      else do {
        found \<leftarrow> gets (\<lambda>w. map_of (n_volumes w) vid);
        case found of
          None \<Rightarrow> return (Inl (Status NotFound (Fmt ''volume_id: %s is not published on this node'' [AStr vid])))
        | Some p \<Rightarrow> do {
            published \<leftarrow> volume_at p;
            measured \<leftarrow> treeSize out (v_tree published);
            return (case measured of Inl err \<Rightarrow> Inl (internal err)
              | Inr bytes \<Rightarrow> Inr \<lparr>vu_used = bytes, vu_available = 0, vu_total = bytes\<rparr>)
          }
      })"

datatype nodeCapability = STAGE_UNSTAGE_VOLUME | GET_VOLUME_STATS | SINGLE_NODE_MULTI_WRITER

definition NodeGetCapabilities :: "nodeCapability list" where
  "NodeGetCapabilities = [STAGE_UNSTAGE_VOLUME, GET_VOLUME_STATS, SINGLE_NODE_MULTI_WRITER]"

definition NodeExpandVolume :: status where
  "NodeExpandVolume = unimplemented ''NodeExpandVolume'' ''never; git volumes have no size''"

text \<open>The gauge of the volumes: how many the node has published, by repository.\<close>

definition volumesByRepo :: "'g outside \<Rightarrow> 'g world \<Rightarrow> (string \<times> nat) list" where
  "volumesByRepo out w = foldl (\<lambda>counts (vid, r).
     let name = r_name (repository_of out (url_of (w_heap w r)))
     in set_entry name (Suc (case map_of counts name of None \<Rightarrow> 0 | Some n \<Rightarrow> n)) counts) [] (n_volumes w)"

subsection \<open>Staging\<close>

text \<open>The access modes the code names; every other one carries the name the message prints.\<close>

datatype accessMode = SINGLE_NODE_SINGLE_WRITER | MULTI_NODE_READER_ONLY | SINGLE_NODE_READER_ONLY
  | OtherMode string

definition stageKind :: "accessMode \<Rightarrow> volumeKind result" where
  "stageKind mode =
     (case mode of
        SINGLE_NODE_SINGLE_WRITER \<Rightarrow> Inr writeableVolume
      | MULTI_NODE_READER_ONLY \<Rightarrow> Inr readOnlyClaim
      | SINGLE_NODE_READER_ONLY \<Rightarrow> Inr readOnlyClaim
      | OtherMode name \<Rightarrow> Inl (Status InvalidArgument (Fmt
          ''access_mode: %s is not SINGLE_NODE_SINGLE_WRITER, which is ReadWriteOncePod, and not MULTI_NODE_READER_ONLY or SINGLE_NODE_READER_ONLY, which are ReadOnlyMany''
          [AStr name])))"

record stageRequest =
  sr_volume_id :: string
  sr_staging :: string
  sr_mode :: accessMode
  sr_context :: "(string \<times> string) list"
  sr_secrets :: "(string \<times> string) list"

definition refused_stage :: "'g outside \<Rightarrow> nat \<Rightarrow> status \<Rightarrow> ('g, status option) io" where
  "refused_stage out r err = do { err \<leftarrow> refusedClaim out r err; return (Some err) }"

definition stageReadOnly ::
    "'g outside \<Rightarrow> stageRequest \<Rightarrow> attributes \<Rightarrow> credentials option \<Rightarrow> ('g, status option) io" where
  "stageReadOnly out request parsed holder = do {
     let vid = sr_volume_id request;
     let directory = volumeDir out vid;
     r \<leftarrow> new_volume ((zero_volume vid parsed readOnlyClaim directory)
       \<lparr>v_credentials := holder, v_staging := sr_staging request, v_context := sr_context request\<rparr>);
     findClaim out r;
     made \<leftarrow> MkdirAll out directory 448;
     case made of Some err \<Rightarrow> refused_stage out r (internal err) | None \<Rightarrow> do {
     failed \<leftarrow> stage out r;
     case failed of
       Some err \<Rightarrow> do { _ \<leftarrow> RemoveAll out directory; refused_stage out r err }
     | None \<Rightarrow> do {
         write_record out r;
         modify (\<lambda>w. w\<lparr>n_staged := set_entry vid r (n_staged w)\<rparr>);
         follow out r;
         arrived out vid;
         return None
       }
     }}"

definition stage_writeable ::
    "'g outside \<Rightarrow> stageRequest \<Rightarrow> attributes \<Rightarrow> credentials option \<Rightarrow> ('g, status option) io" where
  "stage_writeable out request parsed holder = do {
     let vid = sr_volume_id request;
     let directory = volumeDir out vid;
     unless_internal (MkdirAll out directory 448) (do {
       let repo = repository_of out (a_url parsed);
       r \<leftarrow> new_volume ((zero_volume vid parsed writeableVolume directory)
         \<lparr>v_credentials := holder, v_work := Some (workTree_of out repo vid),
          v_staging := sr_staging request, v_context := sr_context request\<rparr>);
       unless_refused (stageTree out r repo) (do {
         noteHealth out r;
         modify (\<lambda>w. w\<lparr>n_staged := set_entry vid r (n_staged w)\<rparr>);
         arm out r;
         arrived out vid;
         return None
       })
     })
   }"

definition NodeStageVolume :: "'g outside \<Rightarrow> stageRequest \<Rightarrow> ('g, status option) io" where
  "NodeStageVolume out request =
     unless_status (path_of_id (sr_volume_id request))
     (unless_status (if sr_staging request = [] then Some (invalid ''staging_target_path: the call names no path'') else None)
     (case stageKind (sr_mode request) of Inl err \<Rightarrow> return (Some err) | Inr kind \<Rightarrow>
     (case parseStageAttributes kind (sr_context request) of Inl err \<Rightarrow> return (Some err) | Inr parsed \<Rightarrow>
     (case parseCredentials (sr_secrets request) of Inl err \<Rightarrow> return (Some err) | Inr holder \<Rightarrow> do {
       let vid = sr_volume_id request;
       found \<leftarrow> gets (\<lambda>w. map_of (n_staged w) vid);
       case found of
         Some r \<Rightarrow> do {
           staged \<leftarrow> volume_at r;
           return (if v_staging staged \<noteq> sr_staging request
             then Some (Status FailedPrecondition (Fmt ''volume_id: %s is staged at %s'' [AStr vid, AStr (v_staging staged)]))
             else None)
         }
       | None \<Rightarrow> if kind = readOnlyClaim then stageReadOnly out request parsed holder
                 else stage_writeable out request parsed holder
     }))))"

subsection \<open>Unstaging\<close>

definition unstagedFile :: string where "unstagedFile = ''unstaged''"

definition markUnstaged :: "'g outside \<Rightarrow> nat \<Rightarrow> ('g, unit) io" where
  "markUnstaged out r = do {
     held \<leftarrow> volume_at r;
     now \<leftarrow> time_now out;
     _ \<leftarrow> WriteFile out (join_path (v_directory held) unstagedFile) (o_rfc3339 out now @ [newline]) 384;
     return ()
   }"

definition unstageReadOnly :: "'g outside \<Rightarrow> nat \<Rightarrow> ('g, unit) io" where
  "unstageReadOnly out r = do {
     unfollow out r;
     staged \<leftarrow> volume_at r;
     modify (\<lambda>w. w\<lparr>n_volumes := delete_entry (v_id staged) (n_volumes w)\<rparr>);
     metric_call (Forgotten staged);
     _ \<leftarrow> RemoveAll out (v_directory staged);
     return ()
   }"

definition unstage_kind :: "'g outside \<Rightarrow> nat \<Rightarrow> ('g, unit) io" where
  "unstage_kind out r = do {
     staged \<leftarrow> volume_at r;
     if writeable staged then do { push_now_or_report out r; markUnstaged out r; disarm r }
     else if v_kind staged = readOnlyClaim then unstageReadOnly out r
     else return ()
   }"

definition NodeUnstageVolume :: "'g outside \<Rightarrow> string \<Rightarrow> string \<Rightarrow> ('g, status option) io" where
  "NodeUnstageVolume out vid staging =
     (if vid = [] then return (Some (invalid ''volume_id: the call names no volume''))
      else if staging = [] then return (Some (invalid ''staging_target_path: the call names no path''))
      else do {
        found \<leftarrow> gets (\<lambda>w. map_of (n_staged w) vid);
        (case found of None \<Rightarrow> return () | Some r \<Rightarrow> do {
           modify (\<lambda>w. w\<lparr>n_staged := delete_entry vid (n_staged w)\<rparr>);
           unstage_kind out r
         });
        return None
      })"

subsection \<open>The resume of a restarted driver\<close>

definition mountedTargets :: "'g outside \<Rightarrow> volumeRecord \<Rightarrow> ('g, string list) io" where
  "mountedTargets out held = do {
     found \<leftarrow> traverse_list (mountedNow out) (targetPaths held);
     return (map fst (filter snd (zip (targetPaths held) found)))
   }"

definition drop_record :: "'g outside \<Rightarrow> volumeRecord \<Rightarrow> path \<Rightarrow> ('g, unit) io" where
  "drop_record out held directory =
     (if record_kind held = writeableVolume then return ()
      else do { _ \<leftarrow> RemoveAll out directory; return () })"

definition resumed_volume :: "volumeRecord \<Rightarrow> attributes \<Rightarrow> path \<Rightarrow> string \<Rightarrow> volume" where
  "resumed_volume held parsed directory placed =
     (let v = (zero_volume (rc_VolumeID held) parsed (record_kind held) directory)
        \<lparr>v_target := rc_Target held, v_staging := rc_Staging held, v_context := rc_Attributes held,
         v_pod := a_pod parsed, v_commit := placed\<rparr>
      in if rc_Credentials held then loseCredential v else v)"

text \<open>The loops of one resumed volume, by its kind.\<close>

definition resume_reader :: "'g outside \<Rightarrow> volumeRecord \<Rightarrow> nat \<Rightarrow> ('g, unit) io" where
  "resume_reader out held r = do {
     follow out r;
     (if rc_Credentials held then return () else resumePull out r)
   }"

definition resume_loops :: "'g outside \<Rightarrow> volumeRecord \<Rightarrow> attributes \<Rightarrow> nat \<Rightarrow> ('g, unit) io" where
  "resume_loops out held parsed r = do {
     let vid = rc_VolumeID held;
     modify (\<lambda>w. w\<lparr>n_volumes := set_entry vid r (n_volumes w)\<rparr>);
     (if record_kind held = readOnlyClaim then do {
        modify (\<lambda>w. w\<lparr>n_staged := set_entry vid r (n_staged w)\<rparr>);
        resume_reader out held r
      }
      else if record_kind held = inlineVolume then resume_reader out held r
      else do {
        let work = workTree_of out (repository_of out (a_url parsed)) vid;
        change_volume r (\<lambda>v. v\<lparr>v_work := Some work\<rparr>);
        head \<leftarrow> head_commit out work;
        (case head of Inl err \<Rightarrow> return () | Inr tip \<Rightarrow> change_volume r (\<lambda>v. v\<lparr>v_commit := tip\<rparr>));
        modify (\<lambda>w. w\<lparr>n_staged := set_entry vid r (n_staged w)\<rparr>);
        arm out r;
        watch out r
      })
   }"

definition resumeOne :: "'g outside \<Rightarrow> volumeRecord \<Rightarrow> path \<Rightarrow> string list \<Rightarrow> ('g, unit) io" where
  "resumeOne out held directory mounted =
     (case parseVolumeContext (rc_Attributes held) of Inl err \<Rightarrow> return ()
      | Inr parsed \<Rightarrow> do {
          placed \<leftarrow> placedCommit out directory;
          r \<leftarrow> new_volume (resumed_volume held parsed directory placed);
          (if record_kind held = readOnlyClaim then do {
             for_each (\<lambda>target. change_volume r (bind_target target no_pod)) mounted;
             findClaim out r;
             write_record out r
           } else return ());
          noteHealth out r;
          now \<leftarrow> time_now out;
          change_volume r (answerDemandsBefore now);
          resume_loops out held parsed r
        })"

definition resume_entry :: "'g outside \<Rightarrow> string \<Rightarrow> ('g, unit) io" where
  "resume_entry out entry = do {
     let directory = volumeDir out entry;
     read_back \<leftarrow> readRecord out (join_path directory recordFile);
     case read_back of None \<Rightarrow> return () | Some held \<Rightarrow> do {
       mounted \<leftarrow> mountedTargets out held;
       if mounted = [] then drop_record out held directory
       else resumeOne out held directory mounted
     }
   }"

definition resume :: "'g outside \<Rightarrow> ('g, unit) io" where
  "resume out = do {
     entries \<leftarrow> ReadDir out (join_path (o_store out) ''volumes'');
     case entries of Inl err \<Rightarrow> return () | Inr entries \<Rightarrow> for_each (resume_entry out) entries
   }"

end
