(* ===== verification/Steady.thy ===== *)
theory Steady
  imports Staging FetchLoop
begin

section \<open>What the work of the loops leaves alone\<close>

text \<open>
  A pass of a fetch loop, a scan, a push, a stage of a tree, a credential that returns: each may call
  git, change files and change what a volume reports. None of them adds or removes a volume, a loop, a
  watch or an arming, none mounts anything, and none changes what a volume is. That bound goes through
  every operation below the calls of the kubelet, so the invariants of the node rest on it alone.
\<close>

definition stable :: "volume \<Rightarrow> volume \<Rightarrow> bool" where
  "stable v v' \<longleftrightarrow> v_id v' = v_id v \<and> v_attributes v' = v_attributes v \<and> v_kind v' = v_kind v \<and>
     v_directory v' = v_directory v \<and> v_tree v' = v_tree v \<and> v_staging v' = v_staging v"

lemma stable_refl [simp]: "stable v v"
  by (simp add: stable_def)

text \<open>And where it is published.\<close>

definition moored :: "volume \<Rightarrow> volume \<Rightarrow> bool" where
  "moored v v' \<longleftrightarrow> stable v v' \<and> v_target v' = v_target v"

definition on_the_loop :: "'g world \<Rightarrow> string \<Rightarrow> (string \<times> nat) list option" where
  "on_the_loop w name = map_option fl_volumes (map_of (n_followers w) name)"

definition watched :: "'g world \<Rightarrow> string \<Rightarrow> nat option" where
  "watched w vid = map_option wt_volume (map_of (n_watchers w) vid)"

definition steady :: "'g world \<Rightarrow> 'g world \<Rightarrow> bool" where
  "steady w w' \<longleftrightarrow> w_next w' = w_next w \<and> n_volumes w' = n_volumes w \<and> n_staged w' = n_staged w \<and>
     n_armings w' = n_armings w \<and> w_mounts w' = w_mounts w \<and> on_the_loop w' = on_the_loop w \<and>
     watched w' = watched w \<and> w_calls w \<le> w_calls w' \<and> (\<forall>r. moored (w_heap w r) (w_heap w' r))"

lemma moored_refl [simp]: "moored v v"
  by (simp add: moored_def stable_def)

interpretation steady: step_bound steady
  by unfold_locales (simp_all add: steady_def moored_def stable_def)

lemma steady_leaf: "state_io_rel (leaf K) m \<Longrightarrow> state_io_rel steady m"
  by (simp add: state_io_rel_def leaf_def apart_def steady_def on_the_loop_def[abs_def] watched_def[abs_def])

lemma steady_untouched: "state_io_rel untouched m \<Longrightarrow> state_io_rel steady m"
  by (rule steady_leaf[OF untouched_leaf])

lemma steady_change: "(\<And>v. moored v (f v)) \<Longrightarrow> state_io_rel steady (change_volume r f)"
  by (simp add: state_io_rel_def steady_def change_volume_def on_the_loop_def[abs_def] watched_def[abs_def])

lemma steady_on: "(\<And>v. moored v (snd (g v))) \<Longrightarrow> state_io_rel steady (on_volume r g)"
  by (simp add: state_io_rel_def steady_def on_volume_def case_prod_beta Let_def on_the_loop_def[abs_def] watched_def[abs_def])

lemma moored_reports:
  "moored v (snd (takeHealth now v))" "moored v (snd (reportTrouble message v))"
  "moored v (reportHealed v)" "moored v (reportPushed now v)" "moored v (reportUnpushed commits oldest v)"
  "moored v (snd (reportSkipped found v))" "moored v (reportDiverged branch v)" "moored v (reportCommit tip v)"
  "moored v (reportRefDeleted tip v)" "moored v (reportAbandoned message v)" "moored v (answerDemandsBefore start v)"
  "moored v (reportPulled now v)" "moored v (reportDemanded now v)" "moored v (snd (takeDemand start now v))"
  "moored v (snd (takeCredential holder v))" "moored v (snd (reportNoPublishSecret v))"
  "moored v (snd (reportPending found v))" "moored v (snd (reportArmed claim class_name rules invalid v))"
  "moored v (setClaim claim v)" "moored v (setPod pod v)" "moored v (bind_target target pod v)"
  "moored v (snd (unbind_target target v))"
  by (auto simp: moored_def stable_def takeHealth_def reportTrouble_def reportHealed_def reportPushed_def reportUnpushed_def
      reportSkipped_def reportDiverged_def reportCommit_def reportRefDeleted_def reportAbandoned_def
      answerDemandsBefore_def reportPulled_def reportDemanded_def takeDemand_def takeCredential_def
      reportNoPublishSecret_def reportPending_def reportArmed_def setClaim_def setPod_def bind_target_def
      unbind_target_def case_prod_beta Let_def)

text \<open>Only what a loop wants and its wakes change, and only the wakes of a watch.\<close>

lemma steady_loop: "(\<And>f. fl_volumes (snd (g f)) = fl_volumes f) \<Longrightarrow> state_io_rel steady (on_loop name x g)"
  by (auto simp: state_io_rel_def steady_def on_loop_def on_the_loop_def[abs_def] watched_def[abs_def] case_prod_beta
      Let_def map_of_set_entry fun_eq_iff split: option.splits)

lemma steady_watcher: "(\<And>seeing. wt_volume (g seeing) = wt_volume seeing) \<Longrightarrow> state_io_rel steady (on_watcher vid r g)"
  by (auto simp: state_io_rel_def steady_def on_watcher_def on_the_loop_def[abs_def] watched_def[abs_def]
      map_of_set_entry fun_eq_iff split: option.splits)

lemma steady_bookkeeping:
  "state_io_rel steady (modify (\<lambda>w. w\<lparr>n_seen := f w\<rparr>))"
  "state_io_rel steady (modify (\<lambda>w. w\<lparr>n_abandoned := g w\<rparr>))"
  "state_io_rel steady (modify (\<lambda>w. w\<lparr>n_kept := h w\<rparr>))"
  "state_io_rel steady (loop_at name)"
  "state_io_rel steady (get_class out name)"
  by (auto simp: state_io_rel_def steady_def loop_at_def get_class_def on_the_loop_def[abs_def] watched_def[abs_def])

lemma steady_health: "state_io_rel steady (noteHealth out r)"
  unfolding noteHealth_def
  by (intro steady.bounds steady_on moored_reports untouched_ops[THEN steady_untouched])

lemma steady_fetch: "state_io_rel steady (timeFetch name (repo_fetch out repo env ref depth))"
  by (rule steady_leaf[where K = UNIV], rule timeFetch_kinds, rule repo_fetch_kinds) simp

lemmas steady_rules = steady.bounds steady_change steady_on moored_reports steady_health steady_bookkeeping
  push_leaves[where K = UNIV, THEN steady_leaf] untouched_ops[THEN steady_untouched]
  silent_window[THEN steady_untouched] repository_kinds[where K = UNIV, THEN steady_leaf]
  place_kinds[where K = UNIV, THEN steady_leaf] steady_fetch
  untouched_lookup[THEN steady_untouched] silent_placing[THEN steady_untouched]

subsection \<open>The write side\<close>

lemma steady_sides:
  "state_io_rel steady (diverge out r)"
  "state_io_rel steady (healed out r branch)"
  "state_io_rel steady (pushFailed out r message)"
  "state_io_rel steady (counted out r)"
  "state_io_rel steady (skipping out r skipped)"
  unfolding diverge_def healed_def pushFailed_def counted_def skipping_def Let_def
  by (intro steady_rules; simp)+

lemma steady_heals:
  "state_io_rel steady (healIfMerged out r branch)"
  "state_io_rel steady (healOrHold out r branch head upstream side)"
  unfolding healIfMerged_def healInTree_def healOrHold_def heal_def Let_def
  by (intro steady_rules steady_sides; simp)+

lemma steady_reconcile: "state_io_rel steady (reconcile out r head upstream side)"
  unfolding reconcile_def fastForward_def rebase_def Let_def
  by (intro steady_rules steady_sides steady_heals; simp)

lemma steady_attempts: "state_io_rel steady (rebase_attempts n out r commits)"
proof (induction n)
  case (Suc n)
  show ?case
    unfolding rebase_attempts.simps Let_def by (intro steady_rules Suc.IH; simp)
qed (simp add: steady.bound_return)

lemma steady_pushNow: "state_io_rel steady (pushNow out r commits)"
  unfolding pushNow_def send_or_rebase_def rebaseAndRetry_def Let_def
  by (intro steady_rules steady_sides steady_heals steady_attempts; simp)

lemma steady_pushes:
  "state_io_rel steady (pushIfDue out r rules quiet)"
  "state_io_rel steady (push_now_or_report out r)"
  unfolding pushIfDue_def push_now_or_report_def
  by (intro steady_rules steady_sides steady_pushNow; simp)+

lemma steady_commit: "state_io_rel steady (Push.commit out r rules)"
  unfolding Push.commit_def stageAndCommit_def Let_def
  by (intro steady_rules steady_sides; simp)

subsection \<open>Fetching and staging\<close>

lemma steady_unless:
  "state_io_rel steady m \<Longrightarrow> state_io_rel steady k \<Longrightarrow> state_io_rel steady (unless_internal m k)"
  "state_io_rel steady m' \<Longrightarrow> state_io_rel steady k \<Longrightarrow> state_io_rel steady (unless_refused m' k)"
  unfolding unless_internal_def unless_refused_def by (intro steady.bounds; simp)+

lemma steady_reports_of_a_stage:
  "state_io_rel steady (noteAbandoned out r)"
  "state_io_rel steady (findClaim out r)"
  "state_io_rel steady (refusedClaim out r err)"
  "state_io_rel steady (refused out pod err)"
  "state_io_rel steady (refDeleted out r)"
  "state_io_rel steady (fetchSide out env repo r)"
  "state_io_rel steady (create_missing out repo there)"
  "state_io_rel steady (mark_missing out work head)"
  unfolding noteAbandoned_def findClaim_def refusedClaim_def refused_def refDeleted_def fetchSide_def
    create_missing_def mark_missing_def Let_def
  by (intro steady_rules; simp)+

lemma steady_stage: "state_io_rel steady (stage out r)"
  unfolding stage_def Let_def
  by (intro steady_rules steady_unless steady_reports_of_a_stage; simp)

lemma steady_stageTree: "state_io_rel steady (stageTree out r repo)"
  unfolding stageTree_def create_tree_def return_to_tree_def Let_def
  by (intro steady_rules steady_unless steady_reports_of_a_stage steady_reconcile; simp)

subsection \<open>The loops\<close>

lemma steady_on_loops:
  "state_io_rel steady (on_loop name False (wantAgain vid r))"
  "state_io_rel steady (on_loop name [] (answered now))"
  "state_io_rel steady (on_loop name (False, False) (demand_volume vid r))"
  "state_io_rel steady (on_loop name () (\<lambda>f. ((), want_arrived vid r f)))"
  by (rule steady_loop, simp add: wantAgain_def answered_def demand_volume_def want_arrived_def)+

lemma steady_refresh: "state_io_rel steady (refresh out repo r)"
  unfolding refresh_def fetch_and_place_def trouble_fetching_def loop_noteHealth_def
  by (intro steady_rules; simp)

lemma steady_tick: "state_io_rel steady (tick out repo)"
  unfolding tick_def tick_one_def
  by (intro steady_rules steady_on_loops steady_refresh)

lemma steady_demand: "state_io_rel steady (demand out r)" "state_io_rel steady (resumePull out r)"
  unfolding demand_def resumePull_def follower_demand_def loopOf_def Let_def
  by (intro steady_rules steady_on_loops)+

lemma steady_demands:
  "state_io_rel steady (Follower.read out held)"
  "state_io_rel steady (Follower.forget held)"
  "state_io_rel steady (arrived out handle)"
proof -
  have act: "state_io_rel steady (actOn out handle at)" for handle at
    unfolding actOn_def stagedVolume_def by (intro steady_rules steady_demand)
  then show "state_io_rel steady (Follower.read out held)"
    unfolding Follower.read_def by (intro steady_rules)
  have "state_io_rel steady (case at of None \<Rightarrow> return () | Some at \<Rightarrow> actOn out handle at)" for at
    using act by (intro steady_rules)
  then show "state_io_rel steady (arrived out handle)"
    unfolding arrived_def by (intro steady.bound_bind steady.bound_gets)
  show "state_io_rel steady (Follower.forget held)"
    unfolding Follower.forget_def by (intro steady_rules)
qed

lemma steady_secrets:
  "state_io_rel steady (takeSecret out r holder)"
  "state_io_rel steady (republished out r holder)"
proof -
  have "state_io_rel steady (on_watcher vid r watcher_arrived)" for vid
    by (rule steady_watcher) (simp add: watcher_arrived_def)
  then show "state_io_rel steady (takeSecret out r holder)"
    unfolding takeSecret_def noPublishSecret_def credentialArrived_def loopOf_def Let_def
    by (intro steady_rules steady_on_loops)
  then show "state_io_rel steady (republished out r holder)" by (simp add: republished_def)
qed

lemma steady_watch: "state_io_rel steady (watch_turn out r seeing event)"
proof -
  have "state_io_rel steady (scan out r seeing)" "state_io_rel steady (pushArrived out r)"
    unfolding scan_def pushArrived_def Let_def by (intro steady_rules steady_pushes steady_commit; simp)+
  then show ?thesis
    unfolding watch_turn_def
    by (intro steady.bound_bind untouched_ops[THEN steady_untouched]; cases event; simp; intro steady_rules)
qed

lemma steady_read_claim: "state_io_rel steady (read_claim out r claim held)"
proof -
  have "state_io_rel steady (on_watcher vid r watcher_classed)" for vid
    by (rule steady_watcher) (simp add: watcher_classed_def)
  then have "state_io_rel steady (armed out r claim class_name rules invalid)" for class_name rules invalid
    unfolding armed_def classChanged_def Let_def by (intro steady_rules)
  then show ?thesis
    unfolding read_claim_def Let_def by (intro steady_rules)
qed

end
