(* ===== verification/NodeLaws.thy ===== *)
theory NodeLaws
  imports Node Steady
begin

section \<open>The node's books\<close>

text \<open>
  What the node's maps promise each other in every state the kubelet and the loops can bring it to:
  the loops, the watches and the armings are exactly those of the volumes the node holds. So no loop
  outlives its volume and no volume waits without one.
\<close>

definition held_at :: "'g world \<Rightarrow> string \<Rightarrow> nat \<Rightarrow> bool" where
  "held_at w vid r \<longleftrightarrow> map_of (n_volumes w) vid = Some r \<or> map_of (n_staged w) vid = Some r"

definition reader :: "'g world \<Rightarrow> string \<Rightarrow> nat \<Rightarrow> bool" where
  "reader w vid r \<longleftrightarrow> held_at w vid r \<and> \<not> writeable (w_heap w r) \<and> follows (a_pull (v_attributes (w_heap w r)))"

definition joined :: "'g world \<Rightarrow> string \<Rightarrow> string \<Rightarrow> nat option" where
  "joined w name vid = (case on_the_loop w name of None \<Rightarrow> None | Some members \<Rightarrow> map_of members vid)"

text \<open>\<open>inl\<close> tells the handles of inline volumes, which the kubelet makes up, from those of
  PersistentVolumes.\<close>

definition books_ok :: "(string \<Rightarrow> bool) \<Rightarrow> 'g world \<Rightarrow> bool" where
  "books_ok inl w \<longleftrightarrow>
     (\<forall>vid r. map_of (n_volumes w) vid = Some r \<longrightarrow> r < w_next w \<and> v_id (w_heap w r) = vid \<and>
        (v_kind (w_heap w r) = inlineVolume) = inl vid \<and> (inl vid \<or> map_of (n_staged w) vid = Some r)) \<and>
     (\<forall>vid r. map_of (n_staged w) vid = Some r \<longrightarrow> r < w_next w \<and> v_id (w_heap w r) = vid \<and>
        v_kind (w_heap w r) \<noteq> inlineVolume \<and> \<not> inl vid)"

definition loops_ok :: "'g outside \<Rightarrow> 'g world \<Rightarrow> bool" where
  "loops_ok out w \<longleftrightarrow>
     (\<forall>name vid r. joined w name vid = Some r \<longleftrightarrow> reader w vid r \<and> loop_name out (w_heap w r) = name) \<and>
     (\<forall>name. on_the_loop w name \<noteq> Some [])"

definition watches_ok :: "'g world \<Rightarrow> bool" where
  "watches_ok w \<longleftrightarrow> (\<forall>vid r. watched w vid = Some r \<longleftrightarrow> map_of (n_volumes w) vid = Some r \<and> writeable (w_heap w r))"

definition armings_ok :: "'g outside \<Rightarrow> 'g world \<Rightarrow> bool" where
  "armings_ok out w \<longleftrightarrow> (\<forall>vid r. map_of (n_armings w) vid = Some r \<longleftrightarrow>
     o_cluster out \<and> map_of (n_staged w) vid = Some r \<and> writeable (w_heap w r))"

definition node_ok :: "'g outside \<Rightarrow> (string \<Rightarrow> bool) \<Rightarrow> 'g world \<Rightarrow> bool" where
  "node_ok out inl w \<longleftrightarrow> books_ok inl w \<and> loops_ok out w \<and> watches_ok w \<and> armings_ok out w"

subsection \<open>The bound of the calls\<close>

text \<open>A call of the kubelet may mount and allocate a volume besides what the loops' work may do.\<close>

definition seated :: "'g world \<Rightarrow> 'g world \<Rightarrow> bool" where
  "seated w w' \<longleftrightarrow> w_next w' = w_next w \<and> n_volumes w' = n_volumes w \<and> n_staged w' = n_staged w \<and>
     n_armings w' = n_armings w \<and> on_the_loop w' = on_the_loop w \<and>
     watched w' = watched w \<and> (\<forall>r. stable (w_heap w r) (w_heap w' r))"

interpretation seated: step_bound seated
  by unfold_locales (simp_all add: seated_def stable_def)

lemma seated_steady: "state_io_rel steady m \<Longrightarrow> state_io_rel seated m"
  by (simp add: state_io_rel_def steady_def seated_def moored_def)

lemma seated_mounts: "state_io_rel only_mounts m \<Longrightarrow> state_io_rel seated m"
proof -
  have "seated w w'" if "only_mounts w w'" for w w' :: "'g world"
  proof -
    have "w' = w\<lparr>w_mounts := w_mounts w', w_calls := w_calls w'\<rparr>" using that by (simp add: only_mounts_def)
    then obtain ms n where "w' = w\<lparr>w_mounts := ms, w_calls := n\<rparr>" by blast
    then show ?thesis by (simp add: seated_def on_the_loop_def[abs_def] watched_def[abs_def])
  qed
  then show "state_io_rel only_mounts m \<Longrightarrow> state_io_rel seated m"
    by (auto simp: state_io_rel_def)
qed

lemma seated_views:
  assumes "seated w w'"
  shows "held_at w' = held_at w" "reader w' = reader w" "joined w' = joined w" "on_the_loop w' = on_the_loop w"
    "watched w' = watched w" "n_volumes w' = n_volumes w" "n_staged w' = n_staged w" "n_armings w' = n_armings w"
    "w_next w' = w_next w" "v_id (w_heap w' r) = v_id (w_heap w r)" "v_kind (w_heap w' r) = v_kind (w_heap w r)"
    "v_attributes (w_heap w' r) = v_attributes (w_heap w r)" "writeable (w_heap w' r) = writeable (w_heap w r)"
    "loop_name out (w_heap w' r) = loop_name out (w_heap w r)" "v_staging (w_heap w' r) = v_staging (w_heap w r)"
  using assms
  by (simp_all add: seated_def held_at_def[abs_def] reader_def[abs_def] joined_def[abs_def] stable_def writeable_def
      loop_name_def url_of_def)

lemma seated_node: "seated w w' \<Longrightarrow> node_ok out inl w' = node_ok out inl w"
  by (simp add: node_ok_def books_ok_def loops_ok_def watches_ok_def armings_ok_def seated_views)

subsection \<open>Joining and leaving the loops\<close>

text \<open>Everything but the loops.\<close>

definition besides_loops :: "'g world \<Rightarrow> 'g world \<Rightarrow> bool" where
  "besides_loops w w' \<longleftrightarrow> w_next w' = w_next w \<and> n_volumes w' = n_volumes w \<and> n_staged w' = n_staged w \<and>
     n_armings w' = n_armings w \<and> watched w' = watched w \<and> w_heap w' = w_heap w"

lemma besides_loops_views:
  assumes "besides_loops w w'"
  shows "w_next w' = w_next w" "n_volumes w' = n_volumes w" "n_staged w' = n_staged w" "n_armings w' = n_armings w"
    "watched w' = watched w" "w_heap w' = w_heap w" "held_at w' = held_at w" "reader w' = reader w"
  using assms by (simp_all add: besides_loops_def held_at_def[abs_def] reader_def[abs_def])

lemma follow_joins:
  assumes "run_state (follow out r) w = (x, w')" and "\<forall>name. on_the_loop w name \<noteq> Some []"
  shows "besides_loops w w' \<and> (\<forall>name. on_the_loop w' name \<noteq> Some []) \<and>
    (\<forall>name vid. joined w' name vid =
       (if follows (a_pull (v_attributes (w_heap w r))) \<and> name = loop_name out (w_heap w r) \<and> vid = v_id (w_heap w r)
        then Some r else joined w name vid))"
  using assms
  by (auto simp: follow_def volume_at_def loop_at_def Let_def besides_loops_def watched_def[abs_def] on_the_loop_def
      joined_def map_of_set_entry add_volume_def nudge_def new_follower_def split: if_splits option.splits)
    (auto simp: set_entry_def)

lemma delete_entry_nil: "delete_entry k m = [] \<longleftrightarrow> (\<forall>x. x \<noteq> k \<longrightarrow> map_of m x = None)"
proof
  assume "delete_entry k m = []"
  then show "\<forall>x. x \<noteq> k \<longrightarrow> map_of m x = None" by (metis map_of.simps(1) map_of_delete_entry)
next
  assume "\<forall>x. x \<noteq> k \<longrightarrow> map_of m x = None"
  then have "\<forall>x. map_of (delete_entry k m) x = None" by (simp add: map_of_delete_entry)
  then have "map_of (delete_entry k m) = Map.empty" by (simp add: fun_eq_iff)
  then show "delete_entry k m = []" by simp
qed

lemma unfollow_leaves:
  assumes "run_state (unfollow out r) w = (x, w')" and "\<forall>name. on_the_loop w name \<noteq> Some []"
  shows "besides_loops w w' \<and> (\<forall>name. on_the_loop w' name \<noteq> Some []) \<and>
    (\<forall>name vid. joined w' name vid =
       (if follows (a_pull (v_attributes (w_heap w r))) \<and> name = loop_name out (w_heap w r) \<and> vid = v_id (w_heap w r)
        then None else joined w name vid))"
proof (cases "follows (a_pull (v_attributes (w_heap w r)))")
  case False
  with assms show ?thesis by (auto simp: unfollow_def volume_at_def besides_loops_def)
next
  case True
  show ?thesis
  proof (cases "map_of (n_followers w) (loop_name out (w_heap w r))")
    case None
    with True assms show ?thesis
      by (auto simp: unfollow_def volume_at_def besides_loops_def on_loop_def joined_def on_the_loop_def Let_def)
  next
    case (Some f)
    let ?members = "delete_entry (v_id (w_heap w r)) (fl_volumes f)"
    have "\<exists>loops. w' = w\<lparr>n_followers := loops\<rparr>"
      using True Some assms(1)
      by (auto simp: unfollow_def volume_at_def on_loop_def remove_volume_def nudge_def Let_def split: if_splits)
    then have same: "besides_loops w w'"
      by (auto simp: besides_loops_def watched_def[abs_def])
    have "on_the_loop w' name = (if name = loop_name out (w_heap w r) then if ?members = [] then None else Some ?members
        else on_the_loop w name)" for name
      using True Some assms(1)
      by (auto simp: unfollow_def volume_at_def on_loop_def remove_volume_def nudge_def Let_def on_the_loop_def
          map_of_set_entry map_of_delete_entry split: if_splits)
    then show ?thesis
      using same True Some assms(2)
      by (auto simp: joined_def on_the_loop_def map_of_delete_entry delete_entry_nil)
  qed
qed

subsection \<open>A volume that arrives\<close>

text \<open>A volume the node allocated and holds in no map yet.\<close>

definition arriving :: "'g outside \<Rightarrow> (string \<Rightarrow> bool) \<Rightarrow> string \<Rightarrow> volumeKind \<Rightarrow> nat \<Rightarrow> 'g world \<Rightarrow> bool" where
  "arriving out inl vid kind r w \<longleftrightarrow> node_ok out inl w \<and> r < w_next w \<and> v_id (w_heap w r) = vid \<and>
     v_kind (w_heap w r) = kind \<and> map_of (n_volumes w) vid = None \<and> map_of (n_staged w) vid = None"

lemma seated_arriving: "seated w w' \<Longrightarrow> arriving out inl vid kind r w' = arriving out inl vid kind r w"
  by (simp add: arriving_def seated_node seated_views)

lemma new_volume_arrives:
  assumes "node_ok out inl w" "v_id v = vid" "map_of (n_volumes w) vid = None" "map_of (n_staged w) vid = None"
    "run_state (new_volume v) w = (r, w')"
  shows "arriving out inl vid (v_kind v) r w'"
proof -
  have w': "w' = w\<lparr>w_heap := (w_heap w)(r := v), w_next := Suc r\<rparr>" and r: "r = w_next w"
    using assms(5) by (auto simp: new_volume_def)
  have books: "books_ok inl w" using assms(1) by (simp add: node_ok_def)
  have old: "q < r" if "held_at w x q" for x q
    using books that r by (auto simp: held_at_def books_ok_def)
  have same: "held_at w' = held_at w" "joined w' = joined w" "on_the_loop w' = on_the_loop w" "watched w' = watched w"
    "n_volumes w' = n_volumes w" "n_staged w' = n_staged w" "n_armings w' = n_armings w"
    by (simp_all add: w' held_at_def[abs_def] joined_def[abs_def] on_the_loop_def[abs_def] watched_def[abs_def])
  have heap: "w_heap w' q = w_heap w q" if "held_at w x q" for x q
    using old[OF that] by (simp add: w')
  have reader: "reader w' x q \<and> loop_name out (w_heap w' q) = name \<longleftrightarrow> reader w x q \<and> loop_name out (w_heap w q) = name" for x q name
    using heap by (auto simp: reader_def same)
  have v: "w_heap w' q = w_heap w q \<and> q < Suc r" if "map_of (n_volumes w) x = Some q" for x q
    using heap[of x q] old[of x q] that by (simp add: held_at_def less_Suc_eq)
  have s: "w_heap w' q = w_heap w q \<and> q < Suc r" if "map_of (n_staged w) x = Some q" for x q
    using heap[of x q] old[of x q] that by (simp add: held_at_def less_Suc_eq)
  have next_ref: "w_next w' = Suc r" by (simp add: w')
  have "books_ok inl w'"
    using books v s unfolding books_ok_def same next_ref by simp
  moreover have "loops_ok out w'"
    using assms(1) unfolding node_ok_def loops_ok_def same reader by blast
  moreover have "watches_ok w'"
    using assms(1) v unfolding node_ok_def watches_ok_def same by metis
  moreover have "armings_ok out w'"
    using assms(1) s unfolding node_ok_def armings_ok_def same by metis
  ultimately have "node_ok out inl w'" by (simp add: node_ok_def)
  then show ?thesis using assms(2-4) by (simp add: arriving_def same) (simp add: w')
qed

text \<open>Every held volume, by its handle.\<close>

lemma books_held:
  assumes "books_ok inl w" and "held_at w vid r"
  shows "r < w_next w" "v_id (w_heap w r) = vid" "(v_kind (w_heap w r) = inlineVolume) = inl vid"
  using assms by (auto simp: books_ok_def held_at_def)

lemma one_volume_per_handle:
  assumes "books_ok inl w" "held_at w vid r" "held_at w vid q" shows "q = r"
  using assms by (auto simp: books_ok_def held_at_def) (metis option.sel)+

lemma loops_admit:
  assumes "loops_ok out w" and "\<And>q. \<not> held_at w vid q" and "w_heap w' = w_heap w"
    and "\<And>x q. held_at w' x q \<longleftrightarrow> held_at w x q \<or> x = vid \<and> q = r"
    and "\<And>name x. joined w' name x =
       (if \<not> writeable (w_heap w r) \<and> follows (a_pull (v_attributes (w_heap w r))) \<and>
           name = loop_name out (w_heap w r) \<and> x = vid then Some r else joined w name x)"
    and "\<And>name. on_the_loop w' name \<noteq> Some []"
  shows "loops_ok out w'"
proof -
  have "joined w name x = Some q \<longleftrightarrow> reader w x q \<and> loop_name out (w_heap w q) = name" for name x q
    using assms(1) by (simp add: loops_ok_def)
  moreover have "\<not> reader w vid q" for q using assms(2) by (simp add: reader_def)
  moreover have "reader w' x q \<longleftrightarrow> reader w x q \<or> x = vid \<and> q = r \<and> \<not> writeable (w_heap w r) \<and>
      follows (a_pull (v_attributes (w_heap w r)))" for x q
    using assms(3,4) by (auto simp: reader_def)
  ultimately have "joined w' name x = Some q \<longleftrightarrow> reader w' x q \<and> loop_name out (w_heap w' q) = name" for name x q
    using assms(3,5) by auto
  with assms(6) show ?thesis by (simp add: loops_ok_def)
qed

lemma arriving_unheld: "arriving out inl vid kind r w \<Longrightarrow> \<not> held_at w vid q"
  by (simp add: arriving_def held_at_def)

text \<open>The three ways a volume is taken in.\<close>

lemma reader_joins:
  assumes "arriving out inl vid kind r w" "kind \<noteq> writeableVolume" "run_state (follow out r) v = (x, w')"
    and "w_heap v = w_heap w" "n_followers v = n_followers w"
    and "\<And>x q. held_at v x q \<longleftrightarrow> held_at w x q \<or> x = vid \<and> q = r"
  shows "besides_loops v w' \<and> loops_ok out w'"
proof -
  have ok: "loops_ok out w" and vid: "v_id (w_heap w r) = vid" "\<not> writeable (w_heap w r)"
    using assms(1,2) by (simp_all add: arriving_def node_ok_def writeable_def)
  have joined: "joined v = joined w" "on_the_loop v = on_the_loop w"
    using assms(5) by (simp_all add: joined_def[abs_def] on_the_loop_def[abs_def])
  have full: "\<forall>name. on_the_loop v name \<noteq> Some []" using ok by (simp add: loops_ok_def joined)
  note J = follow_joins[OF assms(3) full]
  then have "besides_loops v w'" by blast
  note same = besides_loops_views[OF this]
  have "loops_ok out w'"
  proof (rule loops_admit[OF ok arriving_unheld[OF assms(1)]])
    show "w_heap w' = w_heap w" "\<And>x q. held_at w' x q \<longleftrightarrow> held_at w x q \<or> x = vid \<and> q = r"
      by (simp_all add: same assms(4,6))
    show "joined w' name x = (if \<not> writeable (w_heap w r) \<and> follows (a_pull (v_attributes (w_heap w r))) \<and>
       name = loop_name out (w_heap w r) \<and> x = vid then Some r else joined w name x)" for name x
      using J vid by (simp add: joined assms(4))
    show "on_the_loop w' name \<noteq> Some []" for name using J by blast
  qed
  with J show ?thesis by blast
qed

lemma inline_taken_in:
  assumes "arriving out inl vid inlineVolume r w" "inl vid"
    and "run_state (do { modify (\<lambda>w. w\<lparr>n_volumes := set_entry vid r (n_volumes w)\<rparr>); follow out r }) w = (x, w')"
  shows "node_ok out inl w'"
proof -
  let ?v = "w\<lparr>n_volumes := set_entry vid r (n_volumes w)\<rparr>"
  have ok: "node_ok out inl w" "v_id (w_heap w r) = vid" "v_kind (w_heap w r) = inlineVolume" "r < w_next w"
    using assms(1) by (simp_all add: arriving_def)
  have held: "held_at ?v x q \<longleftrightarrow> held_at w x q \<or> x = vid \<and> q = r" for x q
    using arriving_unheld[OF assms(1), of q] by (auto simp: held_at_def map_of_set_entry)
  have "run_state (follow out r) ?v = (x, w')" using assms(3) by simp
  from reader_joins[OF assms(1) _ this _ _ held] have "besides_loops ?v w'" and loops: "loops_ok out w'" by auto
  note same = besides_loops_views[OF this(1)]
  have "books_ok inl w'"
    using ok assms(2) by (auto simp: node_ok_def books_ok_def same map_of_set_entry)
  moreover have "watches_ok w'"
    using ok arriving_unheld[OF assms(1)]
    by (auto simp: node_ok_def watches_ok_def same map_of_set_entry held_at_def writeable_def watched_def)
  moreover have "armings_ok out w'" using ok by (simp add: node_ok_def armings_ok_def same)
  ultimately show ?thesis using loops by (simp add: node_ok_def)
qed

lemma claim_taken_in:
  assumes "arriving out inl vid readOnlyClaim r w" "\<not> inl vid"
    and "run_state (do { modify (\<lambda>w. w\<lparr>n_staged := set_entry vid r (n_staged w)\<rparr>); follow out r }) w = (x, w')"
  shows "node_ok out inl w'"
proof -
  let ?v = "w\<lparr>n_staged := set_entry vid r (n_staged w)\<rparr>"
  have ok: "node_ok out inl w" "v_id (w_heap w r) = vid" "v_kind (w_heap w r) = readOnlyClaim" "r < w_next w"
    "map_of (n_volumes w) vid = None"
    using assms(1) by (simp_all add: arriving_def)
  have held: "held_at ?v x q \<longleftrightarrow> held_at w x q \<or> x = vid \<and> q = r" for x q
    using arriving_unheld[OF assms(1), of q] by (auto simp: held_at_def map_of_set_entry)
  have "run_state (follow out r) ?v = (x, w')" using assms(3) by simp
  from reader_joins[OF assms(1) _ this _ _ held] have "besides_loops ?v w'" and loops: "loops_ok out w'" by auto
  note same = besides_loops_views[OF this(1)]
  have "books_ok inl w'"
    using ok assms(2) by (auto simp: node_ok_def books_ok_def same map_of_set_entry)
  moreover have "watches_ok w'" using ok by (simp add: node_ok_def watches_ok_def same) (simp add: watched_def[abs_def])
  moreover have "armings_ok out w'"
    using ok arriving_unheld[OF assms(1)]
    by (auto simp: node_ok_def armings_ok_def same map_of_set_entry held_at_def writeable_def)
  ultimately show ?thesis using loops by (simp add: node_ok_def)
qed

lemma work_taken_in:
  assumes "arriving out inl vid writeableVolume r w" "\<not> inl vid"
    and "run_state (do { modify (\<lambda>w. w\<lparr>n_staged := set_entry vid r (n_staged w)\<rparr>); arm out r }) w = (x, w')"
  shows "node_ok out inl w'"
proof -
  have ok: "node_ok out inl w" and vid: "v_id (w_heap w r) = vid" "v_kind (w_heap w r) = writeableVolume" "r < w_next w"
    "map_of (n_volumes w) vid = None"
    using assms(1) by (simp_all add: arriving_def)
  have same: "w_next w' = w_next w" "n_volumes w' = n_volumes w" "n_staged w' = set_entry vid r (n_staged w)"
    "watched w' = watched w" "w_heap w' = w_heap w" "joined w' = joined w" "on_the_loop w' = on_the_loop w"
    and armings: "n_armings w' = (if o_cluster out then set_entry vid r (n_armings w) else n_armings w)"
    using assms(3) vid by (auto simp: arm_def volume_at_def joined_def[abs_def] on_the_loop_def[abs_def] watched_def[abs_def] split: if_splits)
  have held: "held_at w' x q \<longleftrightarrow> held_at w x q \<or> x = vid \<and> q = r" for x q
    using arriving_unheld[OF assms(1), of q] by (auto simp: held_at_def same map_of_set_entry)
  have writes: "writeable (w_heap w r)" using vid(2) by (simp add: writeable_def)
  have "loops_ok out w'"
  proof (rule loops_admit[OF _ arriving_unheld[OF assms(1)] same(5) held])
    show "loops_ok out w" using ok by (simp add: node_ok_def)
    show "joined w' name x = (if \<not> writeable (w_heap w r) \<and> follows (a_pull (v_attributes (w_heap w r))) \<and>
       name = loop_name out (w_heap w r) \<and> x = vid then Some r else joined w name x)" for name x
      using writes same by simp
    show "on_the_loop w' name \<noteq> Some []" for name using ok same by (simp add: node_ok_def loops_ok_def)
  qed
  moreover have "books_ok inl w'"
    using ok vid assms(2) by (auto simp: node_ok_def books_ok_def same map_of_set_entry)
  moreover have "watches_ok w'" using ok by (simp add: node_ok_def watches_ok_def same)
  moreover have "armings_ok out w'"
    using ok writes arriving_unheld[OF assms(1)] by (auto simp: node_ok_def armings_ok_def same armings map_of_set_entry held_at_def)
  ultimately show ?thesis by (simp add: node_ok_def)
qed

subsection \<open>A staged volume that is published\<close>

definition sits :: "'g outside \<Rightarrow> (string \<Rightarrow> bool) \<Rightarrow> string \<Rightarrow> volumeKind \<Rightarrow> nat \<Rightarrow> 'g world \<Rightarrow> bool" where
  "sits out inl vid kind r w \<longleftrightarrow> node_ok out inl w \<and> map_of (n_staged w) vid = Some r \<and> v_kind (w_heap w r) = kind"

lemma seated_sits: "seated w w' \<Longrightarrow> sits out inl vid kind r w' = sits out inl vid kind r w"
  by (simp add: sits_def seated_node seated_views)

text \<open>A published volume of a staged handle is the staged one, so publishing it again holds nothing new.\<close>

lemma published_is_staged:
  assumes "node_ok out inl w" "map_of (n_staged w) vid = Some r" "map_of (n_volumes w) vid = Some q" shows "q = r"
  using assms by (metis books_ok_def node_ok_def option.inject)

lemma held_again:
  assumes "sits out inl vid kind r w" "w_heap w' = w_heap w" "w_next w' = w_next w" "n_staged w' = n_staged w"
    "n_volumes w' = set_entry vid r (n_volumes w)" "joined w' = joined w" "on_the_loop w' = on_the_loop w"
    "n_armings w' = n_armings w"
  shows "books_ok inl w' \<and> loops_ok out w' \<and> armings_ok out w'"
proof -
  have ok: "node_ok out inl w" and staged: "map_of (n_staged w) vid = Some r" using assms(1) by (simp_all add: sits_def)
  have "held_at w' = held_at w"
    using staged published_is_staged[OF ok staged] by (auto simp: fun_eq_iff held_at_def assms map_of_set_entry)
  then have "reader w' = reader w" by (simp add: fun_eq_iff reader_def assms)
  then have "loops_ok out w'" using ok by (simp add: node_ok_def loops_ok_def assms)
  moreover have "books_ok inl w'" using ok staged by (auto simp: node_ok_def books_ok_def assms map_of_set_entry)
  moreover have "armings_ok out w'" using ok by (simp add: node_ok_def armings_ok_def assms)
  ultimately show ?thesis by simp
qed

lemma claim_published:
  assumes "sits out inl vid readOnlyClaim r w" and w': "w' = w\<lparr>n_volumes := set_entry vid r (n_volumes w)\<rparr>"
  shows "node_ok out inl w'"
proof -
  have "books_ok inl w' \<and> loops_ok out w' \<and> armings_ok out w'"
    by (rule held_again[OF assms(1)]) (simp_all add: w' joined_def[abs_def] on_the_loop_def[abs_def])
  moreover have "watches_ok w'"
    using assms(1) published_is_staged[of out inl w vid r]
    by (auto simp: sits_def node_ok_def watches_ok_def w' map_of_set_entry watched_def writeable_def)
  ultimately show ?thesis by (simp add: node_ok_def)
qed

lemma work_published:
  assumes "sits out inl vid writeableVolume r w"
    and "run_state (do { modify (\<lambda>w. w\<lparr>n_volumes := set_entry vid r (n_volumes w)\<rparr>); watch out r }) w = (x, w')"
  shows "node_ok out inl w'"
proof -
  have writes: "writeable (w_heap w r)" and vid: "v_id (w_heap w r) = vid" and ok: "node_ok out inl w"
    using assms(1) by (auto simp: sits_def writeable_def node_ok_def books_ok_def)
  have same: "w_heap w' = w_heap w" "w_next w' = w_next w" "n_staged w' = n_staged w" "n_followers w' = n_followers w"
    "n_volumes w' = set_entry vid r (n_volumes w)" "n_armings w' = n_armings w"
    and watched: "watched w' = (watched w)(vid \<mapsto> r)"
    using assms(2) writes vid
    by (auto simp: watch_def volume_at_def time_now_def watched_def map_of_set_entry fun_eq_iff)
  have "books_ok inl w' \<and> loops_ok out w' \<and> armings_ok out w'"
    by (rule held_again[OF assms(1)]) (simp_all add: same joined_def[abs_def] on_the_loop_def[abs_def])
  moreover have "watches_ok w'"
    using ok writes by (auto simp: node_ok_def watches_ok_def same watched map_of_set_entry)
  ultimately show ?thesis by (simp add: node_ok_def)
qed

subsection \<open>A volume that leaves\<close>

text \<open>A volume leaves its loop with the map that held it.\<close>

lemma loops_release:
  assumes "loops_ok out w" and "w_heap w' = w_heap w" and "\<And>x q. held_at w' x q \<longleftrightarrow> held_at w x q \<and> x \<noteq> vid"
    and "\<And>q. held_at w vid q \<Longrightarrow> q = r" and "v_id (w_heap w r) = vid"
    and "\<And>name x. joined w' name x =
       (if follows (a_pull (v_attributes (w_heap w r))) \<and> name = loop_name out (w_heap w r) \<and> x = vid
        then None else joined w name x)"
    and "\<And>name. on_the_loop w' name \<noteq> Some []"
  shows "loops_ok out w'"
proof -
  have J: "joined w name x = Some q \<longleftrightarrow> reader w x q \<and> loop_name out (w_heap w q) = name" for name x q
    using assms(1) by (simp add: loops_ok_def)
  have reader: "reader w' x q \<longleftrightarrow> reader w x q \<and> x \<noteq> vid" for x q
    using assms(2,3) by (auto simp: reader_def)
  have "joined w' name vid = None" for name
  proof (cases "joined w name vid")
    case (Some q)
    with J have "reader w vid q" "loop_name out (w_heap w q) = name" by auto
    with assms(4) have "follows (a_pull (v_attributes (w_heap w r)))" "name = loop_name out (w_heap w r)"
      by (auto simp: reader_def)
    then show ?thesis by (simp add: assms(6))
  qed (simp add: assms(6))
  then have "joined w' name x = Some q \<longleftrightarrow> reader w' x q \<and> loop_name out (w_heap w' q) = name" for name x q
    using J reader assms(2,6) by (cases "x = vid") auto
  with assms(7) show ?thesis by (simp add: loops_ok_def)
qed

lemma claim_unpublished:
  assumes "node_ok out inl w" "map_of (n_volumes w) vid = Some p" "v_kind (w_heap w p) = readOnlyClaim"
    and w': "w' = w\<lparr>n_volumes := delete_entry vid (n_volumes w)\<rparr>"
  shows "node_ok out inl w'"
proof -
  have staged: "map_of (n_staged w) vid = Some p"
    using assms(1-3) by (metis books_ok_def node_ok_def volumeKind.distinct(1))
  have "held_at w' = held_at w"
    using staged assms(2) by (auto simp: fun_eq_iff held_at_def w' map_of_delete_entry)
  then have "reader w' = reader w" by (simp add: fun_eq_iff reader_def w')
  moreover have "joined w' = joined w" "on_the_loop w' = on_the_loop w" "watched w' = watched w"
    by (simp_all add: w' joined_def[abs_def] on_the_loop_def[abs_def] watched_def[abs_def])
  ultimately show ?thesis
    using assms(1-3)
    by (auto simp: node_ok_def books_ok_def loops_ok_def watches_ok_def armings_ok_def w' map_of_delete_entry writeable_def)
qed

lemma volume_unpublished:
  assumes "node_ok out inl w" "map_of (n_volumes w) vid = Some p" "v_kind (w_heap w p) \<noteq> readOnlyClaim"
    and "run_state (do { modify (\<lambda>w. w\<lparr>n_volumes := delete_entry vid (n_volumes w)\<rparr>); unfollow out p; unwatch p }) w = (x, w')"
  shows "node_ok out inl w'"
proof -
  let ?v = "w\<lparr>n_volumes := delete_entry vid (n_volumes w)\<rparr>"
  have books: "books_ok inl w" and loops: "loops_ok out w" using assms(1) by (simp_all add: node_ok_def)
  have vid: "v_id (w_heap w p) = vid" "(v_kind (w_heap w p) = inlineVolume) = inl vid"
    "inl vid \<or> map_of (n_staged w) vid = Some p" "inl vid \<longrightarrow> map_of (n_staged w) vid = None"
    using books assms(2) by (auto simp: books_ok_def)
  have one: "q = p" if "held_at w vid q" for q
    using one_volume_per_handle[OF books _ that, of p] assms(2) by (simp add: held_at_def)
  have joined: "joined ?v = joined w" "on_the_loop ?v = on_the_loop w" "watched ?v = watched w"
    by (simp_all add: joined_def[abs_def] on_the_loop_def[abs_def] watched_def[abs_def])
  have full: "\<forall>name. on_the_loop ?v name \<noteq> Some []" using loops by (simp add: loops_ok_def joined)
  obtain u where u: "run_state (unfollow out p) ?v = ((), u)" by (metis (full_types) old.unit.exhaust surj_pair)
  note J = unfollow_leaves[OF u full]
  then have "besides_loops ?v u" by blast
  note same = besides_loops_views[OF this]
  have w': "w' = u\<lparr>n_watchers := delete_entry vid (n_watchers u)\<rparr>"
    using assms(4) u vid(1) by (simp add: unwatch_def volume_at_def same)
  have views: "held_at w' = held_at u" "reader w' = reader u" "joined w' = joined u" "on_the_loop w' = on_the_loop u"
    "w_heap w' = w_heap w" "w_next w' = w_next w" "n_staged w' = n_staged w" "n_armings w' = n_armings w"
    "n_volumes w' = delete_entry vid (n_volumes w)" "watched w' = (watched w)(vid := None)"
    by (simp_all add: w' same held_at_def[abs_def] reader_def[abs_def] joined_def[abs_def] on_the_loop_def[abs_def])
      (simp add: watched_def fun_eq_iff map_of_delete_entry, use same(5) joined in \<open>auto simp: watched_def fun_eq_iff\<close>)
  have leaves: "joined w' name x = (if follows (a_pull (v_attributes (w_heap w p))) \<and> name = loop_name out (w_heap w p) \<and> x = vid
        then None else joined w name x)" for name x
    using J vid(1) by (simp add: views joined)
  have nonempty: "on_the_loop w' name \<noteq> Some []" for name using J by (simp add: views)
  have "loops_ok out w'"
  proof (cases "inl vid")
    case True
    then have "held_at w' x q \<longleftrightarrow> held_at w x q \<and> x \<noteq> vid" for x q
      using vid(4) by (auto simp: held_at_def views same map_of_delete_entry)
    from loops_release[OF loops views(5) this one vid(1) leaves nonempty] show ?thesis .
  next
    case False
    with vid have staged: "map_of (n_staged w) vid = Some p" and writes: "writeable (w_heap w p)"
      using assms(3) by (auto simp: writeable_def) (metis volumeKind.exhaust)
    have "held_at w' = held_at w"
      using staged assms(2) by (auto simp: fun_eq_iff held_at_def views same map_of_delete_entry)
    then have reader: "reader w' = reader w" by (simp add: fun_eq_iff reader_def views same(6))
    have "joined w name vid = None" for name
    proof (cases "joined w name vid")
      case (Some q)
      with loops have "reader w vid q" by (simp add: loops_ok_def)
      with one writes show ?thesis by (auto simp: reader_def)
    qed
    with leaves have "joined w' name x = joined w name x" for name x by simp
    with loops nonempty show ?thesis by (simp add: loops_ok_def reader views)
  qed
  moreover have "books_ok inl w'" using books by (auto simp: books_ok_def views map_of_delete_entry)
  moreover have "watches_ok w'" using assms(1) by (auto simp: node_ok_def watches_ok_def views map_of_delete_entry)
  moreover have "armings_ok out w'" using assms(1) by (simp add: node_ok_def armings_ok_def views)
  ultimately show ?thesis by (simp add: node_ok_def)
qed

lemma claim_unstaged:
  assumes "sits out inl vid readOnlyClaim r w"
    and "run_state (do { modify (\<lambda>w. w\<lparr>n_staged := delete_entry vid (n_staged w)\<rparr>); unfollow out r;
       modify (\<lambda>w. w\<lparr>n_volumes := delete_entry vid (n_volumes w)\<rparr>) }) w = (x, w')"
  shows "node_ok out inl w'"
proof -
  let ?v = "w\<lparr>n_staged := delete_entry vid (n_staged w)\<rparr>"
  have ok: "node_ok out inl w" and staged: "map_of (n_staged w) vid = Some r" and kind: "\<not> writeable (w_heap w r)"
    using assms(1) by (simp_all add: sits_def writeable_def)
  have books: "books_ok inl w" and loops: "loops_ok out w" using ok by (simp_all add: node_ok_def)
  have vid: "v_id (w_heap w r) = vid" "\<not> inl vid" using books staged by (auto simp: books_ok_def)
  have one: "q = r" if "held_at w vid q" for q
    using one_volume_per_handle[OF books _ that, of r] staged by (simp add: held_at_def)
  have joined: "joined ?v = joined w" "on_the_loop ?v = on_the_loop w" "watched ?v = watched w"
    by (simp_all add: joined_def[abs_def] on_the_loop_def[abs_def] watched_def[abs_def])
  have full: "\<forall>name. on_the_loop ?v name \<noteq> Some []" using loops by (simp add: loops_ok_def joined)
  obtain u where u: "run_state (unfollow out r) ?v = ((), u)" by (metis (full_types) old.unit.exhaust surj_pair)
  note J = unfollow_leaves[OF u full]
  then have "besides_loops ?v u" by blast
  note same = besides_loops_views[OF this]
  have w': "w' = u\<lparr>n_volumes := delete_entry vid (n_volumes u)\<rparr>" using assms(2) u by simp
  have views: "joined w' = joined u" "on_the_loop w' = on_the_loop u" "w_heap w' = w_heap w" "w_next w' = w_next w"
    "n_staged w' = delete_entry vid (n_staged w)" "n_armings w' = n_armings w" "n_volumes w' = delete_entry vid (n_volumes w)"
    "watched w' = watched u"
    by (simp_all add: w' same joined_def[abs_def] on_the_loop_def[abs_def] watched_def[abs_def])
  have held: "held_at w' x q \<longleftrightarrow> held_at w x q \<and> x \<noteq> vid" for x q
    by (auto simp: held_at_def views map_of_delete_entry)
  have "joined w' name x = (if follows (a_pull (v_attributes (w_heap w r))) \<and> name = loop_name out (w_heap w r) \<and> x = vid
        then None else joined w name x)" and "on_the_loop w' name \<noteq> Some []" for name x
    using J vid(1) by (simp_all add: views joined)
  from loops_release[OF loops views(3) held one vid(1) this] have "loops_ok out w'" .
  moreover have "books_ok inl w'" using books by (auto simp: books_ok_def views map_of_delete_entry)
  moreover have "watches_ok w'"
    using ok kind published_is_staged[OF ok staged]
    by (auto simp: node_ok_def watches_ok_def views same joined map_of_delete_entry)
  moreover have "armings_ok out w'"
    using ok kind staged by (auto simp: node_ok_def armings_ok_def views map_of_delete_entry)
  ultimately show ?thesis by (simp add: node_ok_def)
qed

text \<open>A work tree that leaves is armed until its last push is done.\<close>

definition leaving :: "'g outside \<Rightarrow> (string \<Rightarrow> bool) \<Rightarrow> string \<Rightarrow> nat \<Rightarrow> 'g world \<Rightarrow> bool" where
  "leaving out inl vid r w \<longleftrightarrow> books_ok inl w \<and> loops_ok out w \<and> watches_ok w \<and> v_id (w_heap w r) = vid \<and>
     map_of (n_staged w) vid = None \<and>
     (\<forall>x q. map_of (n_armings w) x = Some q \<longleftrightarrow> o_cluster out \<and>
        (map_of (n_staged w) x = Some q \<and> writeable (w_heap w q) \<or> x = vid \<and> q = r))"

lemma seated_leaving: "seated w w' \<Longrightarrow> leaving out inl vid r w' = leaving out inl vid r w"
  by (simp add: leaving_def books_ok_def loops_ok_def watches_ok_def seated_views)

lemma work_leaves:
  assumes "sits out inl vid writeableVolume r w" "map_of (n_volumes w) vid = None"
    and w': "w' = w\<lparr>n_staged := delete_entry vid (n_staged w)\<rparr>"
  shows "leaving out inl vid r w'"
proof -
  have ok: "node_ok out inl w" and staged: "map_of (n_staged w) vid = Some r" and writes: "writeable (w_heap w r)"
    using assms(1) by (simp_all add: sits_def writeable_def)
  have "reader w' = reader w"
    using staged writes assms(2) by (auto simp: fun_eq_iff reader_def held_at_def w' map_of_delete_entry)
  moreover have "joined w' = joined w" "on_the_loop w' = on_the_loop w" "watched w' = watched w"
    by (simp_all add: w' joined_def[abs_def] on_the_loop_def[abs_def] watched_def[abs_def])
  moreover have "books_ok inl w'"
    using ok assms(2) by (auto simp: node_ok_def books_ok_def w' map_of_delete_entry)
  ultimately show ?thesis
    using ok staged writes
    by (auto simp: leaving_def node_ok_def books_ok_def loops_ok_def watches_ok_def armings_ok_def w' map_of_delete_entry)
qed

lemma work_disarmed:
  assumes "leaving out inl vid r w" "run_state (disarm r) w = (x, w')"
  shows "node_ok out inl w'"
proof -
  have vid: "v_id (w_heap w r) = vid" using assms(1) by (simp add: leaving_def)
  have same: "w_heap w' = w_heap w" "w_next w' = w_next w" "n_staged w' = n_staged w" "n_followers w' = n_followers w"
    "n_volumes w' = n_volumes w" "n_watchers w' = n_watchers w"
    and armings: "map_of (n_armings w') = (map_of (n_armings w))(vid := None)"
    using assms(2) vid
    by (auto simp: disarm_def volume_at_def metric_call_def map_of_delete_entry fun_eq_iff split: option.splits)
  have "held_at w' = held_at w" "joined w' = joined w" "on_the_loop w' = on_the_loop w" "watched w' = watched w"
    by (simp_all add: same held_at_def[abs_def] joined_def[abs_def] on_the_loop_def[abs_def] watched_def[abs_def])
  moreover have "reader w' = reader w" using calculation(1) by (simp add: fun_eq_iff reader_def same)
  ultimately show ?thesis
    using assms(1)
    by (auto simp: leaving_def node_ok_def books_ok_def loops_ok_def watches_ok_def armings_ok_def same armings)
qed

end
