(* ===== verification/NodeCalls.thy ===== *)
theory NodeCalls
  imports NodeLaws PushLaws
begin

section \<open>Every call keeps the node's books\<close>

text \<open>
  The calls of the kubelet, the resume and the work of the loops, each from any state whose books are in
  order. A step is one of them as a whole; the runs are all their sequences.
\<close>

subsection \<open>Rules for the calls\<close>

lemma triple_gets: "(\<And>x. triple (\<lambda>s. P s \<and> f s = x) (k x) Q) \<Longrightarrow> triple P (gets f \<bind> k) Q"
  by (simp add: triple_def)

lemma triple_volume: "(\<And>x. triple (\<lambda>s. P s \<and> w_heap s r = x) (k x) Q) \<Longrightarrow> triple P (volume_at r \<bind> k) Q"
  by (simp add: triple_def volume_at_def)

lemma triple_seated:
  "state_io_rel seated m \<Longrightarrow> (\<And>w w'. seated w w' \<Longrightarrow> P w' = P w) \<Longrightarrow> triple P m (\<lambda>x. P)"
  by (auto simp: triple_def state_io_rel_def)

lemma triple_first:
  "state_io_rel seated m \<Longrightarrow> (\<And>w w'. seated w w' \<Longrightarrow> P w' = P w) \<Longrightarrow> (\<And>x. triple P (k x) Q) \<Longrightarrow> triple P (m \<bind> k) Q"
  by (rule triple_bind[OF triple_seated])

text \<open>Two changes the node makes under its lock, and what follows them.\<close>

lemma triple_block:
  assumes "\<And>w x w'. P w \<Longrightarrow> run_state (do { a; b }) w = (x, w') \<Longrightarrow> R w'" and "triple R k Q"
  shows "triple P (do { a; b; k }) Q"
proof -
  have "triple P (do { a; b }) (\<lambda>x. R)" unfolding triple_def by (metis assms(1) prod.collapse)
  from triple_bind[OF this assms(2)] have "triple P ((do { a; b }) \<bind> (\<lambda>x. k)) Q" .
  then show ?thesis by (simp add: triple_def case_prod_beta)
qed

lemma triple_option:
  "(e = None \<Longrightarrow> triple P m Q) \<Longrightarrow> (\<And>x. e = Some x \<Longrightarrow> triple P (k x) Q) \<Longrightarrow>
   triple P (case e of None \<Rightarrow> m | Some x \<Rightarrow> k x) Q"
  by (cases e) simp_all

lemma seated_unless:
  "state_io_rel seated m \<Longrightarrow> state_io_rel seated k \<Longrightarrow> state_io_rel seated (unless_internal m k)"
  "state_io_rel seated m' \<Longrightarrow> state_io_rel seated k \<Longrightarrow> state_io_rel seated (unless_refused m' k)"
  unfolding unless_internal_def unless_refused_def by (intro seated.bounds; simp)+

lemma triple_unless_internal:
  "state_io_rel seated m \<Longrightarrow> (\<And>w w'. seated w w' \<Longrightarrow> P w' = P w) \<Longrightarrow> (\<And>w. P w \<Longrightarrow> Q w) \<Longrightarrow> triple P k (\<lambda>x. Q) \<Longrightarrow>
   triple P (unless_internal m k) (\<lambda>x. Q)"
  unfolding unless_internal_def by (rule triple_first, assumption, assumption) (auto split: option.split simp: triple_def)

lemma triple_unless_refused:
  "state_io_rel seated m \<Longrightarrow> (\<And>w w'. seated w w' \<Longrightarrow> P w' = P w) \<Longrightarrow> (\<And>w. P w \<Longrightarrow> Q w) \<Longrightarrow> triple P k (\<lambda>x. Q) \<Longrightarrow>
   triple P (unless_refused m k) (\<lambda>x. Q)"
  unfolding unless_refused_def by (rule triple_first, assumption, assumption) (auto split: option.split simp: triple_def)

lemma triple_unless_status:
  "(\<And>w. P w \<Longrightarrow> Q w) \<Longrightarrow> triple P k (\<lambda>x. Q) \<Longrightarrow> triple P (unless_status failed k) (\<lambda>x. Q)"
  by (auto simp: unless_status_def triple_def split: option.split)

lemma seated_records:
  "state_io_rel seated (write_record out r)"
  "state_io_rel seated (forget_record out r)"
  "state_io_rel seated (readRecord out p)"
  "state_io_rel seated (markUnstaged out r)"
  unfolding write_record_def forget_record_def readRecord_def markUnstaged_def
  by (intro seated.bounds untouched_ops[THEN steady_untouched, THEN seated_steady])+

lemmas seated_rules = seated.bounds seated_unless seated_records untouched_ops[THEN steady_untouched, THEN seated_steady]
  only_mounts_ops[THEN seated_mounts] steady_stage[THEN seated_steady] steady_stageTree[THEN seated_steady]
  steady_reports_of_a_stage[THEN seated_steady] steady_secrets[THEN seated_steady] steady_demands[THEN seated_steady]
  steady_demand[THEN seated_steady] steady_health[THEN seated_steady] steady_pushes[THEN seated_steady]
  steady_commit[THEN seated_steady] steady_change[THEN seated_steady] steady_on[THEN seated_steady] moored_reports

lemma seated_change: "(\<And>v. stable v (f v)) \<Longrightarrow> state_io_rel seated (change_volume r f)"
  by (simp add: state_io_rel_def seated_def change_volume_def on_the_loop_def[abs_def] watched_def[abs_def])

lemma seated_target: "state_io_rel seated (change_volume r (\<lambda>v. v\<lparr>v_target := t, v_context := c\<rparr>))"
  by (rule seated_change) (simp add: stable_def)

lemma seated_publish: "state_io_rel seated (publish out r)"
  unfolding publish_def bind_at_def by (intro seated_rules)

lemma run_pair: obtains x w' where "run_state m w = (x, w')"
  by (cases "run_state m w")

text \<open>The predicates the calls carry through the work below them.\<close>

lemmas carried_views = seated_node seated_arriving seated_sits seated_leaving seated_views

lemma first_arriving:
  "state_io_rel seated m \<Longrightarrow> (\<And>x. triple (arriving out inl vid kind r) (k x) Q) \<Longrightarrow> triple (arriving out inl vid kind r) (m \<bind> k) Q"
  by (rule triple_first) (simp_all add: seated_arriving)

lemma first_sits:
  "state_io_rel seated m \<Longrightarrow> (\<And>x. triple (sits out inl vid kind r) (k x) Q) \<Longrightarrow> triple (sits out inl vid kind r) (m \<bind> k) Q"
  by (rule triple_first) (simp_all add: seated_sits)

lemma triple_node: "state_io_rel seated m \<Longrightarrow> (\<And>w. P w \<Longrightarrow> node_ok out inl w) \<Longrightarrow> triple P m (\<lambda>x. node_ok out inl)"
  by (rule triple_bound[where R = seated]) (auto dest: seated_node)

lemma node_of: "arriving out inl vid kind r w \<Longrightarrow> node_ok out inl w" "sits out inl vid kind r w \<Longrightarrow> node_ok out inl w"
  by (simp_all add: arriving_def sits_def)

subsection \<open>Publishing\<close>

lemma publish_inline_keeps:
  assumes "inl (req_volume_id request)"
  shows "triple (node_ok out inl) (publish_inline out request parsed holder) (\<lambda>x. node_ok out inl)"
proof -
  let ?vid = "req_volume_id request" and ?ok = "node_ok out inl"
  let ?new = "(zero_volume ?vid parsed inlineVolume (volumeDir out ?vid))
           \<lparr>v_credentials := holder, v_target := req_target_path request,
            v_context := req_context request, v_pod := a_pod parsed\<rparr>"
  let ?tail = "\<lambda>r failed. case failed of
           Some err \<Rightarrow> do {
             refused out (a_pod parsed) err;
             _ \<leftarrow> RemoveAll out (volumeDir out ?vid);
             return (Some err)
           }
         | None \<Rightarrow> do {
             write_record out r;
             modify (\<lambda>w. w\<lparr>n_volumes := set_entry ?vid r (n_volumes w)\<rparr>);
             follow out r;
             return None
           }"
  let ?fresh = "do { r \<leftarrow> new_volume ?new; failed \<leftarrow> publish out r; ?tail r failed }"
  have tail: "triple (arriving out inl ?vid inlineVolume r) (?tail r failed) (\<lambda>x. ?ok)" for r failed
  proof (cases failed)
    case None
    have "triple (arriving out inl ?vid inlineVolume r) (do { write_record out r;
        modify (\<lambda>w. w\<lparr>n_volumes := set_entry ?vid r (n_volumes w)\<rparr>); follow out r; return None }) (\<lambda>x. ?ok)"
      by (rule first_arriving[OF seated_records(1)], rule triple_block[OF inline_taken_in triple_return]) (use assms in auto)
    then show ?thesis by (simp add: None)
  next
    case (Some err)
    have "state_io_rel seated (do { refused out (a_pod parsed) err; _ \<leftarrow> RemoveAll out (volumeDir out ?vid); return (Some err) })"
      by (intro seated_rules)
    from triple_node[OF this node_of(1)] show ?thesis by (simp add: Some)
  qed
  have arrives: "triple (\<lambda>w. ?ok w \<and> map_of (n_volumes w) ?vid = None) (new_volume ?new) (arriving out inl ?vid inlineVolume)"
  proof -
    have "map_of (n_staged w) ?vid = None" if "?ok w" for w
      using that assms by (cases "map_of (n_staged w) ?vid") (auto simp: node_ok_def books_ok_def)
    then show ?thesis
      using new_volume_arrives[of out inl _ ?new ?vid] by (auto simp: triple_def zero_volume_def)
  qed
  have fresh: "triple (\<lambda>w. ?ok w \<and> map_of (n_volumes w) ?vid = None) ?fresh (\<lambda>x. ?ok)"
    by (rule triple_bind[OF arrives], rule first_arriving[OF seated_publish], rule tail)
  have again: "triple ?ok (do { published \<leftarrow> volume_at p;
           if v_target published \<noteq> req_target_path request
           then return (Some (published_elsewhere ?vid (v_target published)))
           else do { _ \<leftarrow> republished out p holder; return None } }) (\<lambda>x. ?ok)" for p
    by (rule triple_node) (intro seated_rules)
  show ?thesis
    unfolding publish_inline_def Let_def
  proof (rule triple_gets)
    fix found
    show "triple (\<lambda>s. ?ok s \<and> map_of (n_volumes s) ?vid = found) (case found of
       Some p \<Rightarrow> do { published \<leftarrow> volume_at p;
           if v_target published \<noteq> req_target_path request
           then return (Some (published_elsewhere ?vid (v_target published)))
           else do { _ \<leftarrow> republished out p holder; return None } }
     | None \<Rightarrow> ?fresh) (\<lambda>x. ?ok)"
      by (rule triple_option) (use fresh again in \<open>auto intro: triple_weaken\<close>)
  qed
qed

lemma sits_volume:
  assumes "\<And>x. v_id x = vid \<Longrightarrow> v_kind x = kind \<Longrightarrow> triple (sits out inl vid kind r) (k x) Q"
  shows "triple (sits out inl vid kind r) (volume_at r \<bind> k) Q"
  using assms by (auto simp: triple_def volume_at_def sits_def node_ok_def books_ok_def)

lemma unless_sits:
  "state_io_rel seated m \<Longrightarrow> triple (sits out inl vid kind r) k (\<lambda>x. node_ok out inl) \<Longrightarrow>
   triple (sits out inl vid kind r) (unless_internal m k) (\<lambda>x. node_ok out inl)"
  by (rule triple_unless_internal) (simp_all add: seated_sits node_of(2))

lemma bind_sits:
  assumes "state_io_rel seated attach" and "triple (sits out inl vid kind r) k (\<lambda>x. node_ok out inl)"
  shows "triple (sits out inl vid kind r) (bind_at out target attach k) (\<lambda>x. node_ok out inl)"
  unfolding bind_at_def
  by (intro unless_sits seated_rules assms)

lemma publishReadOnly_keeps:
  "triple (sits out inl vid readOnlyClaim r) (publishReadOnly out r request parsed holder) (\<lambda>x. node_ok out inl)"
proof -
  let ?P = "sits out inl vid readOnlyClaim r" and ?Q = "\<lambda>x. node_ok out inl"
  let ?target = "req_target_path request"
  let ?changes = "do { change_volume r (bind_target ?target (a_pod parsed)); _ \<leftarrow> takeSecret out r holder; write_record out r;
      modify (\<lambda>w. w\<lparr>n_volumes := set_entry vid r (n_volumes w)\<rparr>); return None }"
  have modified: "triple ?P (do { modify (\<lambda>w. w\<lparr>n_volumes := set_entry vid r (n_volumes w)\<rparr>); return None }) ?Q"
    using claim_published[of out inl vid r] by (simp add: triple_def)
  have changes: "triple ?P ?changes ?Q"
    by (intro first_sits seated_rules modified)
  have again: "triple ?P (do { _ \<leftarrow> republished out r holder; return None }) ?Q"
    by (intro triple_node seated_rules node_of(2))
  show ?thesis
    unfolding publishReadOnly_def Let_def
    by (intro triple_if sits_volume again triple_unless_status bind_sits seated_rules)
      (auto simp: triple_return node_of(2) changes)
qed

lemma publish_writeable_keeps:
  assumes "vid = req_volume_id request"
  shows "triple (sits out inl vid writeableVolume r) (publish_writeable out r request parsed holder) (\<lambda>x. node_ok out inl)"
proof -
  let ?P = "sits out inl vid writeableVolume r" and ?Q = "\<lambda>x. node_ok out inl"
  let ?target = "req_target_path request"
  have published: "triple ?P (do { modify (\<lambda>w. w\<lparr>n_volumes := set_entry vid r (n_volumes w)\<rparr>); watch out r; return None }) ?Q"
    by (rule triple_block[OF work_published triple_return])
  have changes: "triple ?P (do { change_volume r (\<lambda>v. v\<lparr>v_target := ?target, v_context := req_context request\<rparr>);
      write_record out r; modify (\<lambda>w. w\<lparr>n_volumes := set_entry vid r (n_volumes w)\<rparr>); watch out r; return None }) ?Q"
    by (intro first_sits seated_target seated_rules published)
  show ?thesis
    unfolding publish_writeable_def Let_def assms[symmetric]
    by (intro sits_volume triple_unless_status node_of(2) first_sits seated_rules bind_sits changes)
qed

lemma staged_kind:
  assumes "node_ok out inl w" "map_of (n_staged w) vid = Some r" "v_kind (w_heap w r) \<noteq> readOnlyClaim"
  shows "sits out inl vid writeableVolume r w"
proof -
  have "v_kind (w_heap w r) \<noteq> inlineVolume" using assms by (simp add: node_ok_def books_ok_def)
  with assms show ?thesis by (cases "v_kind (w_heap w r)") (simp_all add: sits_def)
qed

lemma publishStaged_keeps: "triple (node_ok out inl) (publishStaged out request parsed holder) (\<lambda>x. node_ok out inl)"
proof -
  let ?vid = "req_volume_id request" and ?Q = "\<lambda>x. node_ok out inl"
  let ?claim = "\<lambda>r. do { answer \<leftarrow> publishReadOnly out r request parsed holder;
          case answer of None \<Rightarrow> return None
          | Some err \<Rightarrow> do { err \<leftarrow> refusedClaim out r err; return (Some err) } }"
  let ?again = "\<lambda>p. do { published \<leftarrow> volume_at p;
             if v_target published \<noteq> req_target_path request
             then return (Some (published_elsewhere ?vid (v_target published)))
             else do { _ \<leftarrow> republished out p holder; return None } }"
  let ?work = "\<lambda>r standing. case standing of Some p \<Rightarrow> ?again p | None \<Rightarrow> publish_writeable out r request parsed holder"
  have claim: "triple (sits out inl ?vid readOnlyClaim r) (?claim r) ?Q" for r
  proof (rule triple_bind[OF publishReadOnly_keeps])
    fix answer :: "status option"
    show "triple (?Q answer) (case answer of None \<Rightarrow> return None
          | Some err \<Rightarrow> do { err \<leftarrow> refusedClaim out r err; return (Some err) }) ?Q"
      by (intro triple_option triple_node seated_rules)
  qed
  have work: "triple (sits out inl ?vid writeableVolume r) (?work r standing) ?Q" for r standing
    by (intro triple_option triple_node seated_rules node_of(2) publish_writeable_keeps refl)
  have body: "triple (\<lambda>w. (node_ok out inl w \<and> map_of (n_staged w) ?vid = Some r))
     (do { staged \<leftarrow> volume_at r; if v_kind staged = readOnlyClaim then ?claim r else ?work r standing }) ?Q" for r standing
  proof (rule triple_volume, rule triple_if)
    fix x :: volume assume "v_kind x = readOnlyClaim"
    then show "triple (\<lambda>s. (node_ok out inl s \<and> map_of (n_staged s) ?vid = Some r) \<and> w_heap s r = x) (?claim r) ?Q"
      by (intro triple_pre[OF claim]) (auto simp: sits_def)
  next
    fix x :: volume assume "v_kind x \<noteq> readOnlyClaim"
    then show "triple (\<lambda>s. (node_ok out inl s \<and> map_of (n_staged s) ?vid = Some r) \<and> w_heap s r = x) (?work r standing) ?Q"
      by (intro triple_pre[OF work]) (auto intro: staged_kind)
  qed
  show ?thesis
    unfolding publishStaged_def Let_def
  proof (rule triple_gets, rule triple_gets, rule triple_option)
    fix standing and found :: "nat option"
    show "triple (\<lambda>s. (node_ok out inl s \<and> map_of (n_staged s) ?vid = found) \<and> map_of (n_volumes s) ?vid = standing)
      (return (Some (Status FailedPrecondition (Fmt ''volume_id: %s is not staged on this node'' [AStr ?vid])))) ?Q"
      by (rule triple_return) simp
    fix r assume "found = Some r"
    then show "triple (\<lambda>s. (node_ok out inl s \<and> map_of (n_staged s) ?vid = found) \<and> map_of (n_volumes s) ?vid = standing)
      (do { staged \<leftarrow> volume_at r; if v_kind staged = readOnlyClaim then ?claim r else ?work r standing }) ?Q"
      by (intro triple_pre[OF body]) auto
  qed
qed

text \<open>A publish says whether it is of an inline volume, and the kubelet makes up the handles of those.\<close>

definition addressed :: "(string \<Rightarrow> bool) \<Rightarrow> publishRequest \<Rightarrow> bool" where
  "addressed inl request = (case parseAttributes request of Inl err \<Rightarrow> True
     | Inr parsed \<Rightarrow> a_ephemeral parsed = inl (req_volume_id request))"

lemma NodePublishVolume_keeps:
  assumes "addressed inl request"
  shows "triple (node_ok out inl) (NodePublishVolume out request) (\<lambda>x. node_ok out inl)"
proof -
  let ?ok = "node_ok out inl"
  have refused: "triple ?ok (do { refused out pod err; return (Some err) }) (\<lambda>x. ?ok)" for pod err
    by (intro triple_node seated_rules)
  have staged: "triple ?ok (do { failed \<leftarrow> publishStaged out request parsed holder;
      case failed of None \<Rightarrow> return None | Some err \<Rightarrow> do { refused out pod err; return (Some err) } }) (\<lambda>x. ?ok)"
    for parsed holder pod
  proof (rule triple_bind[OF publishStaged_keeps])
    fix failed :: "status option"
    show "triple ?ok (case failed of None \<Rightarrow> return None | Some err \<Rightarrow> do { refused out pod err; return (Some err) }) (\<lambda>x. ?ok)"
      by (intro triple_option triple_node seated_rules)
  qed
  have parsed: "triple ?ok (case parseCredentials (req_secrets request) of
             Inl err \<Rightarrow> do { refused out (a_pod parsed) err; return (Some err) }
           | Inr holder \<Rightarrow>
               if \<not> a_ephemeral parsed then do {
                 failed \<leftarrow> publishStaged out request parsed holder;
                 case failed of None \<Rightarrow> return None
                 | Some err \<Rightarrow> do { refused out (a_pod parsed) err; return (Some err) }
               }
               else publish_inline out request parsed holder) (\<lambda>x. ?ok)" if "parseAttributes request = Inr parsed" for parsed
    using assms that refused staged publish_inline_keeps[of inl request]
    by (auto simp: addressed_def split: sum.split)
  show ?thesis
    unfolding NodePublishVolume_def
    by (intro triple_unless_status) (use refused parsed in \<open>auto split: sum.split\<close>)
qed

subsection \<open>Unpublishing\<close>

lemma let_go_keeps:
  "triple (\<lambda>w. node_ok out inl w \<and> map_of (n_volumes w) vid = Some p) (let_go out vid target p) (\<lambda>x. node_ok out inl)"
proof -
  let ?P = "\<lambda>w. node_ok out inl w \<and> map_of (n_volumes w) vid = Some p" and ?Q = "\<lambda>x. node_ok out inl"
  have claim: "triple (\<lambda>w. ?P w \<and> v_kind (w_heap w p) = readOnlyClaim)
      (do { left \<leftarrow> on_volume p (unbind_target target);
            if left = 0 then modify (\<lambda>w. w\<lparr>n_volumes := delete_entry vid (n_volumes w)\<rparr>) else return () }) ?Q"
    by (rule triple_first, intro seated_rules, simp add: carried_views)
      (auto simp: triple_def intro: claim_unpublished)
  have gone: "triple (\<lambda>w. ?P w \<and> v_kind (w_heap w p) \<noteq> readOnlyClaim)
      (do { modify (\<lambda>w. w\<lparr>n_volumes := delete_entry vid (n_volumes w)\<rparr>); unfollow out p; unwatch p }) ?Q"
    by (rule tripleI, rule volume_unpublished) auto
  show ?thesis
    unfolding let_go_def
  proof (rule triple_volume, rule triple_if)
    fix x :: volume assume "v_kind x = readOnlyClaim"
    then show "triple (\<lambda>s. ?P s \<and> w_heap s p = x)
      (do { left \<leftarrow> on_volume p (unbind_target target);
            if left = 0 then modify (\<lambda>w. w\<lparr>n_volumes := delete_entry vid (n_volumes w)\<rparr>) else return () }) ?Q"
      by (intro triple_pre[OF claim]) auto
  next
    fix x :: volume assume "v_kind x \<noteq> readOnlyClaim"
    then show "triple (\<lambda>s. ?P s \<and> w_heap s p = x)
      (do { modify (\<lambda>w. w\<lparr>n_volumes := delete_entry vid (n_volumes w)\<rparr>); unfollow out p; unwatch p }) ?Q"
      by (intro triple_pre[OF gone]) auto
  qed
qed

lemma seated_after_unmount: "state_io_rel seated (after_unmount out p)"
  unfolding after_unmount_def last_work_def by (intro seated_rules)

lemma NodeUnpublishVolume_keeps: "triple (node_ok out inl) (NodeUnpublishVolume out vid target) (\<lambda>x. node_ok out inl)"
proof -
  let ?ok = "node_ok out inl"
  have tail: "triple ?ok (unless_internal (unbind out target) (unless_internal (RemoveAll out (read_path target))
      (case found of None \<Rightarrow> return None | Some p \<Rightarrow> after_unmount out p))) (\<lambda>x. ?ok)" for found
    by (intro triple_node seated_rules seated_after_unmount)
  have gone: "triple (\<lambda>w. ?ok w \<and> map_of (n_volumes w) vid = found)
      (case found of None \<Rightarrow> return () | Some p \<Rightarrow> let_go out vid target p) (\<lambda>x. ?ok)" for found
    using let_go_keeps[of out inl vid _ target] by (auto split: option.split simp: triple_def)
  show ?thesis
    unfolding NodeUnpublishVolume_def
    by (intro triple_if triple_gets triple_bind[OF gone tail]) (simp_all add: triple_return)
qed

subsection \<open>Staging\<close>

lemma stage_arrives:
  assumes "\<not> inl vid" "v_id v = vid"
  shows "triple (\<lambda>w. node_ok out inl w \<and> map_of (n_staged w) vid = None) (new_volume v) (arriving out inl vid (v_kind v))"
proof -
  have "map_of (n_volumes w) vid = None" if "node_ok out inl w" "map_of (n_staged w) vid = None" for w
  proof -
    have "\<forall>q. map_of (n_volumes w) vid = Some q \<longrightarrow> inl vid \<or> map_of (n_staged w) vid = Some q"
      using that(1) by (simp add: node_ok_def books_ok_def)
    with that(2) assms(1) show ?thesis by (cases "map_of (n_volumes w) vid") auto
  qed
  then show ?thesis using new_volume_arrives[of out inl _ v vid] assms(2) by (auto simp: triple_def)
qed

lemma stageReadOnly_keeps:
  assumes "vid = sr_volume_id request" "\<not> inl vid"
  shows "triple (\<lambda>w. node_ok out inl w \<and> map_of (n_staged w) vid = None) (stageReadOnly out request parsed holder) (\<lambda>x. node_ok out inl)"
proof -
  let ?P = "\<lambda>r. arriving out inl vid readOnlyClaim r" and ?Q = "\<lambda>x. node_ok out inl"
  have new: "triple (\<lambda>w. node_ok out inl w \<and> map_of (n_staged w) vid = None)
      (new_volume ((zero_volume vid parsed readOnlyClaim (volumeDir out vid))
       \<lparr>v_credentials := holder, v_staging := sr_staging request, v_context := sr_context request\<rparr>)) ?P"
    using stage_arrives[where inl = inl and vid = vid, OF assms(2), where v = "(zero_volume vid parsed readOnlyClaim (volumeDir out vid))
       \<lparr>v_credentials := holder, v_staging := sr_staging request, v_context := sr_context request\<rparr>"]
    by (simp add: zero_volume_def)
  have rest: "state_io_rel seated (do { arrived out vid; return None })" by (intro seated_rules)
  have taken: "triple (?P r) (do { modify (\<lambda>w. w\<lparr>n_staged := set_entry vid r (n_staged w)\<rparr>); follow out r;
      arrived out vid; return None }) ?Q" for r
    by (rule triple_block[OF claim_taken_in triple_node[OF rest]]) (use assms(2) in auto)
  show ?thesis
    unfolding stageReadOnly_def Let_def assms(1)[symmetric] refused_stage_def
    by (rule triple_bind[OF new])
      (intro first_arriving triple_option triple_node seated_rules node_of(1) taken)
qed

lemma stage_writeable_keeps:
  assumes "vid = sr_volume_id request" "\<not> inl vid"
  shows "triple (\<lambda>w. node_ok out inl w \<and> map_of (n_staged w) vid = None) (stage_writeable out request parsed holder) (\<lambda>x. node_ok out inl)"
proof -
  let ?P = "\<lambda>r. arriving out inl vid writeableVolume r" and ?Q = "\<lambda>x. node_ok out inl"
  let ?new = "(zero_volume vid parsed writeableVolume (volumeDir out vid))
         \<lparr>v_credentials := holder, v_work := Some (workTree_of out (repository_of out (a_url parsed)) vid),
          v_staging := sr_staging request, v_context := sr_context request\<rparr>"
  have new: "triple (\<lambda>w. node_ok out inl w \<and> map_of (n_staged w) vid = None) (new_volume ?new) ?P"
    using stage_arrives[where inl = inl and vid = vid, OF assms(2), where v = ?new] by (simp add: zero_volume_def)
  have rest: "state_io_rel seated (do { arrived out vid; return None })" by (intro seated_rules)
  have taken: "triple (?P r) (do { modify (\<lambda>w. w\<lparr>n_staged := set_entry vid r (n_staged w)\<rparr>); arm out r;
      arrived out vid; return None }) ?Q" for r
    by (rule triple_block[OF work_taken_in triple_node[OF rest]]) (use assms(2) in auto)
  have staged: "triple (?P r) (unless_refused (stageTree out r repo) (do { noteHealth out r;
      modify (\<lambda>w. w\<lparr>n_staged := set_entry vid r (n_staged w)\<rparr>); arm out r; arrived out vid; return None })) ?Q" for r repo
    by (rule triple_unless_refused) (intro seated_rules, simp_all add: seated_arriving node_of(1), intro first_arriving seated_rules taken)
  show ?thesis
    unfolding stage_writeable_def Let_def assms(1)[symmetric]
    by (rule triple_unless_internal)
      (intro seated_rules, simp add: carried_views, simp, rule triple_bind[OF new staged])
qed

lemma NodeStageVolume_keeps:
  assumes "\<not> inl (sr_volume_id request)"
  shows "triple (node_ok out inl) (NodeStageVolume out request) (\<lambda>x. node_ok out inl)"
proof -
  let ?ok = "node_ok out inl" and ?vid = "sr_volume_id request"
  have again: "triple P (do { staged \<leftarrow> volume_at r; return (f staged) }) (\<lambda>x. ?ok)" if "\<And>w. P w \<Longrightarrow> ?ok w" for P r and f :: "volume \<Rightarrow> 'b"
    using that by (intro triple_node seated_rules)
  have body: "triple ?ok (do { found \<leftarrow> gets (\<lambda>w. map_of (n_staged w) ?vid);
       case found of
         Some r \<Rightarrow> do { staged \<leftarrow> volume_at r;
           return (if v_staging staged \<noteq> sr_staging request
             then Some (Status FailedPrecondition (Fmt ''volume_id: %s is staged at %s'' [AStr ?vid, AStr (v_staging staged)]))
             else None) }
       | None \<Rightarrow> if kind = readOnlyClaim then stageReadOnly out request parsed holder
                 else stage_writeable out request parsed holder }) (\<lambda>x. ?ok)" for kind parsed holder
    by (intro triple_gets triple_option triple_if again)
      (auto intro: triple_pre[OF stageReadOnly_keeps[where inl = inl, OF refl assms]] triple_pre[OF stage_writeable_keeps[where inl = inl, OF refl assms]])
  show ?thesis
    unfolding NodeStageVolume_def Let_def
    by (intro triple_unless_status) (use body in \<open>auto split: sum.split simp: triple_return\<close>)
qed

subsection \<open>Unstaging\<close>

lemma unstageReadOnly_keeps:
  "triple (sits out inl vid readOnlyClaim r)
     (do { modify (\<lambda>w. w\<lparr>n_staged := delete_entry vid (n_staged w)\<rparr>); unstageReadOnly out r }) (\<lambda>x. node_ok out inl)"
proof (rule tripleI)
  fix w w' :: "'a world" and x
  assume P: "sits out inl vid readOnlyClaim r w"
    and run: "run_state (do { modify (\<lambda>w. w\<lparr>n_staged := delete_entry vid (n_staged w)\<rparr>); unstageReadOnly out r }) w = (x, w')"
  let ?v = "w\<lparr>n_staged := delete_entry vid (n_staged w)\<rparr>"
  obtain u where u: "run_state (unfollow out r) ?v = ((), u)" by (metis (full_types) old.unit.exhaust surj_pair)
  have full: "\<forall>name. on_the_loop ?v name \<noteq> Some []"
    using P by (simp add: sits_def node_ok_def loops_ok_def on_the_loop_def)
  have heap: "w_heap u = w_heap w" using unfollow_leaves[OF u full] by (simp add: besides_loops_def)
  have vid: "v_id (w_heap w r) = vid" using P by (simp add: sits_def node_ok_def books_ok_def)
  let ?u = "u\<lparr>n_volumes := delete_entry vid (n_volumes u)\<rparr>"
  have ok: "node_ok out inl ?u" by (rule claim_unstaged[OF P]) (simp add: u)
  let ?rest = "do { metric_call (Forgotten (w_heap w r)); _ \<leftarrow> RemoveAll out (v_directory (w_heap w r)); return () }"
  have "state_io_rel seated ?rest" by (intro seated_rules)
  moreover have "run_state ?rest ?u = (x, w')"
    using run u by (simp add: unstageReadOnly_def volume_at_def heap vid)
  ultimately have "seated ?u w'" unfolding state_io_rel_def by (metis snd_conv)
  with ok show "node_ok out inl w'" by (simp add: seated_node)
qed

lemma leaving_work_keeps:
  "triple (leaving out inl vid r) (do { push_now_or_report out r; markUnstaged out r; disarm r }) (\<lambda>x. node_ok out inl)"
proof -
  have first: "triple (leaving out inl vid r) (m \<bind> k) Q" if "state_io_rel seated m" "\<And>x. triple (leaving out inl vid r) (k x) Q"
    for m :: "('a, 'b) io" and k :: "'b \<Rightarrow> ('a, 'c) io" and Q
    by (rule triple_first[OF that(1) _ that(2)]) (simp add: seated_leaving)
  show ?thesis
    by (intro first seated_rules tripleI) (rule work_disarmed)
qed

lemma NodeUnstageVolume_keeps:
  "triple (\<lambda>w. node_ok out inl w \<and> map_of (n_volumes w) vid = None) (NodeUnstageVolume out vid staging) (\<lambda>x. node_ok out inl)"
proof -
  let ?P = "\<lambda>w. node_ok out inl w \<and> map_of (n_volumes w) vid = None" and ?Q = "\<lambda>x. node_ok out inl"
  let ?gone = "\<lambda>w. w\<lparr>n_staged := delete_entry vid (n_staged w)\<rparr>"
  let ?drop = "modify ?gone"
  let ?claim = "\<lambda>r. unstageReadOnly out r"
  let ?work = "\<lambda>r. do { push_now_or_report out r; markUnstaged out r; disarm r }"
  have kinds: "triple (\<lambda>w. ?P w \<and> map_of (n_staged w) vid = Some r) (do { ?drop; unstage_kind out r }) ?Q" for r
  proof (rule tripleI)
    fix w w' :: "'a world" and x
    assume P: "?P w \<and> map_of (n_staged w) vid = Some r" and run: "run_state (do { ?drop; unstage_kind out r }) w = (x, w')"
    show "?Q x w'"
    proof (cases "v_kind (w_heap w r) = readOnlyClaim")
      case True
      with P have "sits out inl vid readOnlyClaim r w" by (simp add: sits_def)
      moreover have "run_state (do { ?drop; ?claim r }) w = (x, w')"
        using run True by (simp add: unstage_kind_def volume_at_def writeable_def)
      ultimately show ?thesis by (rule tripleD[OF unstageReadOnly_keeps])
    next
      case False
      with P have sits: "sits out inl vid writeableVolume r w" by (intro staged_kind) auto
      have "leaving out inl vid r (?gone w)" using work_leaves[OF sits] P by blast
      moreover have "run_state (?work r) (?gone w) = (x, w')"
        using run sits by (simp add: unstage_kind_def volume_at_def writeable_def sits_def)
      ultimately show ?thesis by (rule tripleD[OF leaving_work_keeps])
    qed
  qed
  have gone: "triple (\<lambda>w. ?P w \<and> map_of (n_staged w) vid = found)
     (case found of None \<Rightarrow> return () | Some r \<Rightarrow> do { ?drop; unstage_kind out r }) ?Q" for found
  proof (cases found)
    case None
    then show ?thesis by (simp add: triple_def)
  next
    case (Some r)
    with kinds[of r] show ?thesis by simp
  qed
  have ended: "triple (\<lambda>w. ?P w \<and> map_of (n_staged w) vid = found)
     (do { (case found of None \<Rightarrow> return () | Some r \<Rightarrow> do { ?drop; unstage_kind out r }); return None }) ?Q" for found
    by (rule triple_bind[OF gone]) (simp add: triple_return_iff)
  show ?thesis
    unfolding NodeUnstageVolume_def by (intro triple_if triple_gets ended) (simp_all add: triple_return_iff)
qed

subsection \<open>Resuming\<close>

text \<open>
  A resume puts the volume in the published volumes first and in the staged ones later. \<open>resuming\<close> is
  a state in between: without the first entry its books are in order.
\<close>

definition resuming :: "'g outside \<Rightarrow> (string \<Rightarrow> bool) \<Rightarrow> string \<Rightarrow> volumeKind \<Rightarrow> nat \<Rightarrow> (string \<times> nat) list \<Rightarrow> 'g world \<Rightarrow> bool" where
  "resuming out inl vid kind r before w \<longleftrightarrow> arriving out inl vid kind r (w\<lparr>n_volumes := before\<rparr>) \<and>
     n_volumes w = set_entry vid r before"

lemma seated_resuming:
  assumes "seated w w'" shows "resuming out inl vid kind r before w' = resuming out inl vid kind r before w"
proof -
  have "seated (w\<lparr>n_volumes := before\<rparr>) (w'\<lparr>n_volumes := before\<rparr>)"
    using assms by (simp add: seated_def on_the_loop_def[abs_def] watched_def[abs_def])
  with assms show ?thesis by (simp add: resuming_def seated_arriving seated_views(6))
qed

lemma first_resuming:
  "state_io_rel seated m \<Longrightarrow> (\<And>x. triple (resuming out inl vid kind r before) (k x) Q) \<Longrightarrow>
   triple (resuming out inl vid kind r before) (m \<bind> k) Q"
  by (rule triple_first) (simp_all add: seated_resuming)

lemma follow_apart:
  "run_state (follow out r) (w\<lparr>n_volumes := vs\<rparr>) = (case run_state (follow out r) w of (x, w') \<Rightarrow> (x, w'\<lparr>n_volumes := vs\<rparr>))"
  by (simp add: follow_def volume_at_def loop_at_def Let_def)

lemma reader_resumed:
  assumes "resuming out inl vid kind r before w" "kind \<noteq> writeableVolume" "inl vid = (kind = inlineVolume)"
    and "run_state (do { (if kind = readOnlyClaim then modify (\<lambda>w. w\<lparr>n_staged := set_entry vid r (n_staged w)\<rparr>) else return ());
      follow out r }) w = (x, w')"
  shows "node_ok out inl w'"
proof -
  let ?old = "w\<lparr>n_volumes := before\<rparr>"
  have P: "arriving out inl vid kind r ?old" and vs: "n_volumes w = set_entry vid r before"
    using assms(1) by (simp_all add: resuming_def)
  show ?thesis
  proof (cases "kind = readOnlyClaim")
    case False
    then have inline: "kind = inlineVolume" using assms(2) by (cases kind) simp_all
    have "run_state (do { modify (\<lambda>w. w\<lparr>n_volumes := set_entry vid r (n_volumes w)\<rparr>); follow out r }) ?old = (x, w')"
      using assms(4) False by (simp flip: vs)
    with P inline assms(3) show ?thesis by (auto intro: inline_taken_in)
  next
    case True
    let ?staged = "\<lambda>w. w\<lparr>n_staged := set_entry vid r (n_staged w)\<rparr>"
    obtain y u where u: "run_state (do { modify ?staged; follow out r }) ?old = (y, u)" by (rule run_pair)
    have ok: "node_ok out inl u" using claim_taken_in[OF _ _ u] P True assms(3) by simp
    have full: "\<forall>name. on_the_loop (?staged ?old) name \<noteq> Some []"
      using P by (simp add: arriving_def node_ok_def loops_ok_def on_the_loop_def)
    have u': "run_state (follow out r) (?staged ?old) = (y, u)" using u by simp
    from follow_joins[OF this full] have same: "n_volumes u = before" "n_staged u = set_entry vid r (n_staged w)" "w_heap u = w_heap w"
      by (simp_all add: besides_loops_def)
    have "sits out inl vid readOnlyClaim r u"
      using ok P True by (simp add: sits_def same map_of_set_entry arriving_def)
    moreover have "w' = u\<lparr>n_volumes := set_entry vid r (n_volumes u)\<rparr>"
    proof -
      have "?staged w = (?staged ?old)\<lparr>n_volumes := set_entry vid r before\<rparr>" by (simp flip: vs)
      then have "run_state (follow out r) (?staged w) = (y, u\<lparr>n_volumes := set_entry vid r before\<rparr>)"
        by (simp only: follow_apart u' prod.case)
      then show ?thesis using assms(4) True same(1) by simp
    qed
    ultimately show ?thesis by (rule claim_published)
  qed
qed

lemma work_resumed:
  assumes "resuming out inl vid writeableVolume r before w" "\<not> inl vid"
    and "run_state (do { modify (\<lambda>w. w\<lparr>n_staged := set_entry vid r (n_staged w)\<rparr>); arm out r; watch out r }) w = (x, w')"
  shows "node_ok out inl w'"
proof -
  let ?old = "w\<lparr>n_volumes := before\<rparr>" and ?staged = "\<lambda>w. w\<lparr>n_staged := set_entry vid r (n_staged w)\<rparr>"
  have P: "arriving out inl vid writeableVolume r ?old" and vs: "n_volumes w = set_entry vid r before"
    using assms(1) by (simp_all add: resuming_def)
  obtain y u where u: "run_state (do { modify ?staged; arm out r }) ?old = (y, u)" by (rule run_pair)
  have ok: "node_ok out inl u" using work_taken_in[OF P assms(2) u] .
  have same: "n_volumes u = before" "n_staged u = set_entry vid r (n_staged w)" "w_heap u = w_heap w"
    using u by (auto simp: arm_def volume_at_def split: if_splits)
  have sits: "sits out inl vid writeableVolume r u"
    using ok P by (simp add: sits_def same map_of_set_entry arriving_def)
  have "run_state (arm out r) (?staged w) = (y, u\<lparr>n_volumes := set_entry vid r before\<rparr>)"
    using u by (auto simp: arm_def volume_at_def vs[symmetric] split: if_splits)
  then have "run_state (watch out r) (u\<lparr>n_volumes := set_entry vid r before\<rparr>) = (x, w')"
    using assms(3) by simp
  then have "run_state (do { modify (\<lambda>w. w\<lparr>n_volumes := set_entry vid r (n_volumes w)\<rparr>); watch out r }) u = (x, w')"
    by (simp add: same(1))
  with sits show ?thesis by (rule work_published)
qed

lemma resume_loops_keeps:
  assumes "rc_VolumeID held = vid" "inl vid = (record_kind held = inlineVolume)"
  shows "triple (arriving out inl vid (record_kind held) r) (resume_loops out held parsed r) (\<lambda>x. node_ok out inl)"
proof (rule tripleI)
  fix w w' :: "'a world" and x
  let ?kind = "record_kind held" and ?Q = "\<lambda>x. node_ok out inl" and ?before = "n_volumes w"
  let ?w = "w\<lparr>n_volumes := set_entry vid r (n_volumes w)\<rparr>"
  let ?P = "resuming out inl vid ?kind r ?before"
  assume arriving: "arriving out inl vid ?kind r w" and run: "run_state (resume_loops out held parsed r) w = (x, w')"
  have P: "?P ?w" using arriving by (simp add: resuming_def)
  let ?pull = "if rc_Credentials held then return () else resumePull out r"
  have pull: "state_io_rel seated ?pull" by (intro seated_rules)
  show "?Q x w'"
  proof (cases "?kind = writeableVolume")
    case False
    let ?join = "do { (if ?kind = readOnlyClaim then modify (\<lambda>w. w\<lparr>n_staged := set_entry vid r (n_staged w)\<rparr>) else return ());
      follow out r }"
    have join: "triple ?P ?join ?Q"
      by (rule tripleI, rule reader_resumed) (use False assms(2) in auto)
    have "triple ?P (do { ?join; ?pull }) ?Q"
      by (rule triple_bind[OF join triple_node[OF pull]]) simp
    moreover note P
    moreover have "run_state (do { ?join; ?pull }) ?w = (x, w')"
      using run False assms(1) by (cases ?kind) (simp_all add: resume_loops_def resume_reader_def)
    ultimately show ?thesis by (rule tripleD)
  next
    case True
    let ?work = "workTree_of out (repository_of out (a_url parsed)) vid"
    let ?read = "do { change_volume r (\<lambda>v. v\<lparr>v_work := Some ?work\<rparr>);
        head \<leftarrow> head_commit out ?work;
        (case head of Inl err \<Rightarrow> return () | Inr tip \<Rightarrow> change_volume r (\<lambda>v. v\<lparr>v_commit := tip\<rparr>)) }"
    let ?take = "do { modify (\<lambda>w. w\<lparr>n_staged := set_entry vid r (n_staged w)\<rparr>); arm out r; watch out r }"
    have "state_io_rel steady ?read"
      by (intro steady_rules) (simp_all add: moored_def stable_def)
    then have read: "state_io_rel seated ?read" by (rule seated_steady)
    have take: "triple ?P ?take ?Q"
      by (rule tripleI, rule work_resumed) (use True assms(2) in auto)
    have "triple ?P (do { ?read; ?take }) ?Q" by (rule first_resuming[OF read take])
    moreover note P
    moreover have "run_state (do { ?read; ?take }) ?w = (x, w')"
      using run True assms(1) by (simp add: resume_loops_def Let_def case_prod_beta)
    ultimately show ?thesis by (rule tripleD)
  qed
qed

lemma resumeOne_keeps:
  assumes "inl (rc_VolumeID held) = (record_kind held = inlineVolume)"
  shows "triple (\<lambda>w. node_ok out inl w \<and> map_of (n_volumes w) (rc_VolumeID held) = None \<and> map_of (n_staged w) (rc_VolumeID held) = None)
    (resumeOne out held directory mounted) (\<lambda>x. node_ok out inl)"
proof (cases "parseVolumeContext (rc_Attributes held)")
  case (Inl err)
  then show ?thesis by (simp add: resumeOne_def triple_return_iff)
next
  case (Inr parsed)
  let ?vid = "rc_VolumeID held" and ?P = "\<lambda>w. node_ok out inl w \<and> map_of (n_volumes w) (rc_VolumeID held) = None \<and> map_of (n_staged w) (rc_VolumeID held) = None"
  let ?A = "arriving out inl ?vid (record_kind held)"
  have first: "triple ?P (placedCommit out directory \<bind> k) Q" if "\<And>x. triple ?P (k x) Q" for k :: "string \<Rightarrow> ('a, 'b) io" and Q
    by (rule triple_first[OF _ _ that]) (intro silent_placing[THEN steady_untouched, THEN seated_steady], simp add: carried_views)
  have new: "triple ?P (new_volume (resumed_volume held parsed directory placed)) ?A" for placed
  proof (rule tripleI)
    fix w w' :: "'a world" and r
    assume P: "?P w" and run: "run_state (new_volume (resumed_volume held parsed directory placed)) w = (r, w')"
    have v: "v_id (resumed_volume held parsed directory placed) = ?vid" "v_kind (resumed_volume held parsed directory placed) = record_kind held"
      by (simp_all add: resumed_volume_def zero_volume_def loseCredential_def Let_def)
    from new_volume_arrives[OF _ v(1) _ _ run] P v(2) show "?A r w'" by auto
  qed
  have noted: "state_io_rel seated (for_each (\<lambda>target. change_volume r (bind_target target no_pod)) mounted)" for r
    by (intro seated_rules)
  show ?thesis
    unfolding resumeOne_def Inr sum.case
    by (intro first triple_bind[OF new] first_arriving seated_rules noted resume_loops_keeps refl assms)
qed

end
