(* ===== verification/Sweep.thy ===== *)
theory Sweep
  imports Node PushLaws
begin

section \<open>The sweep (\<open>sweep.go\<close>)\<close>

text \<open>
  A timed pass that removes the work trees nothing stages, then the repositories no tree and no volume
  names, then the refs nothing follows, and measures what is left.
\<close>

definition defaultSweepAfter :: duration where "defaultSweepAfter = 720 * hour"
definition reasonSwept :: string where "reasonSwept = ''GitVolumeSwept''"

subsection \<open>Work trees\<close>

definition unstagedAt :: "'g outside \<Rightarrow> path \<Rightarrow> ('g, time option) io" where
  "unstagedAt out directory = do {
     content \<leftarrow> ReadFile out (join_path directory unstagedFile);
     return (case content of Inl err \<Rightarrow> None | Inr text \<Rightarrow> o_parse_time out (trimLine text))
   }"

definition node_holds :: "string \<Rightarrow> ('g, bool) io" where
  "node_holds vid = gets (\<lambda>w. map_of (n_staged w) vid \<noteq> None \<or> map_of (n_volumes w) vid \<noteq> None)"

definition abandon :: "'g outside \<Rightarrow> workTree \<Rightarrow> string \<Rightarrow> time \<Rightarrow> ('g, unit) io" where
  "abandon out work vid at = do {
     url \<leftarrow> originURL out work;
     if url = [] then return ()
     else modify (\<lambda>w. w\<lparr>n_abandoned := set_entry url \<lparr>ab_id = vid, ab_unstaged = at\<rparr> (n_abandoned w)\<rparr>)
   }"

definition swept :: "'g outside \<Rightarrow> string \<Rightarrow> time \<Rightarrow> ('g, unit) io" where
  "swept out vid at =
     (if \<not> o_cluster out then return ()
      else do {
        claim \<leftarrow> claimOf out vid;
        case claim of Inl err \<Rightarrow> return () | Inr claim \<Rightarrow> do {
          now \<leftarrow> time_now out;
          postClaim out claim Normal reasonSwept
            (Fmt ''swept: the work tree was unstaged %s ago and held nothing unpushed'' [AMsg (age now at)])
        }
      })"

text \<open>What a tree's own refs and config say of its work: the commit, whether a push sent it, the side branch.\<close>

definition sweep_old_tree ::
    "'g outside \<Rightarrow> workTree \<Rightarrow> string \<Rightarrow> time \<Rightarrow> (string \<times> time) list \<Rightarrow> ('g, (string \<times> time) list) io" where
  "sweep_old_tree out work vid at kept = do {
     head \<leftarrow> refCommit out work ''HEAD'';
     if head = [] then return kept
     else do {
       mark \<leftarrow> refCommit out work pushedRef;
       unsent \<leftarrow> (if mark \<noteq> head then return True
                 else do { branch \<leftarrow> divergedBranch out work; return (branch \<noteq> []) });
       if unsent then do { abandon out work vid at; return (set_entry vid at kept) }
       else do {
         failed \<leftarrow> RemoveAll out (w_directory work);
         if failed \<noteq> None then return kept
         else do { swept out vid at; return kept }
       }
     }
   }"

definition sweepVolume :: "'g outside \<Rightarrow> string \<Rightarrow> (string \<times> time) list \<Rightarrow> ('g, (string \<times> time) list) io" where
  "sweepVolume out vid kept = do {
     held \<leftarrow> node_holds vid;
     if held then return kept
     else do {
       let work = tree_of out vid;
       there \<leftarrow> work_exists out work;
       if \<not> there then return kept
       else do {
         found \<leftarrow> unstagedAt out (w_directory work);
         case found of None \<Rightarrow> return kept
         | Some at \<Rightarrow> do {
             now \<leftarrow> time_now out;
             if now - at \<le> o_sweepAfter out then return kept
             else sweep_old_tree out work vid at kept
           }
       }
     }
   }"

primrec sweep_each :: "'g outside \<Rightarrow> string list \<Rightarrow> (string \<times> time) list \<Rightarrow> ('g, (string \<times> time) list) io" where
  "sweep_each out [] kept = return kept"
| "sweep_each out (entry # entries) kept = do { kept \<leftarrow> sweepVolume out entry kept; sweep_each out entries kept }"

definition sweepVolumes :: "'g outside \<Rightarrow> ('g, unit) io" where
  "sweepVolumes out = do {
     entries \<leftarrow> ReadDir out (join_path (o_store out) ''volumes'');
     case entries of Inl err \<Rightarrow> return () | Inr entries \<Rightarrow> do {
       kept \<leftarrow> sweep_each out entries [];
       modify (\<lambda>w. w\<lparr>n_kept := kept\<rparr>)
     }
   }"

subsection \<open>Repositories and refs\<close>

text \<open>The volumes the node has published or staged.\<close>

definition held_volumes :: "'g world \<Rightarrow> volume list" where
  "held_volumes w = map (w_heap w \<circ> snd) (n_volumes w @ n_staged w)"

definition repository_dir :: "'g outside \<Rightarrow> string \<Rightarrow> path" where
  "repository_dir out url = r_dir (repository_of out url)"

definition volume_entries :: "'g outside \<Rightarrow> ('g, string list) io" where
  "volume_entries out = do {
     entries \<leftarrow> ReadDir out (join_path (o_store out) ''volumes'');
     return (case entries of Inl err \<Rightarrow> [] | Inr entries \<Rightarrow> entries)
   }"

primrec any_alternate :: "'g outside \<Rightarrow> path \<Rightarrow> string list \<Rightarrow> ('g, bool) io" where
  "any_alternate out dir [] = return False"
| "any_alternate out dir (entry # entries) = do {
     bare \<leftarrow> alternate out (tree_of out entry);
     if bare = Some dir then return True else any_alternate out dir entries
   }"

definition usesRepository :: "'g outside \<Rightarrow> path \<Rightarrow> ('g, bool) io" where
  "usesRepository out dir = do {
     held \<leftarrow> gets held_volumes;
     if list_ex (\<lambda>v. repository_dir out (url_of v) = dir) held then return True
     else do { entries \<leftarrow> volume_entries out; any_alternate out dir entries }
   }"

text \<open>The ref one volume directory follows: by its record, and by the HEAD of its work tree.\<close>

definition recorded_ref :: "'g outside \<Rightarrow> path \<Rightarrow> volumeRecord option \<Rightarrow> string list" where
  "recorded_ref out dir held =
     (case held of None \<Rightarrow> []
      | Some held \<Rightarrow> (case parseVolumeContext (rc_Attributes held) of Inl err \<Rightarrow> []
          | Inr parsed \<Rightarrow> if repository_dir out (a_url parsed) = dir then [refPrefix @ a_ref parsed] else []))"

definition followedInStore :: "'g outside \<Rightarrow> path \<Rightarrow> string \<Rightarrow> ('g, string list) io" where
  "followedInStore out dir vid = do {
     held \<leftarrow> readRecord out (join_path (volumeDir out vid) recordFile);
     let work = tree_of out vid;
     bare \<leftarrow> alternate out work;
     if bare \<noteq> Some dir then return (recorded_ref out dir held)
     else do {
       ref \<leftarrow> followedRef out work;
       return (recorded_ref out dir held @ (if ref \<noteq> [] then [refPrefix @ ref] else []))
     }
   }"

definition held_refs :: "'g outside \<Rightarrow> path \<Rightarrow> 'g world \<Rightarrow> string list" where
  "held_refs out dir w = map (\<lambda>v. refPrefix @ ref_of v) (filter (\<lambda>v. repository_dir out (url_of v) = dir) (held_volumes w))"

definition followedRefs :: "'g outside \<Rightarrow> path \<Rightarrow> ('g, string list) io" where
  "followedRefs out dir = do {
     held \<leftarrow> gets (held_refs out dir);
     entries \<leftarrow> volume_entries out;
     stored \<leftarrow> traverse_list (followedInStore out dir) entries;
     return (held @ concat stored)
   }"

definition refs :: "'g outside \<Rightarrow> repository \<Rightarrow> ('g, string list) io" where
  "refs out repo = do {
     (answer, err) \<leftarrow> runGit out (r_dir repo) [] [''for-each-ref'', ''--format=%(refname)'', refPrefix];
     return (if err \<noteq> None then [] else Prelude.fields (out_stdout answer))
   }"

definition deleteRef :: "'g outside \<Rightarrow> repository \<Rightarrow> string \<Rightarrow> ('g, string option) io" where
  "deleteRef out repo ref = git_step out (r_dir repo) [] [''update-ref'', ''-d'', ''--end-of-options'', ref]"

definition sweepRefs :: "'g outside \<Rightarrow> repository \<Rightarrow> ('g, unit) io" where
  "sweepRefs out repo = do {
     followed \<leftarrow> followedRefs out (r_dir repo);
     found \<leftarrow> refs out repo;
     for_each (\<lambda>ref. if ref \<in> set followed then return () else do { _ \<leftarrow> deleteRef out repo ref; return () }) found
   }"

definition pruneDate :: "'g outside \<Rightarrow> ('g, string) io" where
  "pruneDate out = do { now \<leftarrow> time_now out; return (o_rfc3339 out (now - o_sweepAfter out)) }"

definition collect :: "'g outside \<Rightarrow> repository \<Rightarrow> ('g, unit) io" where
  "collect out repo = do {
     before \<leftarrow> pruneDate out;
     _ \<leftarrow> git_step out (r_dir repo) [] [''-c'', ''gc.autoDetach=false'', ''gc'', ''--quiet'', ''--auto'', ''--prune='' @ before];
     return ()
   }"

definition sweepRepository :: "'g outside \<Rightarrow> repository \<Rightarrow> ('g, unit) io" where
  "sweepRepository out repo = do {
     used \<leftarrow> usesRepository out (r_dir repo);
     if used then do { sweepRefs out repo; collect out repo }
     else do { _ \<leftarrow> RemoveAll out (r_dir repo); return () }
   }"

definition sweepRepositories :: "'g outside \<Rightarrow> ('g, unit) io" where
  "sweepRepositories out = (let root = join_path (o_store out) ''repos'' in do {
     entries \<leftarrow> ReadDir out root;
     case entries of Inl err \<Rightarrow> return ()
     | Inr entries \<Rightarrow> for_each (\<lambda>entry. sweepRepository out
         \<lparr>r_url = [], r_name = entry, r_dir = join_path root entry\<rparr>) entries
   })"

subsection \<open>One pass\<close>

definition measureStore :: "'g outside \<Rightarrow> ('g, unit) io" where
  "measureStore out = do {
     measured \<leftarrow> treeSize out (o_store out);
     case measured of Inl err \<Rightarrow> return () | Inr bytes \<Rightarrow> metric_call (StoreBytes bytes)
   }"

definition sweepStore :: "'g outside \<Rightarrow> ('g, unit) io" where
  "sweepStore out = do { sweepVolumes out; sweepRepositories out; measureStore out }"

end
