(* ===== verification/SweepLaws.thy ===== *)
theory SweepLaws
  imports Sweep NodeCalls
begin

section \<open>What the sweep may take\<close>

text \<open>
  The sweep removes a work tree only where nothing on the node is lost: no volume holds it, its unstage is
  old, and git says that every commit of it was sent. It deletes no ref that a volume follows.
\<close>

subsection \<open>A question changes no file\<close>

text \<open>
  Git's documentation has it that a command that only asks for a ref, a setting or a report writes
  nothing a tree holds.
\<close>

definition questions_read_only :: "'g outside \<Rightarrow> bool" where
  "questions_read_only out \<longleftrightarrow>
     (\<forall>dir env args fs g. kind_of args = Asks \<longrightarrow> fst (snd (o_git out dir env args (fs, g))) = fs)"

definition files_kept :: "'g world \<Rightarrow> 'g world \<Rightarrow> bool" where
  "files_kept w w' \<longleftrightarrow> w_files w' = w_files w"

interpretation files_kept: step_bound files_kept
  by unfold_locales (simp_all add: files_kept_def)

text \<open>What a call of git said, as the driver reads a line of it.\<close>

definition said :: "gitCall \<Rightarrow> string" where
  "said c = (if g_error c = None then trimLine (out_stdout (g_output c)) else [])"

lemma ask_run:
  assumes "questions_read_only out" and "kind_of args = Asks"
  obtains c g where "run_state (runGit out dir env args) w = ((g_output c, g_error c), w\<lparr>w_git := g, w_log := w_log w @ [c]\<rparr>)"
    "g_args c = args"
proof -
  obtain answer err fs g where git: "o_git out dir (gitEnvironment out @ env) args (w_files w, w_git w) = ((answer, err), fs, g)"
    by (metis surj_pair)
  have "fs = w_files w" using assms git by (metis fst_conv questions_read_only_def snd_conv)
  let ?c = "\<lparr>g_dir = dir, g_env = gitEnvironment out @ env, g_args = args, g_output = answer,
    g_error = map_option (\<lambda>e. ''git '' @ join '' '' args @ '': '' @ gitReason answer e) err\<rparr>"
  have "run_state (runGit out dir env args) w = ((g_output ?c, g_error ?c), w\<lparr>w_git := g, w_log := w_log w @ [?c]\<rparr>)"
    using git \<open>fs = w_files w\<close> by (simp add: runGit_def Let_def)
  then show ?thesis by (rule that) simp
qed

lemma refCommit_run:
  assumes "questions_read_only out"
  obtains c g where "run_state (refCommit out work ref) w = (said c, w\<lparr>w_git := g, w_log := w_log w @ [c]\<rparr>)"
    "g_args c = work_args work [''rev-parse'', ''--verify'', ''--quiet'', ''--end-of-options'', ref]"
proof -
  have "kind_of (work_args work [''rev-parse'', ''--verify'', ''--quiet'', ''--end-of-options'', ref]) = Asks"
    unfolding words_work by (simp add: kind_simps)
  from ask_run[OF assms this] obtain c g where
    "run_state (gitWith out work [] [''rev-parse'', ''--verify'', ''--quiet'', ''--end-of-options'', ref]) w =
      ((g_output c, g_error c), w\<lparr>w_git := g, w_log := w_log w @ [c]\<rparr>)"
    "g_args c = work_args work [''rev-parse'', ''--verify'', ''--quiet'', ''--end-of-options'', ref]"
    unfolding gitWith_def by metis
  then show ?thesis
    by (intro that) (auto simp: refCommit_def work_ask_def said_def split: option.split)
qed

lemma divergedBranch_run:
  assumes "questions_read_only out"
  obtains c g where "run_state (divergedBranch out work) w = (said c, w\<lparr>w_git := g, w_log := w_log w @ [c]\<rparr>)"
    "g_args c = work_args work [''config'', ''--get'', ''--'', divergedKey]"
proof -
  have "kind_of (work_args work [''config'', ''--get'', ''--'', divergedKey]) = Asks"
    unfolding words_work by (simp add: kind_simps)
  from ask_run[OF assms this] obtain c g where
    "run_state (gitWith out work [] [''config'', ''--get'', ''--'', divergedKey]) w =
      ((g_output c, g_error c), w\<lparr>w_git := g, w_log := w_log w @ [c]\<rparr>)"
    "g_args c = work_args work [''config'', ''--get'', ''--'', divergedKey]"
    unfolding gitWith_def by metis
  then show ?thesis
    by (intro that) (auto simp: divergedBranch_def work_ask_def said_def split: option.split)
qed

lemma files_kept_ops:
  "state_io_rel files_kept (os_ask out call k)"
  "state_io_rel files_kept (time_now out)"
  "state_io_rel files_kept (node_holds vid)"
  "state_io_rel files_kept (list_volumes out)"
  "state_io_rel files_kept (heldVolume out handle)"
  "state_io_rel files_kept (modify (\<lambda>w. w\<lparr>n_abandoned := f w\<rparr>))"
  "state_io_rel files_kept (modify (\<lambda>w. if b w then w\<lparr>w_events := e w\<rparr> else w))"
  by (auto simp: state_io_rel_def files_kept_def os_ask_def time_now_def node_holds_def list_volumes_def
      heldVolume_def Let_def split: option.splits)

lemma files_kept_reads:
  "state_io_rel files_kept (ReadFile out p)"
  "state_io_rel files_kept (Stat out p)"
  "state_io_rel files_kept (unstagedAt out directory)"
  "state_io_rel files_kept (abandon out work vid at)"
  "state_io_rel files_kept (work_exists out work)"
  "state_io_rel files_kept (swept out vid at)"
proof -
  show read: "state_io_rel files_kept (ReadFile out p)" for p
    by (simp add: ReadFile_def files_kept_ops)
  show stat: "state_io_rel files_kept (Stat out p)" for p
    by (simp add: Stat_def files_kept_ops)
  show "state_io_rel files_kept (unstagedAt out directory)"
    unfolding unstagedAt_def by (intro files_kept.bounds read)
  show "state_io_rel files_kept (abandon out work vid at)"
    unfolding abandon_def originURL_def alternate_def by (intro files_kept.bounds read files_kept_ops)
  show "state_io_rel files_kept (work_exists out work)"
    unfolding work_exists_def by (intro files_kept.bounds stat)
  show "state_io_rel files_kept (swept out vid at)"
    unfolding swept_def claimOf_def postClaim_def create_event_def Let_def
    by (intro files_kept.bounds files_kept_ops)
qed

subsection \<open>A swept tree was sent\<close>

definition answers_sent :: "workTree \<Rightarrow> gitCall list \<Rightarrow> bool" where
  "answers_sent work cs \<longleftrightarrow> (\<exists>c1 c2 c3. cs = [c1, c2, c3] \<and>
     g_args c1 = work_args work [''rev-parse'', ''--verify'', ''--quiet'', ''--end-of-options'', ''HEAD''] \<and>
     g_args c2 = work_args work [''rev-parse'', ''--verify'', ''--quiet'', ''--end-of-options'', pushedRef] \<and>
     g_args c3 = work_args work [''config'', ''--get'', ''--'', divergedKey] \<and>
     said c1 \<noteq> [] \<and> said c2 = said c1 \<and> said c3 = [])"

definition same_outside :: "path \<Rightarrow> 'g world \<Rightarrow> 'g world \<Rightarrow> bool" where
  "same_outside p w w' \<longleftrightarrow> (\<forall>q. \<not> prefix p q \<longrightarrow> look (w_files w') q = look (w_files w) q)"

interpretation same_outside: step_bound "same_outside p" for p
  by unfold_locales (simp_all add: same_outside_def)

lemma look_filter: "(\<And>n. P (q, n)) \<Longrightarrow> look (filter P fs) q = look fs q"
  by (induction fs) (auto simp: look_def)

lemma removal_is_inside: "state_io_rel (same_outside p) (RemoveAll out p)"
proof -
  have "look (partly effect (CallRemoveAll p) own fs) q = look fs q" if "\<not> prefix p q" for effect own fs q
    using that by (cases effect) (auto simp: partly_def intro: look_filter)
  moreover have "look (filter (\<lambda>(r, n). \<not> prefix p r) fs) q = look fs q" if "\<not> prefix p q" for fs q
    using that by (auto intro: look_filter)
  ultimately show ?thesis
    by (auto simp: state_io_rel_def same_outside_def RemoveAll_def os_change_def os_remove_all_def Let_def
        split: option.split)
qed

lemma untouched_swept: "state_io_rel untouched (swept out vid at)"
  unfolding swept_def by (intro untouched.bounds untouched_ops untouched_claims)

lemma old_tree_was_sent:
  assumes ask: "questions_read_only out" and run: "run_state (sweep_old_tree out work vid at kept) w = (kept', w')"
    and changed: "w_files w' \<noteq> w_files w"
  shows "\<exists>cs. w_log w' = w_log w @ cs \<and> answers_sent work cs \<and> same_outside (w_directory work) w w'"
proof -
  obtain c1 g1 where r1: "run_state (refCommit out work ''HEAD'') w = (said c1, w\<lparr>w_git := g1, w_log := w_log w @ [c1]\<rparr>)"
    and a1: "g_args c1 = work_args work [''rev-parse'', ''--verify'', ''--quiet'', ''--end-of-options'', ''HEAD'']"
    by (rule refCommit_run[OF ask])
  let ?w1 = "w\<lparr>w_git := g1, w_log := w_log w @ [c1]\<rparr>"
  obtain c2 g2 where r2: "run_state (refCommit out work pushedRef) ?w1 = (said c2, ?w1\<lparr>w_git := g2, w_log := w_log ?w1 @ [c2]\<rparr>)"
    and a2: "g_args c2 = work_args work [''rev-parse'', ''--verify'', ''--quiet'', ''--end-of-options'', pushedRef]"
    by (rule refCommit_run[OF ask])
  let ?w2 = "?w1\<lparr>w_git := g2, w_log := w_log ?w1 @ [c2]\<rparr>"
  obtain c3 g3 where r3: "run_state (divergedBranch out work) ?w2 = (said c3, ?w2\<lparr>w_git := g3, w_log := w_log ?w2 @ [c3]\<rparr>)"
    and a3: "g_args c3 = work_args work [''config'', ''--get'', ''--'', divergedKey]"
    by (rule divergedBranch_run[OF ask])
  let ?w3 = "?w2\<lparr>w_git := g3, w_log := w_log ?w2 @ [c3]\<rparr>"
  have abandoned: "w_files (snd (run_state (abandon out work vid at) v)) = w_files v" for v
    using files_kept_reads(4)[of out work vid at] by (simp add: state_io_rel_def files_kept_def)
  have conds: "said c1 \<noteq> []" "said c2 = said c1" "said c3 = []"
    using run changed abandoned r1 r2 r3
    by (auto simp: sweep_old_tree_def case_prod_beta split: if_splits)
  let ?rest = "do { failed \<leftarrow> RemoveAll out (w_directory work);
         if failed \<noteq> None then return kept else do { swept out vid at; return kept } }"
  have rest: "run_state ?rest ?w3 = (kept', w')"
    using run conds r1 r2 r3 by (simp add: sweep_old_tree_def)
  have "state_io_rel no_calls ?rest"
    by (intro silent.bounds silent_ops untouched_swept[THEN untouched_silent])
  then have "no_calls ?w3 (snd (run_state ?rest ?w3))" by (simp only: state_io_rel_def)
  then have "no_calls ?w3 w'" unfolding rest snd_conv .
  then have "w_log w' = w_log w @ [c1, c2, c3]" by (simp add: no_calls_def)
  moreover have "same_outside (w_directory work) ?w3 w'"
  proof -
    have "state_io_rel (same_outside p) (swept out vid at)" for p
      using files_kept_reads(6)[of out vid at] by (simp add: state_io_rel_def files_kept_def same_outside_def)
    then have "state_io_rel (same_outside (w_directory work)) ?rest"
      by (intro same_outside.bounds removal_is_inside)
    then have "same_outside (w_directory work) ?w3 (snd (run_state ?rest ?w3))" by (simp only: state_io_rel_def)
    then show ?thesis by (simp only: rest snd_conv)
  qed
  ultimately show ?thesis
    using a1 a2 a3 conds by (auto simp: answers_sent_def same_outside_def)
qed

text \<open>The step before: what is read of a volume without asking git.\<close>

lemma quiet_read:
  assumes "state_io_rel untouched m" "state_io_rel files_kept m" and "run_state m w = (x, w')"
  shows "w_files w' = w_files w \<and> w_log w' = w_log w"
proof -
  have "untouched w w'" "files_kept w w'"
    using assms by (metis snd_conv state_io_rel_def)+
  then show ?thesis by (simp add: untouched_def no_calls_def files_kept_def)
qed

lemma untouched_looks:
  "state_io_rel untouched (work_exists out work)"
  "state_io_rel untouched (unstagedAt out directory)"
  unfolding work_exists_def unstagedAt_def by (intro untouched.bounds untouched_ops)+

definition old_enough :: "'g outside \<Rightarrow> path \<Rightarrow> files \<Rightarrow> bool" where
  "old_enough out directory fs \<longleftrightarrow> (\<exists>text at n. os_read (join_path directory unstagedFile) fs = Inr text \<and>
     o_parse_time out (trimLine text) = Some at \<and> o_clock out n - at > o_sweepAfter out)"

lemma unstagedAt_reads:
  assumes "run_state (unstagedAt out directory) w = (Some at, w')"
  shows "\<exists>text. os_read (join_path directory unstagedFile) (w_files w) = Inr text \<and> o_parse_time out (trimLine text) = Some at"
  using assms by (auto simp: unstagedAt_def ReadFile_def os_ask_def Let_def split: option.splits sum.splits)

text \<open>
  Property C5. The sweep takes nothing that was not sent. It changes a file only when it removes the
  directory of a volume that neither of the node's maps holds staged or published, whose recorded unstage is older than the
  sweep age, and whose work tree git has just said has a commit, that commit as the pushed mark, and no
  side branch; and no file outside that directory changes.
\<close>

theorem a_swept_tree_was_sent:
  assumes "questions_read_only out" and "run_state (sweepVolume out vid kept) w = (kept', w')"
    and "w_files w' \<noteq> w_files w"
  shows "map_of (n_staged w) vid = None \<and> map_of (n_volumes w) vid = None \<and>
    old_enough out (volumeDir out vid) (w_files w) \<and> same_outside (volumeDir out vid) w w' \<and>
    (\<exists>cs. w_log w' = w_log w @ cs \<and> answers_sent (tree_of out vid) cs)"
proof -
  let ?work = "tree_of out vid"
  have dir: "w_directory ?work = volumeDir out vid" by (simp add: tree_of_def Let_def)
  have unheld: "map_of (n_staged w) vid = None \<and> map_of (n_volumes w) vid = None"
    using assms(2,3) by (auto simp: sweepVolume_def node_holds_def split: if_splits)
  obtain there w1 where r1: "run_state (work_exists out ?work) w = (there, w1)" by (rule run_pair)
  obtain found w2 where r2: "run_state (unstagedAt out (volumeDir out vid)) w1 = (found, w2)" by (rule run_pair)
  let ?w3 = "w2\<lparr>w_calls := Suc (w_calls w2)\<rparr>" and ?now = "o_clock out (w_calls w2)"
  note q1 = quiet_read[OF untouched_looks(1) files_kept_reads(5) r1]
  note q2 = quiet_read[OF untouched_looks(2) files_kept_reads(3) r2]
  have run: "run_state (if \<not> there then return kept else do {
         found \<leftarrow> unstagedAt out (volumeDir out vid);
         case found of None \<Rightarrow> return kept
         | Some at \<Rightarrow> do { now \<leftarrow> time_now out;
             if now - at \<le> o_sweepAfter out then return kept else sweep_old_tree out ?work vid at kept } }) w1 = (kept', w')"
    using assms(2) unheld r1 unfolding sweepVolume_def Let_def dir by (simp add: node_holds_def)
  have there: there using run q1 assms(3) by (cases there) auto
  have "found \<noteq> None" using run r2 q1 q2 assms(3) there by (cases found) auto
  then obtain at where found: "found = Some at" by blast
  have old: "?now - at > o_sweepAfter out" and last: "run_state (sweep_old_tree out ?work vid at kept) ?w3 = (kept', w')"
    using run r2 q1 q2 assms(3) there found by (auto simp: time_now_def split: if_splits)
  have "w_files w' \<noteq> w_files ?w3" using assms(3) q1 q2 by simp
  from old_tree_was_sent[OF assms(1) last this] obtain cs where
    "w_log w' = w_log ?w3 @ cs" "answers_sent ?work cs" "same_outside (w_directory ?work) ?w3 w'" by blast
  moreover have "old_enough out (volumeDir out vid) (w_files w)"
    using unstagedAt_reads[of out "volumeDir out vid" w1 at w2] r2 found old q1 by (auto simp: old_enough_def)
  ultimately show ?thesis using unheld q1 q2 by (auto simp: same_outside_def dir)
qed

definition sweep_outside :: "unit outside" where
  "sweep_outside = (still_outside (output_of ''c'') None)\<lparr>o_sweepAfter := 0,
     o_git := (\<lambda>dir env args (fs, g). if ''config'' \<in> set args then ((output_of [], Some ''exit status 1''), fs, g)
       else ((output_of ''c'', None), fs, g))\<rparr>"

definition file_node :: "string \<Rightarrow> fnode" where
  "file_node text = dir_node\<lparr>fn_content := Regular text\<rparr>"

definition sweep_world :: "unit world" where
  "sweep_world = world_of [([''store''], dir_node), ([''store'', ''volumes''], dir_node), ([''store'', ''volumes'', ''v''], dir_node),
     ([''store'', ''volumes'', ''v'', ''unstaged''], file_node ''t''), ([''store'', ''volumes'', ''v'', ''git''], dir_node),
     ([''store'', ''volumes'', ''v'', ''git'', ''HEAD''], file_node ''ref'')] (zero_volume ''x'' defaultAttributes writeableVolume [''x''])"

theorem a_swept_tree_was_sent_witness:
  "same_outside [''store'', ''volumes'', ''v''] sweep_world (snd (run_state (sweepVolume sweep_outside ''v'' []) sweep_world)) \<and>
   look (w_files (snd (run_state (sweepVolume sweep_outside ''v'' []) sweep_world))) [''store'', ''volumes'', ''v'', ''unstaged''] = None"
proof -
  obtain kept' w' where run: "run_state (sweepVolume sweep_outside ''v'' []) sweep_world = (kept', w')" by (rule run_pair)
  have "look (w_files (snd (run_state (sweepVolume sweep_outside ''v'' []) sweep_world))) [''store'', ''volumes'', ''v'', ''unstaged''] = None"
    by code_simp
  then have gone: "look (w_files w') [''store'', ''volumes'', ''v'', ''unstaged''] = None" by (simp add: run)
  moreover have "look (w_files sweep_world) [''store'', ''volumes'', ''v'', ''unstaged''] \<noteq> None" by code_simp
  ultimately have "w_files w' \<noteq> w_files sweep_world" by auto
  moreover have "questions_read_only sweep_outside"
    by (simp add: questions_read_only_def sweep_outside_def)
  moreover have "volumeDir sweep_outside ''v'' = [''store'', ''volumes'', ''v'']" by code_simp
  ultimately show ?thesis
    using a_swept_tree_was_sent[OF _ run] gone by (simp add: run)
qed

subsection \<open>A followed ref stays\<close>

definition deletes_none :: "string set \<Rightarrow> path \<Rightarrow> string list \<Rightarrow> string list \<Rightarrow> bool" where
  "deletes_none followed dir env args \<longleftrightarrow> kind_of args \<in> {Asks, Refs, Collects} \<and>
     (\<forall>ref\<in>followed. args \<noteq> [''update-ref'', ''-d'', ''--end-of-options'', ref])"

lemma update_ref_kind: "kind_of [''update-ref'', ''-d'', ''--end-of-options'', ref] = Refs"
  by (simp add: kind_simps pushedRef_def)

lemma asks_delete_none:
  "state_io_rel (leaf {Asks}) m \<Longrightarrow> state_io_rel (calls_in (deletes_none followed)) m"
  by (rule calls_of_other[OF leaf_calls]) (auto simp: deletes_none_def update_ref_kind)

lemma leaf_followed:
  "state_io_rel (leaf {Asks}) (followedInStore out dir vid)"
  "state_io_rel (leaf {Asks}) (volume_entries out)"
  "state_io_rel (leaf {Asks}) (refs out repo)"
proof -
  have alternate: "state_io_rel (leaf {Asks}) (alternate out work)" for work
    unfolding alternate_def by (intro kind_rules)
  have followed: "state_io_rel (leaf {Asks}) (followedRef out work)" for work
    by (intro work_kinds) simp
  show "state_io_rel (leaf {Asks}) (followedInStore out dir vid)"
    unfolding followedInStore_def readRecord_def Let_def by (intro kind_rules alternate followed)
  show "state_io_rel (leaf {Asks}) (volume_entries out)"
    unfolding volume_entries_def by (intro kind_rules)
  show "state_io_rel (leaf {Asks}) (refs out repo)"
    unfolding refs_def by (intro kind_rules) (simp add: kind_simps)
qed

lemma sweepRefs_spares:
  assumes "run_state (sweepRefs out repo) w = (x, w')"
  shows "calls_in (deletes_none (set (held_refs out (r_dir repo) w))) w w'"
proof -
  let ?held = "held_refs out (r_dir repo) w"
  let ?Q = "deletes_none (set ?held)"
  let ?read = "do { entries \<leftarrow> volume_entries out;
     stored \<leftarrow> traverse_list (followedInStore out (r_dir repo)) entries;
     return (?held @ concat stored) }"
  let ?sweep = "\<lambda>followed. do { found \<leftarrow> refs out repo;
     for_each (\<lambda>ref. if ref \<in> set followed then return () else do { _ \<leftarrow> deleteRef out repo ref; return () }) found }"
  have read: "state_io_rel (calls_in ?Q) ?read"
    by (intro asks_delete_none leaf.bounds leaf_followed)
  have holds: "set ?held \<subseteq> set (fst (run_state ?read v))" for v
    by (simp add: case_prod_beta)
  have delete: "state_io_rel (calls_in ?Q) (deleteRef out repo ref)" if "ref \<notin> set ?held" for ref
    unfolding deleteRef_def git_step_def
    by (intro calls.bounds runGit_calls) (use that in \<open>auto simp: deletes_none_def update_ref_kind\<close>)
  have sweep: "state_io_rel (calls_in ?Q) (?sweep followed)" if "set ?held \<subseteq> set followed" for followed
    using that by (intro calls.bounds delete leaf_followed asks_delete_none) auto
  obtain followed u where u: "run_state ?read w = (followed, u)" by (rule run_pair)
  have "calls_in ?Q w (snd (run_state ?read w))" using read by (simp only: state_io_rel_def)
  then have first: "calls_in ?Q w u" unfolding u snd_conv .
  have rest: "run_state (?sweep followed) u = (x, w')"
    using assms u by (auto simp: sweepRefs_def followedRefs_def case_prod_beta)
  have "set ?held \<subseteq> set followed" using holds[of w] u by simp
  from sweep[OF this] have "calls_in ?Q u (snd (run_state (?sweep followed) u))" by (simp only: state_io_rel_def)
  then have "calls_in ?Q u w'" unfolding rest snd_conv .
  with first show ?thesis by (rule calls.follows_on)
qed

lemma collect_calls: "state_io_rel (calls_in (deletes_none followed)) (collect out repo)"
proof -
  have "deletes_none followed dir env [''-c'', ''gc.autoDetach=false'', ''gc'', ''--quiet'', ''--auto'', ''--prune='' @ before]"
    for dir env before by (simp add: deletes_none_def kind_simps)
  then show ?thesis
    unfolding collect_def pruneDate_def git_step_def
    by (intro calls.bounds runGit_calls silent_ops[THEN silent_calls])
qed

text \<open>
  Property C22. What a volume follows stays. A sweep of the repository of a volume the node has published
  or staged does not remove the repository. It asks, deletes refs and collects, and the ref the volume
  follows is none of those it deletes.
\<close>

theorem a_followed_ref_stays:
  assumes "held \<in> set (held_volumes w)" and "repository_dir out (url_of held) = r_dir repo"
  shows "calls_in (deletes_none {refPrefix @ ref_of held}) w (snd (run_state (sweepRepository out repo) w)) \<and>
    run_state (sweepRepository out repo) w = run_state (do { sweepRefs out repo; collect out repo }) w"
proof -
  have used: "run_state (usesRepository out (r_dir repo)) w = (True, w)"
    using assms by (auto simp: usesRepository_def list_ex_iff)
  then have same: "run_state (sweepRepository out repo) w = run_state (do { sweepRefs out repo; collect out repo }) w"
    by (simp add: sweepRepository_def)
  have one: "deletes_none (set (held_refs out (r_dir repo) w)) dir env args \<Longrightarrow> deletes_none {refPrefix @ ref_of held} dir env args"
    for dir env args using assms by (auto simp: deletes_none_def held_refs_def)
  obtain u where u: "run_state (sweepRefs out repo) w = ((), u)" by (metis (full_types) old.unit.exhaust surj_pair)
  have "calls_in (deletes_none {refPrefix @ ref_of held}) w u"
    using sweepRefs_spares[OF u] one by (auto simp: calls_in_def list_all_iff)
  moreover have "calls_in (deletes_none {refPrefix @ ref_of held}) u (snd (run_state (collect out repo) u))"
    using collect_calls[of _ out repo] by (simp add: state_io_rel_def)
  ultimately show ?thesis using u same calls.follows_on by auto
qed

theorem a_followed_ref_stays_witness:
  "calls_in (deletes_none {refPrefix @ ''main''}) (sweep_world\<lparr>n_staged := [(''x'', 0)]\<rparr>)
     (snd (run_state (sweepRepository sweep_outside \<lparr>r_url = [], r_name = ''sum'', r_dir = [''store'', ''repos'', ''sum'']\<rparr>)
        (sweep_world\<lparr>n_staged := [(''x'', 0)]\<rparr>)))"
proof -
  let ?w = "sweep_world\<lparr>n_staged := [(''x'', 0)]\<rparr>" and ?held = "zero_volume ''x'' defaultAttributes writeableVolume [''x'']"
  have "?held \<in> set (held_volumes ?w)" by (simp add: held_volumes_def sweep_world_def world_of_def)
  moreover have "repository_dir sweep_outside (url_of ?held) = [''store'', ''repos'', ''sum'']" by code_simp
  moreover have "ref_of ?held = ''main''" by code_simp
  ultimately show ?thesis
    using a_followed_ref_stays[of ?held ?w sweep_outside "\<lparr>r_url = [], r_name = ''sum'', r_dir = [''store'', ''repos'', ''sum'']\<rparr>",
      THEN conjunct1] by (simp only: repository.simps)
qed

end
