(* ===== verification/NodeRuns.thy ===== *)
theory NodeRuns
  imports SweepLaws
begin

section \<open>The runs of a node\<close>

text \<open>
  A node starts with empty books and then answers the kubelet, resumes the records of an earlier driver,
  and does the work of its loops, one at a time and in any order. The kubelet keeps to the CSI
  specification: it unstages a volume after its last unpublish, and it does not give an inline volume
  the handle of a PersistentVolume. \<open>inl\<close> says which handles are the kubelet's own.
\<close>

datatype activity =
    Publishes publishRequest | Unpublishes string string | Stages_volume stageRequest | Unstages string string
  | Resumes volumeRecord path "string list"
  | Ticks repository | Reads persistentVolume | Forgets persistentVolume
  | Turns nat watcher watch_event | Reads_claim nat claimReference heldClaim | Sweeps

definition unit_of :: "('g, 'a) io \<Rightarrow> ('g, unit) io" where
  "unit_of m = do { _ \<leftarrow> m; return () }"

fun perform :: "'g outside \<Rightarrow> activity \<Rightarrow> ('g, unit) io" where
  "perform out (Publishes request) = unit_of (NodePublishVolume out request)"
| "perform out (Unpublishes vid target) = unit_of (NodeUnpublishVolume out vid target)"
| "perform out (Stages_volume request) = unit_of (NodeStageVolume out request)"
| "perform out (Unstages vid staging) = unit_of (NodeUnstageVolume out vid staging)"
| "perform out (Resumes held directory mounted) = resumeOne out held directory mounted"
| "perform out (Ticks repo) = unit_of (tick out repo)"
| "perform out (Reads held) = Follower.read out held"
| "perform out (Forgets held) = Follower.forget held"
| "perform out (Turns r seeing event) = unit_of (watch_turn out r seeing event)"
| "perform out (Reads_claim r claim held) = unit_of (read_claim out r claim held)"
| "perform out Sweeps = sweepStore out"

text \<open>What the kubelet may ask of a node in a state.\<close>

fun allowed :: "(string \<Rightarrow> bool) \<Rightarrow> activity \<Rightarrow> 'g world \<Rightarrow> bool" where
  "allowed inl (Publishes request) w = addressed inl request"
| "allowed inl (Stages_volume request) w = (\<not> inl (sr_volume_id request))"
| "allowed inl (Unstages vid staging) w = (map_of (n_volumes w) vid = None)"
| "allowed inl (Resumes held directory mounted) w =
     (inl (rc_VolumeID held) = (record_kind held = inlineVolume) \<and>
      map_of (n_volumes w) (rc_VolumeID held) = None \<and> map_of (n_staged w) (rc_VolumeID held) = None)"
| "allowed inl activity w = True"

definition empty_books :: "'g world \<Rightarrow> bool" where
  "empty_books w \<longleftrightarrow> n_volumes w = [] \<and> n_staged w = [] \<and> n_followers w = [] \<and> n_watchers w = [] \<and> n_armings w = []"

inductive node_reaches :: "'g outside \<Rightarrow> (string \<Rightarrow> bool) \<Rightarrow> 'g world \<Rightarrow> bool" for out inl where
  starts: "empty_books w \<Longrightarrow> node_reaches out inl w"
| does: "node_reaches out inl w \<Longrightarrow> allowed inl activity w \<Longrightarrow>
    node_reaches out inl (snd (run_state (perform out activity) w))"

subsection \<open>Every run keeps the books\<close>

lemma steady_looks:
  "state_io_rel steady (unstagedAt out directory)"
  "state_io_rel steady (work_exists out work)"
  "state_io_rel steady (swept out vid at)"
  "state_io_rel steady (alternate out work)"
  "state_io_rel steady (volume_entries out)"
  "state_io_rel steady (followedInStore out dir vid)"
  "state_io_rel steady (refs out repo)"
  "state_io_rel steady (treeSize out p)"
proof -
  show "state_io_rel steady (unstagedAt out directory)" "state_io_rel steady (work_exists out work)"
    "state_io_rel steady (swept out vid at)" "state_io_rel steady (treeSize out p)"
    by (rule steady_untouched[OF untouched_looks(2)], rule steady_untouched[OF untouched_looks(1)],
      rule steady_untouched[OF untouched_swept], rule steady_untouched[OF silent_placing(5)])
  show "state_io_rel steady (alternate out work)"
    unfolding alternate_def by (intro steady.bounds untouched_ops[THEN steady_untouched])
  show "state_io_rel steady (volume_entries out)" "state_io_rel steady (followedInStore out dir vid)" "state_io_rel steady (refs out repo)"
    by (rule steady_leaf[OF leaf_followed(2)], rule steady_leaf[OF leaf_followed(1)], rule steady_leaf[OF leaf_followed(3)])
qed

lemma steady_sweep_each: "state_io_rel steady (sweep_each out entries kept)"
proof -
  have asks: "state_io_rel steady (refCommit out work ref)" "state_io_rel steady (divergedBranch out work)" for work ref
    by (intro steady_rules; simp)+
  have abandon: "state_io_rel steady (abandon out work vid at)" for work vid at
    unfolding abandon_def originURL_def by (intro steady_rules steady_looks)
  have holds: "state_io_rel steady (node_holds vid)" for vid
    unfolding node_holds_def by (rule steady.bound_gets)
  have "state_io_rel steady (sweepVolume out vid kept)" for vid kept
    unfolding sweepVolume_def sweep_old_tree_def Let_def
    by (intro steady.bounds holds asks abandon steady_looks untouched_ops[THEN steady_untouched])
  then show ?thesis
    by (induction entries arbitrary: kept) (simp_all add: steady.bound_return steady.bound_bind)
qed

lemma steady_sweepStore: "state_io_rel steady (sweepStore out)"
proof -
  have run: "state_io_rel steady (git_step out dir env args)" for dir env args
    by (rule steady_leaf[where K = UNIV], rule git_step_kinds) simp
  have any: "state_io_rel steady (any_alternate out dir entries)" for dir entries
    by (induction entries) (simp_all add: steady.bound_return steady.bound_bind steady_looks)
  have uses: "state_io_rel steady (usesRepository out dir)" for dir
    unfolding usesRepository_def by (intro steady.bounds steady_looks any)
  have sweep: "state_io_rel steady (sweepRefs out repo)" for repo
    unfolding sweepRefs_def followedRefs_def deleteRef_def by (intro steady.bounds steady_looks run)
  have collect: "state_io_rel steady (collect out repo)" for repo
    unfolding collect_def pruneDate_def by (intro steady.bounds run untouched_ops[THEN steady_untouched])
  show ?thesis
    unfolding sweepStore_def sweepVolumes_def sweepRepositories_def sweepRepository_def measureStore_def Let_def
    by (intro steady_rules steady_sweep_each uses sweep collect steady_looks)
qed

lemma node_unit: "triple P m (\<lambda>x. node_ok out inl) \<Longrightarrow> triple P (unit_of m) (\<lambda>x. node_ok out inl)"
  unfolding unit_of_def by (rule triple_bind, assumption) (simp add: triple_return_iff)

lemma node_steady: "state_io_rel steady m \<Longrightarrow> triple (node_ok out inl) m (\<lambda>x. node_ok out inl)"
  by (rule triple_node) (simp_all add: seated_steady)

lemma steady_unit: "state_io_rel steady m \<Longrightarrow> state_io_rel steady (unit_of m)"
  unfolding unit_of_def by (intro steady.bounds)

lemma perform_keeps: "triple (\<lambda>w. node_ok out inl w \<and> allowed inl activity w) (perform out activity) (\<lambda>x. node_ok out inl)"
proof (cases activity)
  case (Publishes request)
  then show ?thesis
    using NodePublishVolume_keeps[THEN node_unit, of inl request out] by (auto simp: triple_def)
next
  case (Stages_volume request)
  then show ?thesis
    using NodeStageVolume_keeps[THEN node_unit, of inl request out] by (auto simp: triple_def)
next
  case (Resumes held directory mounted)
  then show ?thesis
    using resumeOne_keeps[of inl held out directory mounted] by (auto simp: triple_def)
qed (auto intro!: triple_pre[OF NodeUnpublishVolume_keeps[THEN node_unit]] triple_pre[OF NodeUnstageVolume_keeps[THEN node_unit]]
    triple_pre[OF node_steady] steady_unit steady_tick steady_demands steady_watch steady_read_claim
    steady_sweepStore)

lemma empty_books_ok: "empty_books w \<Longrightarrow> node_ok out inl w"
  by (simp add: empty_books_def node_ok_def books_ok_def loops_ok_def watches_ok_def armings_ok_def joined_def
      on_the_loop_def reader_def held_at_def watched_def)

lemma node_reaches_ok: "node_reaches out inl w \<Longrightarrow> node_ok out inl w"
proof (induction rule: node_reaches.induct)
  case (does w activity)
  with perform_keeps[of out inl activity] show ?case by (simp add: triple_def)
qed (rule empty_books_ok)

text \<open>
  Property C8. The node's loops are exactly those of the volumes it holds. In every state a run of
  kubelet calls, resumes, loop passes, demands, scans, class reads and sweeps can reach: a fetch loop holds
  a volume if and only if the node holds it, it is not writeable and it follows its ref, and that loop is
  its repository's; no loop is empty; a watch stands for exactly the published writeable volumes; and,
  in a cluster, an arming for exactly the staged ones.
\<close>

theorem the_loops_are_those_of_the_held_volumes:
  assumes "node_reaches out inl w"
  shows "(joined w name vid = Some r \<longleftrightarrow> reader w vid r \<and> loop_name out (w_heap w r) = name) \<and>
    on_the_loop w name \<noteq> Some [] \<and>
    (watched w vid = Some r \<longleftrightarrow> map_of (n_volumes w) vid = Some r \<and> writeable (w_heap w r)) \<and>
    (map_of (n_armings w) vid = Some r \<longleftrightarrow> o_cluster out \<and> map_of (n_staged w) vid = Some r \<and> writeable (w_heap w r))"
  using node_reaches_ok[OF assms] by (simp add: node_ok_def loops_ok_def watches_ok_def armings_ok_def)

definition kept_record :: volumeRecord where
  "kept_record = \<lparr>rc_VolumeID = ''csi-1'', rc_Attributes = [(''url'', ''https://code.example.com/a.git'')],
     rc_Target = ''/pods/1'', rc_Targets = [], rc_Staging = [], rc_Ephemeral = True, rc_Kind = ''inline'', rc_Credentials = True\<rparr>"

definition follow_world :: "unit world" where
  "follow_world = world_of [([''store''], dir_node)] (zero_volume ''x'' defaultAttributes writeableVolume [''x''])"

definition followed_world :: "unit world" where
  "followed_world = snd (run_state (perform (still_outside (output_of ''c'') None)
     (Resumes kept_record [''store'', ''volumes'', ''csi-1''] [''/pods/1''])) follow_world)"

theorem the_loops_are_those_of_the_held_volumes_witness:
  "joined followed_world ''sum'' ''csi-1'' = Some 1 \<and> on_the_loop followed_world ''sum'' \<noteq> Some []"
proof -
  let ?out = "still_outside (output_of ''c'') None" and ?inl = "\<lambda>vid. vid = ''csi-1''"
  have "empty_books follow_world" by (simp add: empty_books_def follow_world_def world_of_def)
  then have start: "node_reaches ?out ?inl follow_world" by (rule starts)
  have "allowed ?inl (Resumes kept_record [''store'', ''volumes'', ''csi-1''] [''/pods/1'']) follow_world" by code_simp
  from does[OF start this] have reached: "node_reaches ?out ?inl followed_world" by (simp only: followed_world_def)
  have "joined followed_world ''sum'' ''csi-1'' = Some 1" by code_simp
  with the_loops_are_those_of_the_held_volumes[OF reached, of "''sum''"] show ?thesis by blast
qed

end
