(* ===== verification/NodeReplies.thy ===== *)
theory NodeReplies
  imports NodeRuns
begin

section \<open>What a call answers and what it leaves\<close>

text \<open>
  The kubelet repeats a call until it answers success, and repeats a publish on every sync after that. So
  a refused call must leave the node's books as they were, and a repeated one must change nothing.
\<close>

subsection \<open>A refused call changes no books\<close>

definition same_books :: "'g world \<Rightarrow> 'g world \<Rightarrow> bool" where
  "same_books w w' \<longleftrightarrow> n_volumes w' = n_volumes w \<and> n_staged w' = n_staged w \<and> n_armings w' = n_armings w \<and>
     on_the_loop w' = on_the_loop w \<and> watched w' = watched w"

interpretation same_books: step_bound same_books
  by unfold_locales (simp_all add: same_books_def)

lemma books_seated: "state_io_rel seated m \<Longrightarrow> state_io_rel same_books m"
  by (simp add: state_io_rel_def seated_def same_books_def)

lemma books_new_volume: "state_io_rel same_books (new_volume v)"
  by (simp add: state_io_rel_def same_books_def new_volume_def on_the_loop_def[abs_def] watched_def[abs_def])

text \<open>An operation that answers an error, or ends with success having done anything.\<close>

definition refuses_idle :: "('g, 'e option) io \<Rightarrow> bool" where
  "refuses_idle m \<longleftrightarrow> (\<forall>w err w'. run_state m w = (Some err, w') \<longrightarrow> same_books w w')"

lemma idle_books: "state_io_rel same_books m \<Longrightarrow> refuses_idle m"
  unfolding refuses_idle_def state_io_rel_def by (metis snd_conv)

lemma idle_seated: "state_io_rel seated m \<Longrightarrow> refuses_idle m"
  by (rule idle_books[OF books_seated])

lemma idle_first: "state_io_rel same_books m \<Longrightarrow> (\<And>x. refuses_idle (k x)) \<Longrightarrow> refuses_idle (m \<bind> k)"
  unfolding refuses_idle_def state_io_rel_def
  by (auto simp: split_beta) (metis same_books.follows_on)

lemma idle_success: "refuses_idle (do { a; b; c; d; return None })" "refuses_idle (do { a; b; c; return None })"
  "refuses_idle (do { a; b; return None })" "refuses_idle (do { a; return None })" "refuses_idle (return None)"
  by (auto simp: refuses_idle_def split_beta)

lemma idle_if: "(b \<Longrightarrow> refuses_idle m) \<Longrightarrow> (\<not> b \<Longrightarrow> refuses_idle k) \<Longrightarrow> refuses_idle (if b then m else k)"
  by simp

lemma idle_option:
  "(e = None \<Longrightarrow> refuses_idle m) \<Longrightarrow> (\<And>x. e = Some x \<Longrightarrow> refuses_idle (h x)) \<Longrightarrow>
    refuses_idle (case e of None \<Rightarrow> m | Some x \<Rightarrow> h x)"
  by (cases e) simp_all

lemma idle_sum:
  "(\<And>x. s = Inl x \<Longrightarrow> refuses_idle (f x)) \<Longrightarrow> (\<And>x. s = Inr x \<Longrightarrow> refuses_idle (g x)) \<Longrightarrow>
    refuses_idle (case s of Inl x \<Rightarrow> f x | Inr x \<Rightarrow> g x)"
  by (cases s) simp_all

lemmas idle_rules = idle_if idle_option idle_sum

lemma idle_unless:
  "state_io_rel seated m \<Longrightarrow> refuses_idle k \<Longrightarrow> refuses_idle (unless_internal m k)"
  "state_io_rel seated m' \<Longrightarrow> refuses_idle k \<Longrightarrow> refuses_idle (unless_refused m' k)"
  "refuses_idle k \<Longrightarrow> refuses_idle (unless_status failed k)"
  unfolding unless_internal_def unless_refused_def unless_status_def
  by (intro idle_first idle_rules; auto intro: books_seated idle_seated seated.bound_return)+

lemma idle_case: "refuses_idle m \<Longrightarrow> (\<And>x. refuses_idle (k x)) \<Longrightarrow> refuses_idle (case e of None \<Rightarrow> m | Some x \<Rightarrow> k x)"
  by (cases e) simp_all

lemma idle_after: "state_io_rel seated m \<Longrightarrow> (\<And>x. refuses_idle (k x)) \<Longrightarrow> refuses_idle (m \<bind> k)"
  by (rule idle_first[OF books_seated])

text \<open>An operation whose answer is handed on, whatever is posted about it.\<close>

lemma idle_answer:
  assumes "refuses_idle m" and "\<And>err. state_io_rel seated (h err)" and "k None = return None" and "\<And>err. k (Some err) = h err"
  shows "refuses_idle (m \<bind> k)"
  unfolding refuses_idle_def
proof (intro allI impI)
  fix w err w' assume run: "run_state (m \<bind> k) w = (Some err, w')"
  obtain answer v where first: "run_state m w = (answer, v)" by (rule run_pair)
  show "same_books w w'"
  proof (cases answer)
    case None
    with run first assms(3) show ?thesis by simp
  next
    case (Some e)
    have "same_books w v" using assms(1) first Some by (auto simp: refuses_idle_def)
    moreover have "same_books v w'"
      using books_seated[OF assms(2)[of e]] run first Some assms(4)[of e]
      by (simp add: state_io_rel_def) (metis snd_conv)
    ultimately show ?thesis by (rule same_books.follows_on)
  qed
qed

lemma idle_bind_at: "state_io_rel seated attach \<Longrightarrow> refuses_idle k \<Longrightarrow> refuses_idle (bind_at out target attach k)"
  unfolding bind_at_def by (intro idle_unless seated_rules)

lemma idle_publishReadOnly: "refuses_idle (publishReadOnly out r request parsed holder)"
  unfolding publishReadOnly_def Let_def
  by (intro idle_if idle_after idle_unless idle_bind_at idle_seated seated_rules idle_success)

lemma idle_publish_writeable: "refuses_idle (publish_writeable out r request parsed holder)"
  unfolding publish_writeable_def Let_def
  by (intro idle_if idle_after idle_unless idle_bind_at seated_target seated_rules idle_success)

lemma idle_refused: "refuses_idle (do { refused out pod err; return (Some err) })"
  by (intro idle_seated seated_rules)

lemma idle_republished: "refuses_idle (do { _ \<leftarrow> republished out p holder; return None })"
  by (intro idle_seated seated_rules)

lemma idle_answered: "refuses_idle (return answer)"
  by (intro idle_seated seated_rules)

lemma idle_claim: "refuses_idle (do { answer \<leftarrow> publishReadOnly out r request parsed holder;
    case answer of None \<Rightarrow> return None | Some err \<Rightarrow> do { err \<leftarrow> refusedClaim out r err; return (Some err) } })"
  by (rule idle_answer[OF idle_publishReadOnly, where h = "\<lambda>err. do { err \<leftarrow> refusedClaim out r err; return (Some err) }"])
    (intro seated_rules, simp_all)

lemma idle_publishStaged: "refuses_idle (publishStaged out request parsed holder)"
  unfolding publishStaged_def Let_def
  by (rule idle_after, rule seated_rules, rule idle_after, rule seated_rules, rule idle_case, rule idle_answered,
      rule idle_after, rule seated_rules, rule idle_if, rule idle_claim, rule idle_case, rule idle_publish_writeable,
      rule idle_after, rule seated_rules, rule idle_if, rule idle_answered, rule idle_republished)

lemma idle_publish_inline: "refuses_idle (publish_inline out request parsed holder)"
  unfolding publish_inline_def Let_def
  by (intro idle_if idle_case idle_first[OF books_new_volume] idle_after seated_publish idle_seated seated_rules idle_success)

lemma idle_of_a_claim: "refuses_idle (do { failed \<leftarrow> publishStaged out request parsed holder;
    case failed of None \<Rightarrow> return None | Some err \<Rightarrow> do { refused out pod err; return (Some err) } })"
  by (rule idle_answer[OF idle_publishStaged, where h = "\<lambda>err. do { refused out pod err; return (Some err) }"])
    (intro seated_rules, simp_all)

lemma idle_publishes: "refuses_idle (NodePublishVolume out request)"
  unfolding NodePublishVolume_def
  by (intro idle_unless(3) idle_sum idle_refused idle_if idle_of_a_claim idle_publish_inline)

lemma idle_refused_stage: "refuses_idle (refused_stage out r err)"
  unfolding refused_stage_def by (intro idle_seated seated_rules)

lemma idle_stageReadOnly: "refuses_idle (stageReadOnly out request parsed holder)"
  unfolding stageReadOnly_def Let_def
  by (intro idle_case idle_first[OF books_new_volume] idle_after idle_refused_stage seated_rules idle_success)

lemma idle_stage_writeable: "refuses_idle (stage_writeable out request parsed holder)"
  unfolding stage_writeable_def Let_def
  by (intro idle_unless idle_first[OF books_new_volume] idle_after seated_rules idle_success)

lemma idle_stages: "refuses_idle (NodeStageVolume out request)"
  unfolding NodeStageVolume_def Let_def
  by (intro idle_unless(3) idle_sum idle_case idle_if idle_after idle_answered idle_stageReadOnly idle_stage_writeable
      seated_rules)

text \<open>
  Property C23. A publish or a stage that answers an error leaves the node as it was: its
  published and its staged volumes, the volumes on every fetch loop, the watches and the armings are
  those from before the call, so the kubelet's next attempt starts from the same state.
\<close>

theorem a_refused_call_changes_no_books:
  assumes "call = NodePublishVolume out request \<or> call = NodeStageVolume out staging"
    and "run_state call w = (Some err, w')"
  shows "n_volumes w' = n_volumes w \<and> n_staged w' = n_staged w \<and> n_armings w' = n_armings w \<and>
     on_the_loop w' = on_the_loop w \<and> watched w' = watched w"
proof -
  have "refuses_idle call" using assms(1) idle_publishes idle_stages by auto
  with assms(2) show ?thesis by (auto simp: refuses_idle_def same_books_def)
qed

definition inline_request :: publishRequest where
  "inline_request = \<lparr>req_volume_id = ''csi-1'', req_target_path = ''/pods/1'', req_readonly = True,
     req_context = [(''csi.storage.k8s.io/ephemeral'', ''true''), (''url'', ''https://code.example.com/a.git'')], req_secrets = []\<rparr>"

definition no_remote :: "unit outside" where
  "no_remote = still_outside (output_of ''c'') (Some ''no route to host'')"

lemma failed_answer: "fst (run_state m w) \<noteq> None \<Longrightarrow> \<exists>err w'. run_state m w = (Some err, w')"
  by (cases "run_state m w") auto

theorem a_refused_call_changes_no_books_witness:
  "\<exists>err w'. run_state (NodePublishVolume no_remote inline_request) follow_world = (Some err, w') \<and>
     n_volumes w' = n_volumes follow_world"
proof -
  have "fst (run_state (NodePublishVolume no_remote inline_request) follow_world) \<noteq> None" by code_simp
  from failed_answer[OF this] obtain err w' where
    run: "run_state (NodePublishVolume no_remote inline_request) follow_world = (Some err, w')" by blast
  from a_refused_call_changes_no_books[OF disjI1[OF refl] run] run show ?thesis by blast
qed

end
