(* ===== verification/Repeats.thy ===== *)
theory Repeats
  imports NodeReplies
begin

section \<open>A repeated publish\<close>

text \<open>
  The CSIDriver sets \<open>requiresRepublish\<close>, so the kubelet sends every publish again on each pod sync. After a
  publish that answered success the same request finds the volume mounted and its Secret held, and changes
  nothing.
\<close>

subsection \<open>What a publish decides by\<close>

definition same_mounts :: "volume \<Rightarrow> volume \<Rightarrow> bool" where
  "same_mounts v v' \<longleftrightarrow> v_target v' = v_target v \<and> v_targets v' = v_targets v \<and> v_kind v' = v_kind v \<and>
     v_credentials v' = v_credentials v \<and> v_credentialLost v' = v_credentialLost v \<and>
     v_noPublishSecret v' = v_noPublishSecret v"

definition settled_mounts :: "'g world \<Rightarrow> 'g world \<Rightarrow> bool" where
  "settled_mounts w w' \<longleftrightarrow> (\<forall>r. same_mounts (w_heap w r) (w_heap w' r)) \<and> n_volumes w' = n_volumes w \<and> n_staged w' = n_staged w"

interpretation settled_mounts: step_bound settled_mounts
  by unfold_locales (simp_all add: settled_mounts_def same_mounts_def)

lemma mounts_leaf: "state_io_rel (leaf K) m \<Longrightarrow> state_io_rel settled_mounts m"
  by (simp add: state_io_rel_def leaf_def apart_def settled_mounts_def same_mounts_def)

lemma mounts_untouched: "state_io_rel untouched m \<Longrightarrow> state_io_rel settled_mounts m"
  by (rule mounts_leaf[OF untouched_leaf])

lemma mounts_change: "(\<And>v. same_mounts v (f v)) \<Longrightarrow> state_io_rel settled_mounts (change_volume r f)"
  by (simp add: state_io_rel_def settled_mounts_def same_mounts_def change_volume_def)

lemma mounts_on: "(\<And>v. same_mounts v (snd (g v))) \<Longrightarrow> state_io_rel settled_mounts (on_volume r g)"
  by (simp add: state_io_rel_def settled_mounts_def same_mounts_def on_volume_def case_prod_beta Let_def)

lemma same_reports:
  "same_mounts v (snd (takeHealth now v))" "same_mounts v (snd (reportTrouble message v))"
  "same_mounts v (reportCommit tip v)" "same_mounts v (answerDemandsBefore start v)" "same_mounts v (setPod pod v)"
  by (auto simp: same_mounts_def takeHealth_def reportTrouble_def reportCommit_def answerDemandsBefore_def setPod_def
      case_prod_beta Let_def)

lemma mounts_loops:
  "state_io_rel settled_mounts (on_loop name y g)"
  "state_io_rel settled_mounts (on_watcher vid r k)"
  "state_io_rel settled_mounts (loop_at name)"
  "state_io_rel settled_mounts (follow out r)"
  "state_io_rel settled_mounts (watch out r)"
  by (auto simp: state_io_rel_def settled_mounts_def same_mounts_def on_loop_def on_watcher_def loop_at_def follow_def
      watch_def volume_at_def time_now_def case_prod_beta Let_def split: option.splits)

lemma mounts_health: "state_io_rel settled_mounts (noteHealth out r)"
  unfolding noteHealth_def
  by (intro settled_mounts.bounds mounts_on same_reports untouched_ops[THEN mounts_untouched])

lemma mounts_fetch: "state_io_rel settled_mounts (timeFetch name (repo_fetch out repo env ref depth))"
  by (rule mounts_leaf[where K = UNIV], rule timeFetch_kinds, rule repo_fetch_kinds) simp

lemmas mounts_rules = settled_mounts.bounds mounts_change mounts_on same_reports mounts_health mounts_loops
  untouched_ops[THEN mounts_untouched] silent_window[THEN mounts_untouched]
  repository_kinds[where K = UNIV, THEN mounts_leaf] place_kinds[where K = UNIV, THEN mounts_leaf] mounts_fetch
  untouched_lookup[THEN mounts_untouched] silent_placing[THEN mounts_untouched]

lemma mounts_unless:
  "state_io_rel settled_mounts m \<Longrightarrow> state_io_rel settled_mounts k \<Longrightarrow> state_io_rel settled_mounts (unless_internal m k)"
  "state_io_rel settled_mounts m' \<Longrightarrow> state_io_rel settled_mounts k \<Longrightarrow> state_io_rel settled_mounts (unless_refused m' k)"
  unfolding unless_internal_def unless_refused_def by (intro settled_mounts.bounds; simp)+

lemma mounts_stage: "state_io_rel settled_mounts (stage out r)"
  unfolding stage_def create_missing_def Let_def
  by (intro mounts_rules mounts_unless; simp)

lemma mounts_mounts:
  fixes m :: "('g, 'a) io"
  shows "state_io_rel only_mounts m \<Longrightarrow> state_io_rel settled_mounts m"
proof -
  have "settled_mounts w w'" if "only_mounts w w'" for w w' :: "'g world"
  proof -
    have "w' = w\<lparr>w_mounts := w_mounts w', w_calls := w_calls w'\<rparr>" using that by (simp add: only_mounts_def)
    then obtain ms n where "w' = w\<lparr>w_mounts := ms, w_calls := n\<rparr>" by blast
    then show ?thesis by (simp add: settled_mounts_def same_mounts_def)
  qed
  then show "state_io_rel only_mounts m \<Longrightarrow> state_io_rel settled_mounts m"
    unfolding state_io_rel_def by blast
qed

lemma mounts_records:
  "state_io_rel settled_mounts (write_record out r)"
  "state_io_rel settled_mounts (refused out pod err)"
  "state_io_rel settled_mounts (refusedClaim out r err)"
  unfolding write_record_def refused_def refusedClaim_def Let_def
  by (intro mounts_rules; simp)+

lemma mounts_publish: "state_io_rel settled_mounts (publish out r)"
  unfolding publish_def bind_at_def
  by (intro mounts_rules mounts_unless mounts_stage only_mounts_ops[THEN mounts_mounts])

subsection \<open>The Secret of a publish, once taken\<close>

definition secured :: "credentials option \<Rightarrow> volume \<Rightarrow> bool" where
  "secured holder v \<longleftrightarrow> (if holder = None then needsCredential v \<longrightarrow> v_noPublishSecret v else same (v_credentials v) holder)"

lemma secured_same: "same_mounts v v' \<Longrightarrow> secured holder v \<Longrightarrow> secured holder v'"
  by (simp add: same_mounts_def secured_def needsCredential_def)

lemma same_refl: "same c c"
  by (simp add: same_def split: option.split)

lemma secured_takes_nothing:
  assumes "secured holder (w_heap w r)"
  shows "run_state (takeSecret out r holder) w = (False, w)"
  using assms
  by (auto simp: takeSecret_def noPublishSecret_def secured_def volume_at_def on_volume_def reportNoPublishSecret_def
      credential_def Let_def fun_upd_idem)

lemma arrival_mounts: "state_io_rel settled_mounts (credentialArrived out r)"
  unfolding credentialArrived_def loopOf_def Let_def
  by (intro mounts_rules)

text \<open>Taking a Secret moves no mount and no volume, and ends with the Secret held.\<close>

definition same_places :: "'g world \<Rightarrow> 'g world \<Rightarrow> bool" where
  "same_places w w' \<longleftrightarrow> n_volumes w' = n_volumes w \<and> n_staged w' = n_staged w \<and>
     (\<forall>r. v_target (w_heap w' r) = v_target (w_heap w r) \<and> v_targets (w_heap w' r) = v_targets (w_heap w r) \<and>
       v_kind (w_heap w' r) = v_kind (w_heap w r))"

interpretation same_places: step_bound same_places
  by unfold_locales (simp_all add: same_places_def)

lemma places_mounts: "state_io_rel settled_mounts m \<Longrightarrow> state_io_rel same_places m"
  by (simp add: state_io_rel_def settled_mounts_def same_mounts_def same_places_def)

lemma places_secret:
  "state_io_rel same_places (takeSecret out r holder)"
  "state_io_rel same_places (republished out r holder)"
proof -
  have taken: "state_io_rel same_places (on_volume r (takeCredential holder))"
    "state_io_rel same_places (on_volume r reportNoPublishSecret)"
    by (simp_all add: state_io_rel_def same_places_def on_volume_def takeCredential_def reportNoPublishSecret_def)
  then show "state_io_rel same_places (takeSecret out r holder)"
    unfolding takeSecret_def noPublishSecret_def Let_def
    by (intro same_places.bounds taken untouched_ops[THEN mounts_untouched, THEN places_mounts]
        mounts_health[THEN places_mounts] arrival_mounts[THEN places_mounts])
  then show "state_io_rel same_places (republished out r holder)" by (simp add: republished_def)
qed

lemma secured_stays: "state_io_rel settled_mounts m \<Longrightarrow> triple (\<lambda>w. secured holder (w_heap w r)) m (\<lambda>x w. secured holder (w_heap w r))"
  by (rule triple_bound[where R = settled_mounts]) (auto simp: settled_mounts_def intro: secured_same)

lemma takeSecret_secures: "triple P (takeSecret out r holder) (\<lambda>x w. secured holder (w_heap w r))"
proof (rule tripleI)
  fix w x w' assume run: "run_state (takeSecret out r holder) w = (x, w')"
  show "secured holder (w_heap w' r)"
  proof (cases "secured holder (w_heap w r)")
    case True
    with run show ?thesis by (simp add: secured_takes_nothing)
  next
    case False
    let ?v = "w_heap w r"
    show ?thesis
    proof (cases holder)
      case None
      have flags: "needsCredential ?v" "\<not> v_noPublishSecret ?v" using False None by (auto simp: secured_def)
      let ?w = "w\<lparr>w_heap := (w_heap w)(r := ?v\<lparr>v_noPublishSecret := True\<rparr>)\<rparr>"
      let ?then = "do { tell out r Warning reasonNoPublishSecret noPublishSecret_text; held \<leftarrow> volume_at r;
         (if writeable held then postClaim out (claimNow held) Warning reasonNoPublishSecret noPublishSecret_text
          else return ()); noteHealth out r; return True }"
      have "state_io_rel settled_mounts ?then" by (intro mounts_rules)
      from secured_stays[OF this] have kept: "triple (\<lambda>w. secured holder (w_heap w r)) ?then (\<lambda>x w. secured holder (w_heap w r))" .
      have last: "run_state ?then ?w = (x, w')"
        using run flags None
        by (simp add: takeSecret_def noPublishSecret_def volume_at_def on_volume_def reportNoPublishSecret_def)
      have "secured holder (w_heap ?w r)" by (simp add: secured_def None)
      from tripleD[OF kept this last] show ?thesis .
    next
      case (Some c)
      have fresh: "\<not> same (v_credentials ?v) holder" using False Some by (simp add: secured_def)
      let ?w = "w\<lparr>w_heap := (w_heap w)(r := ?v\<lparr>v_credentials := holder, v_credentialLost := False\<rparr>)\<rparr>"
      let ?then = "if v_credentialLost ?v then do { noteHealth out r; credentialArrived out r; return True }
         else if v_credentials ?v \<noteq> None then do { credentialArrived out r; return True } else return True"
      have "state_io_rel settled_mounts ?then" by (intro mounts_rules arrival_mounts)
      from secured_stays[OF this] have kept: "triple (\<lambda>w. secured holder (w_heap w r)) ?then (\<lambda>x w. secured holder (w_heap w r))" .
      have last: "run_state ?then ?w = (x, w')"
        using run fresh Some
        by (simp add: takeSecret_def credential_def volume_at_def on_volume_def takeCredential_def Let_def)
      have "secured holder (w_heap ?w r)" by (simp add: secured_def Some same_refl)
      from tripleD[OF kept this last] show ?thesis .
    qed
  qed
qed

subsection \<open>What holds when a call answers success\<close>

definition succeeds :: "('g world \<Rightarrow> bool) \<Rightarrow> ('g, 'e option) io \<Rightarrow> ('g world \<Rightarrow> bool) \<Rightarrow> bool" where
  "succeeds P m Q \<longleftrightarrow> triple P m (\<lambda>x w. x = None \<longrightarrow> Q w)"

definition lasting :: "('g world \<Rightarrow> bool) \<Rightarrow> bool" where
  "lasting P \<longleftrightarrow> (\<forall>w w'. settled_mounts w w' \<longrightarrow> P w \<longrightarrow> P w')"

lemma lasting_triple: "lasting P \<Longrightarrow> state_io_rel settled_mounts m \<Longrightarrow> triple P m (\<lambda>x. P)"
  by (rule triple_bound[where R = settled_mounts]) (auto simp: lasting_def)

lemma succeeds_first:
  "lasting P \<Longrightarrow> state_io_rel settled_mounts m \<Longrightarrow> (\<And>x. succeeds P (k x) Q) \<Longrightarrow> succeeds P (m \<bind> k) Q"
  unfolding succeeds_def by (rule triple_bind[OF lasting_triple])

lemma succeeds_case: "succeeds P k Q \<Longrightarrow> succeeds P (case e of None \<Rightarrow> k | Some x \<Rightarrow> return (Some (f x))) Q"
  by (cases e) (simp_all add: succeeds_def triple_return_iff)

lemma succeeds_unless:
  "lasting P \<Longrightarrow> state_io_rel settled_mounts m \<Longrightarrow> succeeds P k Q \<Longrightarrow> succeeds P (unless_internal m k) Q"
  "lasting P \<Longrightarrow> state_io_rel settled_mounts m' \<Longrightarrow> succeeds P k Q \<Longrightarrow> succeeds P (unless_refused m' k) Q"
  "succeeds P k Q \<Longrightarrow> succeeds P (unless_status failed k) Q"
  unfolding unless_internal_def unless_refused_def unless_status_def
    apply (erule (1) succeeds_first, erule succeeds_case)
   apply (erule (1) succeeds_first, erule succeeds_case[where f = "\<lambda>err. err"])
  apply (erule succeeds_case[where f = "\<lambda>err. err"])
  done

lemma succeeds_modify: "(\<And>w. P w \<Longrightarrow> P' (f w)) \<Longrightarrow> succeeds P' k Q \<Longrightarrow> succeeds P (modify f \<bind> (\<lambda>x. k)) Q"
  by (simp add: succeeds_def triple_def)

lemma succeeds_change:
  "(\<And>w. P w \<Longrightarrow> P' (w\<lparr>w_heap := (w_heap w)(r := f (w_heap w r))\<rparr>)) \<Longrightarrow> succeeds P' k Q \<Longrightarrow>
   succeeds P (change_volume r f \<bind> (\<lambda>x. k)) Q"
  unfolding change_volume_def by (rule succeeds_modify)

lemma succeeds_return: "(\<And>w. P w \<Longrightarrow> Q w) \<Longrightarrow> succeeds P (return None) Q"
  "succeeds P (return (Some err)) Q"
  by (simp_all add: succeeds_def triple_def)

lemma succeeds_fails: "succeeds P (do { a; b; return (Some err) }) Q" "succeeds P (do { a; return (Some err) }) Q"
  by (simp_all add: succeeds_def triple_def case_prod_beta)

lemma succeeds_if: "(b \<Longrightarrow> succeeds P m Q) \<Longrightarrow> (\<not> b \<Longrightarrow> succeeds P k Q) \<Longrightarrow> succeeds P (if b then m else k) Q"
  by simp

lemma succeeds_pre: "succeeds P' m Q \<Longrightarrow> (\<And>w. P w \<Longrightarrow> P' w) \<Longrightarrow> succeeds P m Q"
  by (simp add: succeeds_def triple_def)

lemma succeeds_weaken: "succeeds P m Q' \<Longrightarrow> (\<And>w. Q' w \<Longrightarrow> Q w) \<Longrightarrow> succeeds P m Q"
  by (simp add: succeeds_def triple_def)

lemma succeeds_and: "succeeds P m Q \<Longrightarrow> succeeds P m Q' \<Longrightarrow> succeeds P m (\<lambda>w. Q w \<and> Q' w)"
  by (simp add: succeeds_def triple_def)

lemma succeeds_answer:
  assumes "succeeds P m Q" and "k None = return None" and "\<And>err w. fst (run_state (k (Some err)) w) \<noteq> None"
  shows "succeeds P (m \<bind> k) Q"
  unfolding succeeds_def
proof (rule tripleI, rule impI)
  fix w x w' assume P: "P w" and run: "run_state (m \<bind> k) w = (x, w')" and done_well: "x = None"
  obtain y v where first: "run_state m w = (y, v)" by (rule run_pair)
  have "y = None"
  proof (cases y)
    case (Some err)
    with run first done_well have "fst (run_state (k (Some err)) v) = None" by simp
    with assms(3) show ?thesis by blast
  qed simp
  with run first assms(2) have "w' = v" by simp
  with tripleD[OF assms(1)[unfolded succeeds_def] P first] \<open>y = None\<close> show "Q w'" by simp
qed

subsection \<open>An inline volume\<close>

definition stands :: "string \<Rightarrow> string \<Rightarrow> credentials option \<Rightarrow> 'g world \<Rightarrow> bool" where
  "stands vid target holder w \<longleftrightarrow> (\<exists>p. map_of (n_volumes w) vid = Some p \<and> v_target (w_heap w p) = target \<and>
     secured holder (w_heap w p))"

lemma lasting_stands: "lasting (stands vid target holder)"
proof -
  have "stands vid target holder w'" if "settled_mounts w w'" "stands vid target holder w" for w w' :: "'g world"
  proof -
    from that(2) obtain p where p: "map_of (n_volumes w) vid = Some p" "v_target (w_heap w p) = target"
      "secured holder (w_heap w p)" by (auto simp: stands_def)
    have "same_mounts (w_heap w p) (w_heap w' p)" "n_volumes w' = n_volumes w" using that(1) by (auto simp: settled_mounts_def)
    with p secured_same[OF this(1) p(3)] show ?thesis by (auto simp: stands_def same_mounts_def)
  qed
  then show ?thesis by (auto simp: lasting_def)
qed

definition mounting :: "string \<Rightarrow> credentials option \<Rightarrow> nat \<Rightarrow> 'g world \<Rightarrow> bool" where
  "mounting target holder r w \<longleftrightarrow> v_target (w_heap w r) = target \<and> secured holder (w_heap w r)"

lemma lasting_mounting: "lasting (mounting target holder r)"
  by (auto simp: lasting_def mounting_def settled_mounts_def same_mounts_def intro: secured_same)

lemma triple_again:
  "triple (\<lambda>w. map_of (n_volumes w) vid = Some p \<and> v_target (w_heap w p) = target) (do { _ \<leftarrow> republished out p holder; return None })
     (\<lambda>x. stands vid target holder)"
proof (rule triple_bind)
  let ?P = "\<lambda>w. map_of (n_volumes w) vid = Some p \<and> v_target (w_heap w p) = target"
  show "triple ?P (republished out p holder) (\<lambda>x w. ?P w \<and> secured holder (w_heap w p))"
  proof -
    have "triple ?P (takeSecret out p holder) (\<lambda>x. ?P)"
      by (rule triple_bound[OF places_secret(1)]) (auto simp: same_places_def)
    from triple_and[OF this takeSecret_secures[of "\<lambda>w. True"]] show ?thesis
      unfolding republished_def by (simp add: triple_def)
  qed
qed (auto simp: stands_def triple_return_iff)

lemma stands_again:
  assumes "stands vid target holder w" and "vid = req_volume_id request" "target = req_target_path request"
  shows "run_state (publish_inline out request parsed holder) w = (None, w)"
proof -
  from assms obtain p where p: "map_of (n_volumes w) vid = Some p" "v_target (w_heap w p) = target"
    "secured holder (w_heap w p)" by (auto simp: stands_def)
  have "run_state (republished out p holder) w = (False, w)"
    using secured_takes_nothing[where r = p, OF p(3)] by (simp add: republished_def)
  with p assms(2,3) show ?thesis by (simp add: publish_inline_def volume_at_def Let_def)
qed

lemma publish_inline_stands:
  "succeeds (\<lambda>w. True) (publish_inline out request parsed holder) (stands (req_volume_id request) (req_target_path request) holder)"
proof -
  let ?vid = "req_volume_id request" and ?target = "req_target_path request" and ?S = "stands (req_volume_id request) (req_target_path request) holder"
  let ?new = "(zero_volume ?vid parsed inlineVolume (volumeDir out ?vid))
           \<lparr>v_credentials := holder, v_target := ?target, v_context := req_context request, v_pod := a_pod parsed\<rparr>"
  let ?tail = "\<lambda>r. do { write_record out r;
             modify (\<lambda>w. w\<lparr>n_volumes := set_entry ?vid r (n_volumes w)\<rparr>);
             follow out r;
             return None }"
  let ?fresh = "do { r \<leftarrow> new_volume ?new; failed \<leftarrow> publish out r;
         case failed of
           Some err \<Rightarrow> do { refused out (a_pod parsed) err; _ \<leftarrow> RemoveAll out (volumeDir out ?vid); return (Some err) }
         | None \<Rightarrow> ?tail r }"
  have tail: "succeeds (mounting ?target holder r) (?tail r) ?S" for r
    by (intro succeeds_first lasting_mounting lasting_stands mounts_records mounts_loops succeeds_return
        succeeds_modify[where P' = ?S])
      (auto simp: mounting_def stands_def map_of_set_entry)
  have arrives: "triple (\<lambda>w. True) (new_volume ?new) (mounting ?target holder)"
    by (auto simp: triple_def new_volume_def mounting_def secured_def needsCredential_def zero_volume_def same_refl)
  have fresh: "succeeds (\<lambda>w. True) ?fresh ?S"
    unfolding succeeds_def
  proof (rule triple_bind[OF arrives], fold succeeds_def, rule succeeds_first[OF lasting_mounting mounts_publish])
    fix r and failed :: "status option"
    show "succeeds (mounting ?target holder r) (case failed of
           Some err \<Rightarrow> do { refused out (a_pod parsed) err; _ \<leftarrow> RemoveAll out (volumeDir out ?vid); return (Some err) }
         | None \<Rightarrow> ?tail r) ?S"
      using tail succeeds_fails by (cases failed) auto
  qed
  show ?thesis
    unfolding publish_inline_def Let_def succeeds_def
  proof (rule triple_gets, rule triple_option)
    show "triple P ?fresh (\<lambda>x w. x = None \<longrightarrow> ?S w)" for P
      using fresh by (simp add: succeeds_def triple_def)
  next
    fix found and p :: nat assume "found = Some p"
    then show "triple (\<lambda>s. True \<and> map_of (n_volumes s) ?vid = found) (do { published \<leftarrow> volume_at p;
           if v_target published \<noteq> ?target
           then return (Some (published_elsewhere ?vid (v_target published)))
           else do { _ \<leftarrow> republished out p holder; return None } }) (\<lambda>x w. x = None \<longrightarrow> ?S w)"
      by (intro triple_volume triple_if, simp add: triple_return_iff)
        (rule triple_weaken[OF triple_again[of ?vid p ?target out holder]], auto)
  qed
qed

subsection \<open>A staged volume\<close>

definition held_here :: "string \<Rightarrow> nat \<Rightarrow> bool \<Rightarrow> 'g world \<Rightarrow> bool" where
  "held_here vid r claim w \<longleftrightarrow> map_of (n_staged w) vid = Some r \<and> (v_kind (w_heap w r) = readOnlyClaim) = claim"

definition stands_claim :: "string \<Rightarrow> string \<Rightarrow> credentials option \<Rightarrow> 'g world \<Rightarrow> bool" where
  "stands_claim vid target holder w \<longleftrightarrow> (\<exists>r. held_here vid r True w \<and> boundAt target (w_heap w r) \<and> secured holder (w_heap w r))"

definition stands_work :: "string \<Rightarrow> string \<Rightarrow> credentials option \<Rightarrow> 'g world \<Rightarrow> bool" where
  "stands_work vid target holder w \<longleftrightarrow> (\<exists>r. held_here vid r False w) \<and> stands vid target holder w"

definition stands_staged :: "publishRequest \<Rightarrow> credentials option \<Rightarrow> 'g world \<Rightarrow> bool" where
  "stands_staged request holder w \<longleftrightarrow>
     (req_readonly request \<and> stands_claim (req_volume_id request) (req_target_path request) holder w) \<or>
     stands_work (req_volume_id request) (req_target_path request) holder w"

lemma held_settled: "settled_mounts w w' \<Longrightarrow> held_here vid r claim w' = held_here vid r claim w"
  by (simp add: settled_mounts_def held_here_def same_mounts_def)

lemma held_places: "same_places w w' \<Longrightarrow> held_here vid r claim w' = held_here vid r claim w"
  by (simp add: same_places_def held_here_def)

lemma lasting_held: "lasting (held_here vid r claim)"
  by (auto simp: lasting_def held_settled)

lemma lasting_and: "lasting P \<Longrightarrow> lasting Q \<Longrightarrow> lasting (\<lambda>w. P w \<and> Q w)"
  by (auto simp: lasting_def)

lemma lasting_volume:
  "lasting (\<lambda>w. secured holder (w_heap w r))" "lasting (\<lambda>w. boundAt target (w_heap w r))"
  "lasting (\<lambda>w. v_target (w_heap w r) = target)"
  by (auto simp: lasting_def settled_mounts_def same_mounts_def boundAt_def intro: secured_same)

lemma lasting_stands_kinds: "lasting (stands_claim vid target holder)" "lasting (stands_work vid target holder)"
proof -
  show "lasting (stands_claim vid target holder)"
    using lasting_and[OF lasting_held lasting_and[OF lasting_volume(2) lasting_volume(1)]]
    unfolding lasting_def stands_claim_def by blast
  show "lasting (stands_work vid target holder)"
    using lasting_held lasting_stands unfolding lasting_def stands_work_def by blast
qed

lemma succeeds_secret:
  assumes "\<And>w w'. same_places w w' \<Longrightarrow> P w \<Longrightarrow> P w'" and "\<And>x. succeeds (\<lambda>w. P w \<and> secured holder (w_heap w r)) (k x) Q"
  shows "succeeds P (takeSecret out r holder \<bind> k) Q"
proof -
  have "triple P (takeSecret out r holder) (\<lambda>x. P)"
    by (rule triple_bound[OF places_secret(1)]) (rule assms(1))
  from triple_and[OF this takeSecret_secures[of "\<lambda>w. True"]]
  have "triple P (takeSecret out r holder) (\<lambda>x w. P w \<and> secured holder (w_heap w r))" by (simp add: triple_def)
  from triple_bind[OF this] assms(2) show ?thesis by (auto simp: succeeds_def)
qed

lemma mounted_after:
  assumes "lasting P" "state_io_rel only_mounts attach" "succeeds P k Q"
  shows "succeeds P (unless_internal (MkdirAll out (read_path target) mode) (unless_internal (unbind out target)
     (unless_internal attach k))) Q"
  using succeeds_unless(1)[OF assms(1) untouched_os(3)[THEN mounts_untouched]
      succeeds_unless(1)[OF assms(1) only_mounts_ops(2)[THEN mounts_mounts]
      succeeds_unless(1)[OF assms(1) mounts_mounts[OF assms(2)] assms(3)]]] .

lemma claim_stands:
  "succeeds (held_here vid r True) (publishReadOnly out r request parsed holder) (stands_claim vid (req_target_path request) holder)"
proof -
  let ?target = "req_target_path request" and ?H = "held_here vid r True"
  let ?B = "\<lambda>w. ?H w \<and> boundAt ?target (w_heap w r)" and ?S = "stands_claim vid (req_target_path request) holder"
  have kept: "?B w'" if "same_places w w'" "?B w" for w w' :: "'a world"
    using that by (auto simp: held_places boundAt_def) (auto simp: same_places_def)
  have last: "?S w" if "(?H w \<and> boundAt ?target (w_heap w r)) \<and> secured holder (w_heap w r)" for w :: "'a world"
    using that by (auto simp: stands_claim_def)
  have mods: "?S (w\<lparr>n_volumes := ns\<rparr>)" if "?S w" for w :: "'a world" and ns
    using that by (simp add: stands_claim_def held_here_def)
  have again: "succeeds ?B (do { _ \<leftarrow> republished out r holder; return None }) ?S"
    unfolding republished_def by (rule succeeds_secret, erule (1) kept, rule succeeds_return, erule last)
  have first: "succeeds ?H (do { change_volume r (bind_target ?target (a_pod parsed)); _ \<leftarrow> takeSecret out r holder;
      write_record out r; modify (\<lambda>w. w\<lparr>n_volumes := set_entry n r (n_volumes w)\<rparr>); return None }) ?S" for n
  proof (rule succeeds_change[where P' = ?B])
    show "succeeds ?B (do { _ \<leftarrow> takeSecret out r holder;
      write_record out r; modify (\<lambda>w. w\<lparr>n_volumes := set_entry n r (n_volumes w)\<rparr>); return None }) ?S"
      by (rule succeeds_secret, erule (1) kept,
          rule succeeds_first[OF lasting_and[OF lasting_and[OF lasting_held lasting_volume(2)] lasting_volume(1)] mounts_records(1)],
          rule succeeds_modify[where P' = ?S], rule mods, erule last, rule succeeds_return)
  qed (simp add: held_here_def bind_target_def boundAt_def map_of_set_entry)
  show ?thesis
    unfolding publishReadOnly_def Let_def bind_at_def
  proof (rule succeeds_if, rule succeeds_return)
    show "succeeds ?H (do { staged \<leftarrow> volume_at r;
        if boundAt ?target staged then do { _ \<leftarrow> republished out r holder; return None }
        else unless_status (checkSecret staged holder)
          (unless_internal (MkdirAll out (read_path ?target) 493)
          (unless_internal (unbind out ?target)
          (unless_internal (bindReadOnly out (v_tree staged) ?target) (do {
            change_volume r (bind_target ?target (a_pod parsed));
            _ \<leftarrow> takeSecret out r holder;
            write_record out r;
            modify (\<lambda>w. w\<lparr>n_volumes := set_entry (v_id staged) r (n_volumes w)\<rparr>);
            return None })))) }) ?S"
      unfolding succeeds_def
    proof (rule triple_volume, fold succeeds_def, rule succeeds_if)
      fix x assume "boundAt ?target x"
      then show "succeeds (\<lambda>s. ?H s \<and> w_heap s r = x) (do { _ \<leftarrow> republished out r holder; return None }) ?S"
        by (intro succeeds_pre[OF again]) auto
    next
      fix x
      show "succeeds (\<lambda>s. ?H s \<and> w_heap s r = x) (unless_status (checkSecret x holder)
          (unless_internal (MkdirAll out (read_path ?target) 493)
          (unless_internal (unbind out ?target)
          (unless_internal (bindReadOnly out (v_tree x) ?target) (do {
            change_volume r (bind_target ?target (a_pod parsed));
            _ \<leftarrow> takeSecret out r holder;
            write_record out r;
            modify (\<lambda>w. w\<lparr>n_volumes := set_entry (v_id x) r (n_volumes w)\<rparr>);
            return None }))))) ?S"
        by (rule succeeds_pre[where P' = ?H], rule succeeds_unless(3), intro mounted_after lasting_held only_mounts_ops first, simp)
    qed
  qed
qed

lemma claim_reads_only: "succeeds P (publishReadOnly out r request parsed holder) (\<lambda>w. req_readonly request)"
  unfolding publishReadOnly_def by (rule succeeds_if, rule succeeds_return) (simp add: succeeds_def triple_def)

lemma work_stands:
  assumes "vid = req_volume_id request"
  shows "succeeds (held_here vid r False) (publish_writeable out r request parsed holder) (stands_work vid (req_target_path request) holder)"
proof -
  let ?target = "req_target_path request" and ?H = "held_here vid r False"
  let ?S = "stands_work vid (req_target_path request) holder"
  let ?G = "\<lambda>w. ?H w \<and> secured holder (w_heap w r)" and ?T = "\<lambda>w. ?H w \<and> mounting ?target holder r w"
  have kept: "?H w'" if "same_places w w'" "?H w" for w w' :: "'a world"
    using that by (simp add: held_places)
  have last: "?S (w\<lparr>n_volumes := set_entry vid r (n_volumes w)\<rparr>)" if "?T w" for w :: "'a world"
    using that by (auto simp: stands_work_def held_here_def stands_def mounting_def map_of_set_entry)
  have published: "succeeds ?G (do { change_volume r (\<lambda>v. v\<lparr>v_target := ?target, v_context := req_context request\<rparr>);
      write_record out r; modify (\<lambda>w. w\<lparr>n_volumes := set_entry vid r (n_volumes w)\<rparr>); watch out r; return None }) ?S"
  proof (rule succeeds_change[where P' = ?T])
    show "succeeds ?T (do { write_record out r; modify (\<lambda>w. w\<lparr>n_volumes := set_entry vid r (n_volumes w)\<rparr>);
        watch out r; return None }) ?S"
      by (rule succeeds_first[OF lasting_and[OF lasting_held lasting_mounting] mounts_records(1)],
          rule succeeds_modify[where P' = ?S], erule last,
          rule succeeds_first[OF lasting_stands_kinds(2) mounts_loops(5)], rule succeeds_return)
  qed (auto simp: held_here_def mounting_def secured_def needsCredential_def)
  have mounted: "succeeds ?G (unless_internal (MkdirAll out (read_path ?target) 493) (unless_internal (unbind out ?target)
      (unless_internal (bindReadWrite out source ?target) (do {
         change_volume r (\<lambda>v. v\<lparr>v_target := ?target, v_context := req_context request\<rparr>);
         write_record out r; modify (\<lambda>w. w\<lparr>n_volumes := set_entry vid r (n_volumes w)\<rparr>); watch out r; return None })))) ?S" for source
    by (rule mounted_after[OF lasting_and[OF lasting_held lasting_volume(1)] only_mounts_ops(3) published])
  have secret: "succeeds ?H (do { _ \<leftarrow> takeSecret out r holder;
       unless_internal (MkdirAll out (read_path ?target) 493) (unless_internal (unbind out ?target)
      (unless_internal (bindReadWrite out source ?target) (do {
         change_volume r (\<lambda>v. v\<lparr>v_target := ?target, v_context := req_context request\<rparr>);
         write_record out r; modify (\<lambda>w. w\<lparr>n_volumes := set_entry vid r (n_volumes w)\<rparr>); watch out r; return None }))) }) ?S"
    for source
    by (rule succeeds_secret, erule (1) kept, rule mounted)
  show ?thesis
    unfolding publish_writeable_def Let_def assms[symmetric] bind_at_def
    by (rule succeeds_first[OF lasting_held untouched_primitives(1)[THEN mounts_untouched]], rule succeeds_unless(3),
        rule succeeds_first[OF lasting_held mounts_change], rule same_reports, rule secret)
qed

lemma staged_stands:
  "succeeds (\<lambda>w. True) (publishStaged out request parsed holder) (stands_staged request holder)"
proof -
  let ?vid = "req_volume_id request" and ?target = "req_target_path request"
  let ?S = "stands_staged request holder"
  have claim: "succeeds (held_here ?vid r True) (do { answer \<leftarrow> publishReadOnly out r request parsed holder;
          case answer of None \<Rightarrow> return None
          | Some err \<Rightarrow> do { err \<leftarrow> refusedClaim out r err; return (Some err) } }) ?S" for r
    by (rule succeeds_answer) (rule succeeds_weaken[OF succeeds_and[OF claim_stands claim_reads_only]], simp_all add: stands_staged_def case_prod_beta)
  have work: "succeeds (held_here ?vid r False) (publish_writeable out r request parsed holder) ?S" for r
    by (rule succeeds_weaken[OF work_stands]) (simp_all add: stands_staged_def)
  have again: "succeeds (\<lambda>w. held_here ?vid r False w \<and> map_of (n_volumes w) ?vid = Some p) (do { published \<leftarrow> volume_at p;
             if v_target published \<noteq> ?target
             then return (Some (published_elsewhere ?vid (v_target published)))
             else do { _ \<leftarrow> republished out p holder; return None } }) ?S" for r p
    unfolding succeeds_def
  proof (intro triple_volume triple_if, simp add: triple_return_iff)
    fix x :: volume assume here: "\<not> v_target x \<noteq> ?target"
    have "triple (held_here ?vid r False) (do { _ \<leftarrow> republished out p holder; return None }) (\<lambda>x. held_here ?vid r False)"
      by (rule triple_bound[where R = same_places], intro same_places.bounds places_secret) (simp add: held_places)
    from triple_and[OF this triple_again[of ?vid p ?target out holder]]
    show "triple (\<lambda>s. (held_here ?vid r False s \<and> map_of (n_volumes s) ?vid = Some p) \<and> w_heap s p = x)
       (do { _ \<leftarrow> republished out p holder; return None }) (\<lambda>x w. x = None \<longrightarrow> ?S w)"
      by (rule triple_weaken) (use here in \<open>auto simp: stands_staged_def stands_work_def\<close>)
  qed
  show ?thesis
    unfolding publishStaged_def Let_def succeeds_def
  proof (rule triple_gets, rule triple_gets, rule triple_option, simp add: triple_return_iff, rule triple_volume, rule triple_if)
    fix found standing and r :: nat and x :: volume assume "found = Some r" "v_kind x = readOnlyClaim"
    then show "triple (\<lambda>s. ((True \<and> map_of (n_staged s) ?vid = found) \<and> map_of (n_volumes s) ?vid = standing) \<and> w_heap s r = x)
      (do { answer \<leftarrow> publishReadOnly out r request parsed holder; case answer of None \<Rightarrow> return None
          | Some err \<Rightarrow> do { err \<leftarrow> refusedClaim out r err; return (Some err) } }) (\<lambda>x w. x = None \<longrightarrow> ?S w)"
      by (intro triple_pre[OF claim[unfolded succeeds_def]]) (simp add: held_here_def)
  next
    fix found standing :: "nat option" and r and x :: volume assume here: "found = Some r" "v_kind x \<noteq> readOnlyClaim"
    show "triple (\<lambda>s. ((True \<and> map_of (n_staged s) ?vid = found) \<and> map_of (n_volumes s) ?vid = standing) \<and> w_heap s r = x)
      (case standing of
           Some p \<Rightarrow> do {
             published \<leftarrow> volume_at p;
             if v_target published \<noteq> ?target
             then return (Some (published_elsewhere ?vid (v_target published)))
             else do { _ \<leftarrow> republished out p holder; return None }
           }
         | None \<Rightarrow> publish_writeable out r request parsed holder) (\<lambda>x w. x = None \<longrightarrow> ?S w)"
    proof (rule triple_option)
      show "triple (\<lambda>s. ((True \<and> map_of (n_staged s) ?vid = found) \<and> map_of (n_volumes s) ?vid = standing) \<and> w_heap s r = x)
        (publish_writeable out r request parsed holder) (\<lambda>x w. x = None \<longrightarrow> ?S w)"
        by (rule triple_pre[OF work[unfolded succeeds_def]]) (use here in \<open>simp add: held_here_def\<close>)
    qed (rule triple_pre[OF again[unfolded succeeds_def]], use here in \<open>auto simp: held_here_def\<close>)
  qed
qed

lemma staged_again:
  assumes "stands_staged request holder w"
  shows "run_state (publishStaged out request parsed holder) w = (None, w)"
  using assms unfolding stands_staged_def
proof
  assume "req_readonly request \<and> stands_claim (req_volume_id request) (req_target_path request) holder w"
  then obtain r where claim: "req_readonly request" "held_here (req_volume_id request) r True w"
    "boundAt (req_target_path request) (w_heap w r)" "secured holder (w_heap w r)" by (auto simp: stands_claim_def)
  have "run_state (republished out r holder) w = (False, w)"
    using secured_takes_nothing[where r = r, OF claim(4)] by (simp add: republished_def)
  with claim show ?thesis
    by (simp add: publishStaged_def publishReadOnly_def held_here_def volume_at_def Let_def)
next
  assume "stands_work (req_volume_id request) (req_target_path request) holder w"
  then obtain r p where work: "held_here (req_volume_id request) r False w" "map_of (n_volumes w) (req_volume_id request) = Some p"
    "v_target (w_heap w p) = req_target_path request" "secured holder (w_heap w p)"
    by (auto simp: stands_work_def stands_def)
  have "run_state (republished out p holder) w = (False, w)"
    using secured_takes_nothing[where r = p, OF work(4)] by (simp add: republished_def)
  with work show ?thesis
    by (simp add: publishStaged_def held_here_def volume_at_def Let_def)
qed

subsection \<open>The call\<close>

lemma answers_on:
  assumes "run_state (m \<bind> k) w = (None, w')" and "k None = return None" and "\<And>err v. fst (run_state (k (Some err)) v) \<noteq> None"
  shows "run_state m w = (None, w')"
proof -
  obtain y v where first: "run_state m w = (y, v)" by (rule run_pair)
  have rest: "run_state (k y) v = (None, w')" using assms(1) first by simp
  have "y = None"
  proof (cases y)
    case (Some err)
    with rest have "fst (run_state (k (Some err)) v) = None" by simp
    with assms(3) show ?thesis by blast
  qed simp
  with rest first assms(2) show ?thesis by simp
qed

text \<open>
  Property C9. A publish is idempotent. When a publish of any kind of volume answered success, the
  same request sent again answers success and changes nothing at all: no mount, no file, no volume, no loop,
  no git call and no Event. That is what lets the driver ask the kubelet to repeat every publish.
\<close>

theorem a_repeated_publish_changes_nothing:
  assumes "run_state (NodePublishVolume out request) w = (None, w')"
  shows "run_state (NodePublishVolume out request) w' = (None, w')"
proof (cases "parseAttributes request")
  case (Inl err)
  with assms show ?thesis by (auto simp: NodePublishVolume_def unless_status_def case_prod_beta split: option.splits if_splits)
next
  case attributes: (Inr parsed)
  show ?thesis
  proof (cases "parseCredentials (req_secrets request)")
    case (Inl err)
    with assms attributes show ?thesis
      by (auto simp: NodePublishVolume_def unless_status_def case_prod_beta split: option.splits if_splits)
  next
    case holder: (Inr holder)
    let ?staged = "do { failed \<leftarrow> publishStaged out request parsed holder;
        case failed of None \<Rightarrow> return None | Some err \<Rightarrow> do { refused out (a_pod parsed) err; return (Some err) } }"
    have fine: "path_of_id (req_volume_id request) = None" "req_target_path request \<noteq> []"
      using assms by (auto simp: NodePublishVolume_def unless_status_def split: option.splits if_splits)
    have call: "NodePublishVolume out request = (if \<not> a_ephemeral parsed then ?staged else publish_inline out request parsed holder)"
      by (simp add: NodePublishVolume_def unless_status_def attributes holder fine)
    show ?thesis
    proof (cases "a_ephemeral parsed")
      case True
      with assms call have "run_state (publish_inline out request parsed holder) w = (None, w')" by simp
      from tripleD[OF publish_inline_stands[unfolded succeeds_def] TrueI this]
      have "stands (req_volume_id request) (req_target_path request) holder w'" by simp
      from stands_again[OF this refl refl] True call show ?thesis by simp
    next
      case False
      with assms call have "run_state ?staged w = (None, w')" by simp
      then have "run_state (publishStaged out request parsed holder) w = (None, w')"
        by (rule answers_on) (simp_all add: case_prod_beta)
      from tripleD[OF staged_stands[unfolded succeeds_def] TrueI this]
      have "stands_staged request holder w'" by simp
      from staged_again[OF this] False call show ?thesis by simp
    qed
  qed
qed

definition secret_request :: publishRequest where
  "secret_request = inline_request\<lparr>req_secrets := [(''token'', ''t0ken'')]\<rparr>"

definition resumed_world :: "unit world" where
  "resumed_world = (world_of [([''store''], dir_node)] ((zero_volume ''csi-1'' defaultAttributes inlineVolume [''store'', ''volumes'', ''csi-1''])
     \<lparr>v_target := ''/pods/1'', v_credentialLost := True\<rparr>))\<lparr>n_volumes := [(''csi-1'', 0)]\<rparr>"

theorem a_repeated_publish_changes_nothing_witness:
  "\<exists>w'. run_state (NodePublishVolume no_remote secret_request) resumed_world = (None, w') \<and>
     v_credentialLost (w_heap resumed_world 0) \<and> \<not> v_credentialLost (w_heap w' 0) \<and>
     run_state (NodePublishVolume no_remote secret_request) w' = (None, w')"
proof -
  let ?run = "run_state (NodePublishVolume no_remote secret_request) resumed_world"
  have "fst ?run = None" "v_credentialLost (w_heap resumed_world 0)" "\<not> v_credentialLost (w_heap (snd ?run) 0)" by code_simp+
  moreover from this(1) have "?run = (None, snd ?run)" by (cases ?run) simp
  ultimately show ?thesis using a_repeated_publish_changes_nothing[of no_remote secret_request resumed_world "snd ?run"] by blast
qed

end
