(* ===== verification/Resumes.thy ===== *)
theory Resumes
  imports Repeats
begin

section \<open>What a restart and a failed unmount leave\<close>

text \<open>
  The record of a published volume against the volume it was written from, the side branch a restarted driver
  holds, and the work a failed unmount leaves undone.
\<close>

subsection \<open>The record\<close>

lemma kind_names_read_back: "record_kind (record_of v) = v_kind v"
  by (cases "v_kind v") (simp_all add: record_kind_def record_of_def inlineKind_def readOnlyKind_def writeableKind_def)

lemma record_fields:
  "rc_VolumeID (record_of v) = v_id v" "rc_Attributes (record_of v) = v_context v" "rc_Target (record_of v) = v_target v"
  "rc_Targets (record_of v) = boundTargets v" "rc_Staging (record_of v) = v_staging v"
  "rc_Credentials (record_of v) = needsCredential v"
  by (simp_all add: record_of_def)

lemma record_reads_back:
  assumes "\<And>n call. o_refuse out n call = None" and "o_unjson out (o_json out (record_of (w_heap w r))) = Some (record_of (w_heap w r))"
    and "is_dir (w_files w) (v_directory (w_heap w r))"
    and "\<forall>n. look (w_files w) (join_path (v_directory (w_heap w r)) recordFile) = Some n \<longrightarrow> (\<exists>c. fn_content n = Regular c)"
  shows "fst (run_state (do { write_record out r; readRecord out (join_path (v_directory (w_heap w r)) recordFile) }) w) =
    Some (record_of (w_heap w r))"
proof -
  let ?v = "w_heap w r" and ?p = "join_path (v_directory (w_heap w r)) recordFile"
  have name: "plain_name recordFile" by (simp add: plain_name_def recordFile_def)
  then have parent: "butlast ?p = v_directory ?v" by simp
  obtain fs where wrote: "os_write (o_owner out) ?p (o_json out (record_of ?v)) 384 (w_files w) = Inr fs"
    and holds: "os_read ?p fs = Inr (o_json out (record_of ?v))"
  proof (cases "look (w_files w) ?p")
    case None
    then show ?thesis using that assms(3) name by (auto simp: os_write_def os_read_def new_node_def)
  next
    case (Some n)
    with assms(4) obtain c where "fn_content n = Regular c" by auto
    with Some show ?thesis using that assms(3) name by (auto simp: os_write_def os_read_def)
  qed
  show ?thesis
    using wrote holds assms(1,2)
    by (simp add: write_record_def readRecord_def volume_at_def WriteFile_def ReadFile_def os_change_def os_ask_def Let_def)
qed

text \<open>
  A restart takes a volume back as it was. The record a publish writes is read back by a
  driver that starts again, with any JSON codec that reads back what it wrote, and the volume resumed from it has the
  handle, the kind, the staging path, the attributes and the target of the volume that was written; its
  targets are those the record is asked about, and it waits for a credential exactly when the volume needed one.
\<close>

theorem a_restart_takes_a_volume_back:
  assumes "\<And>n call. o_refuse out n call = None" and "o_unjson out (o_json out (record_of (w_heap w r))) = Some (record_of (w_heap w r))"
    and "is_dir (w_files w) (v_directory (w_heap w r))"
    and "\<forall>n. look (w_files w) (join_path (v_directory (w_heap w r)) recordFile) = Some n \<longrightarrow> (\<exists>c. fn_content n = Regular c)"
  shows "\<exists>held. fst (run_state (do { write_record out r; readRecord out (join_path (v_directory (w_heap w r)) recordFile) }) w) = Some held \<and>
    (let v = w_heap w r; back = resumed_volume held parsed directory placed in
       v_id back = v_id v \<and> v_kind back = v_kind v \<and> v_staging back = v_staging v \<and> v_context back = v_context v \<and>
       v_target back = v_target v \<and> targetPaths held = (if v_kind v = readOnlyClaim then boundTargets v else [v_target v]) \<and>
       waitsForCredential back = needsCredential v)"
  by (rule exI, rule conjI, rule record_reads_back[OF assms])
    (simp add: resumed_volume_def record_fields kind_names_read_back targetPaths_def zero_volume_def loseCredential_def
      waitsForCredential_def Let_def)

definition token_holder :: credentials where
  "token_holder = (case parseCredentials [(''token'', ''t0ken'')] of Inr (Some c) \<Rightarrow> c)"

definition recorded_volume :: volume where
  "recorded_volume = (zero_volume ''csi-1'' defaultAttributes readOnlyClaim [''store''])
     \<lparr>v_credentials := Some token_holder, v_staging := ''/stage/1'', v_context := [(''url'', ''https://code.example.com/a.git'')],
      v_targets := [(''/pods/2'', no_pod), (''/pods/1'', no_pod)]\<rparr>"

definition reading_outside :: "unit outside" where
  "reading_outside = (still_outside (output_of ''c'') None)
     \<lparr>o_unjson := (\<lambda>s. if s = ''csi-1'' then Some (record_of recorded_volume) else None)\<rparr>"

theorem a_restart_takes_a_volume_back_witness:
  "\<exists>held. fst (run_state (do { write_record reading_outside 0; readRecord reading_outside [''store'', recordFile] })
       (world_of [([''store''], dir_node)] recorded_volume)) = Some held \<and>
     targetPaths held = [''/pods/1'', ''/pods/2''] \<and> waitsForCredential (resumed_volume held defaultAttributes [''store''] [])"
proof -
  let ?w = "world_of [([''store''], dir_node)] recorded_volume"
  have at: "w_heap ?w 0 = recorded_volume" by (simp add: world_of_def)
  have parts: "v_directory recorded_volume = [''store'']" "boundTargets recorded_volume = [''/pods/1'', ''/pods/2'']"
    "v_kind recorded_volume = readOnlyClaim" "needsCredential recorded_volume" "v_id recorded_volume = ''csi-1''" by code_simp+
  have "\<And>n call. o_refuse reading_outside n call = None" by (simp add: reading_outside_def still_outside_def)
  moreover have "o_unjson reading_outside (o_json reading_outside (record_of (w_heap ?w 0))) = Some (record_of (w_heap ?w 0))"
    by (simp add: at parts reading_outside_def still_outside_def record_fields)
  moreover have "is_dir (w_files ?w) (v_directory (w_heap ?w 0))"
    by (simp add: at parts world_of_def is_dir_def look_def dir_node_def)
  moreover have "\<forall>n. look (w_files ?w) (join_path (v_directory (w_heap ?w 0)) recordFile) = Some n \<longrightarrow> (\<exists>c. fn_content n = Regular c)"
    by (simp add: at parts world_of_def look_def recordFile_def plain_name_def)
  ultimately have "\<exists>held. fst (run_state (do { write_record reading_outside 0;
      readRecord reading_outside (join_path (v_directory (w_heap ?w 0)) recordFile) }) ?w) = Some held \<and>
    (let v = w_heap ?w 0; back = resumed_volume held defaultAttributes [''store''] [] in
       v_id back = v_id v \<and> v_kind back = v_kind v \<and> v_staging back = v_staging v \<and> v_context back = v_context v \<and>
       v_target back = v_target v \<and> targetPaths held = (if v_kind v = readOnlyClaim then boundTargets v else [v_target v]) \<and>
       waitsForCredential back = needsCredential v)"
    by (rule a_restart_takes_a_volume_back)
  moreover have "join_path [''store''] recordFile = [''store'', recordFile]" by code_simp
  ultimately show ?thesis by (simp add: at parts Let_def) blast
qed

subsection \<open>The side branch after a restart\<close>

definition sides_kept :: "'g world \<Rightarrow> 'g world \<Rightarrow> bool" where
  "sides_kept w w' \<longleftrightarrow> n_volumes w' = n_volumes w \<and> (\<forall>r. v_diverged (w_heap w' r) = v_diverged (w_heap w r))"

interpretation sides_kept: step_bound sides_kept
  by unfold_locales (simp_all add: sides_kept_def)

lemma sides_untouched: "state_io_rel untouched m \<Longrightarrow> state_io_rel sides_kept m"
  by (simp add: state_io_rel_def untouched_def apart_def sides_kept_def)

lemma sides_leaf: "state_io_rel (leaf K) m \<Longrightarrow> state_io_rel sides_kept m"
  by (simp add: state_io_rel_def leaf_def apart_def sides_kept_def)

lemma sides_change: "(\<And>v. v_diverged (f v) = v_diverged v) \<Longrightarrow> state_io_rel sides_kept (change_volume r f)"
  by (simp add: state_io_rel_def sides_kept_def change_volume_def)

lemma sides_on: "(\<And>v. v_diverged (snd (g v)) = v_diverged v) \<Longrightarrow> state_io_rel sides_kept (on_volume r g)"
  by (simp add: state_io_rel_def sides_kept_def on_volume_def case_prod_beta Let_def)

lemma sides_modify: "(\<And>w. w_heap (f w) = w_heap w \<and> n_volumes (f w) = n_volumes w) \<Longrightarrow> state_io_rel sides_kept (modify f)"
  by (simp add: state_io_rel_def sides_kept_def)

lemma sides_ops:
  "state_io_rel sides_kept (on_loop name y g)"
  "state_io_rel sides_kept (loop_at name)"
  "state_io_rel sides_kept (follow out r)"
  "state_io_rel sides_kept (watch out r)"
  "state_io_rel sides_kept (arm out r)"
  by (auto simp: state_io_rel_def sides_kept_def on_loop_def loop_at_def follow_def arm_def
      watch_def volume_at_def time_now_def case_prod_beta Let_def split: option.splits)

lemma sides_health: "state_io_rel sides_kept (noteHealth out r)"
  unfolding noteHealth_def
  by (intro sides_kept.bounds sides_on untouched_ops[THEN sides_untouched])
    (simp add: takeHealth_def case_prod_beta Let_def)

lemma sides_claim: "state_io_rel sides_kept (findClaim out r)"
  unfolding findClaim_def
  by (intro sides_kept.bounds sides_change untouched_ops[THEN sides_untouched] untouched_claims[THEN sides_untouched])
    (auto simp: setClaim_def)

lemma sides_writes: "state_io_rel sides_kept (write_record out r)"
  unfolding write_record_def by (intro sides_kept.bounds untouched_ops[THEN sides_untouched])

lemma sides_head: "state_io_rel sides_kept (head_commit out work)"
  by (rule sides_leaf[where K = UNIV], rule work_kinds) simp

lemma sides_pull: "state_io_rel sides_kept (resumePull out r)"
  unfolding resumePull_def follower_demand_def demand_volume_def loopOf_def Let_def
  by (intro sides_kept.bounds sides_ops sides_change sides_on untouched_ops[THEN sides_untouched])
    (auto simp: reportDemanded_def)

lemmas sides_rules = sides_kept.bounds sides_ops sides_health sides_claim sides_writes sides_head sides_pull
  untouched_ops[THEN sides_untouched]

lemma resume_loops_side:
  "triple (\<lambda>w. v_diverged (w_heap w r) = []) (resume_loops out held parsed r)
     (\<lambda>x w. map_of (n_volumes w) (rc_VolumeID held) = Some r \<and> v_diverged (w_heap w r) = [])"
proof -
  let ?vid = "rc_VolumeID held"
  let ?rest = "if record_kind held = readOnlyClaim then do {
        modify (\<lambda>w. w\<lparr>n_staged := set_entry ?vid r (n_staged w)\<rparr>);
        resume_reader out held r
      }
      else if record_kind held = inlineVolume then resume_reader out held r
      else do {
        let work = workTree_of out (repository_of out (a_url parsed)) ?vid;
        change_volume r (\<lambda>v. v\<lparr>v_work := Some work\<rparr>);
        head \<leftarrow> head_commit out work;
        (case head of Inl err \<Rightarrow> return () | Inr tip \<Rightarrow> change_volume r (\<lambda>v. v\<lparr>v_commit := tip\<rparr>));
        modify (\<lambda>w. w\<lparr>n_staged := set_entry ?vid r (n_staged w)\<rparr>);
        arm out r;
        watch out r
      }"
  have "state_io_rel sides_kept ?rest"
    unfolding resume_reader_def Let_def by (intro sides_rules sides_modify sides_change; simp)
  then have rest: "triple (\<lambda>w. map_of (n_volumes w) ?vid = Some r \<and> v_diverged (w_heap w r) = []) ?rest
      (\<lambda>x w. map_of (n_volumes w) ?vid = Some r \<and> v_diverged (w_heap w r) = [])"
    by (rule triple_bound) (auto simp: sides_kept_def)
  have set: "triple (\<lambda>w. v_diverged (w_heap w r) = []) (modify (\<lambda>w. w\<lparr>n_volumes := set_entry ?vid r (n_volumes w)\<rparr>))
      (\<lambda>x w. map_of (n_volumes w) ?vid = Some r \<and> v_diverged (w_heap w r) = [])"
    by (simp add: triple_def map_of_set_entry)
  show ?thesis unfolding resume_loops_def Let_def by (rule triple_bind[OF set rest[unfolded Let_def]])
qed

text \<open>
  A restarted driver holds no side branch. Whatever the work tree's own git
  configuration records, a volume the driver resumes is in the books with no side branch, so its next push goes
  to the ref and the gauge of diverged volumes reads zero until that push is rejected and diverges again. (The
  comment on the configuration key says that a driver that restarted reads the state; only a stage does.)
\<close>

theorem a_restart_holds_no_side_branch:
  assumes "parseVolumeContext (rc_Attributes held) = Inr parsed"
    and "run_state (resumeOne out held directory mounted) w = (x, w')"
  shows "\<exists>r. map_of (n_volumes w') (rc_VolumeID held) = Some r \<and> divergedFrom (w_heap w' r) = []"
proof -
  have new: "triple P (new_volume (resumed_volume held parsed directory placed)) (\<lambda>r w. v_diverged (w_heap w r) = [])" for placed P
    by (simp add: triple_def new_volume_def resumed_volume_def zero_volume_def loseCredential_def Let_def)
  have keeps: "state_io_rel sides_kept m \<Longrightarrow> triple (\<lambda>w. v_diverged (w_heap w r) = []) m (\<lambda>x w. v_diverged (w_heap w r) = [])"
    for r and m :: "('a, 'b) io"
    by (rule triple_bound[where R = sides_kept]) (auto simp: sides_kept_def)
  have claims: "state_io_rel sides_kept (if record_kind held = readOnlyClaim then do {
             for_each (\<lambda>target. change_volume r (bind_target target no_pod)) mounted;
             findClaim out r;
             write_record out r
           } else return ())" for r
    by (intro sides_rules sides_change) (simp add: bind_target_def)
  have "triple (\<lambda>w. True) (resumeOne out held directory mounted)
     (\<lambda>x w. \<exists>r. map_of (n_volumes w) (rc_VolumeID held) = Some r \<and> v_diverged (w_heap w r) = [])"
    unfolding resumeOne_def assms(1) sum.case
    by (rule triple_bind[where R = "\<lambda>x w. True"], simp add: triple_def, rule triple_bind[OF new],
        rule triple_bind[OF keeps[OF claims]], rule triple_bind[OF keeps[OF sides_health]],
        rule triple_bind[OF keeps[OF untouched_primitives(2)[THEN sides_untouched]]],
        rule triple_bind[OF keeps[OF sides_change]], simp add: answerDemandsBefore_def Let_def,
        rule triple_weaken[OF resume_loops_side]) auto
  from tripleD[OF this TrueI assms(2)] show ?thesis by (simp add: divergedFrom_def)
qed

definition work_record :: volumeRecord where
  "work_record = kept_record\<lparr>rc_Ephemeral := False, rc_Kind := writeableKind\<rparr>"

theorem a_restart_holds_no_side_branch_witness:
  "\<exists>x w' r. run_state (resumeOne (still_outside (output_of ''main.csi-1'') None) work_record [''store''] [''/pods/1'']) follow_world = (x, w') \<and>
     map_of (n_volumes w') ''csi-1'' = Some r \<and> divergedFrom (w_heap w' r) = []"
proof -
  let ?m = "resumeOne (still_outside (output_of ''main.csi-1'') None) work_record [''store''] [''/pods/1'']"
  have "(case parseVolumeContext (rc_Attributes work_record) of Inr parsed \<Rightarrow> True | Inl err \<Rightarrow> False)" by code_simp
  then obtain parsed where parsed: "parseVolumeContext (rc_Attributes work_record) = Inr parsed" by (auto split: sum.splits)
  obtain x w' where run: "run_state ?m follow_world = (x, w')" by (rule run_pair)
  have "rc_VolumeID work_record = ''csi-1''" by (simp add: work_record_def kept_record_def)
  with a_restart_holds_no_side_branch[OF parsed run] run show ?thesis by auto
qed

subsection \<open>A failed unmount\<close>

definition quiet :: "'g world \<Rightarrow> 'g world \<Rightarrow> bool" where
  "quiet w w' \<longleftrightarrow> w_log w' = w_log w \<and> n_volumes w' = n_volumes w \<and> w_heap w' = w_heap w"

interpretation quiet: step_bound quiet
  by unfold_locales (simp_all add: quiet_def)

lemma quiet_untouched: "state_io_rel untouched m \<Longrightarrow> state_io_rel quiet m"
  by (simp add: state_io_rel_def untouched_def no_calls_def apart_def quiet_def)

lemma quiet_mounts: "state_io_rel only_mounts m \<Longrightarrow> state_io_rel quiet m"
  unfolding state_io_rel_def
proof
  fix w assume "\<forall>w. only_mounts w (snd (run_state m w))"
  then have "snd (run_state m w) = w\<lparr>w_mounts := w_mounts (snd (run_state m w)), w_calls := w_calls (snd (run_state m w))\<rparr>"
    by (simp add: only_mounts_def)
  then obtain ms n where "snd (run_state m w) = w\<lparr>w_mounts := ms, w_calls := n\<rparr>" by blast
  then show "quiet w (snd (run_state m w))" by (simp add: quiet_def)
qed

lemma quiet_loops: "state_io_rel quiet (unfollow out p)" "state_io_rel quiet (unwatch p)"
  by (auto simp: state_io_rel_def quiet_def unfollow_def unwatch_def on_loop_def volume_at_def Let_def case_prod_beta
      split: option.splits)

lemma quiet_unless: "state_io_rel quiet m \<Longrightarrow> triple P k Q \<Longrightarrow> (\<And>w w'. quiet w w' \<Longrightarrow> P w \<Longrightarrow> P w') \<Longrightarrow> (\<And>err w. P w \<Longrightarrow> Q (Some err) w) \<Longrightarrow>
  triple P (unless_internal m k) Q"
  unfolding unless_internal_def
  by (rule triple_bind[OF triple_bound[where Q = P and R = quiet]]) (auto intro: triple_return split: option.split)

definition given_up :: "string \<Rightarrow> nat \<Rightarrow> gitCall list \<Rightarrow> 'g world \<Rightarrow> bool" where
  "given_up vid p log w \<longleftrightarrow> map_of (n_volumes w) vid = None \<and> writeable (w_heap w p) \<and> w_log w = log"

lemma given_up_quiet: "quiet w w' \<Longrightarrow> given_up vid p log w \<Longrightarrow> given_up vid p log w'"
  by (simp add: quiet_def given_up_def)

lemma let_go_gives_up:
  "triple (\<lambda>w. writeable (w_heap w p) \<and> w_log w = log) (let_go out vid target p) (\<lambda>x. given_up vid p log)"
proof -
  have kept: "triple (given_up vid p log) (do { unfollow out p; unwatch p }) (\<lambda>x. given_up vid p log)"
    by (rule triple_bound[where R = quiet]) (intro quiet.bounds quiet_loops, rule given_up_quiet)
  have dropped: "triple (\<lambda>w. writeable (w_heap w p) \<and> w_log w = log) (modify (\<lambda>w. w\<lparr>n_volumes := delete_entry vid (n_volumes w)\<rparr>))
     (\<lambda>x. given_up vid p log)"
    by (simp add: triple_def given_up_def map_of_delete_entry)
  show ?thesis
    unfolding let_go_def
  proof (rule triple_volume, rule triple_if)
    fix x :: volume assume "v_kind x = readOnlyClaim"
    then show "triple (\<lambda>s. (writeable (w_heap s p) \<and> w_log s = log) \<and> w_heap s p = x) (do {
       left \<leftarrow> on_volume p (unbind_target target);
       (if left = 0 then modify (\<lambda>w. w\<lparr>n_volumes := delete_entry vid (n_volumes w)\<rparr>) else return ()) }) (\<lambda>x. given_up vid p log)"
      by (intro tripleI) (auto simp: writeable_def)
  next
    fix x :: volume
    show "triple (\<lambda>s. (writeable (w_heap s p) \<and> w_log s = log) \<and> w_heap s p = x) (do {
       modify (\<lambda>w. w\<lparr>n_volumes := delete_entry vid (n_volumes w)\<rparr>); unfollow out p; unwatch p }) (\<lambda>x. given_up vid p log)"
      by (rule triple_pre[OF triple_bind[OF dropped kept]]) auto
  qed
qed

text \<open>
  Property C39. What a failed unmount leaves undone. When the unpublish of a writeable volume answers an
  error, the volume is out of the books and no git call was made; the kubelet's retry finds no volume, so it makes
  no git call either. The pod's last writes are neither committed nor pushed by the unpublish, and nothing
  watches the tree any more.
\<close>

theorem a_failed_unmount_skips_the_last_work:
  assumes "map_of (n_volumes w) vid = Some p" and "writeable (w_heap w p)" and "vid \<noteq> []" and "target \<noteq> []"
    and "run_state (NodeUnpublishVolume out vid target) w = (Some err, w')"
  shows "map_of (n_volumes w') vid = None \<and> w_log w' = w_log w \<and>
    w_log (snd (run_state (NodeUnpublishVolume out vid target) w')) = w_log w"
proof -
  let ?Q = "\<lambda>x w'. x \<noteq> None \<longrightarrow> given_up vid p (w_log w) w'"
  have last: "triple (given_up vid p (w_log w)) (after_unmount out p) ?Q"
    unfolding after_unmount_def
  proof (rule triple_volume)
    fix x :: volume
    show "triple (\<lambda>s. given_up vid p (w_log w) s \<and> w_heap s p = x) (
       if v_kind x = readOnlyClaim then do { write_record out p; return None }
       else if writeable x then do { last_work out p; return None }
       else unless_internal (RemoveAll out (v_directory x)) (do { metric_call (Forgotten x); return None })) ?Q"
      by (auto simp: triple_def given_up_def writeable_def case_prod_beta)
  qed
  have rest: "triple (given_up vid p (w_log w)) (unless_internal (unbind out target)
        (unless_internal (RemoveAll out (read_path target)) (after_unmount out p))) ?Q"
    by (rule quiet_unless[OF quiet_mounts[OF only_mounts_ops(2)] quiet_unless[OF quiet_untouched[OF untouched_os(5)] last]])
      (auto intro: given_up_quiet)
  from triple_bind[OF let_go_gives_up[of p "w_log w" out vid target] this]
  have whole: "triple (\<lambda>v. writeable (w_heap v p) \<and> w_log v = w_log w) (do { let_go out vid target p; unless_internal (unbind out target)
        (unless_internal (RemoveAll out (read_path target)) (after_unmount out p)) }) ?Q" .
  have "run_state (do { let_go out vid target p; unless_internal (unbind out target)
        (unless_internal (RemoveAll out (read_path target)) (after_unmount out p)) }) w = (Some err, w')"
    using assms by (simp add: NodeUnpublishVolume_def)
  from tripleD[OF whole _ this] assms(2) have gone: "given_up vid p (w_log w) w'" by simp
  have "state_io_rel quiet (unless_internal (unbind out target) (unless_internal (RemoveAll out (read_path target)) (return None)))"
    unfolding unless_internal_def
    by (intro quiet.bounds quiet_mounts only_mounts_ops quiet_untouched untouched_os; simp)
  with gone assms(3,4) have "w_log (snd (run_state (NodeUnpublishVolume out vid target) w')) = w_log w'"
    by (simp add: NodeUnpublishVolume_def given_up_def state_io_rel_def quiet_def)
  with gone show ?thesis by (simp add: given_up_def)
qed

definition busy_outside :: "unit outside" where
  "busy_outside = (still_outside (output_of ''c'') None)\<lparr>o_mount := (\<lambda>n call. Some (OtherError ''device or resource busy''))\<rparr>"

definition work_world :: "unit world" where
  "work_world = (world_of [([''store''], dir_node)] (zero_volume ''csi-1'' defaultAttributes writeableVolume [''store'']))
     \<lparr>n_volumes := [(''csi-1'', 0)], n_staged := [(''csi-1'', 0)]\<rparr>"

theorem a_failed_unmount_skips_the_last_work_witness:
  "\<exists>err w'. run_state (NodeUnpublishVolume busy_outside ''csi-1'' ''/pods/1'') work_world = (Some err, w') \<and>
     w_log (snd (run_state (NodeUnpublishVolume busy_outside ''csi-1'' ''/pods/1'') w')) = []"
proof -
  let ?call = "NodeUnpublishVolume busy_outside ''csi-1'' ''/pods/1''"
  have "fst (run_state ?call work_world) \<noteq> None" by code_simp
  from failed_answer[OF this] obtain err w' where run: "run_state ?call work_world = (Some err, w')" by blast
  have "map_of (n_volumes work_world) ''csi-1'' = Some 0" "writeable (w_heap work_world 0)" "w_log work_world = []"
    by (simp_all add: work_world_def world_of_def zero_volume_def writeable_def)
  with a_failed_unmount_skips_the_last_work[OF this(1,2) _ _ run] run show ?thesis by auto
qed

end
