(* ===== verification/Landing.thy ===== *)
theory Landing
  imports PushLaws
begin

section \<open>A push lands or says why\<close>

text \<open>What a push attempt leaves behind: an accepted push and a clean report, or a report of what failed.\<close>

definition sends :: "string list \<Rightarrow> bool" where
  "sends args \<longleftrightarrow> (\<exists>opening url here there rest.
     args = opening @ [''push'', ''--quiet'', url, ''refs/heads/'' @ here @ '':refs/heads/'' @ there] @ rest)"

definition accepted :: "gitCall list \<Rightarrow> bool" where
  "accepted calls \<longleftrightarrow> (\<exists>c\<in>set calls. sends (g_args c) \<and> g_error c = None)"

text \<open>A refused system call names its reason.\<close>

definition reasons :: "'g outside \<Rightarrow> bool" where
  "reasons out \<longleftrightarrow> (\<forall>n call refused. o_refuse out n call = Some refused \<longrightarrow> fa_reason refused \<noteq> [])"

definition told :: "'g world \<Rightarrow> string option \<Rightarrow> 'g world \<Rightarrow> bool" where
  "told w0 answer w \<longleftrightarrow> (case answer of None \<Rightarrow> since w0 accepted w | Some err \<Rightarrow> err \<noteq> [] \<and> since w0 (\<lambda>calls. True) w)"

lemma accepted_append: "accepted cs \<Longrightarrow> accepted (cs @ ds)"
  by (auto simp: accepted_def)

lemma since_on:
  assumes "state_io_rel (calls_of UNIV) m" and "\<And>cs ds. P cs \<Longrightarrow> P (cs @ ds)"
  shows "triple (since w0 P) m (\<lambda>x. since w0 P)"
  by (rule triple_bound[where R = "calls_of UNIV", OF assms(1)]) (use assms(2) in \<open>auto simp: since_def calls_of_def\<close>)

lemma told_on:
  assumes "state_io_rel (calls_of UNIV) m" shows "triple (told w0 e) m (\<lambda>x. told w0 e)"
proof (cases e)
  case None
  then show ?thesis using since_on[OF assms, of accepted w0] accepted_append by (simp add: told_def[abs_def])
next
  case (Some err)
  then show ?thesis using since_on[OF assms, of "\<lambda>calls. True" w0] by (auto simp: told_def[abs_def] triple_def)
qed

lemma told_since: "told w0 e w \<Longrightarrow> since w0 (\<lambda>calls. True) w"
  by (cases e) (auto simp: told_def since_def)

subsection \<open>The pushes\<close>

lemma triple_first_read: "(\<And>v. triple P (k v) Q) \<Longrightarrow> triple P (volume_at r \<bind> k) Q"
  by (simp add: triple_def volume_at_def)

lemma write_reason:
  assumes "reasons out" and "fst (run_state (WriteFile out p c mode) w) = Some err" shows "err \<noteq> []"
  using assms by (auto simp: reasons_def WriteFile_def os_change_def os_write_def os_error_def Let_def
      split: option.splits sum.splits if_splits content.splits)

lemma secret_reason:
  assumes "reasons out" and "fst (run_state (write_secret out p c mode written) w) = Inl err" shows "err \<noteq> []"
  using assms write_reason[of out p c mode w]
  by (auto simp: write_secret_def case_prod_beta split: option.splits)

lemma window_reason:
  assumes "reasons out" and "fst (run_state (use out holder dir) w) = Inl err" shows "err \<noteq> []"
  using assms by (auto simp: use_def bind_ok_def case_prod_beta Let_def split: option.splits sum.splits if_splits
      dest: secret_reason)

lemma git_lands:
  assumes "sends args"
  shows "triple (since w0 (\<lambda>calls. True)) (gitWith out work env args) (\<lambda>(answer, err). told w0 err)"
proof -
  have "sends (work_args work args)"
    using assms unfolding sends_def work_args_def by (metis append.assoc)
  then show ?thesis
    by (auto simp: triple_def gitWith_def runGit_def since_def told_def accepted_def Let_def split: prod.splits option.splits)
qed

lemma pushTo_lands: "triple (since w0 (\<lambda>calls. True)) (pushTo out work env url ref remote) (\<lambda>(answer, err). told w0 err)"
proof -
  have asks: "state_io_rel (calls_of UNIV) (refCommit out work metadataRef)" by (intro any_calls) simp_all
  have push: "triple (since w0 (\<lambda>calls. True))
      (gitWith out work env ([''push'', ''--quiet'', url] @ [''refs/heads/'' @ ref @ '':refs/heads/'' @ remote] @ rest))
      (\<lambda>(answer, err). told w0 err)" for rest
    by (rule git_lands, unfold sends_def, rule exI[of _ "[]"]) (metis append_Nil append_Cons)
  show ?thesis
    unfolding pushTo_def Let_def
    by (rule triple_bind[OF since_on[OF asks]], simp, cases)
       (use push[of "[]"] push[of "[metadataRef @ '':'' @ metadataRef]"] in \<open>simp_all\<close>)
qed

lemma sendTo_lands:
  assumes "reasons out"
  shows "triple (since w0 (\<lambda>calls. True)) (sendTo out r remote) (\<lambda>(answer, err). told w0 err)"
proof -
  have closed: "triple (told w0 err) (do { remove_written out written; return (answer, err) }) (\<lambda>(answer, err). told w0 err)" for err written and answer :: gitOutput
    by (rule triple_bind[OF told_on]) (intro silent_window[THEN untouched_silent, THEN silent_kinds], simp add: triple_return_iff)
  have opened: "triple (since w0 (\<lambda>calls. True)) (use out holder dir)
      (\<lambda>x w. since w0 (\<lambda>calls. True) w \<and> (\<forall>err. x = Inl err \<longrightarrow> err \<noteq> []))" for holder dir
  proof (rule tripleI)
    fix w w' x assume "since w0 (\<lambda>calls. True) w" and run: "run_state (use out holder dir) w = (x, w')"
    moreover have "w_log w' = w_log w"
      using silent_window(3)[of out holder dir, THEN untouched_silent] run by (auto simp: state_io_rel_def no_calls_def dest: spec[of _ w])
    ultimately show "since w0 (\<lambda>calls. True) w' \<and> (\<forall>err. x = Inl err \<longrightarrow> err \<noteq> [])"
      using window_reason[OF assms, of holder dir w] by (auto simp: since_def)
  qed
  have sent: "triple (since w0 (\<lambda>calls. True)) (do { answer \<leftarrow> pushTo out work env url ref remote; remove_written out written; return answer })
      (\<lambda>(answer, err). told w0 err)" for work env url ref written
    by (rule triple_bind[OF pushTo_lands]) (use closed in \<open>auto split: prod.splits\<close>)
  show ?thesis
    unfolding sendTo_def within_window_def
    by (rule triple_first_read, rule triple_first_read, rule triple_bind[OF opened])
      (auto split: sum.splits intro!: triple_pre[OF sent] simp: triple_return_iff told_def)
qed

lemma triple_sum:
  "(\<And>a. e = Inl a \<Longrightarrow> triple P (f a) Q) \<Longrightarrow> (\<And>b. e = Inr b \<Longrightarrow> triple P (g b) Q) \<Longrightarrow>
   triple P (case e of Inl a \<Rightarrow> f a | Inr b \<Rightarrow> g b) Q"
  by (cases e) simp_all

text \<open>A rebase that answers a commit pushed it, and one that lost leaves no more than calls behind.\<close>

definition landed_with :: "'g world \<Rightarrow> 'b option \<Rightarrow> 'g world \<Rightarrow> bool" where
  "landed_with w0 answer w \<longleftrightarrow> since w0 (\<lambda>calls. True) w \<and> (answer \<noteq> None \<longrightarrow> since w0 accepted w)"

lemma calls_since:
  "state_io_rel (calls_of UNIV) m \<Longrightarrow> (\<And>x. triple (since w0 (\<lambda>calls. True)) (k x) Q) \<Longrightarrow>
   triple (since w0 (\<lambda>calls. True)) (m \<bind> k) Q"
  by (rule triple_bind[OF since_on]) simp_all

lemma attempts_land:
  fixes out :: "'g outside"
  assumes "reasons out"
  shows "triple (since w0 (\<lambda>calls. True)) (rebase_attempts n out r commits) (landed_with w0)"
proof (induction n)
  case 0
  then show ?case by (simp add: triple_return_iff landed_with_def)
next
  case (Suc n)
  have lost: "triple (since w0 (\<lambda>calls. True)) (return None) (landed_with w0)"
    by (simp add: triple_return_iff landed_with_def)
  have ends: "triple (told w0 None) (do { m; return (Some head) }) (landed_with w0)"
    if "state_io_rel (calls_of UNIV) m" for m :: "('g, unit) io" and head :: string
    by (rule triple_bind[OF told_on[OF that]]) (auto simp: triple_return_iff landed_with_def told_def since_def)
  have again: "triple (told w0 (Some err)) (rebase_attempts n out r commits) (landed_with w0)" for err
    by (rule triple_pre[OF Suc.IH]) (rule told_since)
  have tail: "triple (since w0 (\<lambda>calls. True)) (do {
       (_, failed) \<leftarrow> sendTo out r remote;
       if failed \<noteq> None then rebase_attempts n out r commits
       else do { (if moved then do {
           held \<leftarrow> volume_at r;
           let (claim, _, _) = reading held;
           report_event out r claim Normal reasonRebased (message held)
         } else return ()); return (Some head) } }) (landed_with w0)" for remote moved head and message :: "volume \<Rightarrow> msg"
  proof (rule triple_bind[OF sendTo_lands[OF assms]])
    fix x :: "gitOutput \<times> string option"
    have "triple (told w0 None) (do { (if moved then do {
           held \<leftarrow> volume_at r;
           let (claim, _, _) = reading held;
           report_event out r claim Normal reasonRebased (message held)
         } else return ()); return (Some head) }) (landed_with w0)"
      unfolding Let_def by (rule ends) (intro any_calls)
    then have "triple (told w0 failed) (if failed \<noteq> None then rebase_attempts n out r commits
       else do { (if moved then do {
           held \<leftarrow> volume_at r;
           let (claim, _, _) = reading held;
           report_event out r claim Normal reasonRebased (message held)
         } else return ()); return (Some head) }) (landed_with w0)" for failed
      using again by (cases failed) (simp_all split del: if_split)
    then show "triple (case x of (answer, err) \<Rightarrow> told w0 err) (case x of (_, failed) \<Rightarrow> (if failed \<noteq> None then rebase_attempts n out r commits
       else do { (if moved then do {
           held \<leftarrow> volume_at r;
           let (claim, _, _) = reading held;
           report_event out r claim Normal reasonRebased (message held)
         } else return ()); return (Some head) })) (landed_with w0)"
      by (cases x) (simp only: prod.case)
  qed
  show ?case
    unfolding rebase_attempts.simps Let_def
    by (rule calls_since, intro any_calls, simp, rule triple_sum, rule lost, rule triple_first_read,
        rule calls_since, intro any_calls, simp, rule calls_since, intro any_calls, simp,
        rule triple_if, rule triple_pre[OF lost], simp, rule calls_since, intro any_calls, simp,
        rule triple_if, rule triple_pre[OF lost], simp, rule calls_since, intro any_calls, simp,
        rule triple_pre[OF tail[unfolded Let_def]], simp)
qed

lemma send_lands:
  fixes out :: "'g outside"
  assumes "reasons out"
  shows "triple (since w0 (\<lambda>calls. True)) (send_or_rebase out r commits branch head) (\<lambda>(remote, head, err). told w0 err)"
proof -
  let ?Q = "\<lambda>(remote, head, err). told w0 err"
  have answers: "triple (told w0 err) (return (remote, head, err)) ?Q" for remote head :: string and err
    by (simp add: triple_return_iff)
  have side: "triple (landed_with w0 None) (do {
           diverge out r;
           held \<leftarrow> volume_at r;
           let remote = divergedFrom held;
           head \<leftarrow> refCommit out (work_of held) ''HEAD'';
           (_, pushErr) \<leftarrow> sendTo out r remote;
           return (remote, head, pushErr) }) ?Q"
    unfolding Let_def
    by (rule triple_pre[where P' = "since w0 (\<lambda>calls. True)"], rule calls_since, rule kinds_reconcile, rule triple_first_read,
        rule calls_since, intro any_calls, simp, rule triple_bind[OF sendTo_lands[OF assms]])
      (auto simp: landed_with_def triple_return_iff split: prod.splits)
  have rebased: "triple (since w0 (\<lambda>calls. True)) (do {
       landed \<leftarrow> rebaseAndRetry out r commits;
       case landed of
         Some rebased \<Rightarrow> return (remote, rebased, None)
       | None \<Rightarrow> do {
           diverge out r;
           held \<leftarrow> volume_at r;
           let remote = divergedFrom held;
           head \<leftarrow> refCommit out (work_of held) ''HEAD'';
           (_, pushErr) \<leftarrow> sendTo out r remote;
           return (remote, head, pushErr)
         } }) ?Q" for remote
    unfolding rebaseAndRetry_def
    by (rule triple_bind[OF attempts_land[OF assms]])
      (use side in \<open>auto split: option.split simp: triple_return_iff landed_with_def told_def\<close>)
  have chosen: "triple (told w0 err) (if err \<noteq> None \<and> b then rebaseAndRetry out r commits \<bind> k else return (remote, head, err)) ?Q"
    if "triple (since w0 (\<lambda>calls. True)) (rebaseAndRetry out r commits \<bind> k) ?Q" for b k err and remote :: string
    by (cases err; cases b) (simp_all add: triple_pre[OF that told_since] answers split del: if_split)
  have first: "triple (case x of (answer, err) \<Rightarrow> told w0 err) (case x of (answer, pushErr) \<Rightarrow>
       if pushErr \<noteq> None \<and> branch = [] \<and> rejectedPush answer then rebaseAndRetry out r commits \<bind> k
       else return (remote, head, pushErr)) ?Q"
    if "triple (since w0 (\<lambda>calls. True)) (rebaseAndRetry out r commits \<bind> k) ?Q" for x k and remote :: string
    by (cases x) (use chosen[OF that] in \<open>simp only: prod.case\<close>)
  show ?thesis
    unfolding send_or_rebase_def Let_def
    by (rule triple_first_read, rule triple_bind[OF sendTo_lands[OF assms]], rule first, rule rebased[unfolded Let_def])
qed

subsection \<open>What the volume then reports\<close>

definition clean_report :: "volume \<Rightarrow> bool" where
  "clean_report v \<longleftrightarrow> v_unpushed v = 0 \<and> v_trouble v = no_msg"

definition pushed_or_reported :: "'g world \<Rightarrow> nat \<Rightarrow> 'g world \<Rightarrow> bool" where
  "pushed_or_reported w0 r w \<longleftrightarrow> since w0 accepted w \<and> clean_report (w_heap w r) \<or>
     v_trouble (w_heap w r) \<noteq> no_msg \<and> v_abnormal (w_heap w r)"

lemma health_of_trouble: "v_trouble v \<noteq> no_msg \<Longrightarrow> v_abnormal (snd (takeHealth now v))"
  by (simp add: takeHealth_def reportNow_def standingReport_def case_prod_beta split: option.split)

lemma noteHealth_reports:
  "triple (\<lambda>w. v_trouble (w_heap w r) \<noteq> no_msg) (noteHealth out r)
     (\<lambda>x w. v_trouble (w_heap w r) \<noteq> no_msg \<and> v_abnormal (w_heap w r))"
  "triple (\<lambda>w. since w0 accepted w \<and> clean_report (w_heap w r)) (noteHealth out r)
     (\<lambda>x w. since w0 accepted w \<and> clean_report (w_heap w r))"
  using health_of_trouble
  by (auto simp: triple_def noteHealth_def time_now_def on_volume_def volume_at_def metric_call_def since_def clean_report_def
      takeHealth_def case_prod_beta Let_def)

text \<open>The steps that leave the volume and the log of git as they are keep the report.\<close>

definition clean_after :: "'g world \<Rightarrow> nat \<Rightarrow> 'g world \<Rightarrow> bool" where
  "clean_after w0 r w \<longleftrightarrow> since w0 accepted w \<and> clean_report (w_heap w r)"

lemma clean_untouched: "state_io_rel untouched m \<Longrightarrow> triple (clean_after w0 r) m (\<lambda>x. clean_after w0 r)"
  by (rule triple_bound[where R = untouched]) (auto simp: clean_after_def untouched_def no_calls_def apart_def since_def)

lemma trouble_untouched:
  "state_io_rel untouched m \<Longrightarrow> triple (\<lambda>w. v_trouble (w_heap w r) \<noteq> no_msg) m (\<lambda>x w. v_trouble (w_heap w r) \<noteq> no_msg)"
  by (rule triple_bound[where R = untouched]) (auto simp: untouched_def apart_def)

lemma failed_reports:
  assumes "err \<noteq> []"
  shows "triple P (pushFailed out r (Plain err)) (\<lambda>x w. v_trouble (w_heap w r) \<noteq> no_msg \<and> v_abnormal (w_heap w r))"
proof -
  have set: "triple P (on_volume r (reportTrouble (Plain err))) (\<lambda>x w. v_trouble (w_heap w r) \<noteq> no_msg)"
    using assms by (auto simp: triple_def on_volume_def reportTrouble_def)
  show ?thesis
    unfolding pushFailed_def Let_def
    by (rule triple_bind[OF set], rule triple_bind[OF trouble_untouched], intro untouched.bounds untouched_ops,
        rule triple_bind[OF trouble_untouched], intro untouched_ops, rule triple_bind[OF trouble_untouched],
        intro untouched_ops, rule noteHealth_reports(1))
qed

lemma landed_reports:
  "triple (since w0 accepted) (do {
         _ \<leftarrow> markPushed out work head;
         now \<leftarrow> time_now out;
         change_volume r (reportPushed now);
         held \<leftarrow> volume_at r;
         case reading held of (claim, x, y) \<Rightarrow> do {
         report_event out r claim Normal reasonPushed (message claim);
         record_metrics r;
         noteHealth out r } }) (\<lambda>x. clean_after w0 r)"
proof -
  have stamped: "triple (since w0 accepted) (markPushed out work head) (\<lambda>x. since w0 accepted)"
    by (rule since_on, intro any_calls, simp) (rule accepted_append)
  have clock: "triple (since w0 accepted) (time_now out) (\<lambda>x. since w0 accepted)"
    by (rule since_on, intro any_calls) (rule accepted_append)
  have reset_report: "triple (since w0 accepted) (change_volume r (reportPushed now)) (\<lambda>x. clean_after w0 r)" for now
    by (auto simp: triple_def change_volume_def clean_after_def clean_report_def reportPushed_def since_def)
  have report: "triple (clean_after w0 r) (do { report_event out r claim Normal reasonPushed said; record_metrics r; noteHealth out r })
      (\<lambda>x. clean_after w0 r)" for claim said
    by (rule triple_bind[OF clean_untouched], intro untouched_ops, rule triple_bind[OF clean_untouched],
        unfold record_metrics_def, intro untouched.bounds untouched_ops)
      (use noteHealth_reports(2)[folded clean_after_def] in simp)
  show ?thesis
    by (rule triple_bind[OF stamped], rule triple_bind[OF clock], rule triple_bind[OF reset_report],
        rule triple_bind[OF clean_untouched], intro untouched_ops) (auto split: prod.splits intro: report)
qed

subsection \<open>The push\<close>

lemma sent_reports:
  fixes out :: "'g outside"
  assumes "reasons out"
  shows "triple (since w0 (\<lambda>calls. True)) (do {
     (remote, head, pushErr) \<leftarrow> send_or_rebase out r commits branch head;
     case pushErr of
       Some err \<Rightarrow> pushFailed out r (Plain err)
     | None \<Rightarrow> do {
         _ \<leftarrow> markPushed out work head;
         now \<leftarrow> time_now out;
         change_volume r (reportPushed now);
         held \<leftarrow> volume_at r;
         case reading held of (claim, x, y) \<Rightarrow> do {
         report_event out r claim Normal reasonPushed
           (Fmt ''pushed %d commits to %s at %s'' [AInt commits, AStr remote, AStr (short head)]);
         record_metrics r;
         noteHealth out r } } }) (\<lambda>x. pushed_or_reported w0 r)"
proof (rule triple_bind[OF send_lands[OF assms]])
  fix x :: "string \<times> string \<times> string option"
  obtain remote head err where x: "x = (remote, head, err)" by (cases x)
  have failed: "triple (told w0 (Some said)) (pushFailed out r (Plain said)) (\<lambda>x. pushed_or_reported w0 r)" for said
  proof (cases "said = []")
    case True
    then show ?thesis by (simp add: triple_def told_def)
  next
    case False
    then show ?thesis
      by (rule triple_weaken[OF failed_reports]) (simp_all add: pushed_or_reported_def)
  qed
  have landed: "triple (told w0 None) (do {
         _ \<leftarrow> markPushed out work head;
         now \<leftarrow> time_now out;
         change_volume r (reportPushed now);
         held \<leftarrow> volume_at r;
         case reading held of (claim, x, y) \<Rightarrow> do {
         report_event out r claim Normal reasonPushed
           (Fmt ''pushed %d commits to %s at %s'' [AInt commits, AStr remote, AStr (short head)]);
         record_metrics r;
         noteHealth out r } }) (\<lambda>x. pushed_or_reported w0 r)"
    by (rule triple_weaken[OF landed_reports[where ?w0.0 = w0]]) (simp_all add: pushed_or_reported_def clean_after_def told_def)
  show "triple (case x of (remote, head, err) \<Rightarrow> told w0 err) (case x of (remote, head, pushErr) \<Rightarrow> (case pushErr of
       Some err \<Rightarrow> pushFailed out r (Plain err)
     | None \<Rightarrow> do {
         _ \<leftarrow> markPushed out work head;
         now \<leftarrow> time_now out;
         change_volume r (reportPushed now);
         held \<leftarrow> volume_at r;
         case reading held of (claim, x, y) \<Rightarrow> do {
         report_event out r claim Normal reasonPushed
           (Fmt ''pushed %d commits to %s at %s'' [AInt commits, AStr remote, AStr (short head)]);
         record_metrics r;
         noteHealth out r } })) (\<lambda>x. pushed_or_reported w0 r)"
    unfolding x prod.case by (cases err) (simp_all only: option.case failed landed)
qed

text \<open>What a push does once it has found a commit, whether or not the volume pushes to a side branch.\<close>

lemma found_reports:
  fixes out :: "'g outside"
  assumes "reasons out"
  shows "triple (since w0 (\<lambda>calls. True)) (do {
     merged \<leftarrow> (if branch \<noteq> [] then healIfMerged out r branch else return False);
     let branch = (if merged then [] else branch);
     head \<leftarrow> (if merged then refCommit out work ''HEAD'' else return head);
     (remote, head, pushErr) \<leftarrow> send_or_rebase out r commits branch head;
     case pushErr of
       Some err \<Rightarrow> pushFailed out r (Plain err)
     | None \<Rightarrow> do {
         _ \<leftarrow> markPushed out work head;
         now \<leftarrow> time_now out;
         change_volume r (reportPushed now);
         held \<leftarrow> volume_at r;
         let (claim, _, _) = reading held;
         report_event out r claim Normal reasonPushed
           (Fmt ''pushed %d commits to %s at %s'' [AInt commits, AStr remote, AStr (short head)]);
         record_metrics r;
         noteHealth out r
       } }) (\<lambda>x. pushed_or_reported w0 r)"
  unfolding Let_def
  by (rule calls_since, intro any_calls side_calls, simp, rule calls_since, intro any_calls, simp, rule sent_reports[OF assms])

text \<open>
  Property C4. A push that finds a commit either lands or says why: when the volume's ref is not
  deleted, it waits for no credential, and git reads a head, then \<open>pushNow\<close> ends with a push of a branch
  that the remote accepted and a report with no unpushed commit and no trouble, or with the trouble
  set and the volume's condition abnormal. So a failed push, a rejected one, a lost rebase and a
  refused credential are never silent. That a refused system call names its reason is documented
  behaviour of the system.
\<close>

theorem a_push_lands_or_is_reported:
  assumes "reasons out" and "run_state (pushNow out r commits) w = (x, w')"
    and "\<not> refIsDeleted (w_heap w r)" and "\<not> waitsForCredential (w_heap w r)"
    and "fst (run_state (head_commit out (work_of (w_heap w r))) w) = Inr head"
  shows "pushed_or_reported w r w'"
proof -
  let ?h = "w_heap w r"
  obtain w1 where first: "run_state (head_commit out (work_of ?h)) w = (Inr head, w1)"
    using assms(5) by (cases "run_state (head_commit out (work_of ?h)) w") simp
  have asks: "state_io_rel (calls_of UNIV) (head_commit out work)" for work
    by (intro any_calls) simp
  have "since w (\<lambda>calls. True) w1"
    using tripleD[OF since_on[OF asks, of "\<lambda>calls. True" w] _ first] by (simp add: since_def)
  then show ?thesis
    using assms(2-4) tripleD[OF found_reports[OF assms(1), of w "divergedFrom ?h" r "work_of ?h" head commits], of w1] first
    by (simp add: pushNow_def volume_at_def Let_def)
qed

definition refusing_remote :: "unit outside" where
  "refusing_remote = (still_outside (output_of ''c1'') None)\<lparr>o_git := (\<lambda>dir env args (fs, g).
     ((output_of ''c1'', if ''push'' \<in> set args then Some ''exit status 128'' else None), fs, g))\<rparr>"

theorem a_push_lands_or_is_reported_witness:
  "pushed_or_reported (world_of [] (zero_volume ''v'' defaultAttributes writeableVolume [''v''])) 0
     (snd (run_state (pushNow refusing_remote 0 2) (world_of [] (zero_volume ''v'' defaultAttributes writeableVolume [''v'']))))"
proof -
  let ?w = "world_of [] (zero_volume ''v'' defaultAttributes writeableVolume [''v''])"
  have head: "fst (run_state (head_commit refusing_remote (work_of (w_heap ?w 0))) ?w) = Inr ''c1''"
    by code_simp
  have named: "reasons refusing_remote"
    by (simp add: reasons_def refusing_remote_def still_outside_def)
  have open_push: "\<not> refIsDeleted (w_heap ?w 0)" "\<not> waitsForCredential (w_heap ?w 0)"
    by code_simp+
  show ?thesis
    by (rule a_push_lands_or_is_reported[OF named prod.collapse[symmetric] open_push head])
qed

end
