(* ===== verification/Writes.thy ===== *)
theory Writes
  imports NodeRuns
begin

section \<open>What a pod can write through\<close>

text \<open>
  The mounts of the node against its books: a mount that takes writes is the target of a writeable volume the node
  holds, unless the kernel refused to detach it. The driver detaches a target before it binds it, so there is one per target.
\<close>

subsection \<open>What a call leaves of the mounts\<close>

text \<open>The work below a call keeps the published volumes, what they are and where; it may allocate a volume.\<close>

definition adrift :: "'g world \<Rightarrow> 'g world \<Rightarrow> bool" where
  "adrift w w' \<longleftrightarrow> n_volumes w' = n_volumes w \<and> w_calls w \<le> w_calls w' \<and> w_next w \<le> w_next w' \<and>
     (\<forall>r<w_next w. v_id (w_heap w' r) = v_id (w_heap w r) \<and> v_kind (w_heap w' r) = v_kind (w_heap w r) \<and>
       v_target (w_heap w' r) = v_target (w_heap w r))"

definition docked :: "'g world \<Rightarrow> 'g world \<Rightarrow> bool" where
  "docked w w' \<longleftrightarrow> adrift w w' \<and> w_mounts w' = w_mounts w"

interpretation docked: step_bound docked
  by unfold_locales (force simp: docked_def adrift_def)+

lemma docked_steady: "state_io_rel steady m \<Longrightarrow> state_io_rel docked m"
  by (simp add: state_io_rel_def steady_def docked_def adrift_def moored_def stable_def)

lemma docked_new: "state_io_rel docked (new_volume v)"
  by (simp add: state_io_rel_def docked_def adrift_def new_volume_def)

lemma docked_books:
  "state_io_rel docked (modify (\<lambda>w. w\<lparr>n_staged := f w\<rparr>))"
  "state_io_rel docked (follow out r)"
  "state_io_rel docked (unfollow out r)"
  "state_io_rel docked (watch out r)"
  "state_io_rel docked (unwatch r)"
  "state_io_rel docked (arm out r)"
  "state_io_rel docked (disarm r)"
  by (auto simp: state_io_rel_def docked_def adrift_def follow_def unfollow_def watch_def unwatch_def arm_def disarm_def
      volume_at_def time_now_def metric_call_def loop_at_def on_loop_def Let_def split: option.splits prod.splits)

lemma docked_records:
  "state_io_rel docked (write_record out r)"
  "state_io_rel docked (forget_record out r)"
  "state_io_rel docked (readRecord out p)"
  "state_io_rel docked (markUnstaged out r)"
  unfolding write_record_def forget_record_def readRecord_def markUnstaged_def
  by (intro docked.bounds untouched_ops[THEN steady_untouched, THEN docked_steady])+

lemma docked_unless:
  "state_io_rel docked m \<Longrightarrow> state_io_rel docked k \<Longrightarrow> state_io_rel docked (unless_internal m k)"
  "state_io_rel docked m' \<Longrightarrow> state_io_rel docked k \<Longrightarrow> state_io_rel docked (unless_refused m' k)"
  unfolding unless_internal_def unless_refused_def by (intro docked.bounds; simp)+

lemmas docked_rules = docked.bounds docked_unless docked_records docked_new docked_books
  untouched_ops[THEN steady_untouched, THEN docked_steady]
  steady_stage[THEN docked_steady] steady_stageTree[THEN docked_steady]
  steady_reports_of_a_stage[THEN docked_steady] steady_secrets[THEN docked_steady] steady_demands[THEN docked_steady]
  steady_demand[THEN docked_steady] steady_health[THEN docked_steady] steady_pushes[THEN docked_steady]
  steady_commit[THEN docked_steady] steady_change[THEN docked_steady] steady_on[THEN docked_steady] moored_reports

subsection \<open>The mounts and the books\<close>

definition writer :: "'g world \<Rightarrow> string \<Rightarrow> bool" where
  "writer w t \<longleftrightarrow> (\<exists>vid r. map_of (n_volumes w) vid = Some r \<and> writeable (w_heap w r) \<and> v_target (w_heap w r) = t)"

text \<open>
  Every writeable mount is one that stood before, one whose target the kernel refused to detach, the one excepted, or a held
  writeable volume's; and a target the kernel did not refuse is mounted once.
\<close>

definition tied :: "'g outside \<Rightarrow> (string \<times> bool) set \<Rightarrow> string option \<Rightarrow> 'g world \<Rightarrow> bool" where
  "tied out left except w \<longleftrightarrow> distinct (filter (\<lambda>t. \<not> stuck out w t) (map fst (w_mounts w))) \<and>
     (\<forall>vid r. map_of (n_volumes w) vid = Some r \<longrightarrow> r < w_next w) \<and>
     (\<forall>t. (t, True) \<in> set (w_mounts w) \<longrightarrow> (t, True) \<in> left \<or> stuck out w t \<or> except = Some t \<or> writer w t)"

lemma stuck_books [simp]:
  "stuck out (w\<lparr>n_volumes := ps\<rparr>) t = stuck out w t" "stuck out (w\<lparr>w_heap := h\<rparr>) t = stuck out w t"
  by (simp_all add: stuck_def)

lemma distinct_fewer: "distinct (filter P xs) \<Longrightarrow> (\<And>x. Q x \<Longrightarrow> P x) \<Longrightarrow> distinct (filter Q xs)"
  by (induction xs) (auto split: if_splits)

lemma writer_adrift: "adrift w w' \<Longrightarrow> (\<forall>vid r. map_of (n_volumes w) vid = Some r \<longrightarrow> r < w_next w) \<Longrightarrow> writer w' t = writer w t"
proof -
  assume drift: "adrift w w'" and below: "\<forall>vid r. map_of (n_volumes w) vid = Some r \<longrightarrow> r < w_next w"
  have "(map_of (n_volumes w') vid = Some r \<and> writeable (w_heap w' r) \<and> v_target (w_heap w' r) = t) =
      (map_of (n_volumes w) vid = Some r \<and> writeable (w_heap w r) \<and> v_target (w_heap w r) = t)" for vid r
    using drift below by (auto simp: adrift_def writeable_def)
  then show ?thesis by (simp add: writer_def)
qed

lemma tied_docked: "docked w w' \<Longrightarrow> tied out left except w \<Longrightarrow> tied out left except w'"
proof -
  assume docked: "docked w w'" and tied: "tied out left except w"
  then have later: "stuck out w t \<Longrightarrow> stuck out w' t" for t by (auto simp: docked_def adrift_def intro: stuck_later)
  have "distinct (filter (\<lambda>t. \<not> stuck out w' t) (map fst (w_mounts w)))"
    by (rule distinct_fewer[where P = "\<lambda>t. \<not> stuck out w t"]) (use tied later in \<open>auto simp: tied_def\<close>)
  moreover have "writer w' t = writer w t" for t
    using writer_adrift[of w w' t] docked tied by (simp add: docked_def tied_def)
  moreover have "r < w_next w'" if "map_of (n_volumes w) vid = Some r" for vid r
    using that docked tied by (fastforce simp: docked_def adrift_def tied_def)
  ultimately show ?thesis using docked tied later by (auto simp: tied_def docked_def adrift_def)
qed

lemma tied_except: "tied out left None w \<Longrightarrow> tied out left except w"
  by (auto simp: tied_def)

text \<open>A fact about the volumes that the work below a call and the mount calls keep.\<close>

definition lasts :: "('g world \<Rightarrow> bool) \<Rightarrow> bool" where
  "lasts K \<longleftrightarrow> (\<forall>w w'. adrift w w' \<longrightarrow> K w \<longrightarrow> K w')"

lemma first_tied:
  "state_io_rel docked m \<Longrightarrow> lasts K \<Longrightarrow> (\<And>x. triple (\<lambda>w. tied out left except w \<and> K w) (k x) Q) \<Longrightarrow>
   triple (\<lambda>w. tied out left except w \<and> K w) (m \<bind> k) Q"
  by (rule triple_bind[OF triple_bound[where R = docked and Q = "\<lambda>w. tied out left except w \<and> K w"]])
    (auto simp: tied_docked lasts_def docked_def)

lemma ends_tied: "state_io_rel docked m \<Longrightarrow> triple (\<lambda>w. tied out left except w \<and> K w) m (\<lambda>x. tied out left except)"
  by (rule triple_bound[where R = docked]) (auto simp: tied_docked)

lemma keeps_tied: "state_io_rel docked m \<Longrightarrow> triple (tied out left except) m (\<lambda>x. tied out left except)"
  by (rule triple_bound[where R = docked]) (auto simp: tied_docked)

lemma unmounted_fewer: "set (unmounted t ms) \<subseteq> set ms"
  by (induction t ms rule: unmounted.induct) auto

lemma unmounted_less: "distinct (filter P (map fst ms)) \<Longrightarrow> distinct (filter P (map fst (unmounted t ms)))"
proof (induction t ms rule: unmounted.induct)
  case (2 t s writes rest)
  have "fst ` set (unmounted t rest) \<subseteq> fst ` set rest" using unmounted_fewer by blast
  with 2 show ?case by (auto split: if_splits)
qed simp

lemma unmounted_once: "distinct (filter P (map fst ms)) \<Longrightarrow> P t \<Longrightarrow> t \<notin> fst ` set (unmounted t ms)"
  by (induction t ms rule: unmounted.induct) (auto split: if_splits)

definition unbound :: "'g outside \<Rightarrow> string \<Rightarrow> 'g world \<Rightarrow> bool" where
  "unbound out target w \<longleftrightarrow> stuck out w target \<or> target \<notin> fst ` set (w_mounts w)"

lemma only_mounts_same: "only_mounts w w' \<Longrightarrow> n_volumes w' = n_volumes w \<and> w_next w' = w_next w \<and> w_heap w' = w_heap w"
proof -
  assume "only_mounts w w'"
  then obtain ms n where "w' = w\<lparr>w_mounts := ms, w_calls := n\<rparr>" unfolding only_mounts_def by blast
  then show ?thesis by simp
qed

lemma unbind_ties:
  assumes "lasts K"
  shows "triple (\<lambda>w. tied out left except w \<and> K w) (unbind out target)
    (\<lambda>x w. tied out left (if except = Some target then None else except) w \<and> unbound out target w \<and> K w)"
proof (rule tripleI)
  fix w w' :: "'a world" and x
  assume pre: "tied out left except w \<and> K w" and run: "run_state (unbind out target) w = (x, w')"
  note after = mounts_after(3)[OF run]
  have only: "only_mounts w w'" using only_mounts_ops(2)[of out target] run by (auto simp: state_io_rel_def dest: spec[of _ w])
  note same = only_mounts_same[OF only]
  with after have drift: "adrift w w'" by (simp add: adrift_def)
  have later: "stuck out w t \<Longrightarrow> stuck out w' t" for t using after by (auto intro: stuck_later)
  have sub: "set (w_mounts w') \<subseteq> set (w_mounts w)" and once: "distinct (filter P (map fst (w_mounts w')))"
    if "distinct (filter P (map fst (w_mounts w)))" for P
    using after unmounted_fewer[of target "w_mounts w"] unmounted_less[OF that, of target] that by (auto split: if_splits)
  have "distinct (filter (\<lambda>t. \<not> stuck out w t) (map fst (w_mounts w)))" using pre by (simp add: tied_def)
  note sub = sub[OF this] and once' = once[OF this] and before = this
  have once: "distinct (filter (\<lambda>t. \<not> stuck out w' t) (map fst (w_mounts w')))"
    by (rule distinct_fewer[OF once']) (use later in blast)
  have free: "unbound out target w'"
  proof (cases "stuck out w' target")
    case False
    then have "\<not> stuck out w target" "\<not> held_fast out w w' target" using later held_stuck by blast+
    with after unmounted_once[OF before, of target] show ?thesis by (auto simp: unbound_def is_mounted_def split: if_splits)
  qed (simp add: unbound_def)
  have writers: "writer w' t = writer w t" for t by (simp add: writer_def same)
  have "(t, True) \<in> left \<or> stuck out w' t \<or> (if except = Some target then None else except) = Some t \<or> writer w' t"
    if mounted: "(t, True) \<in> set (w_mounts w')" for t
  proof -
    from mounted sub have "(t, True) \<in> set (w_mounts w)" by blast
    with pre have "(t, True) \<in> left \<or> stuck out w t \<or> except = Some t \<or> writer w t" unfolding tied_def by blast
    moreover have "t = target \<Longrightarrow> stuck out w' t" using free mounted by (force simp: unbound_def)
    ultimately show ?thesis using later[of t] writers by auto
  qed
  moreover have "\<forall>vid r. map_of (n_volumes w') vid = Some r \<longrightarrow> r < w_next w'" using pre same by (simp add: tied_def)
  ultimately have "tied out left (if except = Some target then None else except) w'"
    using once unfolding tied_def by blast
  with free pre drift assms show "tied out left (if except = Some target then None else except) w' \<and> unbound out target w' \<and> K w'"
    by (simp add: lasts_def)
qed

text \<open>Binding at a target that is free.\<close>

lemma bind_ties:
  assumes "state_io_rel only_mounts m" and "lasts K"
    and "\<And>w x w'. run_state m w = (x, w') \<Longrightarrow> w_calls w \<le> w_calls w' \<and>
      (w_mounts w' = (if x = None then (target, writes) # w_mounts w else w_mounts w) \<or>
       x \<noteq> None \<and> w_mounts w' = (target, True) # w_mounts w \<and> held_fast out w w' target)"
  shows "triple (\<lambda>w. tied out left None w \<and> unbound out target w \<and> K w) m
    (\<lambda>x w. tied out left (if x = None \<and> writes then Some target else None) w \<and> K w)"
proof (rule tripleI)
  fix w w' :: "'a world" and x
  assume pre: "tied out left None w \<and> unbound out target w \<and> K w" and run: "run_state m w = (x, w')"
  note after = assms(3)[OF run]
  have "only_mounts w w'" using assms(1) run by (auto simp: state_io_rel_def dest: spec[of _ w])
  note same = only_mounts_same[OF this]
  with after have drift: "adrift w w'" by (simp add: adrift_def)
  have later: "stuck out w t \<Longrightarrow> stuck out w' t" for t using after by (auto intro: stuck_later)
  have writers: "writer w' t = writer w t" for t by (simp add: writer_def same)
  have "distinct (filter (\<lambda>t. \<not> stuck out w' t) (map fst (w_mounts w)))"
    by (rule distinct_fewer[where P = "\<lambda>t. \<not> stuck out w t"]) (use pre later in \<open>auto simp: tied_def\<close>)
  moreover have "\<not> stuck out w' target \<Longrightarrow> target \<notin> fst ` set (w_mounts w)" using pre later by (auto simp: unbound_def)
  ultimately have once: "distinct (filter (\<lambda>t. \<not> stuck out w' t) (map fst ((target, b) # w_mounts w)))"
    "distinct (filter (\<lambda>t. \<not> stuck out w' t) (map fst (w_mounts w)))" for b
    by (auto simp: image_iff)
  from after held_stuck have shape: "x = None \<and> w_mounts w' = (target, writes) # w_mounts w \<or> x \<noteq> None \<and> w_mounts w' = w_mounts w \<or>
      x \<noteq> None \<and> w_mounts w' = (target, True) # w_mounts w \<and> stuck out w' target" by (auto split: if_splits)
  then have "tied out left (if x = None \<and> writes then Some target else None) w'"
    using pre once later writers same by (elim disjE) (auto simp: tied_def)
  with pre drift assms(2) show "tied out left (if x = None \<and> writes then Some target else None) w' \<and> K w'"
    by (simp add: lasts_def)
qed

lemma read_only_ties:
  assumes "lasts K"
  shows "triple (\<lambda>w. tied out left None w \<and> unbound out target w \<and> K w) (bindReadOnly out source target) (\<lambda>x w. tied out left None w \<and> K w)"
  using bind_ties[OF only_mounts_ops(1) assms mounts_after(1), where left = left] by simp

lemma read_write_ties:
  assumes "lasts K"
  shows "triple (\<lambda>w. tied out left None w \<and> unbound out target w \<and> K w) (bindReadWrite out source target)
    (\<lambda>x w. tied out left (if x = None then Some target else None) w \<and> K w)"
proof -
  have "w_calls w \<le> w_calls w' \<and> (w_mounts w' = (if x = None then (target, True) # w_mounts w else w_mounts w) \<or>
      x \<noteq> None \<and> w_mounts w' = (target, True) # w_mounts w \<and> held_fast out w w' target)"
    if "run_state (bindReadWrite out source target) w = (x, w')" for w w' x
    using mounts_after(2)[OF that] by blast
  from bind_ties[OF only_mounts_ops(3) assms this, where left = left] show ?thesis by simp
qed

lemma bind_at_ends:
  assumes "lasts K"
    and "triple (\<lambda>w. tied out left None w \<and> unbound out target w \<and> K w) attach (\<lambda>x w. tied out left (if x = None then e else None) w \<and> K w)"
    and "triple (\<lambda>w. tied out left e w \<and> K w) k Q" and "\<And>x w. tied out left None w \<Longrightarrow> K w \<Longrightarrow> Q x w"
  shows "triple (\<lambda>w. tied out left None w \<and> K w) (bind_at out target attach k) Q"
proof -
  have attached: "triple (\<lambda>w. tied out left None w \<and> unbound out target w \<and> K w) (unless_internal attach k) Q"
    unfolding unless_internal_def
  proof (rule triple_bind[OF assms(2)])
    fix x :: "string option"
    show "triple (\<lambda>w. tied out left (if x = None then e else None) w \<and> K w)
        (case x of None \<Rightarrow> k | Some err \<Rightarrow> return (Some (internal err))) Q"
      using assms(3,4) by (cases x) (simp_all add: triple_return_iff)
  qed
  have detached: "triple (\<lambda>w. tied out left None w \<and> K w) (unless_internal (unbind out target) (unless_internal attach k)) Q"
    unfolding unless_internal_def[of "unbind out target"]
  proof (rule triple_bind[OF unbind_ties[OF assms(1)]])
    fix x :: "string option"
    show "triple (\<lambda>w. tied out left (if None = Some target then None else None) w \<and> unbound out target w \<and> K w)
        (case x of None \<Rightarrow> unless_internal attach k | Some err \<Rightarrow> return (Some (internal err))) Q"
      using attached assms(4) by (cases x) (simp_all add: triple_return_iff)
  qed
  have made: "state_io_rel docked (MkdirAll out (read_path target) 493)" by (intro docked_rules)
  show ?thesis
    unfolding bind_at_def unless_internal_def[of "MkdirAll out (read_path target) 493"]
    by (rule first_tied[OF made assms(1)]) (auto split: option.split simp: detached triple_return_iff assms(4))
qed

lemma bind_at_ties:
  assumes "lasts K"
    and "triple (\<lambda>w. tied out left None w \<and> unbound out target w \<and> K w) attach (\<lambda>x w. tied out left (if x = None then e else None) w \<and> K w)"
    and "triple (\<lambda>w. tied out left e w \<and> K w) k (\<lambda>x. tied out left None)"
  shows "triple (\<lambda>w. tied out left None w \<and> K w) (bind_at out target attach k) (\<lambda>x. tied out left None)"
  by (rule bind_at_ends[OF assms(1-3)])

subsection \<open>Publishing\<close>

text \<open>A volume about to enter the books: a reader under a handle that is free or its own, a writer under a free one.\<close>

definition reads_slot :: "string \<Rightarrow> nat \<Rightarrow> 'g world \<Rightarrow> bool" where
  "reads_slot vid r w \<longleftrightarrow> r < w_next w \<and> (\<forall>q. map_of (n_volumes w) vid = Some q \<longrightarrow> q = r \<and> \<not> writeable (w_heap w r))"

definition writes_slot :: "string \<Rightarrow> nat \<Rightarrow> 'g world \<Rightarrow> bool" where
  "writes_slot vid r w \<longleftrightarrow> r < w_next w \<and> writeable (w_heap w r) \<and> map_of (n_volumes w) vid = None \<and> (\<forall>v. map_of (n_volumes w) v \<noteq> Some r)"

lemma slots_last: "lasts (reads_slot vid r)" "lasts (writes_slot vid r)" "lasts (\<lambda>w. True)"
  "lasts (\<lambda>w. writes_slot vid r w \<and> v_target (w_heap w r) = t)"
  "lasts (\<lambda>w. reads_slot vid r w \<and> v_target (w_heap w r) = t)"
  by (auto simp: lasts_def adrift_def reads_slot_def writes_slot_def writeable_def)

lemma enter_reader:
  "tied out left None w \<Longrightarrow> reads_slot vid r w \<Longrightarrow> tied out left None (w\<lparr>n_volumes := set_entry vid r (n_volumes w)\<rparr>)"
proof -
  assume tied: "tied out left None w" and slot: "reads_slot vid r w"
  have "writer w t \<Longrightarrow> writer (w\<lparr>n_volumes := set_entry vid r (n_volumes w)\<rparr>) t" for t
    using slot unfolding writer_def reads_slot_def by (auto simp: map_of_set_entry)
  with tied slot show ?thesis by (auto simp: tied_def map_of_set_entry reads_slot_def)
qed

lemma writer_joined:
  assumes "map_of (n_volumes w) vid = None" "writer w t"
  shows "writer (w\<lparr>n_volumes := set_entry vid r (n_volumes w)\<rparr>) t"
proof -
  from assms(2) obtain v q where q: "map_of (n_volumes w) v = Some q" "writeable (w_heap w q)" "v_target (w_heap w q) = t"
    by (auto simp: writer_def)
  moreover from q(1) assms(1) have "v \<noteq> vid" by auto
  ultimately show ?thesis
    unfolding writer_def by (intro exI[of _ v] exI[of _ q]) (simp add: map_of_set_entry)
qed

lemma enter_writer:
  "tied out left (Some t) w \<Longrightarrow> writes_slot vid r w \<Longrightarrow> v_target (w_heap w r) = t \<Longrightarrow>
   tied out left None (w\<lparr>n_volumes := set_entry vid r (n_volumes w)\<rparr>)"
proof -
  assume tied: "tied out left (Some t) w" and slot: "writes_slot vid r w" and at: "v_target (w_heap w r) = t"
  have "writer w s \<Longrightarrow> writer (w\<lparr>n_volumes := set_entry vid r (n_volumes w)\<rparr>) s" for s
    using slot writer_joined[of w vid _ r] by (simp add: writes_slot_def)
  moreover have "writer (w\<lparr>n_volumes := set_entry vid r (n_volumes w)\<rparr>) t"
    using slot at by (auto simp: writer_def writes_slot_def map_of_set_entry)
  ultimately show ?thesis using tied slot by (auto simp: tied_def map_of_set_entry writes_slot_def)
qed

lemma retarget:
  "tied out left e w \<Longrightarrow> writes_slot vid r w \<Longrightarrow>
   tied out left e (w\<lparr>w_heap := (w_heap w)(r := (w_heap w r)\<lparr>v_target := t, v_context := c\<rparr>)\<rparr>) \<and>
   writes_slot vid r (w\<lparr>w_heap := (w_heap w)(r := (w_heap w r)\<lparr>v_target := t, v_context := c\<rparr>)\<rparr>)"
proof -
  assume tied: "tied out left e w" and slot: "writes_slot vid r w"
  let ?w' = "w\<lparr>w_heap := (w_heap w)(r := (w_heap w r)\<lparr>v_target := t, v_context := c\<rparr>)\<rparr>"
  have "writer ?w' s" if "writer w s" for s
  proof -
    from that obtain v q where q: "map_of (n_volumes w) v = Some q" "writeable (w_heap w q)" "v_target (w_heap w q) = s"
      by (auto simp: writer_def)
    moreover from q(1) slot have "q \<noteq> r" by (auto simp: writes_slot_def)
    ultimately show ?thesis unfolding writer_def by (intro exI[of _ v] exI[of _ q]) simp
  qed
  with tied slot show ?thesis by (auto simp: tied_def writes_slot_def writeable_def)
qed

lemma publishReadOnly_ties:
  shows "triple (\<lambda>w. tied out left None w \<and> reads_slot (v_id (w_heap w r)) r w)
    (publishReadOnly out r request parsed holder) (\<lambda>x. tied out left None)"
proof -
  let ?target = "req_target_path request"
  have last: "triple (\<lambda>w. tied out left None w \<and> reads_slot vid r w) (do {
      modify (\<lambda>w. w\<lparr>n_volumes := set_entry vid r (n_volumes w)\<rparr>); return None }) (\<lambda>x. tied out left None)" for vid
    by (simp add: triple_def enter_reader)
  have changes: "triple (\<lambda>w. tied out left None w \<and> reads_slot vid r w) (do {
            change_volume r (bind_target ?target (a_pod parsed));
            _ \<leftarrow> takeSecret out r holder;
            write_record out r;
            modify (\<lambda>w. w\<lparr>n_volumes := set_entry vid r (n_volumes w)\<rparr>);
            return None }) (\<lambda>x. tied out left None)" for vid
    by (intro first_tied docked_rules slots_last last)
  have attach: "triple (\<lambda>w. tied out left None w \<and> unbound out ?target w \<and> reads_slot vid r w) (bindReadOnly out source ?target)
      (\<lambda>x w. tied out left (if x = None then None else None) w \<and> reads_slot vid r w)" for source vid
    using read_only_ties[OF slots_last(1), where target = ?target] by simp
  have bound: "triple (\<lambda>w. tied out left None w \<and> reads_slot vid r w) (bind_at out ?target (bindReadOnly out source ?target) (do {
            change_volume r (bind_target ?target (a_pod parsed));
            _ \<leftarrow> takeSecret out r holder;
            write_record out r;
            modify (\<lambda>w. w\<lparr>n_volumes := set_entry vid r (n_volumes w)\<rparr>);
            return None })) (\<lambda>x. tied out left None)" for source vid
    by (rule bind_at_ties[OF slots_last(1) attach changes])
  have again: "triple (\<lambda>w. tied out left None w \<and> reads_slot vid r w) (do { _ \<leftarrow> republished out r holder; return None }) (\<lambda>x. tied out left None)" for vid
    by (rule ends_tied) (intro docked_rules)
  show ?thesis
    unfolding publishReadOnly_def Let_def
  proof (intro triple_if triple_return triple_volume)
    fix x :: volume
    show "triple (\<lambda>w. (tied out left None w \<and> reads_slot (v_id (w_heap w r)) r w) \<and> w_heap w r = x)
        (do { _ \<leftarrow> republished out r holder; return None }) (\<lambda>x. tied out left None)"
      by (rule triple_pre[OF again[of "v_id x"]]) auto
    show "triple (\<lambda>w. (tied out left None w \<and> reads_slot (v_id (w_heap w r)) r w) \<and> w_heap w r = x)
        (unless_status (checkSecret x holder) (bind_at out ?target (bindReadOnly out (v_tree x) ?target) (do {
            change_volume r (bind_target ?target (a_pod parsed));
            _ \<leftarrow> takeSecret out r holder;
            write_record out r;
            modify (\<lambda>w. w\<lparr>n_volumes := set_entry (v_id x) r (n_volumes w)\<rparr>);
            return None }))) (\<lambda>x. tied out left None)"
      by (rule triple_unless_status, simp, rule triple_pre[OF bound]) auto
  qed simp
qed

lemma publish_writeable_ties:
  shows "triple (\<lambda>w. tied out left None w \<and> writes_slot (req_volume_id request) r w) (publish_writeable out r request parsed holder) (\<lambda>x. tied out left None)"
proof -
  let ?vid = "req_volume_id request" and ?target = "req_target_path request"
  let ?K = "\<lambda>w. writes_slot ?vid r w \<and> v_target (w_heap w r) = ?target"
  have last: "triple (\<lambda>w. tied out left (Some ?target) w \<and> ?K w) (modify (\<lambda>w. w\<lparr>n_volumes := set_entry ?vid r (n_volumes w)\<rparr>)) (\<lambda>x. tied out left None)"
    by (auto simp: triple_def intro: enter_writer)
  have watching: "triple (tied out left None) (do { watch out r; return None }) (\<lambda>x. tied out left None)"
    by (rule keeps_tied) (intro docked_rules)
  have entered: "triple (\<lambda>w. tied out left (Some ?target) w \<and> ?K w)
      (do { write_record out r; modify (\<lambda>w. w\<lparr>n_volumes := set_entry ?vid r (n_volumes w)\<rparr>); watch out r; return None }) (\<lambda>x. tied out left None)"
    by (rule first_tied[OF docked_records(1) slots_last(4)], rule triple_bind[OF last watching])
  have changes: "triple (\<lambda>w. tied out left (Some ?target) w \<and> writes_slot ?vid r w) (do {
         change_volume r (\<lambda>v. v\<lparr>v_target := ?target, v_context := req_context request\<rparr>);
         write_record out r;
         modify (\<lambda>w. w\<lparr>n_volumes := set_entry ?vid r (n_volumes w)\<rparr>);
         watch out r;
         return None }) (\<lambda>x. tied out left None)"
    by (rule triple_bind[OF _ entered]) (auto simp: triple_def change_volume_def intro: retarget[THEN conjunct1] retarget[THEN conjunct2])
  have attach: "triple (\<lambda>w. tied out left None w \<and> unbound out ?target w \<and> writes_slot ?vid r w) (bindReadWrite out source ?target)
      (\<lambda>x w. tied out left (if x = None then Some ?target else None) w \<and> writes_slot ?vid r w)" for source
    by (rule read_write_ties[OF slots_last(2)])
  have bound: "triple (\<lambda>w. tied out left None w \<and> writes_slot ?vid r w) (bind_at out ?target (bindReadWrite out source ?target) (do {
         change_volume r (\<lambda>v. v\<lparr>v_target := ?target, v_context := req_context request\<rparr>);
         write_record out r;
         modify (\<lambda>w. w\<lparr>n_volumes := set_entry ?vid r (n_volumes w)\<rparr>);
         watch out r;
         return None })) (\<lambda>x. tied out left None)" for source
    by (rule bind_at_ties[OF slots_last(2) attach changes])
  have taken: "triple (\<lambda>w. tied out left None w \<and> writes_slot ?vid r w) (do { change_volume r (setPod (a_pod parsed)); _ \<leftarrow> takeSecret out r holder; k }) (\<lambda>x. tied out left None)"
    if "triple (\<lambda>w. tied out left None w \<and> writes_slot ?vid r w) k (\<lambda>x. tied out left None)" for k :: "('a, status option) io"
    by (intro first_tied docked_rules slots_last that)
  show ?thesis
    unfolding publish_writeable_def Let_def
  proof (rule triple_volume, rule triple_unless_status)
    fix x :: volume
    show "triple (\<lambda>w. (tied out left None w \<and> writes_slot ?vid r w) \<and> w_heap w r = x) (do {
       change_volume r (setPod (a_pod parsed));
       _ \<leftarrow> takeSecret out r holder;
       bind_at out ?target (bindReadWrite out (v_tree x) ?target) (do {
         change_volume r (\<lambda>v. v\<lparr>v_target := ?target, v_context := req_context request\<rparr>);
         write_record out r;
         modify (\<lambda>w. w\<lparr>n_volumes := set_entry ?vid r (n_volumes w)\<rparr>);
         watch out r;
         return None }) }) (\<lambda>x. tied out left None)"
      by (rule triple_pre[OF taken[OF bound]]) simp
  qed simp
qed

lemma publishStaged_ties:
  shows "triple (\<lambda>w. node_ok out inl w \<and> tied out left None w) (publishStaged out request parsed holder) (\<lambda>x. tied out left None)"
proof -
  let ?vid = "req_volume_id request"
  let ?P = "\<lambda>w. node_ok out inl w \<and> tied out left None w" and ?Q = "\<lambda>x. tied out left None"
  let ?claim = "\<lambda>r. do { answer \<leftarrow> publishReadOnly out r request parsed holder;
          case answer of None \<Rightarrow> return None
          | Some err \<Rightarrow> do { err \<leftarrow> refusedClaim out r err; return (Some err) } }"
  let ?again = "\<lambda>p. do { published \<leftarrow> volume_at p;
             if v_target published \<noteq> req_target_path request
             then return (Some (published_elsewhere ?vid (v_target published)))
             else do { _ \<leftarrow> republished out p holder; return None } }"
  let ?work = "\<lambda>r standing. case standing of Some p \<Rightarrow> ?again p | None \<Rightarrow> publish_writeable out r request parsed holder"
  have claim: "triple (\<lambda>w. tied out left None w \<and> reads_slot (v_id (w_heap w r)) r w) (?claim r) ?Q" for r
  proof (rule triple_bind[OF publishReadOnly_ties])
    fix answer :: "status option"
    show "triple (?Q answer) (case answer of None \<Rightarrow> return None
          | Some err \<Rightarrow> do { err \<leftarrow> refusedClaim out r err; return (Some err) }) ?Q"
      by (intro triple_option keeps_tied docked_rules)
  qed
  have again: "triple (tied out left None) (?again p) ?Q" for p
    by (intro keeps_tied docked_rules)
  show ?thesis
    unfolding publishStaged_def Let_def
  proof (rule triple_gets, rule triple_gets, rule triple_option)
    fix standing and found :: "nat option"
    show "triple (\<lambda>s. (?P s \<and> map_of (n_staged s) ?vid = found) \<and> map_of (n_volumes s) ?vid = standing)
      (return (Some (Status FailedPrecondition (Fmt ''volume_id: %s is not staged on this node'' [AStr ?vid])))) ?Q"
      by (rule triple_return) simp
    fix r assume found: "found = Some r"
    let ?H = "\<lambda>s. (?P s \<and> map_of (n_staged s) ?vid = found) \<and> map_of (n_volumes s) ?vid = standing"
    show "triple ?H (do { staged \<leftarrow> volume_at r; if v_kind staged = readOnlyClaim then ?claim r else ?work r standing }) ?Q"
    proof (rule triple_volume, rule triple_if)
      fix x :: volume assume kind: "v_kind x = readOnlyClaim"
      have slot: "reads_slot (v_id (w_heap s r)) r s" if "?H s" "w_heap s r = x" for s
      proof -
        from that found have staged: "node_ok out inl s" "map_of (n_staged s) ?vid = Some r" by auto
        then have books: "v_id (w_heap s r) = ?vid" "r < w_next s" "\<not> inl ?vid" by (auto simp: node_ok_def books_ok_def)
        have "q = r" if "map_of (n_volumes s) ?vid = Some q" for q
        proof -
          have "inl ?vid \<or> map_of (n_staged s) ?vid = Some q" using staged(1) that by (simp add: node_ok_def books_ok_def)
          with staged(2) books(3) show ?thesis by simp
        qed
        with books kind that show ?thesis by (auto simp: reads_slot_def writeable_def)
      qed
      show "triple (\<lambda>s. ?H s \<and> w_heap s r = x) (?claim r) ?Q"
        by (rule triple_pre[OF claim]) (use slot in blast)
    next
      fix x :: volume assume kind: "v_kind x \<noteq> readOnlyClaim"
      show "triple (\<lambda>s. ?H s \<and> w_heap s r = x) (?work r standing) ?Q"
      proof (cases standing)
        case None
        have slot: "writes_slot ?vid r s" if "?H s" "w_heap s r = x" for s
        proof -
          from that found have staged: "node_ok out inl s" "map_of (n_staged s) ?vid = Some r" by auto
          from staged_kind[OF this] kind that have writes: "writeable (w_heap s r)" by (simp add: sits_def writeable_def)
          have "v_id (w_heap s r) = ?vid" using staged by (simp add: node_ok_def books_ok_def)
          moreover have "v_id (w_heap s r) = v" if "map_of (n_volumes s) v = Some r" for v
            using staged(1) that by (simp add: node_ok_def books_ok_def)
          ultimately have "map_of (n_volumes s) v \<noteq> Some r" for v using that None by auto
          with writes staged that None show ?thesis by (auto simp: writes_slot_def node_ok_def books_ok_def)
        qed
        show ?thesis
          unfolding None option.case
          by (rule triple_pre[OF publish_writeable_ties]) (use slot None in blast)
      next
        case (Some p)
        show ?thesis unfolding Some option.case by (rule triple_pre[OF again]) simp
      qed
    qed
  qed
qed

lemma publish_inline_ties:
  fixes out :: "'g outside"
  shows "triple (tied out left None) (publish_inline out request parsed holder) (\<lambda>x. tied out left None)"
proof -
  let ?vid = "req_volume_id request"
  let ?new = "(zero_volume ?vid parsed inlineVolume (volumeDir out ?vid))
           \<lparr>v_credentials := holder, v_target := req_target_path request,
            v_context := req_context request, v_pod := a_pod parsed\<rparr>"
  let ?tail = "\<lambda>r failed. case failed of
           Some err \<Rightarrow> do {
             refused out (a_pod parsed) err;
             _ \<leftarrow> RemoveAll out (volumeDir out ?vid);
             return (Some err)
           }
         | None \<Rightarrow> do {
             write_record out r;
             modify (\<lambda>w. w\<lparr>n_volumes := set_entry ?vid r (n_volumes w)\<rparr>);
             follow out r;
             return None
           }"
  have following: "triple (tied out left None) (do { follow out r; return None }) (\<lambda>x. tied out left None)" for r
    by (rule keeps_tied) (intro docked_rules)
  have entered: "triple (\<lambda>w. tied out left None w \<and> reads_slot ?vid r w) (modify (\<lambda>w. w\<lparr>n_volumes := set_entry ?vid r (n_volumes w)\<rparr>)) (\<lambda>x. tied out left None)" for r
    by (simp add: triple_def enter_reader)
  have published: "triple (\<lambda>w. tied out left None w \<and> reads_slot ?vid r w) (do { write_record out r;
      modify (\<lambda>w. w\<lparr>n_volumes := set_entry ?vid r (n_volumes w)\<rparr>); follow out r; return None }) (\<lambda>x. tied out left None)" for r
    by (rule first_tied[OF docked_records(1) slots_last(1)], rule triple_bind[OF entered following])
  have tail: "triple (\<lambda>w. tied out left None w \<and> reads_slot ?vid r w) (?tail r failed) (\<lambda>x. tied out left None)" for r failed
    by (rule triple_option) (simp only: published, rule ends_tied, intro docked_rules)
  have publishes: "triple (\<lambda>w. tied out left None w \<and> reads_slot ?vid r w) (publish out r) (\<lambda>x w. tied out left None w \<and> reads_slot ?vid r w)" for r
  proof -
    let ?P = "\<lambda>w. tied out left None w \<and> reads_slot ?vid r w"
    have attach: "triple (\<lambda>w. tied out left None w \<and> unbound out target w \<and> reads_slot ?vid r w) (bindReadOnly out source target)
        (\<lambda>x w. tied out left (if x = None then None else None) w \<and> reads_slot ?vid r w)" for source target
      using read_only_ties[OF slots_last(1), where target = target] by simp
    have bound: "triple ?P (bind_at out target (bindReadOnly out source target) (return None)) (\<lambda>x. ?P)" for source target
      by (rule bind_at_ends[OF slots_last(1) attach]) (simp_all add: triple_return_iff)
    have kept: "triple ?P m (\<lambda>x. ?P)" if "state_io_rel docked m" for m :: "('g, 'b) io"
      by (rule triple_bound[where R = docked, OF that]) (use slots_last(1) in \<open>auto simp: tied_docked lasts_def docked_def\<close>)
    have staged: "triple ?P (unless_refused (stage out r) (bind_at out target (bindReadOnly out source target) (return None))) (\<lambda>x. ?P)" for source target
      unfolding unless_refused_def
      by (rule triple_bind[OF kept]) (intro docked_rules, auto split: option.split simp: bound triple_return_iff)
    have made: "triple ?P (unless_internal (MkdirAll out dir 448)
        (unless_refused (stage out r) (bind_at out target (bindReadOnly out source target) (return None)))) (\<lambda>x. ?P)" for source target dir
      unfolding unless_internal_def
      by (rule triple_bind[OF kept]) (intro docked_rules, auto split: option.split simp: staged triple_return_iff)
    show ?thesis
      unfolding publish_def by (rule triple_volume, rule triple_pre[OF made]) simp
  qed
  have fresh: "triple (\<lambda>w. tied out left None w \<and> map_of (n_volumes w) ?vid = None)
      (do { r \<leftarrow> new_volume ?new; failed \<leftarrow> publish out r; ?tail r failed }) (\<lambda>x. tied out left None)"
  proof (rule triple_bind[OF _ triple_bind[OF publishes tail]])
    show "triple (\<lambda>w. tied out left None w \<and> map_of (n_volumes w) ?vid = None) (new_volume ?new :: ('g, nat) io)
        (\<lambda>r w. tied out left None w \<and> reads_slot ?vid r w)"
    proof -
      have "tied out left None w' \<and> reads_slot ?vid r w'"
        if pre: "tied out left None w" "map_of (n_volumes w) ?vid = None" and run: "run_state (new_volume ?new) w = (r, w')" for w w' :: "'g world" and r
      proof -
        have "docked w w'" using docked_new[of ?new] run by (auto simp: state_io_rel_def dest: spec[of _ w])
        with pre(1) have "tied out left None w'" by (auto intro: tied_docked)
        with pre run show ?thesis by (auto simp: new_volume_def reads_slot_def)
      qed
      then show ?thesis by (intro tripleI) blast
    qed
  qed
  have again: "triple (tied out left None) (do { published \<leftarrow> volume_at p;
         if v_target published \<noteq> req_target_path request
         then return (Some (published_elsewhere ?vid (v_target published)))
         else do { _ \<leftarrow> republished out p holder; return None } }) (\<lambda>x. tied out left None)" for p
    by (intro keeps_tied docked_rules)
  show ?thesis
    unfolding publish_inline_def Let_def
  proof (rule triple_gets, rule triple_option)
    fix found :: "nat option" and p
    show "triple (\<lambda>s. tied out left None s \<and> map_of (n_volumes s) ?vid = found)
      (do { published \<leftarrow> volume_at p;
         if v_target published \<noteq> req_target_path request
         then return (Some (published_elsewhere ?vid (v_target published)))
         else do { _ \<leftarrow> republished out p holder; return None } }) (\<lambda>x. tied out left None)"
      by (rule triple_pre[OF again]) simp
  next
    fix found :: "nat option" assume "found = None"
    then show "triple (\<lambda>s. tied out left None s \<and> map_of (n_volumes s) ?vid = found)
       (do { r \<leftarrow> new_volume ?new; failed \<leftarrow> publish out r; ?tail r failed }) (\<lambda>x. tied out left None)"
      using fresh by simp
  qed
qed

lemma unit_ties: "triple P m (\<lambda>x. tied out left None) \<Longrightarrow> triple P (unit_of m) (\<lambda>x. tied out left None)"
  unfolding unit_of_def by (rule triple_bind, assumption) (simp add: triple_return_iff)

lemma NodePublishVolume_ties:
  shows "triple (\<lambda>w. node_ok out inl w \<and> tied out left None w) (NodePublishVolume out request) (\<lambda>x. tied out left None)"
proof -
  let ?P = "\<lambda>w. node_ok out inl w \<and> tied out left None w" and ?Q = "\<lambda>x. tied out left None"
  have refused: "triple ?P (do { refused out pod err; return (Some err) }) ?Q" for pod err
    by (rule triple_pre[OF keeps_tied]) (intro docked_rules, simp)
  have staged: "triple ?P (do { failed \<leftarrow> publishStaged out request parsed holder;
      case failed of None \<Rightarrow> return None | Some err \<Rightarrow> do { refused out pod err; return (Some err) } }) ?Q"
    for parsed holder pod
  proof (rule triple_bind[OF publishStaged_ties])
    fix failed :: "status option"
    show "triple (?Q failed) (case failed of None \<Rightarrow> return None | Some err \<Rightarrow> do { refused out pod err; return (Some err) }) ?Q"
      by (intro triple_option keeps_tied docked_rules)
  qed
  have inline: "triple ?P (publish_inline out request parsed holder) ?Q" for parsed holder
    by (rule triple_pre[OF publish_inline_ties]) simp
  show ?thesis
    unfolding NodePublishVolume_def
    by (intro triple_unless_status) (use refused staged inline in \<open>auto split: sum.split\<close>)
qed

subsection \<open>Unpublishing\<close>

definition parting :: "string \<Rightarrow> nat \<Rightarrow> string \<Rightarrow> 'g world \<Rightarrow> bool" where
  "parting vid p target w \<longleftrightarrow> map_of (n_volumes w) vid = Some p \<and> p < w_next w \<and>
     (writeable (w_heap w p) \<longrightarrow> v_target (w_heap w p) = target)"

lemma parting_lasts: "lasts (parting vid p target)"
  by (auto simp: lasts_def adrift_def parting_def writeable_def)

lemma entry_gone:
  assumes "tied out left None w" "map_of (n_volumes w) vid = Some p \<Longrightarrow> writeable (w_heap w p) \<Longrightarrow> except = Some (v_target (w_heap w p))"
    and "map_of (n_volumes w) vid = None \<or> map_of (n_volumes w) vid = Some p"
  shows "tied out left except (w\<lparr>n_volumes := delete_entry vid (n_volumes w)\<rparr>)"
proof -
  let ?w' = "w\<lparr>n_volumes := delete_entry vid (n_volumes w)\<rparr>"
  have "except = Some t \<or> writer ?w' t" if writer: "writer w t" for t
  proof -
    from writer obtain v r where r: "map_of (n_volumes w) v = Some r" "writeable (w_heap w r)" "v_target (w_heap w r) = t"
      by (auto simp: writer_def)
    show ?thesis
    proof (cases "v = vid")
      case True
      with r assms(2,3) show ?thesis by auto
    next
      case False
      with r have "writer ?w' t" unfolding writer_def by (intro exI[of _ v] exI[of _ r]) (simp add: map_of_delete_entry)
      then show ?thesis ..
    qed
  qed
  with assms(1) show ?thesis by (auto simp: tied_def map_of_delete_entry split: if_splits)
qed

lemma let_go_ties:
  "triple (\<lambda>w. tied out left None w \<and> parting vid p target w) (let_go out vid target p) (\<lambda>x. tied out left (Some target))"
proof -
  let ?P = "\<lambda>w. tied out left None w \<and> parting vid p target w" and ?Q = "\<lambda>x. tied out left (Some target)"
  let ?drop = "modify (\<lambda>w. w\<lparr>n_volumes := delete_entry vid (n_volumes w)\<rparr>)"
  have drop: "triple ?P ?drop ?Q"
    by (auto simp: triple_def parting_def intro: entry_gone)
  have kept: "triple ?P (return ()) ?Q"
    by (auto simp: triple_return_iff intro: tied_except)
  have claim: "triple ?P (do { left \<leftarrow> on_volume p (unbind_target target); (if left = 0 then ?drop else return ()) }) ?Q"
    by (intro first_tied docked_rules parting_lasts triple_if) (rule triple_pre[OF drop], simp, rule triple_pre[OF kept], simp)
  have gone: "triple ?P (do { ?drop; unfollow out p; unwatch p }) ?Q"
    by (rule triple_bind[OF drop keeps_tied]) (intro docked_rules)
  show ?thesis
    unfolding let_go_def
    by (intro triple_volume triple_if) (rule triple_pre[OF claim], simp, rule triple_pre[OF gone], simp)
qed

lemma docked_after_unmount: "state_io_rel docked (after_unmount out p)"
  unfolding after_unmount_def last_work_def by (intro docked_rules)

lemma NodeUnpublishVolume_ties:
  shows "triple (\<lambda>w. tied out left None w \<and> (\<forall>p. map_of (n_volumes w) vid = Some p \<and> writeable (w_heap w p) \<longrightarrow> v_target (w_heap w p) = target))
    (NodeUnpublishVolume out vid target) (\<lambda>x. tied out left None)"
proof -
  let ?P = "\<lambda>w. tied out left None w \<and> (\<forall>p. map_of (n_volumes w) vid = Some p \<and> writeable (w_heap w p) \<longrightarrow> v_target (w_heap w p) = target)"
  let ?Q = "\<lambda>x. tied out left None"
  have swept: "triple (tied out left None) (unless_internal (RemoveAll out (read_path target))
      (case found of None \<Rightarrow> return None | Some p \<Rightarrow> after_unmount out p)) ?Q" for found
    by (intro keeps_tied docked_rules docked_after_unmount)
  have tail: "triple (tied out left (Some target)) (unless_internal (unbind out target) (unless_internal (RemoveAll out (read_path target))
      (case found of None \<Rightarrow> return None | Some p \<Rightarrow> after_unmount out p))) ?Q" for found
    unfolding unless_internal_def[of "unbind out target"]
  proof (rule triple_bind)
    show "triple (tied out left (Some target)) (unbind out target) (\<lambda>x. tied out left None)"
      by (rule triple_weaken[OF unbind_ties[OF slots_last(3), where except = "Some target"]]) auto
    fix x :: "string option"
    show "triple (tied out left None) (case x of None \<Rightarrow> unless_internal (RemoveAll out (read_path target))
      (case found of None \<Rightarrow> return None | Some p \<Rightarrow> after_unmount out p) | Some err \<Rightarrow> return (Some (internal err))) ?Q"
      by (cases x) (auto simp: triple_return_iff intro: triple_pre[OF swept])
  qed
  have gone: "triple (\<lambda>w. ?P w \<and> map_of (n_volumes w) vid = found)
      (case found of None \<Rightarrow> return () | Some p \<Rightarrow> let_go out vid target p) (\<lambda>x. tied out left (Some target))" for found
  proof (cases found)
    case None
    then show ?thesis by (auto simp: triple_return_iff intro: tied_except)
  next
    case (Some p)
    have "triple (\<lambda>w. ?P w \<and> map_of (n_volumes w) vid = Some p) (let_go out vid target p) (\<lambda>x. tied out left (Some target))"
      by (rule triple_pre[OF let_go_ties]) (auto simp: parting_def tied_def)
    with Some show ?thesis by simp
  qed
  show ?thesis
    unfolding NodeUnpublishVolume_def
    by (intro triple_if triple_gets triple_bind[OF gone tail]) (simp_all add: triple_return_iff)
qed

subsection \<open>Staging, unstaging and resuming\<close>

lemma docked_stages: "state_io_rel docked (NodeStageVolume out request)"
proof -
  have "state_io_rel docked (stageReadOnly out request parsed holder)" "state_io_rel docked (stage_writeable out request parsed holder)" for parsed holder
    unfolding stageReadOnly_def stage_writeable_def refused_stage_def Let_def by (intro docked_rules)+
  then show ?thesis
    unfolding NodeStageVolume_def unless_status_def Let_def by (intro docked_rules)
qed

definition unlisted :: "nat \<Rightarrow> 'g world \<Rightarrow> bool" where
  "unlisted r w \<longleftrightarrow> r < w_next w \<and> map_of (n_volumes w) (v_id (w_heap w r)) = None"

lemma unlisted_lasts: "lasts (unlisted r)"
  by (auto simp: lasts_def adrift_def unlisted_def)

lemma unstageReadOnly_ties: "triple (\<lambda>w. tied out left None w \<and> unlisted r w) (unstageReadOnly out r) (\<lambda>x. tied out left None)"
proof -
  have ends: "triple (tied out left None) (do { metric_call (Forgotten v); _ \<leftarrow> RemoveAll out (v_directory v); return () }) (\<lambda>x. tied out left None)" for v
    by (intro keeps_tied docked_rules)
  have drop: "triple (\<lambda>w. (tied out left None w \<and> unlisted r w) \<and> w_heap w r = v) (modify (\<lambda>w. w\<lparr>n_volumes := delete_entry (v_id v) (n_volumes w)\<rparr>)) (\<lambda>x. tied out left None)" for v
    by (auto simp: triple_def unlisted_def intro: entry_gone)
  show ?thesis
    unfolding unstageReadOnly_def
    by (rule first_tied[OF docked_books(3) unlisted_lasts], rule triple_volume, rule triple_bind[OF drop ends])
qed

lemma NodeUnstageVolume_ties:
  "triple (\<lambda>w. (node_ok out inl w \<and> tied out left None w) \<and> map_of (n_volumes w) vid = None) (NodeUnstageVolume out vid staging) (\<lambda>x. tied out left None)"
proof -
  let ?P = "\<lambda>w. (node_ok out inl w \<and> tied out left None w) \<and> map_of (n_volumes w) vid = None" and ?Q = "\<lambda>x. tied out left None"
  have work: "triple (tied out left None) (do { push_now_or_report out r; markUnstaged out r; disarm r }) ?Q" for r
    by (intro keeps_tied docked_rules)
  have claim: "triple (\<lambda>w. tied out left None w \<and> unlisted r w) (if kind = readOnlyClaim then unstageReadOnly out r else return ()) ?Q" for r kind
    using unstageReadOnly_ties by (auto simp: triple_return_iff)
  have kinds: "triple (\<lambda>w. tied out left None w \<and> unlisted r w) (unstage_kind out r) ?Q" for r
    unfolding unstage_kind_def
    by (rule triple_volume, rule triple_if) (rule triple_pre[OF work], simp, rule triple_pre[OF claim], simp)
  have leaves: "triple (\<lambda>w. ?P w \<and> map_of (n_staged w) vid = Some r) (do { modify (\<lambda>w. w\<lparr>n_staged := delete_entry vid (n_staged w)\<rparr>); unstage_kind out r }) ?Q" for r
  proof (rule triple_pre[OF first_tied[OF docked_books(1) unlisted_lasts kinds]])
    fix w assume P: "?P w \<and> map_of (n_staged w) vid = Some r"
    then have "v_id (w_heap w r) = vid" "r < w_next w" by (auto simp: node_ok_def books_ok_def)
    with P show "tied out left None w \<and> unlisted r w" by (simp add: unlisted_def)
  qed
  have gone: "triple (\<lambda>w. ?P w \<and> map_of (n_staged w) vid = found)
     (case found of None \<Rightarrow> return () | Some r \<Rightarrow> do { modify (\<lambda>w. w\<lparr>n_staged := delete_entry vid (n_staged w)\<rparr>); unstage_kind out r }) ?Q" for found
  proof (cases found)
    case (Some r)
    with leaves[of r] show ?thesis by simp
  qed (simp add: triple_return_iff)
  have ended: "triple (\<lambda>w. ?P w \<and> map_of (n_staged w) vid = found)
     (do { (case found of None \<Rightarrow> return () | Some r \<Rightarrow> do { modify (\<lambda>w. w\<lparr>n_staged := delete_entry vid (n_staged w)\<rparr>); unstage_kind out r }); return None }) ?Q" for found
    by (rule triple_bind[OF gone]) (simp add: triple_return_iff)
  show ?thesis
    unfolding NodeUnstageVolume_def by (intro triple_if triple_gets ended) (simp_all add: triple_return_iff)
qed

definition free_slot :: "string \<Rightarrow> nat \<Rightarrow> 'g world \<Rightarrow> bool" where
  "free_slot vid r w \<longleftrightarrow> r < w_next w \<and> map_of (n_volumes w) vid = None"

lemma free_lasts: "lasts (free_slot vid r)" "lasts (\<lambda>w. map_of (n_volumes w) vid = None)"
  by (auto simp: lasts_def adrift_def free_slot_def)

lemma enter_free: "tied out left None w \<Longrightarrow> free_slot vid r w \<Longrightarrow> tied out left None (w\<lparr>n_volumes := set_entry vid r (n_volumes w)\<rparr>)"
proof -
  assume tied: "tied out left None w" and slot: "free_slot vid r w"
  have "writer w s \<Longrightarrow> writer (w\<lparr>n_volumes := set_entry vid r (n_volumes w)\<rparr>) s" for s
    using slot writer_joined[of w vid _ r] by (simp add: free_slot_def)
  with tied slot show ?thesis by (auto simp: tied_def map_of_set_entry free_slot_def)
qed

lemma resume_loops_ties: "triple (\<lambda>w. tied out left None w \<and> free_slot (rc_VolumeID held) r w) (resume_loops out held parsed r) (\<lambda>x. tied out left None)"
proof -
  let ?vid = "rc_VolumeID held"
  have enters: "triple (\<lambda>w. tied out left None w \<and> free_slot ?vid r w) (modify (\<lambda>w. w\<lparr>n_volumes := set_entry ?vid r (n_volumes w)\<rparr>)) (\<lambda>x. tied out left None)"
    by (simp add: triple_def enter_free)
  have head: "state_io_rel docked (head_commit out work)" for work
    by (rule docked_steady) (intro steady_rules; simp)
  show ?thesis
    unfolding resume_loops_def resume_reader_def Let_def
    by (rule triple_bind[OF enters keeps_tied]) (intro docked_rules head; simp add: moored_def stable_def)
qed

lemma resumeOne_ties:
  fixes out :: "'g outside"
  shows "triple (\<lambda>w. tied out left None w \<and> map_of (n_volumes w) (rc_VolumeID held) = None) (resumeOne out held directory mounted) (\<lambda>x. tied out left None)"
proof (cases "parseVolumeContext (rc_Attributes held)")
  case (Inl err)
  then show ?thesis by (simp add: resumeOne_def triple_return_iff)
next
  case (Inr parsed)
  let ?vid = "rc_VolumeID held"
  have new: "triple (\<lambda>w. tied out left None w \<and> map_of (n_volumes w) ?vid = None) (new_volume v :: ('g, nat) io) (\<lambda>r w. tied out left None w \<and> free_slot ?vid r w)" for v
  proof (rule tripleI)
    fix w w' :: "'g world" and r
    assume pre: "tied out left None w \<and> map_of (n_volumes w) ?vid = None" and run: "run_state (new_volume v) w = (r, w')"
    have "docked w w'" using docked_new[of v] run by (auto simp: state_io_rel_def dest: spec[of _ w])
    with pre have "tied out left None w'" by (auto intro: tied_docked)
    with pre run show "tied out left None w' \<and> free_slot ?vid r w'" by (auto simp: new_volume_def free_slot_def)
  qed
  have placed: "state_io_rel docked (placedCommit out directory)"
    by (intro silent_placing[THEN steady_untouched, THEN docked_steady])
  show ?thesis
    unfolding resumeOne_def Inr sum.case
    by (rule first_tied[OF placed free_lasts(2)], rule triple_bind[OF new])
      (intro first_tied free_lasts docked_rules resume_loops_ties)
qed

subsection \<open>The runs\<close>

text \<open>The kubelet unpublishes a writeable volume at the target it was published at.\<close>

fun at_its_target :: "activity \<Rightarrow> 'g world \<Rightarrow> bool" where
  "at_its_target (Unpublishes vid target) w = (case map_of (n_volumes w) vid of None \<Rightarrow> True
     | Some p \<Rightarrow> writeable (w_heap w p) \<longrightarrow> v_target (w_heap w p) = target)"
| "at_its_target activity w = True"

text \<open>What a driver that starts in \<open>before\<close> comes to. A mount of an earlier driver may stand at its start.\<close>

inductive runs_from :: "'g outside \<Rightarrow> (string \<Rightarrow> bool) \<Rightarrow> 'g world \<Rightarrow> 'g world \<Rightarrow> bool" for out inl before where
  boots: "empty_books before \<Longrightarrow> distinct (map fst (w_mounts before)) \<Longrightarrow> runs_from out inl before before"
| acts: "runs_from out inl before w \<Longrightarrow> allowed inl activity w \<Longrightarrow> at_its_target activity w \<Longrightarrow>
    runs_from out inl before (snd (run_state (perform out activity) w))"

lemma runs_reach: "runs_from out inl before w \<Longrightarrow> node_reaches out inl w"
  by (induction rule: runs_from.induct) (auto intro: node_reaches.intros)

lemma perform_ties:
  shows "triple (\<lambda>w. (node_ok out inl w \<and> tied out left None w) \<and> allowed inl activity w \<and> at_its_target activity w)
    (perform out activity) (\<lambda>x. tied out left None)"
proof (cases activity)
  case (Publishes request)
  then show ?thesis by (auto intro!: triple_pre[OF unit_ties[OF NodePublishVolume_ties[where inl = inl]]])
next
  case (Unpublishes vid target)
  then show ?thesis
    by (auto intro!: triple_pre[OF unit_ties[OF NodeUnpublishVolume_ties]])
next
  case (Stages_volume request)
  then show ?thesis by (auto intro!: triple_pre[OF unit_ties[OF keeps_tied[OF docked_stages]]])
next
  case (Unstages vid staging)
  then show ?thesis by (auto intro!: triple_pre[OF unit_ties[OF NodeUnstageVolume_ties[where inl = inl]]])
next
  case (Resumes held directory mounted)
  then show ?thesis by (auto intro!: triple_pre[OF resumeOne_ties])
qed (auto intro!: triple_pre[OF keeps_tied[OF docked_steady]] steady_unit steady_tick steady_demands steady_watch steady_read_claim
    steady_sweepStore)

lemma runs_tied: "runs_from out inl before w \<Longrightarrow> tied out (set (w_mounts before)) None w"
proof (induction rule: runs_from.induct)
  case boots
  then show ?case by (auto simp: tied_def empty_books_def distinct_filter)
next
  case (acts w activity)
  have "node_ok out inl w" using acts.hyps(1) by (intro node_reaches_ok runs_reach)
  with acts tripleD[OF perform_ties[of out inl "set (w_mounts before)" activity]] show ?case
    by (metis prod.collapse)
qed

text \<open>
  Property C2. A pod writes only into a work tree the node holds, or through a mount the kernel would not take away. Whatever
  calls, resumes, loop passes, pushes and sweeps a run of the driver is made of, a mount of the node that takes writes
  either stood there before the driver started, or is at a target the kernel has refused to detach, or is the target of a
  writeable volume that the node holds published and staged, and whose watch stands to commit and push what is written.
  The kubelet keeps to the CSI protocol: it unpublishes a writeable volume at the target it was published at.
\<close>

theorem a_writeable_mount_is_a_held_work_tree:
  assumes "runs_from out inl before w" and "(target, True) \<in> set (w_mounts w)"
  shows "(target, True) \<in> set (w_mounts before) \<or> stuck out w target \<or>
    (\<exists>vid r. map_of (n_volumes w) vid = Some r \<and> map_of (n_staged w) vid = Some r \<and> watched w vid = Some r \<and>
       writeable (w_heap w r) \<and> v_target (w_heap w r) = target)"
proof -
  have books: "books_ok inl w" and watches: "watches_ok w"
    using node_reaches_ok[OF runs_reach[OF assms(1)]] by (simp_all add: node_ok_def)
  have held: "map_of (n_staged w) vid = Some r \<and> watched w vid = Some r"
    if "map_of (n_volumes w) vid = Some r" "writeable (w_heap w r)" for vid r
  proof -
    from that(2) have "v_kind (w_heap w r) \<noteq> inlineVolume" by (simp add: writeable_def)
    moreover from books that(1) have "(v_kind (w_heap w r) = inlineVolume) = inl vid" "inl vid \<or> map_of (n_staged w) vid = Some r"
      by (simp_all add: books_ok_def)
    ultimately show ?thesis using watches that by (simp add: watches_ok_def)
  qed
  have "(target, True) \<in> set (w_mounts before) \<or> stuck out w target \<or> writer w target"
    using runs_tied[OF assms(1)] assms(2) by (simp add: tied_def)
  with held show ?thesis unfolding writer_def by blast
qed

definition moved_record :: volumeRecord where
  "moved_record = kept_record\<lparr>rc_VolumeID := ''v'', rc_Attributes := [(''url'', ''https://h/a'')], rc_Target := ''/p'',
     rc_Ephemeral := False, rc_Kind := writeableKind\<rparr>"

definition moved_publish :: publishRequest where
  "moved_publish = \<lparr>req_volume_id = ''v'', req_target_path = ''/q'', req_readonly = False,
     req_context = [(''url'', ''https://h/a'')], req_secrets = []\<rparr>"

definition dark :: "unit outside" where
  "dark = still_outside (output_of ''c'') (Some ''down'')"

text \<open>A volume of an earlier driver is resumed, its pod goes away, and the next pod has it at another target.\<close>

definition resumed_world :: "unit world" where
  "resumed_world = snd (run_state (perform dark (Resumes moved_record [''store''] [''/p''])) follow_world)"

definition vacated_world :: "unit world" where
  "vacated_world = snd (run_state (perform dark (Unpublishes ''v'' ''/p'')) resumed_world)"

definition moved_world :: "unit world" where
  "moved_world = snd (run_state (perform dark (Publishes moved_publish)) vacated_world)"

lemma moved_steps:
  "at_its_target (Unpublishes ''v'' ''/p'') resumed_world \<and> w_mounts moved_world = [(''/q'', True)]"
proof -
  define P where "P w = (w_mounts (snd (run_state (perform dark (Publishes moved_publish)) w)) = [(''/q'', True)])" for w
  define Q where "Q w = (at_its_target (Unpublishes ''v'' ''/p'') w \<and>
      P (snd (run_state (perform dark (Unpublishes ''v'' ''/p'')) w)))" for w
  have "Q resumed_world"
    apply code_simp
    apply (simp cong: if_cong)
    unfolding Q_def
    apply code_simp
    apply (simp cong: if_cong)
    unfolding P_def
    apply code_simp
    done
  then show ?thesis by (simp only: P_def Q_def moved_world_def vacated_world_def)
qed

theorem a_writeable_mount_is_a_held_work_tree_witness:
  "w_mounts moved_world = [(''/q'', True)] \<and>
   (\<exists>vid r. map_of (n_volumes moved_world) vid = Some r \<and> map_of (n_staged moved_world) vid = Some r \<and>
      watched moved_world vid = Some r \<and> writeable (w_heap moved_world r) \<and> v_target (w_heap moved_world r) = ''/q'')"
proof -
  let ?inl = "\<lambda>vid. False"
  have quiet: "w_mounts follow_world = []" by (simp add: follow_world_def world_of_def)
  have "empty_books follow_world" by (simp add: empty_books_def follow_world_def world_of_def)
  with quiet have start: "runs_from dark ?inl follow_world follow_world" by (intro boots) simp_all
  have "allowed ?inl (Resumes moved_record [''store''] [''/p'']) follow_world" by code_simp
  with acts[OF start] have resumed: "runs_from dark ?inl follow_world resumed_world" by (simp only: resumed_world_def at_its_target.simps)
  with acts[OF resumed, of "Unpublishes ''v'' ''/p''"] moved_steps have vacated: "runs_from dark ?inl follow_world vacated_world"
    by (simp add: vacated_world_def del: perform.simps)
  have "allowed ?inl (Publishes moved_publish) vacated_world"
  proof -
    have "addressed ?inl moved_publish" by code_simp
    then show ?thesis by simp
  qed
  with acts[OF vacated] have moved: "runs_from dark ?inl follow_world moved_world" by (simp only: moved_world_def at_its_target.simps)
  have "\<not> stuck dark moved_world ''/q''" by (simp add: stuck_def dark_def example_simps)
  with a_writeable_mount_is_a_held_work_tree[OF moved, of "''/q''"] moved_steps quiet show ?thesis by simp
qed

end
