(* ===== verification/Readers.thy ===== *)
theory Readers
  imports NodeRuns
begin

section \<open>The read side\<close>

text \<open>
  What the driver does for a volume no pod writes, and what the node does on its own account: the loops, the demands, the
  class reads, the resume and the sweep. The git calls of that side ask, fetch, make a bare repository, check a commit
  out beside the published tree, and drop refs and objects nothing follows.
\<close>

definition read_side :: "kind set" where
  "read_side = {Asks, Fetches, Creates, Places, Refs, Collects}"

lemma read_side_has [simp]:
  "{Asks} \<subseteq> read_side" "{Fetches} \<subseteq> read_side" "{Creates} \<subseteq> read_side" "{Places} \<subseteq> read_side" "{Asks, Fetches} \<subseteq> read_side"
  "Asks \<in> read_side" "Fetches \<in> read_side" "Creates \<in> read_side" "Places \<in> read_side" "Refs \<in> read_side" "Collects \<in> read_side"
  by (simp_all add: read_side_def)

lemma silent_node:
  "state_io_rel no_calls (new_volume v)"
  "state_io_rel no_calls (modify (\<lambda>w. w\<lparr>n_staged := f w\<rparr>))"
  "state_io_rel no_calls (modify (\<lambda>w. w\<lparr>n_volumes := f w\<rparr>))"
  "state_io_rel no_calls (modify (\<lambda>w. w\<lparr>n_seen := s w\<rparr>))"
  "state_io_rel no_calls (modify (\<lambda>w. w\<lparr>n_abandoned := g w\<rparr>))"
  "state_io_rel no_calls (modify (\<lambda>w. w\<lparr>n_kept := h w\<rparr>))"
  "state_io_rel no_calls (loop_at name)"
  "state_io_rel no_calls (on_loop name x k)"
  "state_io_rel no_calls (on_watcher vid r q)"
  "state_io_rel no_calls (get_class out name)"
  "state_io_rel no_calls (follow out r)"
  "state_io_rel no_calls (unfollow out r)"
  "state_io_rel no_calls (watch out r)"
  "state_io_rel no_calls (unwatch r)"
  "state_io_rel no_calls (arm out r)"
  "state_io_rel no_calls (disarm r)"
  by (auto simp: state_io_rel_def no_calls_def new_volume_def loop_at_def on_loop_def on_watcher_def get_class_def follow_def
      unfollow_def watch_def unwatch_def arm_def disarm_def volume_at_def time_now_def metric_call_def Let_def case_prod_beta
      split: option.splits)

lemma silent_mounts: "state_io_rel only_mounts m \<Longrightarrow> state_io_rel no_calls m"
  unfolding state_io_rel_def
proof
  fix w assume "\<forall>w. only_mounts w (snd (run_state m w))"
  then have "snd (run_state m w) = w\<lparr>w_mounts := w_mounts (snd (run_state m w)), w_calls := w_calls (snd (run_state m w))\<rparr>"
    by (simp add: only_mounts_def)
  then obtain ms n where "snd (run_state m w) = w\<lparr>w_mounts := ms, w_calls := n\<rparr>" by blast
  then show "no_calls w (snd (run_state m w))" by (simp add: no_calls_def)
qed

abbreviation reads_only :: "('g, 'a) io \<Rightarrow> bool" where
  "reads_only m \<equiv> state_io_rel (calls_of read_side) m"

lemmas read_rules = kinds.bounds silent_node[THEN silent_kinds] silent_ops[THEN silent_kinds]
  only_mounts_ops[THEN silent_mounts, THEN silent_kinds] push_leaves[where K = read_side, THEN leaf_calls]
  repository_kinds[where K = read_side, THEN leaf_calls] place_kinds[where K = read_side, THEN leaf_calls]
  silent_window[THEN untouched_leaf, THEN leaf_calls] silent_placing[THEN untouched_leaf, THEN leaf_calls]
  untouched_lookup[THEN untouched_leaf, THEN leaf_calls] timeFetch_kinds[where K = read_side, THEN leaf_calls]
  repository_kinds[where K = read_side]

lemma reads_unless:
  "reads_only m \<Longrightarrow> reads_only k \<Longrightarrow> reads_only (unless_internal m k)"
  "reads_only m' \<Longrightarrow> reads_only k \<Longrightarrow> reads_only (unless_refused m' k)"
  "reads_only k \<Longrightarrow> reads_only (unless_status failed k)"
  unfolding unless_internal_def unless_refused_def unless_status_def by (intro kinds.bounds; simp)+

subsection \<open>Fetching, staging and publishing\<close>

lemma reads_reports:
  "reads_only (noteAbandoned out r)"
  "reads_only (findClaim out r)"
  "reads_only (refusedClaim out r err)"
  "reads_only (refused out pod err)"
  "reads_only (create_missing out repo there)"
  unfolding noteAbandoned_def findClaim_def refusedClaim_def refused_def create_missing_def Let_def
  by (intro read_rules; simp)+

lemma reads_stage: "reads_only (stage out r)"
  unfolding stage_def Let_def
  by (intro read_rules reads_unless reads_reports; simp)

lemma reads_tick: "reads_only (tick out repo)"
  unfolding tick_def tick_one_def refresh_def fetch_and_place_def trouble_fetching_def loop_noteHealth_def
  by (intro read_rules; simp)

lemma reads_demands:
  "reads_only (demand out r)" "reads_only (resumePull out r)" "reads_only (Follower.read out held)"
  "reads_only (Follower.forget held)" "reads_only (arrived out handle)"
proof -
  show demand: "reads_only (demand out r)" for r
    unfolding demand_def follower_demand_def loopOf_def Let_def by (intro read_rules)
  show "reads_only (resumePull out r)"
    unfolding resumePull_def follower_demand_def loopOf_def Let_def by (intro read_rules)
  have act: "reads_only (actOn out handle at)" for handle at
    unfolding actOn_def stagedVolume_def by (intro read_rules demand)
  then show "reads_only (Follower.read out held)"
    unfolding Follower.read_def by (intro read_rules)
  have "reads_only (case at of None \<Rightarrow> return () | Some at \<Rightarrow> actOn out handle at)" for at
    using act by (intro read_rules)
  then show "reads_only (arrived out handle)"
    unfolding arrived_def by (intro kinds.bound_bind kinds.bound_gets)
  show "reads_only (Follower.forget held)"
    unfolding Follower.forget_def by (intro read_rules)
qed

lemma reads_secrets: "reads_only (takeSecret out r holder)" "reads_only (republished out r holder)"
proof -
  show "reads_only (takeSecret out r holder)"
    unfolding takeSecret_def noPublishSecret_def credentialArrived_def loopOf_def Let_def
    by (intro read_rules)
  then show "reads_only (republished out r holder)" by (simp add: republished_def)
qed

lemma reads_records:
  "reads_only (write_record out r)" "reads_only (forget_record out r)" "reads_only (readRecord out p)" "reads_only (markUnstaged out r)"
  unfolding write_record_def forget_record_def readRecord_def markUnstaged_def by (intro read_rules)+

lemma reads_binds: "reads_only attach \<Longrightarrow> reads_only k \<Longrightarrow> reads_only (bind_at out target attach k)"
  unfolding bind_at_def by (intro read_rules reads_unless)

lemmas reads_all = reads_unless reads_reports reads_stage reads_demands reads_secrets reads_records reads_binds read_rules

lemma reads_publish: "reads_only (NodePublishVolume out request)"
proof -
  have inline: "reads_only (publish_inline out request parsed holder)" for parsed holder
    unfolding publish_inline_def publish_def Let_def by (intro reads_all)
  have readOnly: "reads_only (publishReadOnly out r request parsed holder)" for r parsed holder
    unfolding publishReadOnly_def Let_def by (intro reads_all)
  have writes: "reads_only (publish_writeable out r request parsed holder)" for r parsed holder
    unfolding publish_writeable_def Let_def by (intro reads_all)
  have staged: "reads_only (publishStaged out request parsed holder)" for parsed holder
    unfolding publishStaged_def Let_def by (intro readOnly writes reads_all)
  show ?thesis
    unfolding NodePublishVolume_def by (intro inline staged reads_all)
qed

lemma reads_stageReadOnly: "reads_only (stageReadOnly out request parsed holder)"
  unfolding stageReadOnly_def refused_stage_def Let_def by (intro reads_all)

lemma reads_resume: "reads_only (resumeOne out held directory mounted)"
  unfolding resumeOne_def resume_loops_def resume_reader_def Let_def by (intro reads_all; simp)

lemma reads_claim: "reads_only (read_claim out r claim held)"
  unfolding read_claim_def armed_def classChanged_def Let_def by (intro reads_all)

subsection \<open>The sweep\<close>

lemma reads_looks:
  "reads_only (unstagedAt out directory)" "reads_only (work_exists out work)" "reads_only (swept out vid at)"
  "reads_only (alternate out work)" "reads_only (volume_entries out)" "reads_only (followedInStore out dir vid)"
  "reads_only (refs out repo)" "reads_only (treeSize out p)"
proof -
  have asks: "reads_only m" if "state_io_rel (leaf {Asks}) m" for m :: "('a, 'b) io"
    using that by (force simp: state_io_rel_def leaf_def calls_of_def)
  show "reads_only (unstagedAt out directory)" "reads_only (work_exists out work)" "reads_only (swept out vid at)"
    "reads_only (treeSize out p)"
    by (rule leaf_calls[OF untouched_leaf[OF untouched_looks(2)]], rule leaf_calls[OF untouched_leaf[OF untouched_looks(1)]],
      rule leaf_calls[OF untouched_leaf[OF untouched_swept]], rule leaf_calls[OF untouched_leaf[OF silent_placing(5)]])
  show "reads_only (alternate out work)" unfolding alternate_def by (intro read_rules)
  show "reads_only (volume_entries out)" "reads_only (followedInStore out dir vid)" "reads_only (refs out repo)"
    by (rule asks[OF leaf_followed(2)], rule asks[OF leaf_followed(1)], rule asks[OF leaf_followed(3)])
qed

lemma reads_sweep: "reads_only (sweepStore out)"
proof -
  have run: "reads_only (git_step out dir env args)" if "kind_of args \<in> read_side" for dir env args
    by (rule leaf_calls[OF git_step_kinds[OF that]])
  have abandon: "reads_only (abandon out work vid at)" for work vid at
    unfolding abandon_def originURL_def by (intro read_rules reads_looks)
  have volume: "reads_only (sweepVolume out vid kept)" for vid kept
    unfolding sweepVolume_def sweep_old_tree_def node_holds_def Let_def by (intro read_rules reads_looks abandon; simp)
  have each: "reads_only (sweep_each out entries kept)" for entries kept
    by (induction entries arbitrary: kept) (simp_all add: kinds.bound_return kinds.bound_bind volume)
  have any: "reads_only (any_alternate out dir entries)" for dir entries
    by (induction entries) (simp_all add: kinds.bound_return kinds.bound_bind reads_looks)
  have uses: "reads_only (usesRepository out dir)" for dir
    unfolding usesRepository_def by (intro read_rules reads_looks any)
  have drop: "reads_only (deleteRef out repo ref)" for repo ref
    unfolding deleteRef_def by (rule run) (simp add: kind_simps pushedRef_def)
  have sweep: "reads_only (sweepRefs out repo)" for repo
    unfolding sweepRefs_def followedRefs_def by (intro read_rules reads_looks drop)
  have collects: "reads_only (collect out repo)" for repo
    unfolding collect_def pruneDate_def by (intro read_rules run) (simp add: kind_simps)
  show ?thesis
    unfolding sweepStore_def sweepVolumes_def sweepRepositories_def sweepRepository_def measureStore_def Let_def
    by (intro read_rules each uses sweep collects reads_looks; simp)
qed

subsection \<open>Who writes\<close>

text \<open>The work of the write side: the stage, the unstage and the unpublish of a writeable volume, and a turn of its watch.\<close>

fun write_side :: "activity \<Rightarrow> 'g world \<Rightarrow> bool" where
  "write_side (Stages_volume request) w = (stageKind (sr_mode request) = Inr writeableVolume)"
| "write_side (Unstages vid staging) w =
     (case map_of (n_staged w) vid of None \<Rightarrow> False | Some r \<Rightarrow> writeable (w_heap w r))"
| "write_side (Unpublishes vid target) w =
     (case map_of (n_volumes w) vid of None \<Rightarrow> False | Some r \<Rightarrow> writeable (w_heap w r))"
| "write_side (Turns r seeing event) w = True"
| "write_side activity w = False"

text \<open>From a state on, a run of the read side that has volume \<open>p\<close> as no pod's to write.\<close>

definition read_so_far :: "'g world \<Rightarrow> nat \<Rightarrow> 'g world \<Rightarrow> bool" where
  "read_so_far before p w \<longleftrightarrow> calls_of read_side before w \<and> \<not> writeable (w_heap w p)"

definition kinds_stay :: "'g world \<Rightarrow> 'g world \<Rightarrow> bool" where
  "kinds_stay w w' \<longleftrightarrow> (\<forall>r. v_kind (w_heap w' r) = v_kind (w_heap w r))"

interpretation kinds_stay: step_bound kinds_stay
  by unfold_locales (simp_all add: kinds_stay_def)

lemma stay_steady: "state_io_rel steady m \<Longrightarrow> state_io_rel kinds_stay m"
  by (simp add: state_io_rel_def steady_def kinds_stay_def moored_def stable_def)

lemma stay_books:
  "state_io_rel kinds_stay (modify (\<lambda>w. w\<lparr>n_volumes := f w\<rparr>))"
  "state_io_rel kinds_stay (modify (\<lambda>w. w\<lparr>n_staged := f w\<rparr>))"
  "state_io_rel kinds_stay (unfollow out r)"
  "state_io_rel kinds_stay (unwatch r)"
  "state_io_rel kinds_stay (unbind out target)"
  by (auto simp: state_io_rel_def kinds_stay_def unfollow_def unwatch_def unbind_def mount_call_def volume_at_def loop_at_def
      on_loop_def Let_def split: option.splits prod.splits)

lemma read_on:
  assumes "reads_only m" and "state_io_rel kinds_stay m"
  shows "triple (read_so_far before p) m (\<lambda>x. read_so_far before p)"
proof (rule tripleI)
  fix w w' and x assume so_far: "read_so_far before p w" and run: "run_state m w = (x, w')"
  have "calls_of read_side w w'" "kinds_stay w w'" using assms run by (auto simp: state_io_rel_def dest: spec[of _ w])
  with so_far show "read_so_far before p w'"
    using kinds.follows_on[of read_side before w w'] by (auto simp: read_so_far_def kinds_stay_def writeable_def)
qed

lemma read_last: "reads_only m \<Longrightarrow> triple (read_so_far before p) m (\<lambda>x w. calls_of read_side before w)"
  by (auto simp: triple_def read_so_far_def state_io_rel_def intro: kinds.follows_on[of read_side before])

lemma reads_after_unmount:
  "triple (read_so_far before p) (after_unmount out p) (\<lambda>x w. calls_of read_side before w)"
  unfolding after_unmount_def
proof (rule triple_volume)
  fix v :: volume
  have claim: "reads_only (do { write_record out p; return None })" by (intro reads_all)
  have inline: "reads_only (unless_internal (RemoveAll out (v_directory v)) (do { metric_call (Forgotten v); return None }))"
    by (intro reads_all)
  show "triple (\<lambda>s. read_so_far before p s \<and> w_heap s p = v)
     (if v_kind v = readOnlyClaim then do { write_record out p; return None }
      else if writeable v then do { last_work out p; return None }
      else unless_internal (RemoveAll out (v_directory v)) (do { metric_call (Forgotten v); return None }))
     (\<lambda>x w. calls_of read_side before w)"
  proof (cases "writeable v")
    case True
    then show ?thesis by (auto simp: triple_def read_so_far_def)
  next
    case False
    then show ?thesis using read_last[OF claim, of before p] read_last[OF inline, of before p] by (auto simp: triple_def)
  qed
qed

lemma reads_unpublish:
  assumes "\<not> write_side (Unpublishes vid target) w"
  shows "calls_of read_side w (snd (run_state (NodeUnpublishVolume out vid target) w))"
proof (cases "map_of (n_volumes w) vid")
  case None
  have rest: "reads_only (unless_internal (unbind out target) (unless_internal (RemoveAll out (read_path target)) (return None)))"
    by (intro reads_all)
  then show ?thesis
    using None by (auto simp: NodeUnpublishVolume_def state_io_rel_def kinds.stays)
next
  case (Some p)
  have go: "triple (read_so_far w p) (let_go out vid target p) (\<lambda>x. read_so_far w p)"
    unfolding let_go_def
    by (rule read_on; intro read_rules kinds_stay.bounds stay_books stay_steady steady_on moored_reports
        untouched_ops[THEN steady_untouched, THEN stay_steady])
  have removed: "triple (read_so_far w p) (unless_internal (RemoveAll out (read_path target)) (after_unmount out p))
      (\<lambda>x u. calls_of read_side w u)"
    unfolding unless_internal_def
    by (rule triple_bind[OF read_on]; (intro read_rules stay_steady steady_untouched untouched_ops)?;
        auto split: option.split simp: reads_after_unmount triple_return_iff read_so_far_def)
  have rest: "triple (read_so_far w p) (unless_internal (unbind out target)
      (unless_internal (RemoveAll out (read_path target)) (after_unmount out p))) (\<lambda>x u. calls_of read_side w u)"
    unfolding unless_internal_def[of "unbind out target"]
    by (rule triple_bind[OF read_on]; (intro read_rules stay_books)?;
        auto split: option.split simp: removed triple_return_iff read_so_far_def)
  have "read_so_far w p w" using assms Some by (simp add: read_so_far_def kinds.stays)
  with triple_bind[OF go rest] have "calls_of read_side w (snd (run_state (do { let_go out vid target p; unless_internal (unbind out target)
      (unless_internal (RemoveAll out (read_path target)) (after_unmount out p)) }) w))"
    by (auto simp: triple_def)
  then show ?thesis using Some by (simp add: NodeUnpublishVolume_def kinds.stays)
qed

lemma reads_unstage:
  assumes "\<not> write_side (Unstages vid staging) w"
  shows "calls_of read_side w (snd (run_state (NodeUnstageVolume out vid staging) w))"
proof (cases "map_of (n_staged w) vid")
  case None
  then show ?thesis by (simp add: NodeUnstageVolume_def kinds.stays)
next
  case (Some r)
  have claim: "reads_only (unstageReadOnly out r)" unfolding unstageReadOnly_def by (intro reads_all)
  let ?w = "w\<lparr>n_staged := delete_entry vid (n_staged w)\<rparr>"
  have "calls_of read_side ?w (snd (run_state (unstageReadOnly out r) ?w))" using claim by (simp add: state_io_rel_def)
  then have "calls_of read_side w (snd (run_state (unstageReadOnly out r) ?w))" by (simp add: calls_of_def)
  then show ?thesis
    using Some assms by (simp add: NodeUnstageVolume_def unstage_kind_def volume_at_def kinds.stays case_prod_beta) (simp add: calls_of_def)
qed

lemma reads_stages:
  assumes "stageKind (sr_mode request) \<noteq> Inr writeableVolume"
  shows "reads_only (NodeStageVolume out request)"
proof -
  have kind: "kind = readOnlyClaim" if "stageKind (sr_mode request) = Inr kind" for kind
    using assms that by (auto simp: stageKind_def split: accessMode.splits)
  have "reads_only (case stageKind (sr_mode request) of Inl err \<Rightarrow> return (Some err) | Inr kind \<Rightarrow>
     (case parseStageAttributes kind (sr_context request) of Inl err \<Rightarrow> return (Some err) | Inr parsed \<Rightarrow>
     (case parseCredentials (sr_secrets request) of Inl err \<Rightarrow> return (Some err) | Inr holder \<Rightarrow> do {
       found \<leftarrow> gets (\<lambda>w. map_of (n_staged w) (sr_volume_id request));
       case found of
         Some r \<Rightarrow> do {
           staged \<leftarrow> volume_at r;
           return (if v_staging staged \<noteq> sr_staging request
             then Some (Status FailedPrecondition (Fmt ''volume_id: %s is staged at %s'' [AStr (sr_volume_id request), AStr (v_staging staged)]))
             else None)
         }
       | None \<Rightarrow> if kind = readOnlyClaim then stageReadOnly out request parsed holder
                 else stage_writeable out request parsed holder
     })))"
    by (cases "stageKind (sr_mode request)"; simp only: sum.case; intro read_rules reads_stageReadOnly; simp add: kind)
  then show ?thesis unfolding NodeStageVolume_def Let_def by (intro reads_unless)
qed

lemma reads_unit: "reads_only m \<Longrightarrow> reads_only (unit_of m)"
  unfolding unit_of_def by (intro kinds.bounds)

lemma log_of_unit: "w_log (snd (run_state (unit_of m) w)) = w_log (snd (run_state m w))"
  by (simp add: unit_of_def case_prod_beta)

text \<open>
  Property C3. A volume no pod writes is never written for. Of everything the driver does, only the stage, the unstage
  and the unpublish of a writeable volume and a turn of its watch can stage, commit, push, move a work tree or a mark, or
  set its configuration. A publish, every call about an inline volume or a read-only claim, a pass of a fetch loop, a
  demand, a read of a class, a resume and a sweep make no git call but those that ask, fetch, make a bare repository,
  check a commit out beside the published tree, and drop the refs and objects no volume follows.
\<close>

theorem a_read_only_volume_is_never_written_for:
  assumes "\<not> write_side activity w"
  shows "\<exists>calls. w_log (snd (run_state (perform out activity) w)) = w_log w @ calls \<and>
    (\<forall>call\<in>set calls. kind_of (g_args call) \<in> {Asks, Fetches, Creates, Places, Refs, Collects})"
proof -
  have all: "calls_of read_side w (snd (run_state m w))" if "reads_only m" for m :: "('a, 'b) io"
    using that by (simp add: state_io_rel_def)
  have "calls_of read_side w (snd (run_state (perform out activity) w))"
  proof (cases activity)
    case (Unpublishes vid target)
    with reads_unpublish[of vid target w out] assms show ?thesis by (simp add: calls_of_def log_of_unit)
  next
    case (Unstages vid staging)
    with reads_unstage[of vid staging w out] assms show ?thesis by (simp add: calls_of_def log_of_unit)
  next
    case (Stages_volume request)
    with assms show ?thesis by (auto intro!: all reads_unit reads_stages)
  next
    case (Turns r seeing event)
    with assms show ?thesis by simp
  qed (auto intro!: all reads_unit reads_publish reads_resume reads_tick reads_demands reads_claim reads_sweep)
  then show ?thesis by (simp add: calls_of_def read_side_def)
qed

theorem a_read_only_volume_is_never_written_for_witness:
  "\<exists>calls. w_log (snd (run_state (perform (still_outside (output_of ''c'') None) (Unpublishes ''csi-1'' ''/pods/1'')) followed_world)) =
     w_log followed_world @ calls \<and>
   (\<forall>call\<in>set calls. kind_of (g_args call) \<in> {Asks, Fetches, Creates, Places, Refs, Collects})"
proof -
  have "\<not> write_side (Unpublishes ''csi-1'' ''/pods/1'') followed_world" by code_simp
  then show ?thesis by (rule a_read_only_volume_is_never_written_for)
qed

end
