(* ===== verification/Webhook.thy ===== *)
theory Webhook
  imports World
begin

section \<open>The webhook (\<open>webhook.go\<close>, \<open>verify.go\<close>, \<open>payload.go\<close>)\<close>

text \<open>
  A forge posts a push to \<open>/webhook/<namespace>/<name>\<close>. The controller reads that Secret, from its cache while
  the entry is fresh, checks the request's signature with it, and marks the volumes that follow what was pushed.
  The HMAC, the JSON decoder and the API server's answers are parameters; a request that runs out of its
  deadline is one whose read or call answers an error. The state is the cache, the counters, the names the
  patches were sent for, and, for the statements alone, the log of the Secrets read.
\<close>

subsection \<open>The push's body\<close>

record pushPayload =
  pp_Ref :: string
  pp_CloneURL :: string
  pp_SSHURL :: string
  pp_GitURL :: string
  pp_HTMLURL :: string
  pp_URL :: string
  pp_GitHTTPURL :: string
  pp_GitSSHURL :: string
  pp_WebURL :: string

definition parsePush :: "(string \<Rightarrow> pushPayload option) \<Rightarrow> string \<Rightarrow> push option" where
  "parsePush decode body =
     (case decode body of
        None \<Rightarrow> None
      | Some payload \<Rightarrow>
          if pp_Ref payload = [] then None
          else let urls = filter (\<lambda>url. url \<noteq> []) [pp_CloneURL payload, pp_SSHURL payload, pp_GitURL payload,
                 pp_HTMLURL payload, pp_URL payload, pp_GitHTTPURL payload, pp_GitSSHURL payload, pp_WebURL payload]
               in if urls = [] then None else Some \<lparr>push_ref = pp_Ref payload, push_urls = urls\<rparr>)"

subsection \<open>The signature\<close>

definition githubSignatureHeader :: string where "githubSignatureHeader = ''X-Hub-Signature-256''"
definition gitlabTokenHeader :: string where "gitlabTokenHeader = ''X-Gitlab-Token''"
definition giteaSignatureHeader :: string where "giteaSignatureHeader = ''X-Gitea-Signature''"
definition forgejoSignatureHeader :: string where "forgejoSignatureHeader = ''X-Forgejo-Signature''"

definition forgeGitHub :: string where "forgeGitHub = ''github''"
definition forgeGitLab :: string where "forgeGitLab = ''gitlab''"
definition forgeGitea :: string where "forgeGitea = ''gitea''"
definition forgeForgejo :: string where "forgeForgejo = ''forgejo''"

definition githubPrefix :: string where "githubPrefix = ''sha256=''"

text \<open>\<open>hex.EncodeToString\<close>: two lower-case digits per byte.\<close>

definition hex_digit :: "nat \<Rightarrow> char" where
  "hex_digit n = ''0123456789abcdef'' ! n"

definition hex_text :: "string \<Rightarrow> string" where
  "hex_text bytes = concat (map (\<lambda>c. [hex_digit (of_char c div 16), hex_digit (of_char c mod 16)]) bytes)"

text \<open>\<open>hmac.Equal\<close> and \<open>subtle.ConstantTimeCompare\<close> compare two byte strings; how long they take is not modelled.\<close>

definition signedBody :: "(string \<Rightarrow> string \<Rightarrow> string) \<Rightarrow> string \<Rightarrow> string \<Rightarrow> string \<Rightarrow> bool" where
  "signedBody hmac signature body secret = (signature = hex_text (hmac secret body))"

definition sameString :: "string \<Rightarrow> string \<Rightarrow> bool" where
  "sameString sent secret = (sent = secret)"

definition verify :: "(string \<Rightarrow> string \<Rightarrow> string) \<Rightarrow> (string \<times> string) list \<Rightarrow> string \<Rightarrow> string \<Rightarrow> string \<times> bool" where
  "verify hmac header body secret =
     (if lookup header githubSignatureHeader \<noteq> []
      then let (digest, prefixed) = cut_prefix githubPrefix (lookup header githubSignatureHeader)
           in (forgeGitHub, prefixed \<and> signedBody hmac digest body secret)
      else if lookup header gitlabTokenHeader \<noteq> []
      then (forgeGitLab, sameString (lookup header gitlabTokenHeader) secret)
      else if lookup header giteaSignatureHeader \<noteq> []
      then (forgeGitea, signedBody hmac (lookup header giteaSignatureHeader) body secret)
      else if lookup header forgejoSignatureHeader \<noteq> []
      then (forgeForgejo, signedBody hmac (lookup header forgejoSignatureHeader) body secret)
      else ([], False))"

subsection \<open>The path\<close>

definition webhookPath :: string where "webhookPath = ''/webhook/''"
definition webhookSecretKey :: string where "webhookSecretKey = ''secret''"
definition webhookBodyLimit :: int where "webhookBodyLimit = 2 ^ 20"
definition webhookSecretTTL :: duration where "webhookSecretTTL = 30 * second"

definition webhookTarget :: "string \<Rightarrow> (string \<times> string) option" where
  "webhookTarget path =
     (let (rest, found) = cut_prefix webhookPath path in
      if \<not> found then None
      else let (namespace, name, found) = cut ''/'' rest in
        if \<not> found \<or> namespace = [] \<or> name = [] \<or> contains name ''/'' then None
        else Some (namespace, name))"

subsection \<open>The state and the outside\<close>

record cachedSecret =
  cs_value :: string
  cs_read :: time

datatype secretAnswer = SecretMissing | SecretError string | SecretData "(string \<times> string) list"

text \<open>A Secret the API server answered: its key, its value, and the time right after the answer.\<close>

record secretRead =
  sd_key :: string
  sd_value :: string
  sd_at :: time

datatype hookResult = resultAccepted | resultUnauthenticated | resultMalformed | resultFailed

record webhook =
  wh_held :: "(string \<times> cachedSecret) list"
  wh_answered :: "hookResult list"
  wh_marks :: "nat list"
  wh_patched :: "string list"
  wh_reads :: "secretRead list"
  wh_ticks :: nat

record forge_outside =
  fo_client :: bool
  fo_hmac :: "string \<Rightarrow> string \<Rightarrow> string"
  fo_decode :: "string \<Rightarrow> pushPayload option"
  fo_secret :: "nat \<Rightarrow> string \<Rightarrow> string \<Rightarrow> secretAnswer"
  fo_volumes :: "nat \<Rightarrow> string + persistentVolume list"
  fo_patch :: "nat \<Rightarrow> nat \<Rightarrow> string \<Rightarrow> string option"
  fo_now :: "nat \<Rightarrow> time"

record hookRequest =
  hq_path :: string
  hq_header :: "(string \<times> string) list"
  hq_body :: string
  hq_broken :: "string option"

type_synonym 'a hook = "(webhook, 'a) state"

definition hook_ask :: "(nat \<Rightarrow> 'a) \<Rightarrow> 'a hook" where
  "hook_ask f = State (\<lambda>h. (f (wh_ticks h), h\<lparr>wh_ticks := Suc (wh_ticks h)\<rparr>))"

subsection \<open>The Secret\<close>

datatype secretError = Unconfigured string | ReadFailed string

definition cached :: "forge_outside \<Rightarrow> string \<Rightarrow> string option hook" where
  "cached out key = do {
     holding \<leftarrow> gets (\<lambda>h. map_of (wh_held h) key);
     case holding of
       None \<Rightarrow> return None
     | Some entry \<Rightarrow> do {
         now \<leftarrow> hook_ask (fo_now out);
         return (if now - cs_read entry \<ge> webhookSecretTTL then None else Some (cs_value entry))
       }
   }"

definition remember :: "forge_outside \<Rightarrow> string \<Rightarrow> string \<Rightarrow> unit hook" where
  "remember out key value = do {
     now \<leftarrow> hook_ask (fo_now out);
     modify (\<lambda>h. h\<lparr>wh_held := set_entry key \<lparr>cs_value = value, cs_read = now\<rparr> (wh_held h),
       wh_reads := wh_reads h @ [\<lparr>sd_key = key, sd_value = value, sd_at = now\<rparr>]\<rparr>)
   }"

definition secret_key :: "string \<Rightarrow> string \<Rightarrow> string" where
  "secret_key namespace name = namespace @ ''/'' @ name"

definition secretOf :: "forge_outside \<Rightarrow> string \<Rightarrow> string \<Rightarrow> (secretError + string) hook" where
  "secretOf out namespace name =
     (if \<not> fo_client out then return (Inl (ReadFailed ''the controller found no cluster to read it from''))
      else do {
        let key = secret_key namespace name;
        fresh \<leftarrow> cached out key;
        case fresh of
          Some value \<Rightarrow> return (Inr value)
        | None \<Rightarrow> do {
            answer \<leftarrow> hook_ask (\<lambda>n. fo_secret out n namespace name);
            case answer of
              SecretMissing \<Rightarrow> return (Inl (Unconfigured (key @ '' is not there'')))
            | SecretError err \<Rightarrow> return (Inl (ReadFailed err))
            | SecretData data \<Rightarrow>
                let value = lookup data webhookSecretKey in
                if value = [] then return (Inl (Unconfigured (key @ '' holds no '' @ webhookSecretKey)))
                else do { remember out key value; return (Inr value) }
          }
      })"

subsection \<open>One request\<close>

definition http_code :: "hookResult \<Rightarrow> nat" where
  "http_code result = (case result of resultAccepted \<Rightarrow> 202 | resultUnauthenticated \<Rightarrow> 401
     | resultMalformed \<Rightarrow> 400 | resultFailed \<Rightarrow> 500)"

definition webhookAnswered :: "hookResult \<Rightarrow> unit hook" where
  "webhookAnswered result = modify (\<lambda>h. h\<lparr>wh_answered := wh_answered h @ [result]\<rparr>)"

text \<open>An answer is its status code and, for an accepted push, the count it writes.\<close>

type_synonym hookAnswer = "nat \<times> nat option"

definition refuse :: "hookAnswer hook" where
  "refuse = do { webhookAnswered resultUnauthenticated; return (401, None) }"

definition hook_failed :: "hookAnswer hook" where
  "hook_failed = do { webhookAnswered resultFailed; return (500, None) }"

definition malformed :: "hookAnswer hook" where
  "malformed = do { webhookAnswered resultMalformed; return (400, None) }"

definition read_body :: "hookRequest \<Rightarrow> string option" where
  "read_body request = (if hq_broken request \<noteq> None \<or> int (length (hq_body request)) > webhookBodyLimit then None
     else Some (hq_body request))"

definition mark_volumes :: "forge_outside \<Rightarrow> string \<Rightarrow> string \<Rightarrow> push \<Rightarrow> (string + nat) hook" where
  "mark_volumes out namespace name pushed = do {
     volumes \<leftarrow> hook_ask (fo_volumes out);
     n \<leftarrow> hook_ask (\<lambda>n. n);
     let (answer, tried) = mark volumes (fo_patch out n) namespace name pushed;
     modify (\<lambda>h. h\<lparr>wh_patched := wh_patched h @ tried\<rparr>);
     (case answer of Inl err \<Rightarrow> return () | Inr marked \<Rightarrow> modify (\<lambda>h. h\<lparr>wh_marks := wh_marks h @ [marked]\<rparr>));
     return answer
   }"

definition handle :: "forge_outside \<Rightarrow> hookRequest \<Rightarrow> hookAnswer hook" where
  "handle out request =
     (case webhookTarget (hq_path request) of
        None \<Rightarrow> refuse
      | Some (namespace, name) \<Rightarrow>
     (case read_body request of
        None \<Rightarrow> malformed
      | Some body \<Rightarrow> do {
          secret \<leftarrow> secretOf out namespace name;
          case secret of
            Inl (Unconfigured reason) \<Rightarrow> refuse
          | Inl (ReadFailed reason) \<Rightarrow> hook_failed
          | Inr value \<Rightarrow>
              let (forge, verified) = verify (fo_hmac out) (hq_header request) body value in
              if \<not> verified then refuse
              else (case parsePush (fo_decode out) body of
                None \<Rightarrow> malformed
              | Some pushed \<Rightarrow> do {
                  answer \<leftarrow> mark_volumes out namespace name pushed;
                  case answer of
                    Inl err \<Rightarrow> hook_failed
                  | Inr marked \<Rightarrow> do { webhookAnswered resultAccepted; return (202, Some marked) }
                })
        }))"

definition new_webhook :: webhook where
  "new_webhook = \<lparr>wh_held = [], wh_answered = [], wh_marks = [], wh_patched = [], wh_reads = [], wh_ticks = 0\<rparr>"

text \<open>The restart's demand, then the requests as they come.\<close>

definition start_hook :: "forge_outside \<Rightarrow> unit hook" where
  "start_hook out = do {
     volumes \<leftarrow> hook_ask (fo_volumes out);
     n \<leftarrow> hook_ask (\<lambda>n. n);
     modify (\<lambda>h. h\<lparr>wh_patched := wh_patched h @ demandAll (fo_client out) volumes (fo_patch out n)\<rparr>)
   }"

inductive serves :: "forge_outside \<Rightarrow> webhook \<Rightarrow> bool" for out where
  serves_first: "run_state (start_hook out) new_webhook = (x, h) \<Longrightarrow> serves out h"
| serves_next: "serves out h \<Longrightarrow> run_state (handle out request) h = (answer, h') \<Longrightarrow> serves out h'"

subsection \<open>The cache\<close>

definition secret_answered :: "forge_outside \<Rightarrow> string \<Rightarrow> string \<Rightarrow> string \<Rightarrow> bool" where
  "secret_answered out namespace name value \<longleftrightarrow>
     (\<exists>n data. fo_secret out n namespace name = SecretData data \<and> value = lookup data webhookSecretKey)"

definition of_key :: "forge_outside \<Rightarrow> string \<Rightarrow> string \<Rightarrow> bool" where
  "of_key out key value \<longleftrightarrow> (\<exists>namespace name. key = secret_key namespace name \<and> CHR ''/'' \<notin> set namespace \<and>
     secret_answered out namespace name value)"

definition cache_ok :: "forge_outside \<Rightarrow> webhook \<Rightarrow> bool" where
  "cache_ok out h \<longleftrightarrow> (\<forall>key entry. map_of (wh_held h) key = Some entry \<longrightarrow>
     cs_value entry \<noteq> [] \<and> \<lparr>sd_key = key, sd_value = cs_value entry, sd_at = cs_read entry\<rparr> \<in> set (wh_reads h)) \<and>
     (\<forall>seen\<in>set (wh_reads h). of_key out (sd_key seen) (sd_value seen))"

lemma of_key_exact: "of_key out (secret_key namespace name) value \<Longrightarrow> CHR ''/'' \<notin> set namespace \<Longrightarrow> secret_answered out namespace name value"
proof -
  assume "of_key out (secret_key namespace name) value" and plain: "CHR ''/'' \<notin> set namespace"
  then obtain ns nm where key: "secret_key namespace name = secret_key ns nm" "CHR ''/'' \<notin> set ns" "secret_answered out ns nm value"
    by (auto simp: of_key_def)
  have "cut ''/'' (secret_key namespace name) = (namespace, name, True)" "cut ''/'' (secret_key ns nm) = (ns, nm, True)"
    using plain key(2) by (simp_all add: secret_key_def cut_at)
  then have "(namespace, name, True) = (ns, nm, True)" unfolding key(1) by argo
  with key(3) show ?thesis by blast
qed

lemma target_plain: "webhookTarget path = Some (namespace, name) \<Longrightarrow> CHR ''/'' \<notin> set namespace"
proof -
  assume target: "webhookTarget path = Some (namespace, name)"
  obtain rest found where pre: "cut_prefix webhookPath path = (rest, found)" by (cases "cut_prefix webhookPath path")
  have "namespace = takeWhile (\<lambda>x. x \<noteq> CHR ''/'') rest"
    using target unfolding webhookTarget_def Let_def pre cut_char by (simp split: if_splits)
  then show ?thesis by (auto dest: set_takeWhileD)
qed

text \<open>A Secret's value in use: it was read from the API server less than the cache's window before.\<close>

definition read_lately :: "forge_outside \<Rightarrow> string \<Rightarrow> string \<Rightarrow> webhook \<Rightarrow> webhook \<Rightarrow> bool" where
  "read_lately out key value h h' \<longleftrightarrow> value \<noteq> [] \<and>
     (\<exists>at n. \<lparr>sd_key = key, sd_value = value, sd_at = at\<rparr> \<in> set (wh_reads h') \<and> wh_ticks h \<le> n \<and> n < wh_ticks h' \<and>
       fo_now out n - at < webhookSecretTTL)"

definition same_counts :: "webhook \<Rightarrow> webhook \<Rightarrow> bool" where
  "same_counts h h' \<longleftrightarrow> wh_answered h' = wh_answered h \<and> wh_marks h' = wh_marks h \<and> wh_patched h' = wh_patched h"

lemma remember_run:
  "run_state (remember out key value) h = ((), h\<lparr>wh_ticks := Suc (wh_ticks h),
     wh_held := set_entry key \<lparr>cs_value = value, cs_read = fo_now out (wh_ticks h)\<rparr> (wh_held h),
     wh_reads := wh_reads h @ [\<lparr>sd_key = key, sd_value = value, sd_at = fo_now out (wh_ticks h)\<rparr>]\<rparr>)"
  by (simp add: remember_def hook_ask_def)

lemma remember_keeps:
  assumes "cache_ok out h" "value \<noteq> []" "run_state (remember out key value) h = (u, h')" "of_key out key value"
  shows "cache_ok out h' \<and> read_lately out key value h h' \<and> same_counts h h'"
proof -
  have h': "h' = snd (run_state (remember out key value) h)" using assms(3) by simp
  have "cache_ok out h'" using assms(1,2,4) by (auto simp: h' remember_run cache_ok_def map_of_set_entry)
  moreover have "read_lately out key value h h'"
    unfolding read_lately_def
  proof (intro conjI exI)
    show "\<lparr>sd_key = key, sd_value = value, sd_at = fo_now out (wh_ticks h)\<rparr> \<in> set (wh_reads h')" by (simp add: h' remember_run)
    show "wh_ticks h \<le> wh_ticks h" "wh_ticks h < wh_ticks h'" by (simp_all add: h' remember_run)
    show "fo_now out (wh_ticks h) - fo_now out (wh_ticks h) < webhookSecretTTL" by (simp add: webhookSecretTTL_def)
  qed (rule assms(2))
  ultimately show ?thesis by (simp add: same_counts_def h' remember_run)
qed

lemma cached_run:
  assumes "cache_ok out h" "run_state (cached out key) h = (found, h')"
  shows "cache_ok out h' \<and> same_counts h h' \<and> wh_ticks h \<le> wh_ticks h' \<and> (\<forall>value. found = Some value \<longrightarrow> read_lately out key value h h')"
proof (cases "map_of (wh_held h) key")
  case None
  with assms show ?thesis by (auto simp: cached_def same_counts_def)
next
  case (Some entry)
  with assms(1) have entry: "cs_value entry \<noteq> []"
    "\<lparr>sd_key = key, sd_value = cs_value entry, sd_at = cs_read entry\<rparr> \<in> set (wh_reads h)" by (auto simp: cache_ok_def)
  have h': "h' = h\<lparr>wh_ticks := Suc (wh_ticks h)\<rparr>"
    "found = (if fo_now out (wh_ticks h) - cs_read entry \<ge> webhookSecretTTL then None else Some (cs_value entry))"
    using assms(2) Some by (auto simp: cached_def hook_ask_def)
  have "read_lately out key (cs_value entry) h h'" if "fo_now out (wh_ticks h) - cs_read entry < webhookSecretTTL"
    unfolding read_lately_def
  proof (intro conjI exI)
    show "\<lparr>sd_key = key, sd_value = cs_value entry, sd_at = cs_read entry\<rparr> \<in> set (wh_reads h')" using entry by (simp add: h')
    show "wh_ticks h \<le> wh_ticks h" "wh_ticks h < wh_ticks h'" by (simp_all add: h')
  qed (use that entry in simp_all)
  with h' assms(1) show ?thesis by (auto simp: same_counts_def cache_ok_def)
qed

lemma read_lately_earlier: "read_lately out key value h1 h' \<Longrightarrow> wh_ticks h \<le> wh_ticks h1 \<Longrightarrow> read_lately out key value h h'"
  unfolding read_lately_def by (meson le_trans)

lemma read_lately_later:
  "read_lately out key value h h1 \<Longrightarrow> wh_reads h' = wh_reads h1 \<Longrightarrow> wh_ticks h1 \<le> wh_ticks h' \<Longrightarrow> read_lately out key value h h'"
  unfolding read_lately_def by (metis less_le_trans)

lemma secretOf_run:
  assumes "cache_ok out h" "run_state (secretOf out namespace name) h = (answer, h')" "CHR ''/'' \<notin> set namespace"
  shows "cache_ok out h' \<and> same_counts h h' \<and> (\<forall>value. answer = Inr value \<longrightarrow> read_lately out (secret_key namespace name) value h h')"
proof (cases "fo_client out")
  case False
  with assms show ?thesis by (auto simp: secretOf_def same_counts_def)
next
  case client: True
  let ?key = "secret_key namespace name"
  obtain found h1 where first: "run_state (cached out ?key) h = (found, h1)" by (cases "run_state (cached out ?key) h")
  from cached_run[OF assms(1) this] have one: "cache_ok out h1" "same_counts h h1" "wh_ticks h \<le> wh_ticks h1"
    "\<And>value. found = Some value \<Longrightarrow> read_lately out ?key value h h1" by auto
  show ?thesis
  proof (cases found)
    case (Some v)
    with assms(2) client first one show ?thesis by (auto simp: secretOf_def Let_def)
  next
    case None
    let ?h2 = "h1\<lparr>wh_ticks := Suc (wh_ticks h1)\<rparr>"
    have two: "cache_ok out ?h2" "same_counts h ?h2" "wh_ticks h \<le> wh_ticks ?h2"
      using one by (auto simp: cache_ok_def same_counts_def)
    show ?thesis
    proof (cases "fo_secret out (wh_ticks h1) namespace name")
      case (SecretData data)
      let ?secret = "lookup data webhookSecretKey"
      show ?thesis
      proof (cases "?secret = []")
        case True
        with assms(2) client first None SecretData two show ?thesis by (auto simp: secretOf_def hook_ask_def Let_def)
      next
        case False
        obtain u h3 where last: "run_state (remember out ?key ?secret) ?h2 = (u, h3)" by (cases "run_state (remember out ?key ?secret) ?h2")
        have "answer = Inr ?secret" "h' = h3"
          using assms(2) client first None SecretData False last by (auto simp: secretOf_def hook_ask_def Let_def)
        have "of_key out ?key ?secret" using assms(3) SecretData by (auto simp: of_key_def secret_answered_def)
        with \<open>answer = Inr ?secret\<close> \<open>h' = h3\<close> remember_keeps[OF two(1) False last] two show ?thesis
          by (auto simp: same_counts_def intro: read_lately_earlier)
      qed
    qed (use assms(2) client first None two in \<open>auto simp: secretOf_def hook_ask_def Let_def\<close>)
  qed
qed

subsection \<open>One request\<close>

definition named_by :: "forge_outside \<Rightarrow> string \<Rightarrow> string \<Rightarrow> push \<Rightarrow> string list \<Rightarrow> bool" where
  "named_by out namespace name pushed tried \<longleftrightarrow> (\<exists>n items. fo_volumes out n = Inr items \<and>
     tried = map pv_name (filter (\<lambda>held. matchesPush held namespace name (comparisonKeys (push_urls pushed)) (push_ref pushed)) items))"

definition marks_made :: "forge_outside \<Rightarrow> string \<Rightarrow> string \<Rightarrow> push \<Rightarrow> string + nat \<Rightarrow> webhook \<Rightarrow> webhook \<Rightarrow> bool" where
  "marks_made out namespace name pushed answer h h' \<longleftrightarrow>
     (case answer of
        Inl err \<Rightarrow> wh_patched h' = wh_patched h \<and> wh_marks h' = wh_marks h
      | Inr marked \<Rightarrow> wh_marks h' = wh_marks h @ [marked] \<and>
          (\<exists>tried. wh_patched h' = wh_patched h @ tried \<and> named_by out namespace name pushed tried))"

lemma mark_volumes_run:
  assumes "run_state (mark_volumes out namespace name pushed) h = (answer, h')"
  shows "wh_held h' = wh_held h \<and> wh_reads h' = wh_reads h \<and> wh_answered h' = wh_answered h \<and> wh_ticks h \<le> wh_ticks h' \<and>
    marks_made out namespace name pushed answer h h'"
proof (cases "fo_volumes out (wh_ticks h)")
  case (Inl err)
  with assms show ?thesis by (auto simp: mark_volumes_def hook_ask_def mark_def marks_made_def)
next
  case (Inr items)
  let ?wanted = "\<lambda>held. matchesPush held namespace name (comparisonKeys (push_urls pushed)) (push_ref pushed)"
  obtain tried marked where each: "markEach ?wanted (fo_patch out (Suc (wh_ticks h))) items ([], 0) = (tried, marked)"
    by (cases "markEach ?wanted (fo_patch out (Suc (wh_ticks h))) items ([], 0)")
  with markEach_tried[of ?wanted "fo_patch out (Suc (wh_ticks h))" items "([], 0)"]
  have tried: "tried = map pv_name (filter ?wanted items)" by simp
  have "named_by out namespace name pushed tried" unfolding named_by_def tried using Inr by blast
  with assms Inr each show ?thesis by (auto simp: mark_volumes_def hook_ask_def mark_def marks_made_def Let_def)
qed

lemma cache_ok_same: "cache_ok out h \<Longrightarrow> wh_held h' = wh_held h \<Longrightarrow> wh_reads h' = wh_reads h \<Longrightarrow> cache_ok out h'"
  by (simp add: cache_ok_def)

text \<open>The ways a request ends.\<close>

definition ends_well :: "forge_outside \<Rightarrow> hookRequest \<Rightarrow> hookAnswer \<Rightarrow> webhook \<Rightarrow> webhook \<Rightarrow> bool" where
  "ends_well out request answer h h' \<longleftrightarrow>
     (\<exists>result. result \<noteq> resultAccepted \<and> answer = (http_code result, None) \<and> wh_answered h' = wh_answered h @ [result] \<and>
        wh_patched h' = wh_patched h \<and> wh_marks h' = wh_marks h) \<or>
     (\<exists>namespace name secret pushed marked tried.
        webhookTarget (hq_path request) = Some (namespace, name) \<and>
        read_lately out (secret_key namespace name) secret h h' \<and> secret_answered out namespace name secret \<and>
        snd (verify (fo_hmac out) (hq_header request) (hq_body request) secret) \<and>
        parsePush (fo_decode out) (hq_body request) = Some pushed \<and>
        answer = (202, Some marked) \<and> wh_answered h' = wh_answered h @ [resultAccepted] \<and> wh_marks h' = wh_marks h @ [marked] \<and>
        wh_patched h' = wh_patched h @ tried \<and> named_by out namespace name pushed tried)"

lemma refused_runs:
  "run_state refuse h = ((http_code resultUnauthenticated, None), h\<lparr>wh_answered := wh_answered h @ [resultUnauthenticated]\<rparr>)"
  "run_state hook_failed h = ((http_code resultFailed, None), h\<lparr>wh_answered := wh_answered h @ [resultFailed]\<rparr>)"
  "run_state malformed h = ((http_code resultMalformed, None), h\<lparr>wh_answered := wh_answered h @ [resultMalformed]\<rparr>)"
  by (simp_all add: refuse_def hook_failed_def malformed_def webhookAnswered_def http_code_def)

lemma ends_refused:
  assumes "same_counts h h1" "cache_ok out h1" "run_state m h1 = (answer, h')" "m = refuse \<or> m = hook_failed \<or> m = malformed"
  shows "cache_ok out h' \<and> ends_well out request answer h h'"
proof -
  obtain result where result: "result \<noteq> resultAccepted" "answer = (http_code result, None)"
    "h' = h1\<lparr>wh_answered := wh_answered h1 @ [result]\<rparr>"
  proof -
    consider "m = refuse" | "m = hook_failed" | "m = malformed" using assms(4) by blast
    then show ?thesis
      by cases (use assms(3) that[of resultUnauthenticated] that[of resultFailed] that[of resultMalformed] in \<open>simp_all add: refused_runs\<close>)
  qed
  with assms(1) have "ends_well out request answer h h'"
    unfolding ends_well_def same_counts_def by (intro disjI1 exI[of _ result]) auto
  with assms(2) result(3) show ?thesis by (simp add: cache_ok_def)
qed

lemma handle_run:
  assumes "cache_ok out h" and "run_state (handle out request) h = (answer, h')"
  shows "cache_ok out h' \<and> ends_well out request answer h h'"
proof (cases "webhookTarget (hq_path request)")
  case None
  then have "handle out request = refuse" by (simp add: handle_def)
  with assms show ?thesis by (intro ends_refused[where m = refuse and ?h1.0 = h]) (simp_all add: same_counts_def)
next
  case target: (Some place)
  obtain namespace name where place: "place = (namespace, name)" by (cases place)
  show ?thesis
  proof (cases "read_body request")
    case None
    then have "handle out request = malformed" by (simp add: handle_def target place)
    with assms show ?thesis by (intro ends_refused[where m = malformed and ?h1.0 = h]) (simp_all add: same_counts_def)
  next
    case (Some body)
    then have body: "body = hq_body request" by (auto simp: read_body_def split: if_splits)
    obtain found h1 where first: "run_state (secretOf out namespace name) h = (found, h1)" by (cases "run_state (secretOf out namespace name) h")
    from secretOf_run[OF assms(1) this target_plain[OF target[unfolded place]]] have one: "cache_ok out h1" "same_counts h h1"
      "\<And>secret. found = Inr secret \<Longrightarrow> read_lately out (secret_key namespace name) secret h h1" by auto
    note refused = ends_refused[OF one(2,1)]
    show ?thesis
    proof (cases found)
      case (Inl err)
      then obtain m where "run_state m h1 = (answer, h')" "m = refuse \<or> m = hook_failed"
        using assms(2) target place Some first by (cases err) (auto simp: handle_def)
      with refused show ?thesis by blast
    next
      case (Inr secret)
      let ?then = "case parsePush (fo_decode out) body of None \<Rightarrow> malformed
              | Some pushed \<Rightarrow> do { answer \<leftarrow> mark_volumes out namespace name pushed;
                  case answer of Inl err \<Rightarrow> hook_failed
                  | Inr marked \<Rightarrow> do { webhookAnswered resultAccepted; return (202, Some marked) } }"
      have rest: "run_state (if \<not> snd (verify (fo_hmac out) (hq_header request) body secret) then refuse else ?then) h1 = (answer, h')"
      proof -
        have "handle out request = do { secret \<leftarrow> secretOf out namespace name;
          case secret of
            Inl (Unconfigured reason) \<Rightarrow> refuse
          | Inl (ReadFailed reason) \<Rightarrow> hook_failed
          | Inr value \<Rightarrow>
              let (forge, verified) = verify (fo_hmac out) (hq_header request) body value in
              if \<not> verified then refuse
              else (case parsePush (fo_decode out) body of
                None \<Rightarrow> malformed
              | Some pushed \<Rightarrow> do {
                  answer \<leftarrow> mark_volumes out namespace name pushed;
                  case answer of
                    Inl err \<Rightarrow> hook_failed
                  | Inr marked \<Rightarrow> do { webhookAnswered resultAccepted; return (202, Some marked) }
                }) }"
          by (simp only: handle_def target place Some option.case prod.case)
        with assms(2) first Inr show ?thesis by (simp add: case_prod_beta)
      qed
      show ?thesis
      proof (cases "snd (verify (fo_hmac out) (hq_header request) body secret)")
        case False
        with rest refused[where m = refuse] show ?thesis by simp
      next
        case verified: True
        show ?thesis
        proof (cases "parsePush (fo_decode out) body")
          case None
          with rest verified refused[where m = malformed] show ?thesis by simp
        next
          case pushed: (Some pushed)
          obtain made h2 where two: "run_state (mark_volumes out namespace name pushed) h1 = (made, h2)"
            by (cases "run_state (mark_volumes out namespace name pushed) h1")
          note marks = mark_volumes_run[OF this]
          then have ok: "cache_ok out h2" using cache_ok_same[OF one(1)] by blast
          show ?thesis
          proof (cases made)
            case (Inl err)
            with marks one(2) have "same_counts h h2" by (auto simp: same_counts_def marks_made_def)
            from ends_refused[OF this ok, where m = hook_failed] rest verified pushed two Inl show ?thesis by simp
          next
            case (Inr marked)
            have last: "answer = (202, Some marked)" "h' = h2\<lparr>wh_answered := wh_answered h2 @ [resultAccepted]\<rparr>"
              using rest verified pushed two Inr by (auto simp: webhookAnswered_def)
            from marks Inr obtain tried where tried: "wh_patched h2 = wh_patched h1 @ tried" "named_by out namespace name pushed tried"
              "wh_marks h2 = wh_marks h1 @ [marked]" "wh_answered h2 = wh_answered h1" "wh_reads h2 = wh_reads h1" "wh_ticks h1 \<le> wh_ticks h2"
              by (auto simp: marks_made_def)
            have lately: "read_lately out (secret_key namespace name) secret h h'"
              using read_lately_later[OF one(3)[OF \<open>found = Inr secret\<close>]] tried last by simp
            then have "of_key out (secret_key namespace name) secret"
              using ok last unfolding read_lately_def cache_ok_def by fastforce
            from of_key_exact[OF this target_plain[OF target[unfolded place]]] lately have "ends_well out request answer h h'"
              unfolding ends_well_def
              using target place verified pushed body last tried one(2)
              by (intro disjI2 exI[of _ namespace] exI[of _ name] exI[of _ secret] exI[of _ pushed] exI[of _ marked] exI[of _ tried])
                (simp add: same_counts_def)
            with ok last show ?thesis by (simp add: cache_ok_def)
          qed
        qed
      qed
    qed
  qed
qed

lemma serves_cache: "serves out h \<Longrightarrow> cache_ok out h"
proof (induction rule: serves.induct)
  case (serves_first x h)
  then show ?case by (auto simp: start_hook_def hook_ask_def new_webhook_def cache_ok_def)
qed (use handle_run in blast)

text \<open>
  Property C7. Only a verified push moves a volume. From any state the controller can be in, a request that
  patches anything or is accepted named a Secret in its path, was signed with that Secret's own value, which is
  not empty and which the API server answered less than 30 seconds before the check, and held the JSON of a push;
  and what was patched is exactly the volumes that push matches for that Secret.
\<close>

theorem only_a_verified_push_marks:
  assumes "serves out h" and "run_state (handle out request) h = (answer, h')"
    and "wh_patched h' \<noteq> wh_patched h \<or> fst answer = 202"
  shows "\<exists>namespace name secret pushed tried. webhookTarget (hq_path request) = Some (namespace, name) \<and>
     secret_answered out namespace name secret \<and> read_lately out (secret_key namespace name) secret h h' \<and>
     snd (verify (fo_hmac out) (hq_header request) (hq_body request) secret) \<and>
     parsePush (fo_decode out) (hq_body request) = Some pushed \<and>
     wh_patched h' = wh_patched h @ tried \<and> named_by out namespace name pushed tried"
proof -
  have "ends_well out request answer h h'" using handle_run[OF serves_cache[OF assms(1)] assms(2)] by blast
  moreover have "http_code result \<noteq> 202" if "result \<noteq> resultAccepted" for result
    using that by (cases result) (simp_all add: http_code_def)
  ultimately show ?thesis using assms(3) unfolding ends_well_def by auto
qed

text \<open>
  Every request gets one answer. From any state the controller can be in, a request is
  counted once, under the result its status code states; an accepted one adds its count to the marks and
  answers it, and any other patches nothing.
\<close>

theorem every_request_is_answered_once:
  assumes "serves out h" and "run_state (handle out request) h = (answer, h')"
  shows "\<exists>result. wh_answered h' = wh_answered h @ [result] \<and> fst answer = http_code result \<and>
    (if result = resultAccepted then \<exists>marked. snd answer = Some marked \<and> wh_marks h' = wh_marks h @ [marked]
     else snd answer = None \<and> wh_patched h' = wh_patched h \<and> wh_marks h' = wh_marks h)"
proof -
  have "ends_well out request answer h h'" using handle_run[OF serves_cache[OF assms(1)] assms(2)] by blast
  then show ?thesis
    unfolding ends_well_def
  proof (elim disjE exE)
    fix result assume "result \<noteq> resultAccepted \<and> answer = (http_code result, None) \<and> wh_answered h' = wh_answered h @ [result] \<and>
        wh_patched h' = wh_patched h \<and> wh_marks h' = wh_marks h"
    then show ?thesis by (intro exI[of _ result]) simp
  qed (intro exI[of _ resultAccepted], simp add: http_code_def)
qed

subsection \<open>A push of one repository\<close>

definition pushed_payload :: pushPayload where
  "pushed_payload = \<lparr>pp_Ref = ''refs/heads/main'', pp_CloneURL = ''https://h/a.git'', pp_SSHURL = [], pp_GitURL = [],
     pp_HTMLURL = [], pp_URL = [], pp_GitHTTPURL = [], pp_GitSSHURL = [], pp_WebURL = []\<rparr>"

definition marked_volume :: persistentVolume where
  "marked_volume = \<lparr>pv_name = ''pv-1'', pv_csi = Some \<lparr>src_driver = driverName, src_handle = ''csi-1'',
       src_attributes = [(''url'', ''https://h/a''), (''ref'', ''main''), (webhookSecretAttribute, ''hook'')]\<rparr>,
     pv_claimRef = Some \<lparr>cl_namespace = ''team'', cl_name = ''data''\<rparr>, pv_accessModes = [ReadOnlyMany],
     pv_phase = VolumeBound, pv_annotations = []\<rparr>"

definition one_forge :: forge_outside where
  "one_forge = \<lparr>fo_client = True, fo_hmac = (\<lambda>secret body. secret @ body), fo_decode = (\<lambda>body. Some pushed_payload),
     fo_secret = (\<lambda>n namespace name. SecretData [(''secret'', ''k'')]), fo_volumes = (\<lambda>n. Inr [marked_volume]),
     fo_patch = (\<lambda>n m name. None), fo_now = int\<rparr>"

definition gitlab_push :: hookRequest where
  "gitlab_push = \<lparr>hq_path = ''/webhook/team/hook'', hq_header = [(''X-Gitlab-Token'', ''k'')], hq_body = ''b'', hq_broken = None\<rparr>"

definition started :: webhook where "started = snd (run_state (start_hook one_forge) new_webhook)"

lemma started_serves: "serves one_forge started"
  unfolding started_def by (rule serves_first[OF prod.collapse[symmetric]])

lemma push_is_accepted:
  "fst (run_state (handle one_forge gitlab_push) started) = (202, Some 1)"
  "wh_patched (snd (run_state (handle one_forge gitlab_push) started)) = [''pv-1'', ''pv-1'']"
  "wh_patched started = [''pv-1'']"
  by code_simp+

theorem only_a_verified_push_marks_witness:
  "\<exists>answer h'. run_state (handle one_forge gitlab_push) started = (answer, h') \<and> wh_patched h' \<noteq> wh_patched started \<and>
     (\<exists>namespace name secret. webhookTarget (hq_path gitlab_push) = Some (namespace, name) \<and>
       secret_answered one_forge namespace name secret \<and> read_lately one_forge (secret_key namespace name) secret started h')"
proof -
  obtain answer h' where run: "run_state (handle one_forge gitlab_push) started = (answer, h')"
    by (cases "run_state (handle one_forge gitlab_push) started")
  with push_is_accepted have patched: "wh_patched h' \<noteq> wh_patched started" by simp
  with only_a_verified_push_marks[OF started_serves run] run show ?thesis by blast
qed

theorem every_request_is_answered_once_witness:
  "\<exists>h'. run_state (handle one_forge gitlab_push) started = ((202, Some 1), h') \<and>
     (\<exists>result. wh_answered h' = wh_answered started @ [result] \<and> http_code result = 202)"
proof -
  obtain h' where run: "run_state (handle one_forge gitlab_push) started = ((202, Some 1), h')"
    using push_is_accepted(1) by (cases "run_state (handle one_forge gitlab_push) started") simp
  with every_request_is_answered_once[OF started_serves run] show ?thesis by auto
qed

end
