(* ===== verification/Placing.thy ===== *)
theory Placing
  imports Store
begin

section \<open>What a placement leaves in the published tree\<close>

text \<open>
  \<open>replaceTree\<close> moves a checkout into a directory a pod holds, entry by entry. Where the kernel refuses no call, it
  ends, answers success, and leaves exactly the checkout's entries; a directory both sides hold stays the
  directory it was, so a mount of it still reads it. The lemmas say what each call does to the lookup of every
  path, and the induction is on the depth of the arriving tree.
\<close>

subsection \<open>Lookups after the calls\<close>

lemma map_of_filter_keys: "map_of (filter (\<lambda>(q, n). P q) fs) q = (if P q then map_of fs q else None)"
  by (induction fs) auto

lemma look_remove_all: "os_remove_all p fs = Inr fs' \<Longrightarrow> look fs' q = (if prefix p q then None else look fs q)"
  by (auto simp: os_remove_all_def look_def map_of_filter_keys)

lemma map_of_moved:
  "map_of (map (\<lambda>(r, m). (moved p q r, m)) (below fs p)) x = (if prefix q x then map_of fs (p @ drop (length q) x) else None)"
proof (induction fs)
  case Nil
  then show ?case by (simp add: below_def)
next
  case (Cons a fs)
  obtain r m where a: "a = (r, m)" by (cases a)
  show ?case
  proof (cases "prefix p r")
    case False
    then have "r \<noteq> p @ s" for s by auto
    with False Cons show ?thesis by (auto simp: below_def a)
  next
    case True
    then obtain s where s: "r = p @ s" by (auto simp: prefix_def)
    have "moved p q r = x \<longleftrightarrow> prefix q x \<and> p @ drop (length q) x = r"
      by (auto simp: moved_def s prefix_def)
    with True Cons show ?thesis by (auto simp: below_def a)
  qed
qed

text \<open>A file system whose every path lies in a directory.\<close>

definition rooted :: "files \<Rightarrow> bool" where
  "rooted fs \<longleftrightarrow> (\<forall>p e n. look fs (p @ [e]) = Some n \<longrightarrow> is_dir fs p)"

lemma rootedD: "rooted fs \<Longrightarrow> look fs (p @ [e]) = Some n \<Longrightarrow> is_dir fs p"
  unfolding rooted_def by blast

lemma rooted_below: "rooted fs \<Longrightarrow> look fs (p @ e # q) \<noteq> None \<Longrightarrow> is_dir fs p \<and> look fs (p @ [e]) \<noteq> None"
proof (induction q arbitrary: e rule: rev_induct)
  case Nil
  then show ?case by (auto dest: rootedD)
next
  case (snoc x q)
  then obtain n where "look fs ((p @ e # q) @ [x]) = Some n" by auto
  from rootedD[OF snoc.prems(1) this] have "is_dir fs (p @ e # q)" .
  then have "look fs (p @ e # q) \<noteq> None" by (auto simp: is_dir_def split: option.splits)
  from snoc.IH[OF snoc.prems(1) this] show ?case .
qed

lemma no_entries: "rooted fs \<Longrightarrow> \<not> is_dir fs p \<Longrightarrow> look fs (p @ e # q) = None"
  using rooted_below by blast

lemma gone_below: "rooted fs \<Longrightarrow> look fs (p @ [e]) = None \<Longrightarrow> look fs (p @ e # q) = None"
  using rooted_below by blast

lemma children_look: "e \<in> set (children fs p) \<longleftrightarrow> look fs (p @ [e]) \<noteq> None"
proof -
  have "e \<in> set (children fs p) \<longleftrightarrow> (\<exists>q n. (q, n) \<in> set fs \<and> q \<noteq> [] \<and> butlast q = p \<and> last q = e)"
    by (auto simp: children_def image_iff Bex_def)
  also have "\<dots> \<longleftrightarrow> (\<exists>n. (p @ [e], n) \<in> set fs)"
  proof
    assume "\<exists>q n. (q, n) \<in> set fs \<and> q \<noteq> [] \<and> butlast q = p \<and> last q = e"
    then obtain q n where q: "(q, n) \<in> set fs" "q \<noteq> []" "butlast q = p" "last q = e" by blast
    then have "q = p @ [e]" by (metis append_butlast_last_id)
    with q(1) show "\<exists>n. (p @ [e], n) \<in> set fs" by blast
  qed (metis butlast_snoc last_snoc snoc_eq_iff_butlast)
  also have "\<dots> \<longleftrightarrow> look fs (p @ [e]) \<noteq> None"
    by (force simp: look_def map_of_eq_None_iff image_iff)
  finally show ?thesis .
qed

lemma distinct_children: "distinct (children fs p)"
  by (simp add: children_def)

lemma empty_directory: "rooted fs \<Longrightarrow> children fs p = [] \<Longrightarrow> look fs (p @ e # q) = None"
  using rooted_below[of fs p e q] children_look[of e fs p] by (cases "look fs (p @ e # q)") auto

lemma is_dir_look: "p \<noteq> [] \<Longrightarrow> is_dir fs p \<longleftrightarrow> (\<exists>n. look fs p = Some n \<and> is_directory n)"
  by (auto simp: is_dir_def is_directory_def split: option.splits)

lemma rooted_remove_all:
  assumes "rooted fs" "os_remove_all p fs = Inr fs'"
  shows "rooted fs'"
  unfolding rooted_def
proof (intro allI impI)
  fix d e n assume "look fs' (d @ [e]) = Some n"
  then have here: "look fs (d @ [e]) = Some n" "\<not> prefix p (d @ [e])"
    by (simp_all add: look_remove_all[OF assms(2)] split: if_splits)
  then have "\<not> prefix p d" by auto
  with rootedD[OF assms(1) here(1)] show "is_dir fs' d"
    by (auto simp: is_dir_def look_remove_all[OF assms(2)])
qed

subsection \<open>A rename\<close>

definition apart_from :: "path \<Rightarrow> path \<Rightarrow> bool" where
  "apart_from p q \<longleftrightarrow> \<not> prefix p q \<and> \<not> prefix q p"

lemma apart_never: "apart_from p q \<Longrightarrow> prefix p r \<Longrightarrow> \<not> prefix q r"
  unfolding apart_from_def using prefix_same_cases by blast

lemma apart_deeper: "apart_from p q \<Longrightarrow> apart_from (p @ r) (q @ s)"
proof -
  assume apart: "apart_from p q"
  have "\<not> (prefix p x \<and> prefix q x)" for x using apart_never[OF apart] by blast
  then show ?thesis unfolding apart_from_def by (meson append_prefixD prefixI prefix_order.trans)
qed

definition can_arrive :: "path \<Rightarrow> path \<Rightarrow> files \<Rightarrow> bool" where
  "can_arrive p q fs \<longleftrightarrow> apart_from p q \<and> q \<noteq> [] \<and> is_dir fs (butlast q) \<and>
     (\<exists>n. look fs p = Some n \<and> (case look fs q of None \<Rightarrow> True | Some m \<Rightarrow> \<not> is_directory n \<and> \<not> is_directory m))"

lemma rename_arrives:
  assumes "rooted fs" "can_arrive p q fs"
  shows "\<exists>fs'. os_rename p q fs = Inr fs' \<and>
    (\<forall>r. look fs' r = (if prefix q r then look fs (p @ drop (length q) r) else if prefix p r then None else look fs r))"
proof -
  from assms(2) obtain n where n: "look fs p = Some n" "apart_from p q" "q \<noteq> []" "is_dir fs (butlast q)"
    and there: "\<And>m. look fs q = Some m \<Longrightarrow> \<not> is_directory n \<and> \<not> is_directory m"
    by (auto simp: can_arrive_def split: option.splits)
  have below_q: "look fs (q @ e # s) = None" for e s
  proof (cases "look fs q")
    case None
    then have "\<not> is_dir fs q" using n(3) by (simp add: is_dir_look)
    then show ?thesis using no_entries[OF assms(1)] by blast
  next
    case (Some m)
    with there n(3) have "\<not> is_dir fs q" by (simp add: is_dir_look)
    then show ?thesis using no_entries[OF assms(1)] by blast
  qed
  have empty: "children fs q = []"
  proof (rule ccontr)
    assume "children fs q \<noteq> []"
    then obtain e where "e \<in> set (children fs q)" by (cases "children fs q") auto
    with below_q[of e "[]"] show False by (simp add: children_look)
  qed
  let ?fs = "map (\<lambda>(r, m). (moved p q r, m)) (below fs p) @ filter (\<lambda>(r, m). \<not> prefix p r \<and> r \<noteq> q) fs"
  have "os_rename p q fs = Inr ?fs"
    using n there empty
    by (cases "look fs q") (auto simp: os_rename_def apart_from_def is_dir_look is_directory_def)
  moreover have "look ?fs r = (if prefix q r then look fs (p @ drop (length q) r) else if prefix p r then None else look fs r)" for r
  proof (cases "prefix q r")
    case True
    then obtain s where s: "r = q @ s" by (auto simp: prefix_def)
    have "\<not> prefix p r" using n(2) True apart_never by blast
    then have "map_of (filter (\<lambda>(r, m). \<not> prefix p r \<and> r \<noteq> q) fs) r = (if r = q then None else look fs r)"
      by (simp add: map_of_filter_keys look_def)
    also have "\<dots> = None" using below_q s by (cases s) auto
    finally show ?thesis using True by (auto simp: look_def map_of_moved map_add_def split: option.splits)
  next
    case False
    then have "r \<noteq> q" by auto
    with False show ?thesis by (simp add: look_def map_of_moved map_add_def map_of_filter_keys)
  qed
  ultimately show ?thesis by blast
qed

lemma rename_rooted:
  assumes "rooted fs" "can_arrive p q fs" "os_rename p q fs = Inr fs'"
  shows "rooted fs'"
  unfolding rooted_def
proof (intro allI impI)
  have look': "look fs' r = (if prefix q r then look fs (p @ drop (length q) r) else if prefix p r then None else look fs r)" for r
    using rename_arrives[OF assms(1,2)] assms(3) by auto
  have q: "apart_from p q" "q \<noteq> []" "is_dir fs (butlast q)" using assms(2) by (auto simp: can_arrive_def)
  then have p: "p \<noteq> []" by (auto simp: apart_from_def)
  have same: "is_dir fs' d" if "is_dir fs d" "\<not> prefix q d" "\<not> prefix p d" for d
    using that by (auto simp: is_dir_def look')
  fix d e n assume here: "look fs' (d @ [e]) = Some n"
  consider "d @ [e] = q" | "d @ [e] \<noteq> q" "prefix q (d @ [e])" | "\<not> prefix q (d @ [e])" by blast
  then show "is_dir fs' d"
  proof cases
    case 1
    then have d: "d = butlast q" by auto
    have "\<not> prefix q d" using 1 by (metis append_Nil2 prefix_length_le length_append_singleton not_less_eq_eq order_refl)
    moreover have "\<not> prefix p d" using q(1) 1 unfolding apart_from_def by (metis prefixI prefix_order.trans)
    ultimately show ?thesis using same q(3) d by blast
  next
    case 2
    then have "prefix q d" by (metis prefix_snoc)
    then obtain t where t: "d = q @ t" by (auto simp: prefix_def)
    with here have "look fs ((p @ t) @ [e]) = Some n" by (simp add: look')
    from rootedD[OF assms(1) this] have "is_dir fs (p @ t)" .
    then show ?thesis using p q(2) t by (simp add: is_dir_def look')
  next
    case 3
    with here have "look fs (d @ [e]) = Some n" "\<not> prefix p (d @ [e])" by (simp_all add: look' split: if_splits)
    with 3 show ?thesis using same rootedD[OF assms(1)] by (meson prefixI prefix_order.trans)
  qed
qed

subsection \<open>Runs the kernel refuses nothing of\<close>

definition calm :: "'g outside \<Rightarrow> bool" where
  "calm out \<longleftrightarrow> (\<forall>n call. o_refuse out n call = None)"

definition ends_in :: "('g, string option) io \<Rightarrow> 'g world \<Rightarrow> (files \<Rightarrow> bool) \<Rightarrow> bool" where
  "ends_in m w Q \<longleftrightarrow> (\<exists>w'. run_state m w = (None, w') \<and> Q (w_files w'))"

lemma ends_return: "Q (w_files w) \<Longrightarrow> ends_in (return None) w Q"
  by (simp add: ends_in_def)

lemma ends_change: "calm out \<Longrightarrow> f (w_files w) = Inr fs' \<Longrightarrow> Q fs' \<Longrightarrow> ends_in (os_change out call f) w Q"
  by (simp add: ends_in_def os_change_def calm_def Let_def)

lemma ends_unless: "ends_in m w R \<Longrightarrow> (\<And>w'. R (w_files w') \<Longrightarrow> ends_in k w' Q) \<Longrightarrow> ends_in (unless_failed m k) w Q"
  by (fastforce simp: ends_in_def unless_failed_def)

lemma ends_ask:
  "calm out \<Longrightarrow> (\<And>w'. w_files w' = w_files w \<Longrightarrow> ends_in (k (f (w_files w))) w' Q) \<Longrightarrow> ends_in (os_ask out call f \<bind> k) w Q"
  by (simp add: ends_in_def os_ask_def calm_def Let_def)

lemma ends_gets: "ends_in (k (f w)) w Q \<Longrightarrow> ends_in (gets f \<bind> k) w Q"
  by (simp add: ends_in_def)

lemma ends_weaken: "ends_in m w R \<Longrightarrow> (\<And>fs. R fs \<Longrightarrow> Q fs) \<Longrightarrow> ends_in m w Q"
  by (auto simp: ends_in_def)

text \<open>A loop over entries, each with a relation of its own.\<close>

lemma ends_each:
  assumes "I [] (w_files w)" and "distinct es"
    and "\<And>seen e w. set seen \<subseteq> set es \<Longrightarrow> e \<in> set es \<Longrightarrow> e \<notin> set seen \<Longrightarrow> I seen (w_files w) \<Longrightarrow> ends_in (f e) w (I (seen @ [e]))"
  shows "ends_in (each_or_fail f es) w (I es)"
proof -
  have "ends_in (each_or_fail f rest) w (I es)" if "es = seen @ rest" "I seen (w_files w)" for seen rest w
    using that
  proof (induction rest arbitrary: seen w)
    case Nil
    then show ?case by (simp add: ends_return)
  next
    case (Cons e rest)
    have "ends_in (f e) w (I (seen @ [e]))" by (rule assms(3)) (use Cons.prems assms(2) in auto)
    then show ?case using Cons by (auto intro: ends_unless)
  qed
  from this[of "[]"] assms(1) show ?thesis by simp
qed

subsection \<open>One entry\<close>

text \<open>What a path of the published tree holds afterwards: a directory on both sides stays, anything else arrives.\<close>

definition merged :: "fnode option \<Rightarrow> fnode option \<Rightarrow> fnode option" where
  "merged arriving standing =
     (case (arriving, standing) of
        (Some a, Some s) \<Rightarrow> if is_directory a \<and> is_directory s then Some s else Some a
      | _ \<Rightarrow> arriving)"

lemma merged_simps [simp]:
  "merged None standing = None" "merged arriving None = arriving"
  "merged (Some a) (Some s) = (if is_directory a \<and> is_directory s then Some s else Some a)"
  by (simp_all add: merged_def split: option.split)

definition replaced :: "path \<Rightarrow> path \<Rightarrow> files \<Rightarrow> files \<Rightarrow> bool" where
  "replaced fresh published fs fs' \<longleftrightarrow> rooted fs' \<and>
     (\<forall>q. q \<noteq> [] \<longrightarrow> look fs' (published @ q) = merged (look fs (fresh @ q)) (look fs (published @ q))) \<and>
     (\<forall>r. \<not> strict_prefix fresh r \<and> \<not> strict_prefix published r \<longrightarrow> look fs' r = look fs r)"

definition entry_replaced :: "path \<Rightarrow> path \<Rightarrow> string \<Rightarrow> files \<Rightarrow> files \<Rightarrow> bool" where
  "entry_replaced fresh published e fs fs' \<longleftrightarrow> rooted fs' \<and>
     (\<forall>q. look fs' (published @ e # q) = merged (look fs (fresh @ e # q)) (look fs (published @ e # q))) \<and>
     (\<forall>r. \<not> prefix (fresh @ [e]) r \<and> \<not> prefix (published @ [e]) r \<longrightarrow> look fs' r = look fs r)"

definition place_entry :: "'g outside \<Rightarrow> path \<Rightarrow> path \<Rightarrow> (path \<Rightarrow> path \<Rightarrow> ('g, string option) io) \<Rightarrow> string \<Rightarrow> ('g, string option) io" where
  "place_entry out fresh published deeper entry = do {
          entry_dir \<leftarrow> entry_is_dir (fresh @ [entry]);
          there \<leftarrow> Stat out (published @ [entry]);
          case there of
            Inl err \<Rightarrow> Rename out (fresh @ [entry]) (published @ [entry])
          | Inr there_node \<Rightarrow>
              if entry_dir \<and> is_directory there_node
              then deeper (fresh @ [entry]) (published @ [entry])
              else if entry_dir \<noteq> is_directory there_node
              then unless_failed (RemoveAll out (published @ [entry]))
                (Rename out (fresh @ [entry]) (published @ [entry]))
              else Rename out (fresh @ [entry]) (published @ [entry])
          }"

lemma rename_replaces:
  assumes "rooted fs" "apart_from fresh published" "is_dir fs published" "look fs (fresh @ [e]) = Some a"
    and "\<And>s. look fs (published @ [e]) = Some s \<Longrightarrow> \<not> is_directory a \<and> \<not> is_directory s"
  shows "\<exists>fs'. os_rename (fresh @ [e]) (published @ [e]) fs = Inr fs' \<and> entry_replaced fresh published e fs fs'"
proof -
  let ?p = "fresh @ [e]" and ?q = "published @ [e]"
  have can: "can_arrive ?p ?q fs"
    using assms apart_deeper[OF assms(2), of "[e]" "[e]"] by (auto simp: can_arrive_def split: option.split)
  from rename_arrives[OF assms(1) can] obtain fs' where fs': "os_rename ?p ?q fs = Inr fs'"
    "\<And>r. look fs' r = (if prefix ?q r then look fs (?p @ drop (length ?q) r) else if prefix ?p r then None else look fs r)" by blast
  have here: "look fs' (published @ e # q) = look fs (fresh @ e # q)" for q
    by (simp add: fs'(2))
  have "look fs (fresh @ e # q) = merged (look fs (fresh @ e # q)) (look fs (published @ e # q))" for q
  proof (cases "look fs ?q")
    case None
    then have "\<not> is_dir fs ?q" by (simp add: is_dir_look)
    then have "look fs (published @ e # q) = None" using no_entries[OF assms(1), of ?q] None by (cases q) auto
    then show ?thesis by simp
  next
    case (Some s)
    note plain = assms(5)[OF Some]
    show ?thesis
    proof (cases q)
      case Nil
      with plain Some assms(4) show ?thesis by simp
    next
      case (Cons x q)
      have "\<not> is_dir fs ?p" using plain assms(4) by (simp add: is_dir_look)
      from no_entries[OF assms(1) this, of x q] Cons show ?thesis by simp
    qed
  qed
  with here fs' rename_rooted[OF assms(1) can fs'(1)] have "entry_replaced fresh published e fs fs'"
    by (auto simp: entry_replaced_def)
  with fs'(1) show ?thesis by blast
qed

lemma remove_then_rename:
  assumes "rooted fs" "apart_from fresh published" "is_dir fs published" "look fs (fresh @ [e]) = Some a"
    and "look fs (published @ [e]) = Some s" "is_directory a \<noteq> is_directory s" "os_remove_all (published @ [e]) fs = Inr fs1"
  shows "\<exists>fs'. os_rename (fresh @ [e]) (published @ [e]) fs1 = Inr fs' \<and> entry_replaced fresh published e fs fs'"
proof -
  have look1: "look fs1 r = (if prefix (published @ [e]) r then None else look fs r)" for r
    by (rule look_remove_all[OF assms(7)])
  have apart: "\<not> prefix (published @ [e]) (fresh @ [e] @ q)" for q
    using apart_never[OF apart_deeper[OF assms(2), of "[e]" "[e]"], of "fresh @ [e] @ q"] by simp
  have arriving: "look fs1 (fresh @ e # q) = look fs (fresh @ e # q)" for q using apart[of q] by (simp add: look1)
  have "is_dir fs1 published" using assms(3) by (simp add: is_dir_def look1)
  then obtain fs' where fs': "os_rename (fresh @ [e]) (published @ [e]) fs1 = Inr fs'" "entry_replaced fresh published e fs1 fs'"
    using rename_replaces[OF rooted_remove_all[OF assms(1,7)] assms(2), of e a] arriving[of "[]"] assms(4) look1 by auto
  have "merged (look fs1 (fresh @ e # q)) (look fs1 (published @ e # q)) = merged (look fs (fresh @ e # q)) (look fs (published @ e # q))" for q
  proof (cases q)
    case Nil
    with arriving[of "[]"] look1 assms(4-6) show ?thesis by auto
  next
    case (Cons x q)
    have "\<not> is_dir fs (published @ [e]) \<or> \<not> is_dir fs (fresh @ [e])" using assms(4-6) by (auto simp: is_dir_look)
    then have "look fs (published @ [e] @ x # q) = None \<or> look fs (fresh @ [e] @ x # q) = None"
      using no_entries[OF assms(1), of "published @ [e]" x q] no_entries[OF assms(1), of "fresh @ [e]" x q] by auto
    with arriving[of "x # q"] look1 Cons show ?thesis by auto
  qed
  with fs' look1 have "entry_replaced fresh published e fs fs'" by (auto simp: entry_replaced_def)
  with fs'(1) show ?thesis by blast
qed

definition fits :: "nat \<Rightarrow> files \<Rightarrow> path \<Rightarrow> bool" where
  "fits n fs fresh \<longleftrightarrow> (\<forall>q. look fs (fresh @ q) \<noteq> None \<longrightarrow> length q < n)"

lemma entry_is_placed:
  assumes "calm out" "rooted (w_files w)" "apart_from fresh published" "is_dir (w_files w) published"
    and "look (w_files w) (fresh @ [e]) \<noteq> None"
    and deeper: "\<And>w. rooted (w_files w) \<Longrightarrow> is_dir (w_files w) (fresh @ [e]) \<Longrightarrow> is_dir (w_files w) (published @ [e]) \<Longrightarrow>
      fits n (w_files w) (fresh @ [e]) \<Longrightarrow>
      ends_in (deeper (fresh @ [e]) (published @ [e])) w (replaced (fresh @ [e]) (published @ [e]) (w_files w))"
    and "fits n (w_files w) (fresh @ [e])"
  shows "ends_in (place_entry out fresh published deeper e) w (entry_replaced fresh published e (w_files w))"
proof -
  let ?fs = "w_files w" and ?p = "fresh @ [e]" and ?q = "published @ [e]"
  obtain a where a: "look ?fs ?p = Some a" using assms(5) by blast
  have dir: "is_dir ?fs ?p = is_directory a" by (simp add: is_dir_look a)
  have rename: "ends_in (Rename out ?p ?q) w' (entry_replaced fresh published e ?fs)"
    if "os_rename ?p ?q (w_files w') = Inr fs'" "entry_replaced fresh published e ?fs fs'" for w' fs'
    unfolding Rename_def by (rule ends_change[OF assms(1)]) (use that in auto)
  have body: "ends_in (case os_stat ?q ?fs of
            Inl err \<Rightarrow> Rename out ?p ?q
          | Inr there_node \<Rightarrow>
              if is_dir ?fs ?p \<and> is_directory there_node then deeper ?p ?q
              else if is_dir ?fs ?p \<noteq> is_directory there_node
              then unless_failed (RemoveAll out ?q) (Rename out ?p ?q) else Rename out ?p ?q) w'
        (entry_replaced fresh published e ?fs)" if files: "w_files w' = ?fs" for w'
  proof (cases "look ?fs ?q")
    case None
    with rename_replaces[OF assms(2-4) a] obtain fs' where "os_rename ?p ?q ?fs = Inr fs'" "entry_replaced fresh published e ?fs fs'"
      by auto
    with rename[of w'] files None show ?thesis by (simp add: os_stat_def)
  next
    case (Some s)
    show ?thesis
    proof (cases "is_directory a \<and> is_directory s")
      case True
      with Some have dirs: "is_dir ?fs ?q" "is_dir ?fs ?p" by (simp_all add: is_dir_look dir a)
      with deeper[of w'] assms(2,7) files have "ends_in (deeper ?p ?q) w' (replaced ?p ?q ?fs)" by simp
      then have "ends_in (deeper ?p ?q) w' (entry_replaced fresh published e ?fs)"
      proof (rule ends_weaken)
        fix fs assume new: "replaced ?p ?q ?fs fs"
        have "\<not> strict_prefix ?p ?q" using apart_deeper[OF assms(3), of "[e]" "[e]"]
          unfolding apart_from_def by (meson prefix_order.less_imp_le)
        with new have "look fs ?q = look ?fs ?q" by (auto simp: replaced_def)
        then have "look fs (published @ e # q) = merged (look ?fs (fresh @ e # q)) (look ?fs (published @ e # q))" for q
          using new Some a True by (cases q) (auto simp: replaced_def)
        with new show "entry_replaced fresh published e ?fs fs" by (auto simp: replaced_def entry_replaced_def strict_prefix_def)
      qed
      with Some True show ?thesis by (simp add: os_stat_def dir)
    next
      case other: False
      show ?thesis
      proof (cases "is_directory a = is_directory s")
        case True
        with other rename_replaces[OF assms(2-4) a] Some
        obtain fs' where "os_rename ?p ?q ?fs = Inr fs'" "entry_replaced fresh published e ?fs fs'" by auto
        with rename[of w'] files Some True other show ?thesis by (simp add: os_stat_def dir)
      next
        case False
        obtain fs1 where fs1: "os_remove_all ?q ?fs = Inr fs1" by (simp add: os_remove_all_def)
        from remove_then_rename[OF assms(2-4) a Some False this] obtain fs' where
          fs': "os_rename ?p ?q fs1 = Inr fs'" "entry_replaced fresh published e ?fs fs'" by blast
        have "ends_in (RemoveAll out ?q) w' (\<lambda>fs. fs = fs1)"
          unfolding RemoveAll_def by (rule ends_change[OF assms(1)]) (use fs1 files in auto)
        then have "ends_in (unless_failed (RemoveAll out ?q) (Rename out ?p ?q)) w' (entry_replaced fresh published e ?fs)"
          by (rule ends_unless) (use rename fs' in auto)
        with Some False show ?thesis by (simp add: os_stat_def dir)
      qed
    qed
  qed
  show ?thesis
    unfolding place_entry_def entry_is_dir_def Stat_def
    by (rule ends_gets, rule ends_ask[OF assms(1)], rule body)
qed

subsection \<open>A whole tree\<close>

lemma replaceTree_entries:
  "replaceTree (Suc fuel) out fresh published = do {
     arriving \<leftarrow> ReadDir out fresh;
     case arriving of Inl err \<Rightarrow> return (Some err) | Inr arriving \<Rightarrow> do {
     standing \<leftarrow> ReadDir out published;
     case standing of Inl err \<Rightarrow> return (Some err) | Inr standing \<Rightarrow>
     unless_failed
       (each_or_fail (\<lambda>entry. if entry \<in> set arriving then return None
          else RemoveAll out (published @ [entry])) standing)
     (each_or_fail (place_entry out fresh published (replaceTree fuel out)) arriving) }}"
  unfolding replaceTree.simps place_entry_def[abs_def] by (rule refl)

text \<open>The entries upstream removed are gone, and nothing else moved.\<close>

definition pruned :: "path \<Rightarrow> string list \<Rightarrow> string list \<Rightarrow> files \<Rightarrow> files \<Rightarrow> bool" where
  "pruned published arriving seen fs fs' \<longleftrightarrow> rooted fs' \<and>
     (\<forall>r. look fs' r = (if \<exists>e\<in>set seen - set arriving. prefix (published @ [e]) r then None else look fs r))"

lemma prunes:
  assumes "calm out" "rooted (w_files w)" "distinct standing"
  shows "ends_in (each_or_fail (\<lambda>entry. if entry \<in> set arriving then return None
     else RemoveAll out (published @ [entry])) standing) w (pruned published arriving standing (w_files w))"
proof (rule ends_each[where I = "\<lambda>seen. pruned published arriving seen (w_files w)"])
  show "pruned published arriving [] (w_files w) (w_files w)" using assms(2) by (simp add: pruned_def)
next
  fix seen e and w' :: "'a world" assume inv: "pruned published arriving seen (w_files w) (w_files w')"
  show "ends_in (if e \<in> set arriving then return None else RemoveAll out (published @ [e])) w'
      (pruned published arriving (seen @ [e]) (w_files w))"
  proof (cases "e \<in> set arriving")
    case True
    then have "set (seen @ [e]) - set arriving = set seen - set arriving" by auto
    with True inv show ?thesis by (simp add: ends_return pruned_def)
  next
    case False
    obtain fs where fs: "os_remove_all (published @ [e]) (w_files w') = Inr fs" by (simp add: os_remove_all_def)
    have "rooted fs" using rooted_remove_all[OF _ fs] inv by (simp add: pruned_def)
    moreover have "look fs r = (if \<exists>x\<in>set (seen @ [e]) - set arriving. prefix (published @ [x]) r then None else look (w_files w) r)" for r
      using inv False by (auto simp: look_remove_all[OF fs] pruned_def)
    ultimately have "pruned published arriving (seen @ [e]) (w_files w) fs" by (simp add: pruned_def)
    with False show ?thesis
      unfolding RemoveAll_def by (auto intro: ends_change[where f = "os_remove_all (published @ [e])", OF assms(1) fs])
  qed
qed (rule assms(3))

text \<open>The entries that have arrived.\<close>

definition arrived_here :: "path \<Rightarrow> path \<Rightarrow> string list \<Rightarrow> files \<Rightarrow> files \<Rightarrow> bool" where
  "arrived_here fresh published seen fs fs' \<longleftrightarrow> rooted fs' \<and>
     (\<forall>e\<in>set seen. \<forall>q. look fs' (published @ e # q) = merged (look fs (fresh @ e # q)) (look fs (published @ e # q))) \<and>
     (\<forall>r. (\<forall>e\<in>set seen. \<not> prefix (fresh @ [e]) r \<and> \<not> prefix (published @ [e]) r) \<longrightarrow> look fs' r = look fs r)"

lemma other_entry: "e \<noteq> x \<Longrightarrow> \<not> prefix (p @ [e]) (p @ x # q)"
  by simp

lemma next_arrives:
  assumes "arrived_here fresh published seen fs fs1" "entry_replaced fresh published e fs1 fs'" "e \<notin> set seen"
    and "apart_from fresh published"
  shows "arrived_here fresh published (seen @ [e]) fs fs'"
proof -
  have sides: "\<not> prefix (fresh @ [x]) (published @ y # q)" "\<not> prefix (published @ [x]) (fresh @ y # q)" for x y q
  proof -
    have "apart_from (fresh @ [x]) (published @ y # q)" by (rule apart_deeper[OF assms(4)])
    then show "\<not> prefix (fresh @ [x]) (published @ y # q)" unfolding apart_from_def by blast
    have "apart_from (fresh @ y # q) (published @ [x])" by (rule apart_deeper[OF assms(4)])
    then show "\<not> prefix (published @ [x]) (fresh @ y # q)" unfolding apart_from_def by blast
  qed
  have before: "look fs1 (fresh @ e # q) = look fs (fresh @ e # q)" "look fs1 (published @ e # q) = look fs (published @ e # q)" for q
  proof -
    have frame: "look fs1 r = look fs r" if "\<forall>x\<in>set seen. \<not> prefix (fresh @ [x]) r \<and> \<not> prefix (published @ [x]) r" for r
      using that assms(1) by (simp add: arrived_here_def)
    have "x \<noteq> e" if "x \<in> set seen" for x using that assms(3) by blast
    then show "look fs1 (fresh @ e # q) = look fs (fresh @ e # q)" "look fs1 (published @ e # q) = look fs (published @ e # q)"
      using sides by (auto intro!: frame simp: other_entry)
  qed
  have "look fs' (published @ x # q) = merged (look fs (fresh @ x # q)) (look fs (published @ x # q))" if "x \<in> set (seen @ [e])" for x q
  proof (cases "x = e")
    case True
    with assms(2) before show ?thesis by (simp add: entry_replaced_def)
  next
    case False
    with that have seen: "x \<in> set seen" by auto
    have "look fs' (published @ x # q) = look fs1 (published @ x # q)"
      using assms(2) sides False by (auto simp: entry_replaced_def)
    with assms(1) seen show ?thesis by (simp add: arrived_here_def)
  qed
  moreover have "look fs' r = look fs r" if "\<forall>x\<in>set (seen @ [e]). \<not> prefix (fresh @ [x]) r \<and> \<not> prefix (published @ [x]) r" for r
    using that assms(1,2) by (simp add: entry_replaced_def arrived_here_def)
  ultimately show ?thesis using assms(2) by (simp add: arrived_here_def entry_replaced_def)
qed

lemma replaces:
  assumes "calm out"
  shows "rooted (w_files w) \<Longrightarrow> apart_from fresh published \<Longrightarrow> is_dir (w_files w) fresh \<Longrightarrow> is_dir (w_files w) published \<Longrightarrow>
    fits fuel (w_files w) fresh \<Longrightarrow> ends_in (replaceTree fuel out fresh published) w (replaced fresh published (w_files w))"
proof (induction fuel arbitrary: w fresh published)
  case 0
  then have "fresh \<noteq> []" by (auto simp: apart_from_def)
  with 0 have "look (w_files w) (fresh @ []) \<noteq> None" by (auto simp: is_dir_look)
  with 0 show ?case unfolding fits_def by blast
next
  case (Suc fuel)
  let ?fs = "w_files w" and ?arriving = "children (w_files w) fresh" and ?standing = "children (w_files w) published"
  note rooted = Suc.prems(1) and apart = Suc.prems(2)
  let ?loop = "each_or_fail (place_entry out fresh published (replaceTree fuel out)) ?arriving"
  have loop: "ends_in ?loop w1 (replaced fresh published ?fs)" if pruned: "pruned published ?arriving ?standing ?fs (w_files w1)" for w1
  proof -
    let ?fs1 = "w_files w1"
    have look1: "look ?fs1 r = (if \<exists>e\<in>set ?standing - set ?arriving. prefix (published @ [e]) r then None else look ?fs r)" for r
      using pruned by (simp add: pruned_def)
    have fresh1: "look ?fs1 (fresh @ q) = look ?fs (fresh @ q)" for q
    proof -
      have "\<not> prefix (published @ [e]) (fresh @ q)" for e
        using apart_deeper[OF apart, of q "[e]"] unfolding apart_from_def by blast
      then show ?thesis by (simp add: look1)
    qed
    have standing1: "look ?fs1 (published @ e # q) = (if e \<in> set ?arriving then look ?fs (published @ e # q) else None)" for e q
    proof (cases "e \<in> set ?standing")
      case True
      then show ?thesis by (auto simp: look1)
    next
      case False
      then have "look ?fs (published @ [e]) = None" by (simp add: children_look)
      then have "look ?fs (published @ e # q) = None" by (rule gone_below[OF rooted])
      then show ?thesis by (simp add: look1)
    qed
    have dir1: "is_dir ?fs1 published" using Suc.prems(4) by (auto simp: is_dir_def look1)
    have "ends_in ?loop w1 (arrived_here fresh published ?arriving ?fs1)"
    proof (rule ends_each[where I = "\<lambda>seen. arrived_here fresh published seen ?fs1"])
      show "arrived_here fresh published [] ?fs1 ?fs1" using pruned by (simp add: arrived_here_def pruned_def)
    next
      fix seen e and w2 :: "'a world"
      assume e: "e \<in> set ?arriving" "e \<notin> set seen" and inv: "arrived_here fresh published seen ?fs1 (w_files w2)"
      have frame: "look (w_files w2) r = look ?fs1 r" if "\<forall>x\<in>set seen. \<not> prefix (fresh @ [x]) r \<and> \<not> prefix (published @ [x]) r" for r
        using that inv by (simp add: arrived_here_def)
      have other: "\<forall>x\<in>set seen. \<not> prefix (fresh @ [x]) (fresh @ e # q) \<and> \<not> prefix (published @ [x]) (fresh @ e # q)" for q
      proof
        fix x assume "x \<in> set seen"
        with e(2) have "x \<noteq> e" by auto
        moreover have "\<not> prefix (published @ [x]) (fresh @ e # q)"
          using apart_deeper[OF apart, of "e # q" "[x]"] unfolding apart_from_def by blast
        ultimately show "\<not> prefix (fresh @ [x]) (fresh @ e # q) \<and> \<not> prefix (published @ [x]) (fresh @ e # q)" by simp
      qed
      then have same: "look (w_files w2) (fresh @ e # q) = look ?fs (fresh @ e # q)" for q using frame fresh1 by simp
      have "\<forall>x\<in>set seen. \<not> prefix (fresh @ [x]) published \<and> \<not> prefix (published @ [x]) published"
        using apart unfolding apart_from_def by (metis append_prefixD not_Cons_self2 prefix_length_le prefixI
            prefix_order.order_refl same_prefix_nil)
      then have "is_dir (w_files w2) published" using frame dir1 by (simp add: is_dir_def)
      moreover have "look (w_files w2) (fresh @ [e]) \<noteq> None" using same[of "[]"] e(1) by (simp add: children_look)
      moreover have "fits fuel (w_files w2) (fresh @ [e])"
        using Suc.prems(5) same by (fastforce simp: fits_def)
      moreover have "rooted (w_files w2)" using inv by (simp add: arrived_here_def)
      ultimately have "ends_in (place_entry out fresh published (replaceTree fuel out) e) w2 (entry_replaced fresh published e (w_files w2))"
        using entry_is_placed[OF assms _ apart] Suc.IH apart_deeper[OF apart, of "[e]" "[e]"] by blast
      then show "ends_in (place_entry out fresh published (replaceTree fuel out) e) w2 (arrived_here fresh published (seen @ [e]) ?fs1)"
        by (rule ends_weaken) (rule next_arrives[OF inv _ e(2) apart])
    qed (rule distinct_children)
    then show ?thesis
    proof (rule ends_weaken)
      fix fs' assume new: "arrived_here fresh published ?arriving ?fs1 fs'"
      have "look fs' (published @ e # q) = merged (look ?fs (fresh @ e # q)) (look ?fs (published @ e # q))" for e q
      proof (cases "e \<in> set ?arriving")
        case True
        with new show ?thesis by (simp add: arrived_here_def fresh1 standing1)
      next
        case False
        then have "look ?fs (fresh @ [e]) = None" by (simp add: children_look)
        then have none: "look ?fs (fresh @ e # q) = None" by (rule gone_below[OF rooted])
        have "\<forall>x\<in>set ?arriving. \<not> prefix (fresh @ [x]) (published @ e # q) \<and> \<not> prefix (published @ [x]) (published @ e # q)"
        proof
          fix x assume "x \<in> set ?arriving"
          with False have "x \<noteq> e" by auto
          moreover have "\<not> prefix (fresh @ [x]) (published @ e # q)"
            using apart_deeper[OF apart, of "[x]" "e # q"] unfolding apart_from_def by blast
          ultimately show "\<not> prefix (fresh @ [x]) (published @ e # q) \<and> \<not> prefix (published @ [x]) (published @ e # q)" by simp
        qed
        with new have "look fs' (published @ e # q) = look ?fs1 (published @ e # q)" by (simp add: arrived_here_def)
        with False none show ?thesis by (simp add: standing1)
      qed
      then have "look fs' (published @ q) = merged (look ?fs (fresh @ q)) (look ?fs (published @ q))" if "q \<noteq> []" for q
        using that by (cases q) auto
      moreover have "look fs' r = look ?fs r" if "\<not> strict_prefix fresh r" "\<not> strict_prefix published r" for r
      proof -
        have "\<not> prefix (fresh @ [x]) r" "\<not> prefix (published @ [x]) r" for x
          using that by (auto simp: strict_prefix_def prefix_def)
        with new look1 show ?thesis by (simp add: arrived_here_def)
      qed
      ultimately show "replaced fresh published ?fs fs'" using new by (auto simp: replaced_def arrived_here_def)
    qed
  qed
  show ?case
    unfolding replaceTree_entries ReadDir_def
    by (rule ends_ask[OF assms]) (use Suc.prems in \<open>simp add: os_read_dir_def, intro ends_ask[OF assms],
      simp add: os_read_dir_def, intro ends_unless[OF prunes[OF assms]] loop, simp_all add: distinct_children\<close>)
qed

subsection \<open>The placement\<close>

lemma depth_fits: "fits (tree_depth fs p) fs p"
proof -
  have bound: "length q - length p \<le> foldr (\<lambda>(q, n). max (length q - length p)) ents 0" if "(q, n) \<in> set ents" for q n and ents :: files
    using that by (induction ents) (auto simp: le_max_iff_disj)
  show ?thesis
    unfolding fits_def
  proof (intro allI impI)
    fix q assume "look fs (p @ q) \<noteq> None"
    then obtain n where "(p @ q, n) \<in> set fs" by (auto simp: look_def dest: map_of_SomeD)
    then have "(p @ q, n) \<in> set (below fs p)" by (simp add: below_def)
    from bound[OF this] show "length q < tree_depth fs p" by (simp add: tree_depth_def)
  qed
qed

definition placed_in :: "path \<Rightarrow> path \<Rightarrow> files \<Rightarrow> files \<Rightarrow> bool" where
  "placed_in fresh tree fs fs' \<longleftrightarrow>
     (\<forall>q. q \<noteq> [] \<longrightarrow> look fs' (tree @ q) = merged (look fs (fresh @ q)) (look fs (tree @ q))) \<and>
     (\<forall>q. look fs' (fresh @ q) = None) \<and>
     (\<forall>r. \<not> prefix fresh r \<and> \<not> strict_prefix tree r \<longrightarrow> look fs' r = look fs r)"

lemma arrives_on:
  assumes "calm out" "rooted (w_files w)" "apart_from fresh tree" "is_dir (w_files w) fresh" "is_dir (w_files w) tree" "tree \<noteq> []"
  shows "ends_in (arrive out fresh tree) w (placed_in fresh tree (w_files w))"
proof -
  from assms(5,6) obtain n where there: "look (w_files w) tree = Some n" by (auto simp: is_dir_look)
  have rest: "ends_in (do { _ \<leftarrow> RemoveAll out fresh; return None }) w1 (placed_in fresh tree (w_files w))"
    if new: "replaced fresh tree (w_files w) (w_files w1)" for w1
  proof -
    obtain fs where fs: "os_remove_all fresh (w_files w1) = Inr fs" by (simp add: os_remove_all_def)
    have look: "look fs r = (if prefix fresh r then None else look (w_files w1) r)" for r by (rule look_remove_all[OF fs])
    have "\<not> prefix fresh (tree @ q)" for q using apart_deeper[OF assms(3), of "[]" q] by (simp add: apart_from_def)
    with new look have "placed_in fresh tree (w_files w) fs"
      by (auto simp: placed_in_def replaced_def strict_prefix_def)
    then show ?thesis
      using assms(1) fs by (simp add: ends_in_def RemoveAll_def os_change_def calm_def Let_def)
  qed
  show ?thesis
    unfolding arrive_def Stat_def
  proof (rule ends_ask[OF assms(1)])
    fix w1 :: "'a world" assume files: "w_files w1 = w_files w"
    have "ends_in (replaceTree (tree_depth (w_files w1) fresh) out fresh tree) w1 (replaced fresh tree (w_files w))"
      using replaces[OF assms(1), of w1 fresh tree "tree_depth (w_files w1) fresh"] assms depth_fits files by simp
    then have "ends_in (do { depth \<leftarrow> gets (\<lambda>w. tree_depth (w_files w) fresh);
         unless_failed (replaceTree depth out fresh tree) (do { _ \<leftarrow> RemoveAll out fresh; return None }) }) w1 (placed_in fresh tree (w_files w))"
      by (intro ends_gets ends_unless[where R = "replaced fresh tree (w_files w)"] rest)
    then show "ends_in (case os_stat tree (w_files w) of Inl err \<Rightarrow> Rename out fresh tree
       | Inr n \<Rightarrow> do { depth \<leftarrow> gets (\<lambda>w. tree_depth (w_files w) fresh);
         unless_failed (replaceTree depth out fresh tree) (do { _ \<leftarrow> RemoveAll out fresh; return None }) }) w1 (placed_in fresh tree (w_files w))"
      by (simp add: os_stat_def there)
  qed
qed

text \<open>
  Property C14. A placement leaves exactly the checkout. Where the kernel refuses no call, moving a checkout of any
  depth into a tree a pod holds ends with success: every path below the tree then holds what the
  checkout held there (so what upstream removed is gone), except that a directory both sides held is still the
  directory it was, which a mount or an open handle follows; the tree's own directory is the same, the checkout is
  gone, and no other path changed.
\<close>

theorem a_placement_leaves_the_checkout:
  assumes "\<forall>n call. o_refuse out n call = None" and "rooted (w_files w)" and "\<not> prefix fresh tree" and "\<not> prefix tree fresh"
    and "is_dir (w_files w) fresh" and "is_dir (w_files w) tree"
  shows "\<exists>w'. run_state (arrive out fresh tree) w = (None, w') \<and>
    (\<forall>q. q \<noteq> [] \<longrightarrow> look (w_files w') (tree @ q) = merged (look (w_files w) (fresh @ q)) (look (w_files w) (tree @ q))) \<and>
    (\<forall>q. look (w_files w') (fresh @ q) = None) \<and>
    (\<forall>r. \<not> prefix fresh r \<and> \<not> strict_prefix tree r \<longrightarrow> look (w_files w') r = look (w_files w) r)"
proof -
  have "tree \<noteq> []" using assms(4) by auto
  with arrives_on[of out w fresh tree] assms show ?thesis by (simp add: ends_in_def calm_def apart_from_def placed_in_def)
qed

lemma rooted_list: "list_all (\<lambda>(p, n). p = [] \<or> is_dir fs (butlast p)) fs \<Longrightarrow> rooted fs"
  unfolding rooted_def look_def list_all_iff by (fastforce dest: map_of_SomeD)

definition file_node :: "string \<Rightarrow> nat \<Rightarrow> fnode" where
  "file_node text inode = \<lparr>fn_content = Regular text, fn_mode = 420, fn_uid = 0, fn_gid = 0, fn_inode = inode\<rparr>"

definition placing_files :: files where
  "placing_files =
     [([''v''], dir_node), ([''v'', ''tree''], dir_node\<lparr>fn_inode := 2\<rparr>), ([''v'', ''tree'', ''gone''], file_node ''old'' 3),
      ([''v'', ''tree'', ''d''], dir_node\<lparr>fn_inode := 4\<rparr>), ([''v'', ''tree'', ''d'', ''a''], file_node ''one'' 5),
      ([''v'', ''next''], dir_node\<lparr>fn_inode := 6\<rparr>), ([''v'', ''next'', ''d''], dir_node\<lparr>fn_inode := 7\<rparr>),
      ([''v'', ''next'', ''d'', ''a''], file_node ''two'' 8)]"

theorem a_placement_leaves_the_checkout_witness:
  "\<exists>w'. run_state (arrive (still_outside (output_of ''c'') None) [''v'', ''next''] [''v'', ''tree''])
       (world_of placing_files (zero_volume ''csi-1'' defaultAttributes readOnlyClaim [''v''])) = (None, w') \<and>
     look (w_files w') [''v'', ''tree'', ''gone''] = None \<and>
     look (w_files w') [''v'', ''tree'', ''d''] = Some (dir_node\<lparr>fn_inode := 4\<rparr>) \<and>
     look (w_files w') [''v'', ''tree'', ''d'', ''a''] = Some (file_node ''two'' 8)"
proof -
  let ?w = "world_of placing_files (zero_volume ''csi-1'' defaultAttributes readOnlyClaim [''v''])"
  let ?out = "still_outside (output_of ''c'') None"
  have files: "w_files ?w = placing_files" by (simp add: world_of_def)
  have "rooted placing_files" by (rule rooted_list) code_simp
  moreover have "is_dir placing_files [''v'', ''next'']" "is_dir placing_files [''v'', ''tree'']"
    "look placing_files [''v'', ''next'', ''gone''] = None"
    "look placing_files [''v'', ''next'', ''d''] = Some (dir_node\<lparr>fn_inode := 7\<rparr>)"
    "look placing_files [''v'', ''tree'', ''d''] = Some (dir_node\<lparr>fn_inode := 4\<rparr>)"
    "look placing_files [''v'', ''next'', ''d'', ''a''] = Some (file_node ''two'' 8)"
    "look placing_files [''v'', ''tree'', ''d'', ''a''] = Some (file_node ''one'' 5)"
    by code_simp+
  moreover have "\<forall>n call. o_refuse ?out n call = None" by (simp add: still_outside_def)
  ultimately obtain w' where run: "run_state (arrive ?out [''v'', ''next''] [''v'', ''tree'']) ?w = (None, w')"
    and placed: "\<And>q. q \<noteq> [] \<Longrightarrow> look (w_files w') ([''v'', ''tree''] @ q) =
       merged (look placing_files ([''v'', ''next''] @ q)) (look placing_files ([''v'', ''tree''] @ q))"
    using a_placement_leaves_the_checkout[of ?out ?w "[''v'', ''next'']" "[''v'', ''tree'']"] by (auto simp: files)
  from placed[of "[''gone'']"] placed[of "[''d'']"] placed[of "[''d'', ''a'']"] run \<open>look placing_files [''v'', ''next'', ''gone''] = None\<close>
    \<open>look placing_files [''v'', ''next'', ''d''] = _\<close> \<open>look placing_files [''v'', ''tree'', ''d''] = _\<close>
    \<open>look placing_files [''v'', ''next'', ''d'', ''a''] = _\<close> \<open>look placing_files [''v'', ''tree'', ''d'', ''a''] = _\<close>
  show ?thesis by (auto simp: is_directory_def dir_node_def file_node_def)
qed

end

