(* ===== verification/Metrics.thy ===== *)
theory Metrics
  imports WorkTree
begin

section \<open>The gauges (\<open>metrics.go\<close>)\<close>

text \<open>
  The driver's operations log the metrics calls they make, with the volume each one reads. This theory says
  what the calls do to the registry: the labelled gauges and counters, and when a label is taken off them.
  Against it stands a reference reading: a gauge shows what the last call about its label said.
\<close>

subsection \<open>The registry\<close>

type_synonym labels = "string \<times> string"

record metrics =
  m_armed :: "(labels \<times> int) list"
  m_pending :: "(labels \<times> int) list"
  m_unpushed :: "(labels \<times> int) list"
  m_lastPush :: "(labels \<times> int) list"
  m_pushFailures :: "(labels \<times> nat) list"
  m_skipped :: "(labels \<times> int) list"
  m_diverged :: "(labels \<times> int) list"
  m_abnormal :: "(labels \<times> int) list"
  m_demandedPulls :: "(labels \<times> nat) list"
  m_fetches :: "(string \<times> nat) list"
  m_fetchFailures :: "(string \<times> nat) list"
  m_calls :: "(string \<times> nat) list"
  m_callErrors :: "(string \<times> nat) list"
  m_watchRestarts :: "(string \<times> nat) list"
  m_storeBytes :: int
  m_buildInfo :: "(string \<times> string) list"

definition newMetrics :: metrics where
  "newMetrics = \<lparr>m_armed = [], m_pending = [], m_unpushed = [], m_lastPush = [], m_pushFailures = [], m_skipped = [],
     m_diverged = [], m_abnormal = [], m_demandedPulls = [], m_fetches = [], m_fetchFailures = [], m_calls = [],
     m_callErrors = [], m_watchRestarts = [], m_storeBytes = 0, m_buildInfo = []\<rparr>"

definition metricsComponent :: string where "metricsComponent = ''git-csi-driver''"

definition gauge :: "bool \<Rightarrow> int" where
  "gauge state = (if state then 1 else 0)"

text \<open>\<open>WithLabelValues(...).Inc()\<close>, which makes the counter at zero first.\<close>

definition inc :: "'k \<Rightarrow> ('k \<times> nat) list \<Rightarrow> ('k \<times> nat) list" where
  "inc key counters = set_entry key (Suc (case map_of counters key of None \<Rightarrow> 0 | Some n \<Rightarrow> n)) counters"

definition claim_labels :: "volume \<Rightarrow> labels" where
  "claim_labels held = (cl_namespace (v_claim held), cl_name (v_claim held))"

definition health_labels :: "volume \<Rightarrow> labels" where
  "health_labels held = (namespace_of held, v_id held)"

definition unix_seconds :: "time \<Rightarrow> int" where
  "unix_seconds t = (t - unix_epoch) div second"

subsection \<open>The calls\<close>

definition reportBuildInfo :: "string \<Rightarrow> metrics \<Rightarrow> metrics" where
  "reportBuildInfo version m = m\<lparr>m_buildInfo := [(metricsComponent, version)]\<rparr>"

definition observeCall :: "string \<Rightarrow> bool \<Rightarrow> metrics \<Rightarrow> metrics" where
  "observeCall kind failed m =
     (let m = m\<lparr>m_calls := inc kind (m_calls m)\<rparr>
      in if failed then m\<lparr>m_callErrors := inc kind (m_callErrors m)\<rparr> else m)"

definition watchRestarted :: "string \<Rightarrow> metrics \<Rightarrow> metrics" where
  "watchRestarted kind m = m\<lparr>m_watchRestarts := inc kind (m_watchRestarts m)\<rparr>"

definition time_fetch :: "string \<Rightarrow> bool \<Rightarrow> metrics \<Rightarrow> metrics" where
  "time_fetch repo failed m =
     (let m = m\<lparr>m_fetches := inc repo (m_fetches m)\<rparr>
      in if failed then m\<lparr>m_fetchFailures := inc repo (m_fetchFailures m)\<rparr> else m)"

definition setStoreBytes :: "int \<Rightarrow> metrics \<Rightarrow> metrics" where
  "setStoreBytes bytes m = m\<lparr>m_storeBytes := bytes\<rparr>"

definition record_gauges :: "volume \<Rightarrow> metrics \<Rightarrow> metrics" where
  "record_gauges held m =
     (let (claim, armed, pending) = reading held; at = claim_labels held in
      if cl_name claim = [] then m
      else let (unpushed, last, skipped) = pushing held;
        m = m\<lparr>m_armed := set_entry at (gauge armed) (m_armed m),
              m_pending := set_entry at (int pending) (m_pending m),
              m_unpushed := set_entry at unpushed (m_unpushed m),
              m_skipped := set_entry at (int skipped) (m_skipped m),
              m_diverged := set_entry at (gauge (divergedFrom held \<noteq> [])) (m_diverged m)\<rparr>
        in if last \<noteq> 0 then m\<lparr>m_lastPush := set_entry at (unix_seconds last) (m_lastPush m)\<rparr> else m)"

definition health :: "volume \<Rightarrow> bool \<Rightarrow> metrics \<Rightarrow> metrics" where
  "health held abnormal m =
     (if namespace_of held = [] then m
      else m\<lparr>m_abnormal := set_entry (health_labels held) (gauge abnormal) (m_abnormal m)\<rparr>)"

definition demanded :: "volume \<Rightarrow> metrics \<Rightarrow> metrics" where
  "demanded held m =
     (if namespace_of held = [] then m
      else m\<lparr>m_demandedPulls := inc (health_labels held) (m_demandedPulls m)\<rparr>)"

definition push_failed :: "volume \<Rightarrow> metrics \<Rightarrow> metrics" where
  "push_failed held m =
     (if cl_name (v_claim held) = [] then m
      else m\<lparr>m_pushFailures := inc (claim_labels held) (m_pushFailures m)\<rparr>)"

definition forget :: "volume \<Rightarrow> metrics \<Rightarrow> metrics" where
  "forget held m =
     (let m = (if namespace_of held = [] then m
               else m\<lparr>m_abnormal := delete_entry (health_labels held) (m_abnormal m),
                      m_demandedPulls := delete_entry (health_labels held) (m_demandedPulls m)\<rparr>);
          at = claim_labels held
      in if cl_name (v_claim held) = [] then m
         else m\<lparr>m_armed := delete_entry at (m_armed m), m_pending := delete_entry at (m_pending m),
                m_unpushed := delete_entry at (m_unpushed m), m_lastPush := delete_entry at (m_lastPush m),
                m_pushFailures := delete_entry at (m_pushFailures m), m_skipped := delete_entry at (m_skipped m),
                m_diverged := delete_entry at (m_diverged m)\<rparr>)"

text \<open>One call of the driver's log, and the registry after all of them.\<close>

fun observe :: "metric \<Rightarrow> metrics \<Rightarrow> metrics" where
  "observe (Recorded held) m = record_gauges held m"
| "observe (Health held abnormal) m = health held abnormal m"
| "observe (PushFailed held) m = push_failed held m"
| "observe (Demanded held) m = demanded held m"
| "observe (Forgotten held) m = forget held m"
| "observe (FetchTimed repo failed) m = time_fetch repo failed m"
| "observe (StoreBytes bytes) m = setStoreBytes bytes m"

definition registry :: "metric list \<Rightarrow> metrics" where
  "registry calls = fold observe calls newMetrics"

subsection \<open>The reference reading\<close>

text \<open>
  What a call says of one label: nothing, a value, or that the label is gone. A gauge shows the last word.
\<close>

datatype 'a word_of = Silent | Says 'a | Gone

fun last_word :: "('c \<Rightarrow> 'a word_of) \<Rightarrow> 'c list \<Rightarrow> 'a option" where
  "last_word speaks [] = None"
| "last_word speaks (call # earlier) =
     (case speaks call of Silent \<Rightarrow> last_word speaks earlier | Says x \<Rightarrow> Some x | Gone \<Rightarrow> None)"

definition of_claim :: "labels \<Rightarrow> (volume \<Rightarrow> 'a word_of) \<Rightarrow> metric \<Rightarrow> 'a word_of" where
  "of_claim at word call = (case call of
      Recorded held \<Rightarrow> if cl_name (v_claim held) \<noteq> [] \<and> claim_labels held = at then word held else Silent
    | Forgotten held \<Rightarrow> if cl_name (v_claim held) \<noteq> [] \<and> claim_labels held = at then Gone else Silent
    | _ \<Rightarrow> Silent)"

definition of_health :: "labels \<Rightarrow> metric \<Rightarrow> int word_of" where
  "of_health at call = (case call of
      Health held abnormal \<Rightarrow> if namespace_of held \<noteq> [] \<and> health_labels held = at then Says (gauge abnormal) else Silent
    | Forgotten held \<Rightarrow> if namespace_of held \<noteq> [] \<and> health_labels held = at then Gone else Silent
    | _ \<Rightarrow> Silent)"

text \<open>How often a counter was moved since its label was last taken away; one that never moved is not there.\<close>

fun count_since :: "('c \<Rightarrow> unit word_of) \<Rightarrow> 'c list \<Rightarrow> nat" where
  "count_since speaks [] = 0"
| "count_since speaks (call # earlier) =
     (case speaks call of Silent \<Rightarrow> count_since speaks earlier | Says x \<Rightarrow> Suc (count_since speaks earlier) | Gone \<Rightarrow> 0)"

definition failing :: "labels \<Rightarrow> metric \<Rightarrow> unit word_of" where
  "failing at call = (case call of
      PushFailed held \<Rightarrow> if cl_name (v_claim held) \<noteq> [] \<and> claim_labels held = at then Says () else Silent
    | Forgotten held \<Rightarrow> if cl_name (v_claim held) \<noteq> [] \<and> claim_labels held = at then Gone else Silent
    | _ \<Rightarrow> Silent)"

subsection \<open>The laws of the labelled values\<close>

text \<open>
  What a vector of gauges promises: a value set is read back, a label taken away is gone, and no other label
  moves.
\<close>

locale labelled =
  fixes read_at :: "'m \<Rightarrow> 'k \<Rightarrow> 'a option" and step :: "'c \<Rightarrow> 'm \<Rightarrow> 'm" and speaks :: "'k \<Rightarrow> 'c \<Rightarrow> 'a word_of"
  assumes silent: "speaks at call = Silent \<Longrightarrow> read_at (step call m) at = read_at m at"
    and said: "speaks at call = Says x \<Longrightarrow> read_at (step call m) at = Some x"
    and gone: "speaks at call = Gone \<Longrightarrow> read_at (step call m) at = None"
begin

lemma last_word_reads:
  assumes "read_at start at = None"
  shows "read_at (fold step calls start) at = last_word (speaks at) (rev calls)"
proof (induction calls rule: rev_induct)
  case Nil
  then show ?case using assms by simp
next
  case (snoc call calls)
  then show ?case by (cases "speaks at call") (simp_all add: silent said gone)
qed

end

lemma entry_laws:
  "map_of (set_entry k a m) x = (if x = k then Some a else map_of m x)"
  "map_of (delete_entry k m) x = (if x = k then None else map_of m x)"
  by (induction m) (auto simp: set_entry_def delete_entry_def)

lemmas gauge_defs = record_gauges_def health_def demanded_def push_failed_def forget_def time_fetch_def setStoreBytes_def
  of_claim_def of_health_def failing_def reading_def pushing_def Let_def entry_laws inc_def

interpretation armed_gauge: labelled "\<lambda>m. map_of (m_armed m)" observe "\<lambda>at. of_claim at (\<lambda>held. Says (gauge (v_armed held)))"
  by unfold_locales (auto simp: gauge_defs split: metric.splits if_splits)

interpretation pending_gauge: labelled "\<lambda>m. map_of (m_pending m)" observe "\<lambda>at. of_claim at (\<lambda>held. Says (int (length (v_pending held))))"
  by unfold_locales (auto simp: gauge_defs split: metric.splits if_splits)

interpretation unpushed_gauge: labelled "\<lambda>m. map_of (m_unpushed m)" observe "\<lambda>at. of_claim at (\<lambda>held. Says (v_unpushed held))"
  by unfold_locales (auto simp: gauge_defs split: metric.splits if_splits)

interpretation skipped_gauge: labelled "\<lambda>m. map_of (m_skipped m)" observe "\<lambda>at. of_claim at (\<lambda>held. Says (int (length (v_skipped held))))"
  by unfold_locales (auto simp: gauge_defs split: metric.splits if_splits)

interpretation diverged_gauge: labelled "\<lambda>m. map_of (m_diverged m)" observe "\<lambda>at. of_claim at (\<lambda>held. Says (gauge (divergedFrom held \<noteq> [])))"
  by unfold_locales (auto simp: gauge_defs split: metric.splits if_splits)

interpretation push_gauge: labelled "\<lambda>m. map_of (m_lastPush m)" observe
    "\<lambda>at. of_claim at (\<lambda>held. if v_lastPush held \<noteq> 0 then Says (unix_seconds (v_lastPush held)) else Silent)"
  by unfold_locales (auto simp: gauge_defs split: metric.splits if_splits)

interpretation health_gauge: labelled "\<lambda>m. map_of (m_abnormal m)" observe of_health
  by unfold_locales (auto simp: gauge_defs split: metric.splits if_splits)

lemma new_metrics_empty:
  "m_armed newMetrics = []" "m_pending newMetrics = []" "m_unpushed newMetrics = []" "m_skipped newMetrics = []"
  "m_diverged newMetrics = []" "m_lastPush newMetrics = []" "m_abnormal newMetrics = []"
  by (simp_all add: newMetrics_def)

lemma failures_counted:
  "(case map_of (m_pushFailures (fold observe calls newMetrics)) at of None \<Rightarrow> 0 | Some n \<Rightarrow> n) = count_since (failing at) (rev calls)"
proof (induction calls rule: rev_induct)
  case Nil
  then show ?case by (simp add: newMetrics_def)
next
  case (snoc call calls)
  then show ?case by (cases call) (auto simp: gauge_defs split: option.splits)
qed

text \<open>
  Property C40. A labelled gauge shows the last word about its label. After any sequence of the driver's metrics calls
  each of the six gauges of a claim, which are armed, pending, unpushed, skipped, diverged and last push, and the health
  gauge of a volume hold what the last call that named them recorded, and are absent when that call took the volume off or
  no call named it. The counter of failed pushes counts the failures since the volume was last taken off, so it starts
  again for a volume that comes back.
\<close>

theorem a_gauge_shows_the_last_word:
  "map_of (m_armed (registry calls)) at = last_word (of_claim at (\<lambda>held. Says (gauge (v_armed held)))) (rev calls) \<and>
   map_of (m_pending (registry calls)) at = last_word (of_claim at (\<lambda>held. Says (int (length (v_pending held))))) (rev calls) \<and>
   map_of (m_unpushed (registry calls)) at = last_word (of_claim at (\<lambda>held. Says (v_unpushed held))) (rev calls) \<and>
   map_of (m_skipped (registry calls)) at = last_word (of_claim at (\<lambda>held. Says (int (length (v_skipped held))))) (rev calls) \<and>
   map_of (m_diverged (registry calls)) at = last_word (of_claim at (\<lambda>held. Says (gauge (divergedFrom held \<noteq> [])))) (rev calls) \<and>
   map_of (m_lastPush (registry calls)) at =
     last_word (of_claim at (\<lambda>held. if v_lastPush held \<noteq> 0 then Says (unix_seconds (v_lastPush held)) else Silent)) (rev calls) \<and>
   map_of (m_abnormal (registry calls)) at = last_word (of_health at) (rev calls) \<and>
   (case map_of (m_pushFailures (registry calls)) at of None \<Rightarrow> 0 | Some n \<Rightarrow> n) = count_since (failing at) (rev calls)"
  unfolding registry_def
  by (simp add: armed_gauge.last_word_reads pending_gauge.last_word_reads unpushed_gauge.last_word_reads
      skipped_gauge.last_word_reads diverged_gauge.last_word_reads push_gauge.last_word_reads
      health_gauge.last_word_reads failures_counted new_metrics_empty)

end
