(* ===== verification/NodeGauges.thy ===== *)
theory NodeGauges
  imports NodeRuns Metrics
begin

section \<open>What an unstage leaves on the gauges\<close>

text \<open>The calls of the node against the registry: the last metrics call of an unstage takes the volume off.\<close>

definition off_gauges :: "nat \<Rightarrow> 'g world \<Rightarrow> bool" where
  "off_gauges r w \<longleftrightarrow> (\<exists>calls. w_metrics w = calls @ [Forgotten (w_heap w r)])"

lemma never_said: "(\<And>call. speaks call = Silent) \<Longrightarrow> last_word speaks calls = None"
  by (induction calls) simp_all

lemma forgotten_label:
  "last_word (of_claim (claim_labels v) word) (Forgotten v # calls) = None"
  "last_word (of_health (health_labels v)) (Forgotten v # calls) = None"
proof -
  show "last_word (of_claim (claim_labels v) word) (Forgotten v # calls) = None"
  proof (cases "cl_name (v_claim v) = []")
    case True
    then have "of_claim (claim_labels v) word call = Silent" for call
      by (cases call) (auto simp: of_claim_def claim_labels_def)
    then show ?thesis by (rule never_said)
  qed (simp add: of_claim_def)
  show "last_word (of_health (health_labels v)) (Forgotten v # calls) = None"
  proof (cases "namespace_of v = []")
    case True
    then have "of_health (health_labels v) call = Silent" for call
      by (cases call) (auto simp: of_health_def health_labels_def)
    then show ?thesis by (rule never_said)
  qed (simp add: of_health_def)
qed

lemma unstageReadOnly_off: "triple P (unstageReadOnly out r) (\<lambda>x. off_gauges r)"
proof -
  have last: "triple (\<lambda>w. True) (do { staged \<leftarrow> volume_at r;
     modify (\<lambda>w. w\<lparr>n_volumes := delete_entry (v_id staged) (n_volumes w)\<rparr>);
     metric_call (Forgotten staged);
     _ \<leftarrow> RemoveAll out (v_directory staged);
     return () }) (\<lambda>x. off_gauges r)"
    by (auto simp: triple_def volume_at_def metric_call_def RemoveAll_def os_change_def off_gauges_def Let_def
        split: option.splits sum.splits)
  show ?thesis
    unfolding unstageReadOnly_def by (rule triple_bind[OF _ last]) (simp add: triple_def)
qed

lemma armed_work_off:
  "triple (\<lambda>w. map_of (n_armings w) (v_id (w_heap w r)) \<noteq> None) (do { push_now_or_report out r; markUnstaged out r; disarm r })
     (\<lambda>x. off_gauges r)"
proof -
  let ?P = "\<lambda>w. map_of (n_armings w) (v_id (w_heap w r)) \<noteq> None"
  have kept: "triple ?P m (\<lambda>x. ?P)" if "state_io_rel seated m" for m :: "('a, 'b) io"
    by (rule triple_bound[OF that]) (simp add: seated_def stable_def)
  have "triple ?P (disarm r) (\<lambda>x. off_gauges r)"
    by (auto simp: triple_def disarm_def volume_at_def metric_call_def off_gauges_def)
  then show ?thesis
    by (intro triple_bind[OF kept] seated_rules)
qed

text \<open>
  Property C18. An unstaged volume is on no gauge. In a cluster, from every state the node can reach, the unstage of a
  staged volume ends with none of the seven gauges holding the volume's labels, so a claim that left the
  node stops being reported.
\<close>

theorem an_unstaged_volume_leaves_the_gauges:
  assumes "node_reaches out inl w" and "o_cluster out" and "map_of (n_staged w) vid = Some r" and "vid \<noteq> []" and "staging \<noteq> []"
    and "run_state (NodeUnstageVolume out vid staging) w = (x, w')"
  shows "let m = registry (w_metrics w'); v = w_heap w' r in
    map_of (m_abnormal m) (health_labels v) = None \<and>
    map_of (m_armed m) (claim_labels v) = None \<and> map_of (m_pending m) (claim_labels v) = None \<and>
    map_of (m_unpushed m) (claim_labels v) = None \<and> map_of (m_skipped m) (claim_labels v) = None \<and>
    map_of (m_diverged m) (claim_labels v) = None \<and> map_of (m_lastPush m) (claim_labels v) = None"
proof -
  from node_reaches_ok[OF assms(1)] have ok: "node_ok out inl w" .
  let ?v = "w\<lparr>n_staged := delete_entry vid (n_staged w)\<rparr>"
  from ok assms(3) have vid: "v_id (w_heap w r) = vid" "v_kind (w_heap w r) \<noteq> inlineVolume"
    by (auto simp: node_ok_def books_ok_def)
  have run: "run_state (unstage_kind out r) ?v = (fst (run_state (unstage_kind out r) ?v), w')"
    using assms(3-6) by (simp add: NodeUnstageVolume_def case_prod_beta prod_eq_iff)
  have "off_gauges r w'"
  proof (cases "v_kind (w_heap w r) = readOnlyClaim")
    case True
    then have "run_state (unstageReadOnly out r) ?v = (fst (run_state (unstage_kind out r) ?v), w')"
      using run by (simp add: unstage_kind_def volume_at_def writeable_def)
    from tripleD[OF unstageReadOnly_off TrueI this] show ?thesis .
  next
    case False
    with vid(2) have writes: "writeable (w_heap w r)" by (cases "v_kind (w_heap w r)") (simp_all add: writeable_def)
    have "map_of (n_armings w) vid = Some r" using ok assms(2,3) writes by (simp add: node_ok_def armings_ok_def)
    then have armed: "map_of (n_armings ?v) (v_id (w_heap ?v r)) \<noteq> None" using vid(1) by simp
    have "run_state (do { push_now_or_report out r; markUnstaged out r; disarm r }) ?v = (fst (run_state (unstage_kind out r) ?v), w')"
      using run writes by (simp add: unstage_kind_def volume_at_def)
    from tripleD[OF armed_work_off armed this] show ?thesis .
  qed
  then obtain calls where calls: "w_metrics w' = calls @ [Forgotten (w_heap w' r)]" by (auto simp: off_gauges_def)
  show ?thesis
    unfolding Let_def registry_def calls
    by (simp add: forgotten_label armed_gauge.last_word_reads pending_gauge.last_word_reads unpushed_gauge.last_word_reads
        skipped_gauge.last_word_reads diverged_gauge.last_word_reads push_gauge.last_word_reads
        health_gauge.last_word_reads new_metrics_empty del: fold_append last_word.simps)
qed

definition claim_outside :: "unit outside" where
  "claim_outside = (still_outside (output_of ''c'') None)\<lparr>o_cluster := True\<rparr>"

definition claim_record :: volumeRecord where
  "claim_record = kept_record\<lparr>rc_Ephemeral := False, rc_Kind := readOnlyKind\<rparr>"

definition claim_world :: "unit world" where
  "claim_world = snd (run_state (perform claim_outside
     (Resumes claim_record [''store'', ''volumes'', ''csi-1''] [''/pods/1''])) follow_world)"

theorem an_unstaged_volume_leaves_the_gauges_witness:
  "\<exists>r x w'. map_of (n_staged claim_world) ''csi-1'' = Some r \<and>
     run_state (NodeUnstageVolume claim_outside ''csi-1'' ''/stage'') claim_world = (x, w') \<and>
     map_of (m_abnormal (registry (w_metrics w'))) (health_labels (w_heap w' r)) = None"
proof -
  let ?inl = "\<lambda>vid. False"
  have "empty_books follow_world" by (simp add: empty_books_def follow_world_def world_of_def)
  then have start: "node_reaches claim_outside ?inl follow_world" by (rule starts)
  have "allowed ?inl (Resumes claim_record [''store'', ''volumes'', ''csi-1''] [''/pods/1'']) follow_world" by code_simp
  from does[OF start this] have reached: "node_reaches claim_outside ?inl claim_world" by (simp only: claim_world_def)
  have staged: "map_of (n_staged claim_world) ''csi-1'' = Some 1" by code_simp
  obtain x w' where run: "run_state (NodeUnstageVolume claim_outside ''csi-1'' ''/stage'') claim_world = (x, w')" by (rule run_pair)
  have "o_cluster claim_outside" by (simp add: claim_outside_def)
  from an_unstaged_volume_leaves_the_gauges[OF reached this staged _ _ run] staged run show ?thesis by (auto simp: Let_def)
qed

end
