(* ===== verification/Commands.thy ===== *)
theory Commands
  imports Sweep
begin

section \<open>The command line (\<open>cli.go\<close>, \<open>main.go\<close>)\<close>

text \<open>
  The binary's two subcommands, each with its own flags, and the exit code of a run. Go's \<open>flag\<close> package is
  modelled as the driver uses it: a set of flags with their defaults, read off the front of the arguments until
  the first that is no flag. What is printed is a list of lines and usage texts; an error is its message. The
  signal that ends a run belongs to the server's life and is no part of it here.
\<close>

subsection \<open>Go's flag package\<close>

datatype flagValue = FlagString string | FlagDuration duration | FlagBool bool

record flagSet =
  fg_name :: string
  fg_flags :: "(string \<times> flagValue) list"

datatype printed = PrintedLine msg | PrintedUsage string

definition parse_bool :: "string \<Rightarrow> bool option" where
  "parse_bool s =
     (if s \<in> {''1'', ''t'', ''T'', ''true'', ''TRUE'', ''True''} then Some True
      else if s \<in> {''0'', ''f'', ''F'', ''false'', ''FALSE'', ''False''} then Some False
      else None)"

fun set_flag :: "flagValue \<Rightarrow> string \<Rightarrow> flagValue option" where
  "set_flag (FlagString old) s = Some (FlagString s)"
| "set_flag (FlagDuration old) s = map_option FlagDuration (parse_duration s)"
| "set_flag (FlagBool old) s = map_option FlagBool (parse_bool s)"

definition is_bool_flag :: "flagValue \<Rightarrow> bool" where
  "is_bool_flag v = (case v of FlagBool b \<Rightarrow> True | FlagString s \<Rightarrow> False | FlagDuration d \<Rightarrow> False)"

text \<open>A step over the arguments: it stops before the rest, takes a flag off them, or refuses with what it prints.\<close>

datatype flagStep = FlagsEnd "string list" | FlagTaken flagSet "string list" | FlagRefused "printed list" msg

definition errHelp :: msg where "errHelp = Plain ''flag: help requested''"

definition flag_failf :: "flagSet \<Rightarrow> msg \<Rightarrow> flagStep" where
  "flag_failf flags err = FlagRefused [PrintedLine err, PrintedUsage (fg_name flags)] err"

text \<open>The flag's name and its value: the first equals sign after the name's first character parts them.\<close>

definition flag_parts :: "string \<Rightarrow> string \<times> string option" where
  "flag_parts text =
     (case cut ''='' (tl text) of
        (name, given, found) \<Rightarrow> (hd text # name, if found then Some given else None))"

definition parse_one :: "flagSet \<Rightarrow> string list \<Rightarrow> flagStep" where
  "parse_one flags args =
     (case args of
        [] \<Rightarrow> FlagsEnd []
      | s # others \<Rightarrow>
          if length s < 2 \<or> hd s \<noteq> CHR ''-'' then FlagsEnd args
          else if s = ''--'' then FlagsEnd others
          else
            let text = (if s ! 1 = CHR ''-'' then drop 2 s else drop 1 s) in
            if text = [] \<or> hd text = CHR ''-'' \<or> hd text = CHR ''='' then flag_failf flags (Fmt ''bad flag syntax: %s'' [AStr s])
            else
              let (name, given) = flag_parts text in
              (case map_of (fg_flags flags) name of
                 None \<Rightarrow>
                   if name = ''help'' \<or> name = ''h'' then FlagRefused [PrintedUsage (fg_name flags)] errHelp
                   else flag_failf flags (Fmt ''flag provided but not defined: -%s'' [AStr name])
               | Some held \<Rightarrow>
                   if is_bool_flag held then
                     let s = (case given of Some s \<Rightarrow> s | None \<Rightarrow> ''true'') in
                     (case set_flag held s of
                        None \<Rightarrow> flag_failf flags (Fmt ''invalid boolean value %q for -%s: %v'' [AStr s, AStr name, AStr ''parse error''])
                      | Some new \<Rightarrow> FlagTaken (flags\<lparr>fg_flags := set_entry name new (fg_flags flags)\<rparr>) others)
                   else
                     (case (case given of Some s \<Rightarrow> Some (s, others) | None \<Rightarrow> (case others of [] \<Rightarrow> None | s # others' \<Rightarrow> Some (s, others'))) of
                        None \<Rightarrow> flag_failf flags (Fmt ''flag needs an argument: -%s'' [AStr name])
                      | Some (s, others') \<Rightarrow>
                          (case set_flag held s of
                             None \<Rightarrow> flag_failf flags (Fmt ''invalid value %q for flag -%s: %v'' [AStr s, AStr name, AStr ''parse error''])
                           | Some new \<Rightarrow> FlagTaken (flags\<lparr>fg_flags := set_entry name new (fg_flags flags)\<rparr>) others'))))"

lemma parse_one_shorter: "parse_one flags args = FlagTaken flags' others \<Longrightarrow> length others < length args"
  by (auto simp: parse_one_def flag_failf_def Let_def split: list.splits if_splits option.splits prod.splits)

function parse_flags :: "flagSet \<Rightarrow> string list \<Rightarrow> printed list \<times> (msg + flagSet)" where
  "parse_flags flags args =
     (case parse_one flags args of
        FlagsEnd others \<Rightarrow> ([], Inr flags)
      | FlagRefused out err \<Rightarrow> (out, Inl err)
      | FlagTaken flags' others \<Rightarrow> parse_flags flags' others)"
  by pat_completeness auto
termination by (relation "measure (length \<circ> snd)") (auto dest: parse_one_shorter)

declare parse_flags.simps [simp del]

definition string_flag :: "flagSet \<Rightarrow> string \<Rightarrow> string" where
  "string_flag flags name = (case map_of (fg_flags flags) name of Some (FlagString s) \<Rightarrow> s | _ \<Rightarrow> [])"

definition duration_flag :: "flagSet \<Rightarrow> string \<Rightarrow> duration" where
  "duration_flag flags name = (case map_of (fg_flags flags) name of Some (FlagDuration d) \<Rightarrow> d | _ \<Rightarrow> 0)"

definition bool_flag :: "flagSet \<Rightarrow> string \<Rightarrow> bool" where
  "bool_flag flags name = (case map_of (fg_flags flags) name of Some (FlagBool b) \<Rightarrow> b | _ \<Rightarrow> False)"

subsection \<open>The configuration\<close>

record config =
  cfg_endpoint :: string
  cfg_nodeID :: string
  cfg_store :: string
  cfg_metrics :: string
  cfg_sweepAfter :: duration
  cfg_demandMin :: duration
  cfg_webhook :: string
  cfg_controller :: bool

definition defaultStore :: string where "defaultStore = ''/var/lib/liken/pod-storage/git-csi''"
definition defaultWebhook :: string where "defaultWebhook = '':8080''"
definition nodeCommand :: string where "nodeCommand = ''node''"
definition controllerCommand :: string where "controllerCommand = ''controller''"

type_synonym parsed = "printed list \<times> (msg + config option)"

definition report_problem :: "msg \<Rightarrow> parsed" where
  "report_problem err = ([PrintedLine err], Inl err)"

definition subcommand_required :: msg where
  "subcommand_required = Plain (''a subcommand is required: '' @ nodeCommand @ '' or '' @ controllerCommand)"

definition bareFlags :: flagSet where
  "bareFlags = \<lparr>fg_name = ''git-csi-driver'', fg_flags = [(''version'', FlagBool False)]\<rparr>"

definition parseBare :: "string \<Rightarrow> string list \<Rightarrow> parsed" where
  "parseBare version args =
     (case parse_flags bareFlags args of
        (out, Inl err) \<Rightarrow> (out, Inl err)
      | (out, Inr flags) \<Rightarrow>
          if \<not> bool_flag flags ''version'' then report_problem subcommand_required
          else ([PrintedLine (Plain version)], Inr None))"

definition nodeFlags :: flagSet where
  "nodeFlags = \<lparr>fg_name = nodeCommand, fg_flags =
     [(''endpoint'', FlagString ''unix:///csi/csi.sock''), (''node-id'', FlagString []), (''store'', FlagString defaultStore),
      (''metrics'', FlagString '':9200''), (''sweep-after'', FlagDuration defaultSweepAfter),
      (''demand-min-interval'', FlagDuration defaultDemandMin)]\<rparr>"

definition parseNode :: "string list \<Rightarrow> parsed" where
  "parseNode args =
     (case parse_flags nodeFlags args of
        (out, Inl err) \<Rightarrow> (out, Inl err)
      | (out, Inr flags) \<Rightarrow>
          if string_flag flags ''node-id'' = [] then report_problem (Plain ''--node-id is required'')
          else ([], Inr (Some \<lparr>cfg_endpoint = string_flag flags ''endpoint'', cfg_nodeID = string_flag flags ''node-id'',
            cfg_store = string_flag flags ''store'', cfg_metrics = string_flag flags ''metrics'',
            cfg_sweepAfter = duration_flag flags ''sweep-after'', cfg_demandMin = duration_flag flags ''demand-min-interval'',
            cfg_webhook = [], cfg_controller = False\<rparr>)))"

definition controllerFlags :: flagSet where
  "controllerFlags = \<lparr>fg_name = controllerCommand, fg_flags =
     [(''endpoint'', FlagString ''unix:///csi/csi.sock''), (''metrics'', FlagString '':9200''), (''webhook'', FlagString defaultWebhook)]\<rparr>"

definition parseController :: "string list \<Rightarrow> parsed" where
  "parseController args =
     (case parse_flags controllerFlags args of
        (out, Inl err) \<Rightarrow> (out, Inl err)
      | (out, Inr flags) \<Rightarrow>
          ([], Inr (Some \<lparr>cfg_endpoint = string_flag flags ''endpoint'', cfg_nodeID = [],
            cfg_store = defaultStore, cfg_metrics = string_flag flags ''metrics'', cfg_sweepAfter = 0, cfg_demandMin = 0,
            cfg_webhook = string_flag flags ''webhook'', cfg_controller = True\<rparr>)))"

definition parse_command :: "string \<Rightarrow> string list \<Rightarrow> parsed" where
  "parse_command version args =
     (case args of
        [] \<Rightarrow> report_problem subcommand_required
      | first # others \<Rightarrow>
          if first = nodeCommand then parseNode others
          else if first = controllerCommand then parseController others
          else if prefix ''-'' first then parseBare version args
          else report_problem (Fmt (''%q is not a subcommand: '' @ nodeCommand @ '' and '' @ controllerCommand @ '' are'') [AStr first]))"

text \<open>The exit code of a run, with what it prints. Building the server and serving it change the state \<open>'s\<close>.\<close>

definition runWith ::
  "string \<Rightarrow> (config \<Rightarrow> ('s, msg + 'server) state) \<Rightarrow> ('server \<Rightarrow> ('s, msg option) state) \<Rightarrow> string list \<Rightarrow>
   ('s, printed list \<times> nat) state" where
  "runWith version build serve args =
     (case parse_command version args of
        (out, Inl err) \<Rightarrow> return (out, 1)
      | (out, Inr None) \<Rightarrow> return (out, 0)
      | (out, Inr (Some cfg)) \<Rightarrow> do {
          built \<leftarrow> build cfg;
          case built of
            Inl err \<Rightarrow> return (out @ [PrintedLine err], 1)
          | Inr server \<Rightarrow> do {
              ended \<leftarrow> serve server;
              case ended of
                Some err \<Rightarrow> return (out @ [PrintedLine err], 1)
              | None \<Rightarrow> return (out, 0)
            }
        })"

subsection \<open>Reading back what was written\<close>

text \<open>A flag's setting in the four ways it can be written: one dash or two, the value joined by an equals sign or apart.\<close>

datatype spelling = Joined bool | Apart bool

definition dashes :: "bool \<Rightarrow> string" where "dashes two = (if two then ''--'' else ''-'')"

fun spelled :: "spelling \<times> string \<times> string \<Rightarrow> string list" where
  "spelled (Joined two, name, given) = [dashes two @ name @ ''='' @ given]"
| "spelled (Apart two, name, given) = [dashes two @ name, given]"

definition flag_name_ok :: "string \<Rightarrow> bool" where
  "flag_name_ok name \<longleftrightarrow> name \<noteq> [] \<and> hd name \<noteq> CHR ''-'' \<and> CHR ''='' \<notin> set name"

definition takes :: "flagSet \<Rightarrow> string \<times> string \<Rightarrow> bool" where
  "takes flags setting = (flag_name_ok (fst setting) \<and>
     (case map_of (fg_flags flags) (fst setting) of None \<Rightarrow> False | Some held \<Rightarrow> \<not> is_bool_flag held \<and> set_flag held (snd setting) \<noteq> None))"

definition apply_flag :: "flagSet \<Rightarrow> string \<times> string \<Rightarrow> flagSet" where
  "apply_flag flags setting = flags\<lparr>fg_flags :=
     set_entry (fst setting) (the (set_flag (the (map_of (fg_flags flags) (fst setting))) (snd setting))) (fg_flags flags)\<rparr>"

lemma flag_parts_joined: "flag_name_ok name \<Longrightarrow> flag_parts (name @ CHR ''='' # given) = (name, Some given)"
  by (cases name) (auto simp: flag_name_ok_def flag_parts_def cut_at)

lemma flag_parts_alone: "flag_name_ok name \<Longrightarrow> flag_parts name = (name, None)"
  by (cases name) (auto simp: flag_name_ok_def flag_parts_def cut_absent)

lemma parse_one_spelled:
  assumes "takes flags (name, given)"
  shows "parse_one flags (spelled (how, name, given) @ others) = FlagTaken (apply_flag flags (name, given)) others"
proof -
  from assms obtain held new where ok: "flag_name_ok name" and held: "map_of (fg_flags flags) name = Some held" "\<not> is_bool_flag held"
      and new: "set_flag held given = Some new"
    by (auto simp: takes_def split: option.splits)
  from ok obtain c cs where name: "name = c # cs" "c \<noteq> CHR ''-''" "c \<noteq> CHR ''=''" by (cases name) (auto simp: flag_name_ok_def)
  show ?thesis
    by (cases how) (use held new name in \<open>auto simp: parse_one_def dashes_def Let_def apply_flag_def
      flag_parts_joined[OF ok, unfolded name append_Cons] flag_parts_alone[OF ok, unfolded name]\<close>)
qed

lemma set_flag_kind: "set_flag held given = Some new \<Longrightarrow> set_flag new other = set_flag held other \<and> is_bool_flag new = is_bool_flag held"
  by (cases held) (auto simp: is_bool_flag_def)

lemma apply_flag_value:
  assumes "takes flags setting"
  shows "map_of (fg_flags (apply_flag flags setting)) name =
    (if name = fst setting then set_flag (the (map_of (fg_flags flags) name)) (snd setting) else map_of (fg_flags flags) name)"
  using assms by (auto simp: apply_flag_def takes_def map_of_set_entry split: option.splits)

lemma apply_flag_takes:
  assumes "takes flags setting" shows "takes (apply_flag flags setting) other = takes flags other"
proof -
  from assms obtain held new where "map_of (fg_flags flags) (fst setting) = Some held" "set_flag held (snd setting) = Some new"
    by (auto simp: takes_def split: option.splits)
  then show ?thesis
    using set_flag_kind[of held "snd setting" new] by (simp add: takes_def[of _ other] apply_flag_value[OF assms])
qed

lemma parse_flags_spelled:
  "(\<And>setting. setting \<in> set (map snd written) \<Longrightarrow> takes flags setting) \<Longrightarrow>
   parse_flags flags (concat (map spelled written) @ others) = parse_flags (foldl apply_flag flags (map snd written)) others"
proof (induction written arbitrary: flags)
  case Nil
  then show ?case by simp
next
  case (Cons w written)
  obtain how name given where w: "w = (how, name, given)" by (cases w)
  have takes: "takes flags (name, given)" using Cons.prems by (simp add: w)
  have step: "parse_flags flags (spelled w @ others') = parse_flags (apply_flag flags (name, given)) others'" for others'
    by (subst parse_flags.simps) (simp add: w parse_one_spelled[OF takes])
  show ?case
    using Cons.IH[of "apply_flag flags (name, given)"] Cons.prems
    by (simp add: step apply_flag_takes[OF takes]) (simp add: w)
qed

lemma settings_value:
  "(\<And>setting. setting \<in> set settings \<Longrightarrow> takes flags setting) \<Longrightarrow>
   map_of (fg_flags (foldl apply_flag flags settings)) name =
     (case map_of (rev settings) name of None \<Rightarrow> map_of (fg_flags flags) name
      | Some given \<Rightarrow> set_flag (the (map_of (fg_flags flags) name)) given)"
proof (induction settings arbitrary: flags)
  case Nil
  then show ?case by simp
next
  case (Cons s settings)
  have takes: "takes flags s" using Cons.prems by simp
  then obtain new where new: "set_flag (the (map_of (fg_flags flags) (fst s))) (snd s) = Some new" by (auto simp: takes_def split: option.splits)
  show ?case
    using Cons.IH[of "apply_flag flags s"] Cons.prems new set_flag_kind[OF new]
    by (auto simp: apply_flag_takes[OF takes] apply_flag_value[OF takes] map_add_def split: option.splits)
qed

definition ends_flags :: "string list \<Rightarrow> bool" where
  "ends_flags others = (case others of [] \<Rightarrow> True | a # _ \<Rightarrow> length a < 2 \<or> hd a \<noteq> CHR ''-'' \<or> a = ''--'')"

lemma parse_flags_ends: "ends_flags others \<Longrightarrow> parse_flags flags others = ([], Inr flags)"
  by (subst parse_flags.simps) (auto simp: parse_one_def ends_flags_def split: list.splits)

definition setting_of :: "(string \<times> string) list \<Rightarrow> string \<Rightarrow> string \<Rightarrow> string" where
  "setting_of settings name usual = (case map_of (rev settings) name of None \<Rightarrow> usual | Some given \<Rightarrow> given)"

definition duration_setting_of :: "(string \<times> string) list \<Rightarrow> string \<Rightarrow> duration \<Rightarrow> duration" where
  "duration_setting_of settings name usual =
     (case map_of (rev settings) name of None \<Rightarrow> usual | Some given \<Rightarrow> the (parse_duration given))"

definition node_setting_ok :: "string \<times> string \<Rightarrow> bool" where
  "node_setting_ok setting = (fst setting \<in> {''endpoint'', ''node-id'', ''store'', ''metrics''} \<or>
     fst setting \<in> {''sweep-after'', ''demand-min-interval''} \<and> parse_duration (snd setting) \<noteq> None)"

lemma node_flags_take: "node_setting_ok setting \<Longrightarrow> takes nodeFlags setting"
  by (auto simp: node_setting_ok_def takes_def nodeFlags_def flag_name_ok_def is_bool_flag_def)

lemma setting_read:
  assumes "\<And>setting. setting \<in> set settings \<Longrightarrow> takes flags setting" and "map_of (fg_flags flags) name = Some held"
  shows "held = FlagString s \<Longrightarrow> string_flag (foldl apply_flag flags settings) name = setting_of settings name s"
    and "held = FlagDuration d \<Longrightarrow> duration_flag (foldl apply_flag flags settings) name = duration_setting_of settings name d"
proof -
  have taken: "takes flags (name, given)" if "map_of (rev settings) name = Some given" for given
    using map_of_SomeD[OF that] assms(1) by auto
  show "string_flag (foldl apply_flag flags settings) name = setting_of settings name s" if "held = FlagString s"
    using assms(2) that by (simp add: string_flag_def setting_of_def settings_value[OF assms(1)] split: option.splits)
  show "duration_flag (foldl apply_flag flags settings) name = duration_setting_of settings name d" if "held = FlagDuration d"
    using assms(2) that taken
    by (auto simp: duration_flag_def duration_setting_of_def settings_value[OF assms(1)] takes_def split: option.splits)
qed

text \<open>
  Property C17. The node's command line reads back as what was written: settings given in any order, each in any of
  the four spellings of a flag, give a configuration that holds each flag's last value, and the default of each flag
  not given. Without a node's name there is no configuration. What follows the flags changes nothing.
\<close>

theorem the_command_line_reads_back:
  assumes "\<And>setting. setting \<in> set (map snd written) \<Longrightarrow> node_setting_ok setting" and "ends_flags others"
  shows "parse_command version (nodeCommand # concat (map spelled written) @ others) =
    (let settings = map snd written in
     if setting_of settings ''node-id'' [] = [] then ([PrintedLine (Plain ''--node-id is required'')], Inl (Plain ''--node-id is required''))
     else ([], Inr (Some \<lparr>cfg_endpoint = setting_of settings ''endpoint'' ''unix:///csi/csi.sock'',
       cfg_nodeID = setting_of settings ''node-id'' [], cfg_store = setting_of settings ''store'' defaultStore,
       cfg_metrics = setting_of settings ''metrics'' '':9200'',
       cfg_sweepAfter = duration_setting_of settings ''sweep-after'' (720 * hour),
       cfg_demandMin = duration_setting_of settings ''demand-min-interval'' (10 * second),
       cfg_webhook = [], cfg_controller = False\<rparr>)))"
proof -
  let ?flags = "foldl apply_flag nodeFlags (map snd written)"
  have ok: "takes nodeFlags setting" if "setting \<in> set (map snd written)" for setting
    using node_flags_take[OF assms(1)[OF that]] .
  have parsed: "parse_flags nodeFlags (concat (map spelled written) @ others) = ([], Inr ?flags)"
    using parse_flags_spelled[of written nodeFlags others, OF ok] parse_flags_ends[OF assms(2)] by simp
  have read: "string_flag ?flags ''endpoint'' = setting_of (map snd written) ''endpoint'' ''unix:///csi/csi.sock''"
    "string_flag ?flags ''node-id'' = setting_of (map snd written) ''node-id'' []"
    "string_flag ?flags ''store'' = setting_of (map snd written) ''store'' defaultStore"
    "string_flag ?flags ''metrics'' = setting_of (map snd written) ''metrics'' '':9200''"
    "duration_flag ?flags ''sweep-after'' = duration_setting_of (map snd written) ''sweep-after'' (720 * hour)"
    "duration_flag ?flags ''demand-min-interval'' = duration_setting_of (map snd written) ''demand-min-interval'' (10 * second)"
    by (rule setting_read[OF ok], simp, simp add: nodeFlags_def, simp add: defaultSweepAfter_def defaultDemandMin_def)+
  show ?thesis
    unfolding parse_command_def parseNode_def list.case parsed
    by (simp add: read report_problem_def Let_def)
qed

theorem the_command_line_reads_back_witness:
  "parse_command ''dev'' [''node'', ''--node-id=a'', ''-node-id'', ''b'', ''-sweep-after=5m'', ''x''] =
     ([], Inr (Some \<lparr>cfg_endpoint = ''unix:///csi/csi.sock'', cfg_nodeID = ''b'', cfg_store = defaultStore, cfg_metrics = '':9200'',
       cfg_sweepAfter = 5 * minute, cfg_demandMin = 10 * second, cfg_webhook = [], cfg_controller = False\<rparr>))"
proof -
  let ?written = "[(Joined True, ''node-id'', ''a''), (Apart False, ''node-id'', ''b''), (Joined False, ''sweep-after'', ''5m'')]"
  have "node_setting_ok setting" if "setting \<in> set (map snd ?written)" for setting
    using that parse_duration_5m by (auto simp: node_setting_ok_def)
  moreover have "ends_flags [''x'']" by (simp add: ends_flags_def)
  ultimately show ?thesis
    using the_command_line_reads_back[of ?written "[''x'']" "''dev''"]
    by (simp add: nodeCommand_def dashes_def setting_of_def duration_setting_of_def parse_duration_5m)
qed

subsection \<open>What a run ends with\<close>

definition flags_in_range :: "flagSet \<Rightarrow> bool" where
  "flags_in_range flags \<longleftrightarrow> (\<forall>d. FlagDuration d \<in> snd ` set (fg_flags flags) \<longrightarrow> - (2 ^ 63) \<le> d \<and> d < 2 ^ 63)"

lemma set_flag_in_range: "set_flag held s = Some (FlagDuration d) \<Longrightarrow> - (2 ^ 63) \<le> d \<and> d < 2 ^ 63"
  by (cases held) (auto dest: parse_duration_range)

lemma parse_one_taken:
  "parse_one flags args = FlagTaken flags' others \<Longrightarrow>
   \<exists>held name s new. set_flag held s = Some new \<and> flags' = flags\<lparr>fg_flags := set_entry name new (fg_flags flags)\<rparr>"
  unfolding parse_one_def flag_failf_def Let_def
  by (simp split: list.splits if_splits option.splits prod.splits) blast+

lemma taken_in_range:
  assumes "parse_one flags args = FlagTaken flags' others" and "flags_in_range flags"
  shows "flags_in_range flags'"
proof -
  from parse_one_taken[OF assms(1)] obtain held name s new where new: "set_flag held s = Some new"
    and flags': "flags' = flags\<lparr>fg_flags := set_entry name new (fg_flags flags)\<rparr>" by blast
  show ?thesis
    using assms(2) set_flag_in_range[of held s] new by (auto simp: flags' flags_in_range_def set_entry_def)
qed

lemma parse_flags_result:
  "(\<forall>flags'. parse_flags flags args = (out, Inr flags') \<longrightarrow> out = [] \<and> (flags_in_range flags \<longrightarrow> flags_in_range flags')) \<and>
   (\<forall>err. parse_flags flags args = (out, Inl err) \<longrightarrow> out \<noteq> [])"
proof (induction flags args rule: parse_flags.induct)
  case (1 flags args)
  have refused: "printed \<noteq> []" if "parse_one flags args = FlagRefused printed err" for printed err
    using that by (auto simp: parse_one_def flag_failf_def Let_def split: list.splits if_splits option.splits prod.splits)
  show ?case
    by (subst (1 2) parse_flags.simps) (use 1 refused taken_in_range in \<open>auto split: flagStep.splits\<close>)
qed

lemma duration_in_range: "flags_in_range flags \<Longrightarrow> - (2 ^ 63) \<le> duration_flag flags name \<and> duration_flag flags name < 2 ^ 63"
  by (auto simp: flags_in_range_def duration_flag_def image_iff split: option.splits flagValue.splits dest!: map_of_SomeD)
    (metis snd_conv)+

text \<open>What the server is built from: a node's configuration or a controller's, never a mix.\<close>

definition whole_config :: "config \<Rightarrow> bool" where
  "whole_config cfg \<longleftrightarrow>
     (if cfg_controller cfg then cfg_nodeID cfg = [] \<and> cfg_store cfg = defaultStore \<and> cfg_sweepAfter cfg = 0 \<and> cfg_demandMin cfg = 0
      else cfg_nodeID cfg \<noteq> [] \<and> cfg_webhook cfg = []) \<and>
     - (2 ^ 63) \<le> cfg_sweepAfter cfg \<and> cfg_sweepAfter cfg < 2 ^ 63 \<and> - (2 ^ 63) \<le> cfg_demandMin cfg \<and> cfg_demandMin cfg < 2 ^ 63"

lemma parse_command_result:
  assumes "parse_command version args = (out, parsed)"
  shows "case parsed of Inl err \<Rightarrow> out \<noteq> [] | Inr None \<Rightarrow> out = [PrintedLine (Plain version)] | Inr (Some cfg) \<Rightarrow> out = [] \<and> whole_config cfg"
proof -
  have "flags_in_range nodeFlags" by (auto simp: flags_in_range_def nodeFlags_def defaultSweepAfter_def defaultDemandMin_def)
  then have node: "flags_in_range flags" if "parse_flags nodeFlags args = (out, Inr flags)" for args out flags
    using parse_flags_result[of nodeFlags args out] that by blast
  show ?thesis
    using assms parse_flags_result duration_in_range[OF node]
    by (auto simp: parse_command_def parseNode_def parseController_def parseBare_def report_problem_def whole_config_def
        split: list.splits if_splits prod.splits sum.splits)
qed

text \<open>
  A run serves only a whole configuration, and a failed run says why: its exit code is 0 or 1. With 0
  it has printed the version and done nothing, or it has built a server from the configuration of one of the two
  plugins and served it to the end with nothing printed; with 1 it has printed something.
\<close>

theorem a_run_serves_a_whole_configuration:
  assumes "run_state (runWith version build serve args) s = ((out, code), s')"
  shows "code = 0 \<and> (out = [PrintedLine (Plain version)] \<and> s' = s \<or>
      out = [] \<and> (\<exists>cfg server served. whole_config cfg \<and> run_state (build cfg) s = (Inr server, served) \<and>
        run_state (serve server) served = (None, s'))) \<or>
    code = 1 \<and> out \<noteq> []"
proof -
  obtain printed parsed where parsed: "parse_command version args = (printed, parsed)" by fastforce
  from parse_command_result[OF parsed] assms show ?thesis
    by (auto simp: runWith_def parsed split: sum.splits option.splits prod.splits)
qed

theorem a_run_serves_a_whole_configuration_witness:
  "\<exists>out s'. run_state (runWith ''dev'' (\<lambda>cfg. return (Inr cfg)) (\<lambda>cfg. return None) [''controller'', ''--node-id'', ''a'']) (0::nat) = ((out, 1), s') \<and> out \<noteq> []"
proof -
  let ?run = "run_state (runWith ''dev'' (\<lambda>cfg. return (Inr cfg)) (\<lambda>cfg. return None) [''controller'', ''--node-id'', ''a'']) (0::nat)"
  have "snd (fst ?run) = 1" by code_simp
  then obtain out s' where run: "?run = ((out, 1), s')" by (cases ?run) (auto simp: prod_eq_iff)
  from a_run_serves_a_whole_configuration[OF run] run show ?thesis by auto
qed

end
