(* ===== verification/Services.thy ===== *)
theory Services
  imports Commands NodeRuns Metrics Webhook
begin

section \<open>The server and its services (\<open>server.go\<close>, \<open>identity.go\<close>, \<open>controller.go\<close>)\<close>

text \<open>
  A start takes the socket, builds the services the subcommand asks for and opens their listeners, in the order
  of the code, and any step can fail. The state is the node's world, the listeners that are open, the services
  registered and the loops started. Whether an address can be listened on, and whether the pod has a cluster's
  credentials, are parameters. The gRPC and HTTP servers are not modelled beyond what they are handed, and
  a Unix listener's socket file is no part of the files here.
\<close>

subsection \<open>The state of a start\<close>

datatype service = IdentityService | ControllerService | CapabilitiesService | NodeService

datatype background = MeasuringStore | FollowingDemands | Sweeping | ServingMetrics | ServingHooks

record 'g process =
  st_world :: "'g world"
  st_open :: "(nat \<times> string \<times> string) list"
  st_opened :: nat
  st_registered :: "service list"
  st_running :: "background list"
  st_readings :: metrics
  st_stopped :: bool

datatype serveError = ErrServerStopped | ServeFailed msg

text \<open>How a serve ends: the gRPC server returns by itself, or the run ends and the server is stopped.\<close>

datatype serveEnd = ServeReturned "msg option" | RunEnded "serveError option"

record 'g surroundings =
  so_node :: "'g outside"
  so_version :: string
  so_listen :: "nat \<Rightarrow> string \<Rightarrow> string \<Rightarrow> msg option"
  so_config :: "msg option"
  so_client :: "msg option"
  so_ending :: serveEnd

record hooks =
  hk_client :: bool
  hk_listener :: "nat option"

record server =
  sv_listener :: nat
  sv_metrics :: "nat option"
  sv_hooks :: "hooks option"

type_synonym ('g, 'a) starting = "('g process, 'a) state"

definition on_world :: "('g, 'a) io \<Rightarrow> ('g, 'a) starting" where
  "on_world m = State (\<lambda>s. let (x, w) = run_state m (st_world s) in (x, s\<lparr>st_world := w\<rparr>))"

text \<open>\<open>net.Listen\<close>: a listener is known by the number it was opened under.\<close>

definition net_listen :: "'g surroundings \<Rightarrow> string \<Rightarrow> string \<Rightarrow> ('g, msg + nat) starting" where
  "net_listen so network address = State (\<lambda>s.
     let n = st_opened s; s = s\<lparr>st_opened := Suc n\<rparr> in
     case so_listen so n network address of
       Some err \<Rightarrow> (Inl err, s)
     | None \<Rightarrow> (Inr n, s\<lparr>st_open := st_open s @ [(n, network, address)]\<rparr>))"

definition closeAll :: "nat option list \<Rightarrow> ('g, unit) starting" where
  "closeAll listeners = modify (\<lambda>s. s\<lparr>st_open := filter (\<lambda>l. Some (fst l) \<notin> set listeners) (st_open s)\<rparr>)"

definition register_service :: "service \<Rightarrow> ('g, unit) starting" where
  "register_service service = modify (\<lambda>s. s\<lparr>st_registered := st_registered s @ [service]\<rparr>)"

definition go_background :: "background \<Rightarrow> ('g, unit) starting" where
  "go_background loop = modify (\<lambda>s. s\<lparr>st_running := st_running s @ [loop]\<rparr>)"

subsection \<open>The node and the controller\<close>

text \<open>Whether the pod's own credentials give a client: without one the driver posts no Event and watches nothing.\<close>

definition eventsFrom :: "'g surroundings \<Rightarrow> bool" where
  "eventsFrom so = (so_config so = None \<and> so_client so = None)"

text \<open>The node a configuration asks for: its settings, over empty books.\<close>

definition node_outside :: "'g surroundings \<Rightarrow> config \<Rightarrow> 'g outside" where
  "node_outside so cfg = (so_node so)\<lparr>o_cluster := eventsFrom so, o_store := read_path (cfg_store cfg), o_quiesce := defaultQuiesce,
     o_sweepAfter := cfg_sweepAfter cfg, o_demandMin := cfg_demandMin cfg\<rparr>"

definition newNode :: "'g world \<Rightarrow> 'g world" where
  "newNode w = w\<lparr>n_volumes := [], n_followers := [], n_staged := [], n_watchers := [], n_armings := [], n_abandoned := [], n_kept := [], n_seen := []\<rparr>"

definition NodeGetInfo :: "config \<Rightarrow> string" where
  "NodeGetInfo cfg = cfg_nodeID cfg"

definition clusterClient :: "'g surroundings \<Rightarrow> bool" where
  "clusterClient so = (so_config so = None \<and> so_client so = None)"

definition newWebhook :: "'g surroundings \<Rightarrow> config \<Rightarrow> ('g, msg + hooks) starting" where
  "newWebhook so cfg = do {
     let client = clusterClient so;
     if cfg_webhook cfg = [] then return (Inr \<lparr>hk_client = client, hk_listener = None\<rparr>)
     else do {
       taken \<leftarrow> net_listen so ''tcp'' (cfg_webhook cfg);
       case taken of Inl err \<Rightarrow> return (Inl err)
       | Inr listener \<Rightarrow> return (Inr \<lparr>hk_client = client, hk_listener = Some listener\<rparr>)
     }
   }"

definition metrics_listen :: "'g surroundings \<Rightarrow> string \<Rightarrow> ('g, msg + nat option) starting" where
  "metrics_listen so address =
     (if address = [] then return (Inr None)
      else do {
        taken \<leftarrow> net_listen so ''tcp'' address;
        case taken of Inl err \<Rightarrow> return (Inl err) | Inr listener \<Rightarrow> return (Inr (Some listener))
      })"

definition start_controller :: "'g surroundings \<Rightarrow> config \<Rightarrow> ('g, msg + hooks option) starting" where
  "start_controller so cfg = do {
     register_service ControllerService;
     register_service CapabilitiesService;
     hooks \<leftarrow> newWebhook so cfg;
     case hooks of Inl err \<Rightarrow> return (Inl err) | Inr hooks \<Rightarrow> return (Inr (Some hooks))
   }"

definition start_node :: "'g surroundings \<Rightarrow> config \<Rightarrow> ('g, msg + hooks option) starting" where
  "start_node so cfg = do {
     on_world (modify newNode);
     on_world (resume (node_outside so cfg));
     go_background MeasuringStore;
     go_background FollowingDemands;
     go_background Sweeping;
     register_service NodeService;
     return (Inr None)
   }"

subsection \<open>The start and the serve\<close>

definition endpointScheme :: string where "endpointScheme = ''unix://''"

definition start_services :: "'g surroundings \<Rightarrow> config \<Rightarrow> nat \<Rightarrow> ('g, msg + server) starting" where
  "start_services so cfg listener = do {
     modify (\<lambda>s. s\<lparr>st_readings := reportBuildInfo (so_version so) newMetrics\<rparr>);
     register_service IdentityService;
     hooks \<leftarrow> (if cfg_controller cfg then start_controller so cfg else start_node so cfg);
     case hooks of
       Inl err \<Rightarrow> do { closeAll [Some listener]; return (Inl err) }
     | Inr hooks \<Rightarrow> do {
         taken \<leftarrow> metrics_listen so (cfg_metrics cfg);
         case taken of
           Inl err \<Rightarrow> do {
             closeAll [Some listener, case hooks of None \<Rightarrow> None | Some hooks \<Rightarrow> hk_listener hooks];
             return (Inl err)
           }
         | Inr metrics \<Rightarrow> return (Inr \<lparr>sv_listener = listener, sv_metrics = metrics, sv_hooks = hooks\<rparr>)
       }
   }"

definition newServer :: "'g surroundings \<Rightarrow> config \<Rightarrow> ('g, msg + server) starting" where
  "newServer so cfg =
     (let (socket, found) = cut_prefix endpointScheme (cfg_endpoint cfg) in
      if \<not> found then return (Inl (Fmt ''--endpoint %q does not begin with %s'' [AStr (cfg_endpoint cfg), AStr endpointScheme]))
      else do {
        made \<leftarrow> on_world (MkdirAll (so_node so) (read_path (cfg_store cfg)) 493);
        case made of
          Some err \<Rightarrow> return (Inl (Plain err))
        | None \<Rightarrow> do {
            removed \<leftarrow> on_world (Remove (so_node so) (read_path socket));
            if removed \<noteq> None \<and> removed \<noteq> Some (os_error ''remove'' (read_path socket) noent)
            then return (Inl (Plain (the removed)))
            else do {
              taken \<leftarrow> net_listen so ''unix'' socket;
              case taken of
                Inl err \<Rightarrow> return (Inl err)
              | Inr listener \<Rightarrow> start_services so cfg listener
            }
          }
      })"

definition serve :: "'g surroundings \<Rightarrow> server \<Rightarrow> ('g, msg option) starting" where
  "serve so s = do {
     (if sv_metrics s \<noteq> None then go_background ServingMetrics else return ());
     (if sv_hooks s \<noteq> None then go_background ServingHooks else return ());
     case so_ending so of
       ServeReturned err \<Rightarrow> return err
     | RunEnded err \<Rightarrow> do {
         modify (\<lambda>p. p\<lparr>st_stopped := True\<rparr>);
         case err of Some (ServeFailed err) \<Rightarrow> return (Some err) | _ \<Rightarrow> return None
       }
   }"

definition run_process :: "'g surroundings \<Rightarrow> string list \<Rightarrow> ('g, printed list \<times> nat) starting" where
  "run_process so args = runWith (so_version so) (newServer so) (serve so) args"

text \<open>The sweeps of a run: one pass per tick until the driver stops.\<close>

primrec sweeping :: "'g outside \<Rightarrow> nat \<Rightarrow> ('g, unit) io" where
  "sweeping out 0 = return ()"
| "sweeping out (Suc ticks) = do { sweepStore out; sweeping out ticks }"

subsection \<open>Identity\<close>

definition GetPluginInfo :: "string \<Rightarrow> string \<times> string" where
  "GetPluginInfo version = (driverName, version)"

datatype pluginCapability = CONTROLLER_SERVICE

definition GetPluginCapabilities :: "bool \<Rightarrow> pluginCapability list" where
  "GetPluginCapabilities controller = (if controller then [CONTROLLER_SERVICE] else [])"

text \<open>\<open>os.CreateTemp\<close> tries names until one is free; \<open>ending\<close> is the end of the name it settled on.\<close>

definition os_create_new :: "owner \<Rightarrow> path \<Rightarrow> files \<Rightarrow> string + files" where
  "os_create_new own p fs =
     (if look fs p \<noteq> None then Inl (os_error ''open'' p ''file exists'') else os_write own p [] 384 fs)"

definition storeIsWriteable :: "'g outside \<Rightarrow> string \<Rightarrow> ('g, bool) io" where
  "storeIsWriteable out ending = do {
     let p = o_store out @ [''.probe-'' @ ending];
     failed \<leftarrow> os_change out (CallWrite p []) (os_create_new (o_owner out) p);
     if failed \<noteq> None then return False
     else do { _ \<leftarrow> Remove out p; return True }
   }"

definition Probe :: "'g outside \<Rightarrow> string \<Rightarrow> ('g, bool) io" where
  "Probe out ending = storeIsWriteable out ending"

subsection \<open>The controller's calls\<close>

datatype controllerCapability = MODIFY_VOLUME

definition ControllerGetCapabilities :: "controllerCapability list" where
  "ControllerGetCapabilities = [MODIFY_VOLUME]"

definition ControllerModifyVolume :: "(string \<Rightarrow> int option) \<Rightarrow> (string \<times> string) list \<Rightarrow> status option" where
  "ControllerModifyVolume quantity parameters =
     (case parsePolicy quantity parameters of Inl err \<Rightarrow> Some err | Inr rules \<Rightarrow> None)"

definition controller_node_capabilities :: "nodeCapability list" where
  "controller_node_capabilities = []"

definition controller_node_info :: status where
  "controller_node_info = unimplemented ''NodeGetInfo'' ''the controller plugin holds no node's volumes''"

text \<open>The calls the controller answers with \<open>Unimplemented\<close>, each with what it tells.\<close>

definition controller_refusals :: "(string \<times> string) list" where
  "controller_refusals =
     [(''CreateVolume'', ''never; a person makes the repository''),
      (''DeleteVolume'', ''never; the driver removes no repository''),
      (''ControllerPublishVolume'', ''never; there is no attach step''),
      (''ControllerUnpublishVolume'', ''never; there is no attach step''),
      (''ValidateVolumeCapabilities'', ''never; the node plugin refuses a mode it cannot serve at stage''),
      (''ListVolumes'', ''never; the controller holds no volume''),
      (''GetCapacity'', ''never; a git volume has no capacity''),
      (''CreateSnapshot'', ''never; the repository is the history''),
      (''DeleteSnapshot'', ''never; the repository is the history''),
      (''ListSnapshots'', ''never; the repository is the history''),
      (''GetSnapshot'', ''never; the repository is the history''),
      (''ControllerExpandVolume'', ''never; git volumes have no size''),
      (''ControllerGetVolume'', ''never; the controller holds no volume'')]"

definition controller_refuses :: "string \<Rightarrow> status option" where
  "controller_refuses rpc = map_option (unimplemented rpc) (map_of controller_refusals rpc)"

subsection \<open>One call: its log line and its counters\<close>

definition operationName :: "string \<Rightarrow> string" where
  "operationName fullMethod =
     (if CHR ''/'' \<in> set fullMethod then rev (takeWhile (\<lambda>c. c \<noteq> CHR ''/'') (rev fullMethod)) else fullMethod)"

record callBook =
  cb_readings :: metrics
  cb_lines :: "(string \<times> code option) list"

text \<open>A call as the handler answered it: its method, its status, and whether the handler marked it quiet.\<close>

record answeredCall =
  call_method :: string
  call_status :: "status option"
  call_quiet :: bool

definition recordCalls :: "answeredCall \<Rightarrow> metrics \<Rightarrow> metrics" where
  "recordCalls call m = observeCall (operationName (call_method call)) (call_status call \<noteq> None) m"

definition logCalls :: "answeredCall \<Rightarrow> (string \<times> code option) list \<Rightarrow> (string \<times> code option) list" where
  "logCalls call lines =
     (if call_status call = None \<and> call_quiet call then lines
      else lines @ [(call_method call, map_option status_code (call_status call))])"

definition intercepted :: "answeredCall \<Rightarrow> callBook \<Rightarrow> callBook" where
  "intercepted call b = b\<lparr>cb_readings := recordCalls call (cb_readings b), cb_lines := logCalls call (cb_lines b)\<rparr>"

subsection \<open>What a start leaves\<close>

definition fresh_process :: "'g world \<Rightarrow> 'g process" where
  "fresh_process w = \<lparr>st_world = w, st_open = [], st_opened = 0, st_registered = [], st_running = [],
     st_readings = newMetrics, st_stopped = False\<rparr>"

definition open_as :: "nat option \<Rightarrow> string \<Rightarrow> string \<Rightarrow> (nat \<times> string \<times> string) list" where
  "open_as taken network address = (case taken of None \<Rightarrow> [] | Some n \<Rightarrow> [(n, network, address)])"

lemma on_world_fields:
  "run_state (on_world m) s = (x, s') \<Longrightarrow> \<exists>w. s' = s\<lparr>st_world := w\<rparr> \<and> run_state m (st_world s) = (x, w)"
  by (auto simp: on_world_def split: prod.splits)

lemma start_node_run:
  "run_state (start_node so cfg) s = (Inr None, s\<lparr>st_world := snd (run_state (resume (node_outside so cfg)) (newNode (st_world s))),
     st_running := st_running s @ [MeasuringStore, FollowingDemands, Sweeping], st_registered := st_registered s @ [NodeService]\<rparr>)"
  by (simp add: start_node_def on_world_def go_background_def register_service_def split: prod.split)

definition started :: "'g surroundings \<Rightarrow> config \<Rightarrow> server \<Rightarrow> 'g process \<Rightarrow> bool" where
  "started so cfg server s \<longleftrightarrow>
     st_open s = open_as (Some (sv_listener server)) ''unix'' (fst (cut_prefix endpointScheme (cfg_endpoint cfg))) @
       open_as (case sv_hooks server of None \<Rightarrow> None | Some hooks \<Rightarrow> hk_listener hooks) ''tcp'' (cfg_webhook cfg) @
       open_as (sv_metrics server) ''tcp'' (cfg_metrics cfg) \<and>
     (sv_metrics server = None \<longleftrightarrow> cfg_metrics cfg = []) \<and>
     (case sv_hooks server of None \<Rightarrow> \<not> cfg_controller cfg
      | Some hooks \<Rightarrow> cfg_controller cfg \<and> (hk_listener hooks = None \<longleftrightarrow> cfg_webhook cfg = [])) \<and>
     st_registered s = (if cfg_controller cfg then [IdentityService, ControllerService, CapabilitiesService] else [IdentityService, NodeService]) \<and>
     st_running s = (if cfg_controller cfg then [] else [MeasuringStore, FollowingDemands, Sweeping])"

lemma start_services_leaves:
  assumes "st_open s = [(0, ''unix'', fst (cut_prefix endpointScheme (cfg_endpoint cfg)))]" "st_opened s = 1" "st_registered s = []" "st_running s = []"
    and "run_state (start_services so cfg 0) s = (answer, s')"
  shows "case answer of Inl err \<Rightarrow> st_open s' = [] | Inr server \<Rightarrow> started so cfg server s'"
proof (cases "cfg_controller cfg")
  case True
  then show ?thesis
    using assms by (auto simp: start_services_def start_controller_def newWebhook_def metrics_listen_def net_listen_def closeAll_def
      register_service_def started_def open_as_def Let_def split: if_splits option.splits sum.splits prod.splits)
next
  case False
  then show ?thesis
    using assms by (auto simp: start_services_def start_node_run metrics_listen_def net_listen_def closeAll_def
      register_service_def started_def open_as_def Let_def split: if_splits option.splits sum.splits prod.splits)
qed

text \<open>
  Property C15. A start takes all of its listeners or holds none. When any step of a start fails, no listener is left
  open; when it succeeds, exactly the socket, the controller's webhook address and the metrics address the
  configuration names are open, the services are those of the one plugin asked for, and a node's loops
  run over a world the store's records were resumed into. A start that cannot make its store opens nothing at all.
\<close>

theorem a_failed_start_leaves_nothing_open:
  assumes "run_state (newServer so cfg) (fresh_process w) = (answer, s)"
  shows "(case answer of
      Inl err \<Rightarrow> st_open s = []
    | Inr server \<Rightarrow> started so cfg server s \<and> (\<not> cfg_controller cfg \<longrightarrow>
        (\<exists>fresh. empty_books fresh \<and> st_world s = snd (run_state (resume (node_outside so cfg)) fresh)))) \<and>
    (fst (run_state (MkdirAll (so_node so) (read_path (cfg_store cfg)) 493) w) \<noteq> None \<longrightarrow> st_opened s = 0)"
proof -
  obtain socket found where socket: "cut_prefix endpointScheme (cfg_endpoint cfg) = (socket, found)" by fastforce
  obtain made w1 where made: "run_state (MkdirAll (so_node so) (read_path (cfg_store cfg)) 493) w = (made, w1)" by fastforce
  obtain removed w2 where removed: "run_state (Remove (so_node so) (read_path socket)) w1 = (removed, w2)" by fastforce
  let ?kept = "removed \<noteq> None \<and> removed \<noteq> Some (os_error ''remove'' (read_path socket) noent)"
  consider "\<not> found \<or> made \<noteq> None \<or> ?kept \<or> so_listen so 0 ''unix'' socket \<noteq> None"
    | "found" "made = None" "\<not> ?kept" "so_listen so 0 ''unix'' socket = None" by blast
  then show ?thesis
  proof cases
    case 1
    then show ?thesis
      using assms by (auto simp: newServer_def socket made removed on_world_def fresh_process_def net_listen_def Let_def split: if_splits option.splits)
  next
    case 2
    let ?s = "(fresh_process w)\<lparr>st_world := w2, st_opened := 1, st_open := [(0, ''unix'', socket)]\<rparr>"
    have run: "run_state (start_services so cfg 0) ?s = (answer, s)"
      using assms 2 by (auto simp: newServer_def socket made removed on_world_def fresh_process_def net_listen_def Let_def)
    have "case answer of Inl err \<Rightarrow> st_open s = [] | Inr server \<Rightarrow> started so cfg server s"
      by (rule start_services_leaves[OF _ _ _ _ run]) (simp_all add: socket fresh_process_def)
    moreover have "\<exists>fresh. empty_books fresh \<and> st_world s = snd (run_state (resume (node_outside so cfg)) fresh)"
      if "\<not> cfg_controller cfg"
    proof (intro exI conjI)
      show "empty_books (newNode w2)" by (simp add: empty_books_def newNode_def)
      show "st_world s = snd (run_state (resume (node_outside so cfg)) (newNode w2))"
        using run that by (auto simp: start_services_def start_node_run metrics_listen_def net_listen_def closeAll_def
          register_service_def Let_def split: if_splits option.splits sum.splits prod.splits)
    qed
    ultimately show ?thesis using made 2 by (auto split: sum.splits)
  qed
qed

definition small_config :: config where
  "small_config = \<lparr>cfg_endpoint = ''unix:///csi.sock'', cfg_nodeID = [], cfg_store = ''/store'', cfg_metrics = '':9200'',
     cfg_sweepAfter = 0, cfg_demandMin = 0, cfg_webhook = '':8080'', cfg_controller = True\<rparr>"

definition taken_metrics :: "unit surroundings" where
  "taken_metrics = \<lparr>so_node = still_outside (output_of ''c'') None, so_version = ''dev'',
     so_listen = (\<lambda>n network address. if address = '':9200'' then Some (Plain ''address already in use'') else None),
     so_config = None, so_client = None, so_ending = RunEnded None\<rparr>"

theorem a_failed_start_leaves_nothing_open_witness:
  "\<exists>err s. run_state (newServer taken_metrics small_config) (fresh_process follow_world) = (Inl err, s) \<and> st_opened s = 3 \<and> st_open s = []"
proof -
  let ?run = "run_state (newServer taken_metrics small_config) (fresh_process follow_world)"
  have failed: "(case fst ?run of Inl err \<Rightarrow> True | Inr server \<Rightarrow> False)" and three: "st_opened (snd ?run) = 3" by code_simp+
  from failed obtain err where run: "?run = (Inl err, snd ?run)" by (cases ?run) (auto split: sum.splits)
  from a_failed_start_leaves_nothing_open[OF run] run three show ?thesis by auto
qed

subsection \<open>What the calls leave on the books\<close>

definition counter :: "('k \<times> nat) list \<Rightarrow> 'k \<Rightarrow> nat" where
  "counter counters key = (case map_of counters key of None \<Rightarrow> 0 | Some n \<Rightarrow> n)"

lemma counter_inc: "counter (inc key counters) other = (if other = key then Suc (counter counters other) else counter counters other)"
  by (simp add: counter_def inc_def map_of_set_entry)

lemma intercepted_fields:
  "m_calls (cb_readings (intercepted call b)) = inc (operationName (call_method call)) (m_calls (cb_readings b))"
  "m_callErrors (cb_readings (intercepted call b)) =
     (if call_status call = None then m_callErrors (cb_readings b) else inc (operationName (call_method call)) (m_callErrors (cb_readings b)))"
  "cb_lines (intercepted call b) = logCalls call (cb_lines b)"
  by (simp_all add: intercepted_def recordCalls_def observeCall_def Let_def)

lemma operation_last: "CHR ''/'' \<notin> set rpc \<Longrightarrow> operationName (service @ ''/'' @ rpc) = rpc"
  by (auto simp: operationName_def takeWhile_append)

text \<open>
  The books of the calls are exact. After any sequence of calls, an operation's duration counter is the
  number of its calls and its error counter the number of them that answered an error, whatever service path they
  came by; and the log holds, in order, one line for each call but the quiet ones that answered success.
\<close>

theorem every_call_is_counted:
  "let b = fold intercepted calls \<lparr>cb_readings = newMetrics, cb_lines = []\<rparr>;
       named = filter (\<lambda>call. operationName (call_method call) = kind) calls
   in counter (m_calls (cb_readings b)) kind = length named \<and>
      counter (m_callErrors (cb_readings b)) kind = length (filter (\<lambda>call. call_status call \<noteq> None) named) \<and>
      cb_lines b = map (\<lambda>call. (call_method call, map_option status_code (call_status call)))
        (filter (\<lambda>call. \<not> (call_status call = None \<and> call_quiet call)) calls)"
proof (induction calls rule: rev_induct)
  case Nil
  show ?case by (simp add: counter_def newMetrics_def)
next
  case (snoc call calls)
  then show ?case
    by (auto simp: Let_def intercepted_fields logCalls_def counter_inc)
qed

subsection \<open>The probe\<close>

text \<open>
  A probe answers whether the store takes a write and leaves the store as it was: where the kernel
  refuses nothing and the temporary name is free, it is ready exactly when the store is a directory, and every file
  is afterwards what it was before.
\<close>

theorem a_probe_leaves_the_store:
  assumes "\<And>n call. o_refuse out n call = None" and "look (w_files w) (o_store out @ [''.probe-'' @ ending]) = None"
    and "run_state (Probe out ending) w = (ready, w')"
  shows "ready = is_dir (w_files w) (o_store out) \<and> look (w_files w') p = look (w_files w) p"
proof -
  let ?p = "o_store out @ [''.probe-'' @ ending]"
  show ?thesis
    using assms by (auto simp: Probe_def storeIsWriteable_def os_change_def Remove_def os_create_new_def os_write_def os_remove_def
        new_node_def Let_def split: if_splits option.splits sum.splits prod.splits)
qed

theorem a_probe_leaves_the_store_witness:
  "fst (run_state (Probe (still_outside (output_of ''c'') None) ''1'') follow_world) = True \<and>
   look (w_files (snd (run_state (Probe (still_outside (output_of ''c'') None) ''1'') follow_world))) [''store'', ''.probe-1''] = None"
proof -
  let ?out = "still_outside (output_of ''c'') None"
  obtain ready w' where run: "run_state (Probe ?out ''1'') follow_world = (ready, w')" by fastforce
  have refuse: "o_refuse ?out n call = None" for n call by (simp add: still_outside_def)
  have absent: "look (w_files follow_world) (o_store ?out @ [''.probe-'' @ ''1'']) = None" by code_simp
  have "is_dir (w_files follow_world) (o_store ?out)" by code_simp
  with a_probe_leaves_the_store[OF refuse absent run] absent run show ?thesis by (simp add: still_outside_def)
qed

end
