(* ===== verification/Arming.thy ===== *)
theory Arming
  imports Watch Metrics
begin

section \<open>The loop that arms one volume (\<open>arming.go\<close>, \<open>listwatch.go\<close>)\<close>

text \<open>
  A volume's arming finds its claim, then runs two goroutines: the watch's handler, which keeps the newest copy of
  the claim in a slot of one, and the reads, which take a copy, read its class, and read again after a failure.
  The steps of the two interleave in any order here, and the API server may answer differently at every read.
\<close>

subsection \<open>Finding the claim\<close>

text \<open>The tries made before the driver stops: each asks for the claim, and a failure waits and asks again.\<close>

primrec find_claim :: "'g outside \<Rightarrow> nat \<Rightarrow> nat \<Rightarrow> ('g, claimReference option) io" where
  "find_claim out r 0 = return None"
| "find_claim out r (Suc tries) = do {
     staged \<leftarrow> volume_at r;
     found \<leftarrow> claimOf out (v_id staged);
     case found of Inr claim \<Rightarrow> return (Some claim) | Inl err \<Rightarrow> find_claim out r tries
   }"

subsection \<open>The watch under it\<close>

datatype 'o delivered = Object 'o | Tombstone 'o

definition unwrapped :: "'o delivered \<Rightarrow> 'o" where
  "unwrapped object = (case object of Object held \<Rightarrow> held | Tombstone held \<Rightarrow> held)"

text \<open>What the node's watch on PersistentVolumes delivers, and what the node does with it.\<close>

datatype watchedObject = VolumeObject persistentVolume | StrangeObject

datatype volumeEvent = VolumeAdded persistentVolume | VolumeUpdated persistentVolume | VolumeDeleted "watchedObject delivered"

definition deleted :: "watchedObject delivered \<Rightarrow> ('g, unit) io" where
  "deleted object = (case unwrapped object of VolumeObject held \<Rightarrow> Follower.forget held | StrangeObject \<Rightarrow> return ())"

definition demands_follow :: "'g outside \<Rightarrow> volumeEvent \<Rightarrow> ('g, unit) io" where
  "demands_follow out event =
     (if \<not> o_cluster out then return ()
      else case event of
        VolumeAdded held \<Rightarrow> Follower.read out held
      | VolumeUpdated held \<Rightarrow> Follower.read out held
      | VolumeDeleted object \<Rightarrow> deleted object)"

text \<open>One call of the collection's watch: whether one was opened before, and the answer of the API server.\<close>

definition watch_opens :: "string \<Rightarrow> bool \<Rightarrow> bool \<times> metrics \<Rightarrow> bool \<times> metrics" where
  "watch_opens kind granted state =
     (let (opened, m) = state in
      if granted then (True, if opened then watchRestarted kind m else m) else (opened, m))"

lemma watch_opens_pair: "watch_opens kind granted (opened, m) =
    (if granted then (True, if opened then watchRestarted kind m else m) else (opened, m))"
  by (simp add: watch_opens_def)

lemma restarts_counted:
  "snd (fold (watch_opens kind) answers (opened, m)) =
     ((watchRestarted kind) ^^ (length (filter id answers) - (if opened then 0 else 1))) m"
proof (induction answers arbitrary: opened m)
  case Nil
  then show ?case by simp
next
  case (Cons granted answers)
  show ?case
    by (cases granted; cases opened) (simp_all add: Cons watch_opens_pair funpow_swap1)
qed

subsection \<open>The slot and the reads\<close>

datatype reads_at = ReadsIdle | ReadsHolding heldClaim | ReadsWaiting heldClaim | ReadsEnded

record 'g arming_loop =
  al_slot :: "heldClaim option"
  al_at :: reads_at
  al_offered :: "heldClaim list"
  al_read :: "heldClaim option"
  al_world :: "'g world"

text \<open>The handler drains the slot and sends; \<open>al_offered\<close> is the log of the copies, for the statements.\<close>

definition offer :: "heldClaim \<Rightarrow> 'g arming_loop \<Rightarrow> 'g arming_loop" where
  "offer copy l = (let l = l\<lparr>al_slot := None\<rparr> in l\<lparr>al_slot := Some copy, al_offered := al_offered l @ [copy]\<rparr>)"

text \<open>One step of the reads: take the slot's copy, read the copy held, or end the wait with the newer copy if there is one.\<close>

definition reads_turn :: "'g outside \<Rightarrow> nat \<Rightarrow> claimReference \<Rightarrow> 'g arming_loop \<Rightarrow> 'g arming_loop" where
  "reads_turn out r claim l =
     (case al_at l of
        ReadsIdle \<Rightarrow>
          (case al_slot l of None \<Rightarrow> l | Some copy \<Rightarrow> l\<lparr>al_slot := None, al_at := ReadsHolding copy\<rparr>)
      | ReadsHolding copy \<Rightarrow>
          (case run_state (read_claim out r claim copy) (al_world l) of
             (None, w) \<Rightarrow> l\<lparr>al_world := w, al_at := ReadsIdle, al_read := Some copy\<rparr>
           | (Some err, w) \<Rightarrow> l\<lparr>al_world := w, al_at := ReadsWaiting copy\<rparr>)
      | ReadsWaiting copy \<Rightarrow>
          (case al_slot l of
             None \<Rightarrow> l\<lparr>al_at := ReadsHolding copy\<rparr>
           | Some newer \<Rightarrow> l\<lparr>al_slot := None, al_at := ReadsHolding newer\<rparr>)
      | ReadsEnded \<Rightarrow> l)"

definition reads_stop :: "'g arming_loop \<Rightarrow> 'g arming_loop" where
  "reads_stop l = (case al_at l of ReadsHolding copy \<Rightarrow> l | _ \<Rightarrow> l\<lparr>al_at := ReadsEnded\<rparr>)"

definition new_arming :: "'g world \<Rightarrow> 'g arming_loop" where
  "new_arming w = \<lparr>al_slot = None, al_at = ReadsIdle, al_offered = [], al_read = None, al_world = w\<rparr>"

text \<open>
  What the API server promises: a class's driver and parameters never change, so a read answers them or fails.
  What the node promises: the rest of the driver never writes the rules of the volume.
\<close>

definition class_answers :: "(string \<Rightarrow> attributesClass) \<Rightarrow> (string \<Rightarrow> int option) \<Rightarrow> 'g outside \<Rightarrow> bool" where
  "class_answers classes quantity out \<longleftrightarrow> o_quantity out = quantity \<and>
     (\<forall>n name. case o_class out n name of Inl err \<Rightarrow> True | Inr found \<Rightarrow> found = classes name)"

inductive arming_reaches ::
  "(string \<Rightarrow> attributesClass) \<Rightarrow> (string \<Rightarrow> int option) \<Rightarrow> nat \<Rightarrow> claimReference \<Rightarrow> 'g arming_loop \<Rightarrow> bool"
  for classes quantity r claim where
  arming_starts: "arming_reaches classes quantity r claim (new_arming w)"
| arming_offered: "arming_reaches classes quantity r claim l \<Longrightarrow> hc_name copy = cl_name claim \<Longrightarrow>
    arming_reaches classes quantity r claim (offer copy l)"
| arming_turns: "arming_reaches classes quantity r claim l \<Longrightarrow> class_answers classes quantity out \<Longrightarrow>
    arming_reaches classes quantity r claim (reads_turn out r claim l)"
| arming_stops: "arming_reaches classes quantity r claim l \<Longrightarrow> arming_reaches classes quantity r claim (reads_stop l)"
| arming_aside: "arming_reaches classes quantity r claim l \<Longrightarrow> policyNow (w_heap w r) = policyNow (w_heap (al_world l) r) \<Longrightarrow>
    arming_reaches classes quantity r claim (l\<lparr>al_world := w\<rparr>)"

subsection \<open>The newest copy is not lost\<close>

text \<open>The rules of the class in force on a copy of the claim.\<close>

definition class_rules :: "(string \<Rightarrow> attributesClass) \<Rightarrow> (string \<Rightarrow> int option) \<Rightarrow> heldClaim \<Rightarrow> policy option" where
  "class_rules classes quantity copy =
     (if className copy = [] \<or> ac_driver (classes (className copy)) \<noteq> driverName then None
      else success (parsePolicy quantity (ac_parameters (classes (className copy)))))"

definition newest_kept ::
  "(string \<Rightarrow> attributesClass) \<Rightarrow> (string \<Rightarrow> int option) \<Rightarrow> nat \<Rightarrow> claimReference \<Rightarrow> 'g arming_loop \<Rightarrow> bool" where
  "newest_kept classes quantity r claim l \<longleftrightarrow>
     (\<forall>copy\<in>set (al_offered l). hc_name copy = cl_name claim) \<and>
     (case al_slot l of
        Some copy \<Rightarrow> al_offered l \<noteq> [] \<and> copy = last (al_offered l)
      | None \<Rightarrow> (case al_at l of
          ReadsIdle \<Rightarrow> al_read l = (if al_offered l = [] then None else Some (last (al_offered l)))
        | ReadsHolding copy \<Rightarrow> al_offered l \<noteq> [] \<and> copy = last (al_offered l)
        | ReadsWaiting copy \<Rightarrow> al_offered l \<noteq> [] \<and> copy = last (al_offered l)
        | ReadsEnded \<Rightarrow> True)) \<and>
     (case al_at l of ReadsHolding copy \<Rightarrow> copy \<in> set (al_offered l) | ReadsWaiting copy \<Rightarrow> copy \<in> set (al_offered l) | _ \<Rightarrow> True) \<and>
     (case al_read l of None \<Rightarrow> True | Some copy \<Rightarrow> policyNow (w_heap (al_world l) r) = class_rules classes quantity copy)"

lemma read_sets_rules:
  assumes "class_answers classes quantity out" and "hc_name copy = cl_name claim"
    and "run_state (read_claim out r claim copy) w = (failed, w')"
  shows "if failed = None then policyNow (w_heap w' r) = class_rules classes quantity copy
    else policyNow (w_heap w' r) = policyNow (w_heap w r)"
proof -
  from arming_takes_effect[OF assms(3)] assms(1,2) show ?thesis
    by (auto simp: class_answers_def class_rules_def rules_now_def Let_def split: if_splits sum.splits)
qed

lemma offer_keeps: "newest_kept classes quantity r claim l \<Longrightarrow> hc_name copy = cl_name claim \<Longrightarrow> newest_kept classes quantity r claim (offer copy l)"
  by (auto simp: newest_kept_def offer_def Let_def split: reads_at.splits option.splits)

lemma turn_keeps:
  assumes "newest_kept classes quantity r claim l" and "class_answers classes quantity out"
  shows "newest_kept classes quantity r claim (reads_turn out r claim l)"
proof (cases "al_at l")
  case (ReadsHolding copy)
  with assms(1) have copy: "copy \<in> set (al_offered l)" "hc_name copy = cl_name claim" by (auto simp: newest_kept_def)
  obtain failed w where run: "run_state (read_claim out r claim copy) (al_world l) = (failed, w)" by fastforce
  from read_sets_rules[OF assms(2) copy(2) run] assms(1) copy(1) show ?thesis
    by (cases failed) (auto simp: newest_kept_def reads_turn_def ReadsHolding run split: option.splits)
qed (use assms(1) in \<open>auto simp: newest_kept_def reads_turn_def split: option.splits if_splits\<close>)

lemma arming_newest: "arming_reaches classes quantity r claim l \<Longrightarrow> newest_kept classes quantity r claim l"
proof (induction rule: arming_reaches.induct)
  case (arming_starts w)
  then show ?case by (simp add: newest_kept_def new_arming_def)
next
  case (arming_stops l)
  then show ?case by (auto simp: newest_kept_def reads_stop_def split: reads_at.splits option.splits)
next
  case (arming_aside l w)
  then show ?case by (auto simp: newest_kept_def split: option.splits reads_at.splits if_splits)
qed (auto intro: offer_keeps turn_keeps)

text \<open>A turn with an API server that answers reads what is held; three turns leave nothing to read.\<close>

lemma answered_read:
  assumes "\<And>n name. \<exists>found. o_class out n name = Inr found"
  shows "\<exists>w'. run_state (read_claim out r claim copy) w = (None, w')"
proof -
  obtain failed w' where run: "run_state (read_claim out r claim copy) w = (failed, w')" by fastforce
  have "failed = None"
    using arming_takes_effect[OF run] assms[of "w_calls w" "className copy"] by (auto split: if_splits)
  with run show ?thesis by blast
qed

definition at_rest :: "'g arming_loop \<Rightarrow> bool" where
  "at_rest l \<longleftrightarrow> al_at l = ReadsIdle \<and> al_slot l = None"

lemma turns_to_rest:
  assumes "\<And>n name. \<exists>found. o_class out n name = Inr found" and "al_at l \<noteq> ReadsEnded"
  shows "at_rest (reads_turn out r claim (reads_turn out r claim (reads_turn out r claim l)))"
proof -
  have idle: "at_rest (reads_turn out r claim (reads_turn out r claim k))" if "al_at k = ReadsIdle" for k
    using answered_read[OF assms(1), of r claim "the (al_slot k)" "al_world k"] that
    by (auto simp: at_rest_def reads_turn_def split: option.splits)
  have held: "al_at (reads_turn out r claim k) = ReadsIdle \<and> al_slot (reads_turn out r claim k) = al_slot k" if "al_at k = ReadsHolding copy" for k copy
    using answered_read[OF assms(1), of r claim copy "al_world k"] that by (auto simp: reads_turn_def)
  have rests: "reads_turn out r claim k = k" if "at_rest k" for k
    using that by (simp add: at_rest_def reads_turn_def)
  show ?thesis
  proof (cases "al_at l")
    case ReadsIdle
    then show ?thesis using idle rests by metis
  next
    case (ReadsHolding copy)
    then show ?thesis using idle held by metis
  next
    case (ReadsWaiting copy)
    then obtain newer where "al_at (reads_turn out r claim l) = ReadsHolding newer" "al_slot (reads_turn out r claim l) = None"
      by (cases "al_slot l") (auto simp: reads_turn_def)
    from held[OF this(1)] this(2) show ?thesis using rests by (metis at_rest_def)
  qed (use assms(2) in simp)
qed

lemma turns_offer: "al_offered (reads_turn out r claim l) = al_offered l"
  by (auto simp: reads_turn_def split: reads_at.splits option.splits prod.splits)

text \<open>
  Property C16. The newest copy of the claim arms the volume. Whatever the order of the watch's events, the reads, their
  failures and the waits between them, a copy overtaken by a newer one may be skipped but the newest never is:
  once the API server answers, three turns of the reads bring them to rest with the newest copy read, and
  the volume under exactly the rules of the class in force on it.
\<close>

theorem the_newest_copy_arms_the_volume:
  assumes "arming_reaches classes quantity r claim l" and "al_offered l \<noteq> []" and "al_at l \<noteq> ReadsEnded"
    and "class_answers classes quantity out" and "\<And>n name. \<exists>found. o_class out n name = Inr found"
  shows "let l' = reads_turn out r claim (reads_turn out r claim (reads_turn out r claim l)) in
    at_rest l' \<and> al_read l' = Some (last (al_offered l)) \<and>
    policyNow (w_heap (al_world l') r) = class_rules classes quantity (last (al_offered l))"
proof -
  let ?turn = "reads_turn out r claim"
  have rest: "at_rest (?turn (?turn (?turn l)))" by (rule turns_to_rest[OF assms(5,3)])
  have "newest_kept classes quantity r claim (?turn (?turn (?turn l)))"
    by (intro arming_newest arming_turns assms(1,4))
  with rest assms(2) have "al_read (?turn (?turn (?turn l))) = Some (last (al_offered l))"
    "policyNow (w_heap (al_world (?turn (?turn (?turn l)))) r) = class_rules classes quantity (last (al_offered l))"
    by (auto simp: newest_kept_def at_rest_def turns_offer)
  with rest show ?thesis by (simp add: Let_def)
qed

definition class_outside :: "(nat \<Rightarrow> string + attributesClass) \<Rightarrow> unit outside" where
  "class_outside answer = (still_outside (output_of ''c'') None)\<lparr>o_class := (\<lambda>n name. answer n)\<rparr>"

definition plain_class :: attributesClass where
  "plain_class = \<lparr>ac_driver = driverName, ac_parameters = []\<rparr>"

theorem the_newest_copy_arms_the_volume_witness:
  "\<exists>l. al_at l = ReadsWaiting \<lparr>hc_name = ''c'', hc_current = None, hc_asked = Some ''k''\<rparr> \<and>
     policyNow (w_heap (al_world l) 0) = None \<and>
     (let l' = reads_turn (class_outside (\<lambda>n. Inr plain_class)) 0 \<lparr>cl_namespace = ''n'', cl_name = ''c''\<rparr>
         (reads_turn (class_outside (\<lambda>n. Inr plain_class)) 0 \<lparr>cl_namespace = ''n'', cl_name = ''c''\<rparr>
         (reads_turn (class_outside (\<lambda>n. Inr plain_class)) 0 \<lparr>cl_namespace = ''n'', cl_name = ''c''\<rparr> l))
      in policyNow (w_heap (al_world l') 0) = Some defaultPolicy)"
proof -
  let ?claim = "\<lparr>cl_namespace = ''n'', cl_name = ''c''\<rparr>"
  let ?copy = "\<lparr>hc_name = ''c'', hc_current = None, hc_asked = Some ''k''\<rparr>"
  let ?down = "class_outside (\<lambda>n. Inl ''not found'')" and ?up = "class_outside (\<lambda>n. Inr plain_class)"
  let ?start = "new_arming (world_of [] (zero_volume ''v'' defaultAttributes writeableVolume [''v'']))"
  let ?l = "reads_turn ?down 0 ?claim (reads_turn ?down 0 ?claim (offer ?copy ?start))"
  have answers: "class_answers (\<lambda>name. plain_class) (\<lambda>q. None) ?down" "class_answers (\<lambda>name. plain_class) (\<lambda>q. None) ?up"
    and up: "\<And>n name. \<exists>found. o_class ?up n name = Inr found"
    by (simp_all add: class_answers_def class_outside_def still_outside_def)
  have reached: "arming_reaches (\<lambda>name. plain_class) (\<lambda>q. None) 0 ?claim ?l"
    by (intro arming_turns[OF _ answers(1)] arming_offered arming_starts) simp
  have failed: "fst (run_state (read_claim ?down 0 ?claim ?copy) (al_world ?start)) \<noteq> None" by code_simp
  have at: "al_at ?l = ReadsWaiting ?copy" and unarmed: "policyNow (w_heap (al_world ?l) 0) = None"
    and offered: "al_offered ?l = [?copy]" by code_simp+
  have rules: "class_rules (\<lambda>name. plain_class) (\<lambda>q. None) ?copy = Some defaultPolicy" by code_simp
  from the_newest_copy_arms_the_volume[OF reached _ _ answers(2) up] at unarmed offered rules show ?thesis
    by (intro exI[of _ ?l]) (simp add: Let_def)
qed

end
