(* ===== verification/Inotify.thy ===== *)
theory Inotify
  imports Watch "HOL-Library.Countable"
begin

section \<open>The directories under a watch (\<open>watch.go\<close>)\<close>

text \<open>
  inotify watches one directory at a time. A watch opens with the tree and every directory under it, and each batch
  of events adds the directories the pod created, with all they hold by then. The kernel's descriptors and the
  files as each call finds them are parameters.
\<close>

definition IN_MODIFY :: "32 word" where "IN_MODIFY = 0x2"
definition IN_CLOSE_WRITE :: "32 word" where "IN_CLOSE_WRITE = 0x8"
definition IN_MOVED_FROM :: "32 word" where "IN_MOVED_FROM = 0x40"
definition IN_MOVED_TO :: "32 word" where "IN_MOVED_TO = 0x80"
definition IN_DELETE :: "32 word" where "IN_DELETE = 0x200"

definition watchMask :: "32 word" where
  "watchMask = or (or (or (or (or IN_CREATE IN_DELETE) IN_MODIFY) IN_MOVED_FROM) IN_MOVED_TO) IN_CLOSE_WRITE"

record inotifyKernel =
  in_init :: bool
  in_add :: "nat \<Rightarrow> path \<Rightarrow> 32 word \<Rightarrow> string + int"
  in_files :: "nat \<Rightarrow> files"

record directoryWatch =
  dw_open :: bool
  dw_watched :: "(int \<times> string) list"
  dw_calls :: nat

text \<open>\<open>filepath.WalkDir\<close> visits a directory before what it holds, and the entries of one directory in the order of their names.\<close>

definition walk_dirs :: "files \<Rightarrow> path \<Rightarrow> path list" where
  "walk_dirs fs dir = sort (remdups (filter (is_dir fs) (map fst (below fs dir))))"

fun add_each :: "inotifyKernel \<Rightarrow> path list \<Rightarrow> directoryWatch \<Rightarrow> directoryWatch" where
  "add_each ki [] d = d"
| "add_each ki (p # ps) d =
     (let n = dw_calls d; d = d\<lparr>dw_calls := Suc n\<rparr> in
      case in_add ki n p watchMask of
        Inl err \<Rightarrow> d
      | Inr descriptor \<Rightarrow> add_each ki ps (d\<lparr>dw_watched := set_entry descriptor (show_path p) (dw_watched d)\<rparr>))"

definition watch_add :: "inotifyKernel \<Rightarrow> path \<Rightarrow> directoryWatch \<Rightarrow> directoryWatch" where
  "watch_add ki dir d = add_each ki (walk_dirs (in_files ki (dw_calls d)) dir) d"

definition watch_open :: "inotifyKernel \<Rightarrow> path \<Rightarrow> directoryWatch" where
  "watch_open ki tree =
     (let d = \<lparr>dw_open = False, dw_watched = [], dw_calls = 0\<rparr> in
      if \<not> in_init ki then d else watch_add ki tree (d\<lparr>dw_open := True\<rparr>))"

text \<open>One batch: the directories it reports, then each with a watch of its own, and one nudge of the timer.\<close>

definition watch_read :: "inotifyKernel \<Rightarrow> time \<Rightarrow> string \<Rightarrow> directoryWatch \<times> watcher \<Rightarrow> (directoryWatch \<times> watcher) option" where
  "watch_read ki now buffer state =
     (let (d, seeing) = state in
      if \<not> dw_open d then Some (d, seeing)
      else (case events (dw_watched d) buffer of
        None \<Rightarrow> None
      | Some arrivals \<Rightarrow>
          Some (fold (\<lambda>directory d. if directory = [] then d else watch_add ki (read_path directory) d) arrivals d,
            watcher_nudge now seeing)))"

definition watch_close :: "directoryWatch \<Rightarrow> directoryWatch" where
  "watch_close d = d\<lparr>dw_open := False\<rparr>"

subsection \<open>Which directories are watched\<close>

text \<open>
  The kernel takes every watch, and answers the descriptor of the directory the path names at that call: a
  directory made anew under a path has a descriptor of its own. No directory comes to another path, so a descriptor
  names one path: a directory that is moved keeps its descriptor, and the driver the path it had.
\<close>

definition kernel_takes :: "(nat \<Rightarrow> path \<Rightarrow> int) \<Rightarrow> inotifyKernel \<Rightarrow> bool" where
  "kernel_takes fd ki \<longleftrightarrow> in_init ki \<and> (\<forall>n p. in_add ki n p watchMask = Inr (fd n p))"

definition none_moves :: "(nat \<Rightarrow> path \<Rightarrow> int) \<Rightarrow> bool" where
  "none_moves fd \<longleftrightarrow> (\<forall>n m p q. fd n p = fd m q \<longrightarrow> p = q)"

text \<open>The directory a path named at a call is watched, under that path.\<close>

definition covered :: "(nat \<Rightarrow> path \<Rightarrow> int) \<Rightarrow> nat \<Rightarrow> directoryWatch \<Rightarrow> path \<Rightarrow> bool" where
  "covered fd n d q \<longleftrightarrow> map_of (dw_watched d) (fd n q) = Some (show_path q)"

definition covered_since :: "(nat \<Rightarrow> path \<Rightarrow> int) \<Rightarrow> directoryWatch \<Rightarrow> directoryWatch \<Rightarrow> path \<Rightarrow> bool" where
  "covered_since fd d d' q \<longleftrightarrow> (\<exists>n. dw_calls d \<le> n \<and> n < dw_calls d' \<and> covered fd n d' q)"

lemma add_each_covers:
  assumes "kernel_takes fd ki" and "none_moves fd"
  shows "covered fd m d q \<Longrightarrow> covered fd m (add_each ki ps d) q" and "dw_calls d \<le> dw_calls (add_each ki ps d)"
    and "q \<in> set ps \<Longrightarrow> covered_since fd d (add_each ki ps d) q"
proof -
  show keeps: "covered fd m d q \<Longrightarrow> covered fd m (add_each ki ps d) q" for m d q ps
  proof (induction ps arbitrary: d)
    case (Cons p ps)
    let ?d = "d\<lparr>dw_calls := Suc (dw_calls d), dw_watched := set_entry (fd (dw_calls d) p) (show_path p) (dw_watched d)\<rparr>"
    have same: "fd m q = fd (dw_calls d) p \<Longrightarrow> q = p" using assms(2) unfolding none_moves_def by blast
    have "covered fd m ?d q" using Cons.prems same by (auto simp: covered_def map_of_set_entry)
    from Cons.IH[OF this] show ?case using assms(1) by (simp add: kernel_takes_def Let_def)
  qed simp
  show grows: "dw_calls d \<le> dw_calls (add_each ki ps d)" for ps d
  proof (induction ps arbitrary: d)
    case (Cons p ps)
    from Cons[of "d\<lparr>dw_calls := Suc (dw_calls d), dw_watched := set_entry (fd (dw_calls d) p) (show_path p) (dw_watched d)\<rparr>"]
    show ?case using assms(1) by (simp add: kernel_takes_def Let_def)
  qed simp
  show "q \<in> set ps \<Longrightarrow> covered_since fd d (add_each ki ps d) q"
  proof (induction ps arbitrary: d)
    case (Cons p ps)
    let ?d = "d\<lparr>dw_calls := Suc (dw_calls d), dw_watched := set_entry (fd (dw_calls d) p) (show_path p) (dw_watched d)\<rparr>"
    have step: "add_each ki (p # ps) d = add_each ki ps ?d" using assms(1) by (simp add: kernel_takes_def Let_def)
    show ?case
    proof (cases "q \<in> set ps")
      case True
      from Cons.IH[OF this, of ?d] obtain n where "dw_calls ?d \<le> n" "n < dw_calls (add_each ki ps ?d)" "covered fd n (add_each ki ps ?d) q"
        unfolding covered_since_def by blast
      then show ?thesis unfolding step covered_since_def by (intro exI[of _ n]) simp
    next
      case False
      with Cons.prems have "q = p" by simp
      then have "covered fd (dw_calls d) ?d q" by (simp add: covered_def map_of_set_entry)
      then have "covered fd (dw_calls d) (add_each ki ps ?d) q" by (rule keeps)
      moreover have "dw_calls ?d \<le> dw_calls (add_each ki ps ?d)" by (rule grows)
      ultimately show ?thesis unfolding step covered_since_def by (intro exI[of _ "dw_calls d"]) simp
    qed
  qed simp
qed

lemma walk_visits: "q \<noteq> [] \<Longrightarrow> q \<in> set (walk_dirs fs dir) \<longleftrightarrow> prefix dir q \<and> is_dir fs q"
  by (auto simp: walk_dirs_def below_def is_dir_def look_def image_iff split: option.splits dest!: map_of_SomeD intro: rev_image_eqI)

definition take_arrival :: "inotifyKernel \<Rightarrow> string \<Rightarrow> directoryWatch \<Rightarrow> directoryWatch" where
  "take_arrival ki directory d = (if directory = [] then d else watch_add ki (read_path directory) d)"

lemma take_arrival_covers:
  assumes "kernel_takes fd ki" and "none_moves fd"
  shows "covered fd m d q \<Longrightarrow> covered fd m (take_arrival ki directory d) q"
    and "dw_calls d \<le> dw_calls (take_arrival ki directory d)"
    and "q \<noteq> [] \<Longrightarrow> directory \<noteq> [] \<Longrightarrow> prefix (read_path directory) q \<Longrightarrow> is_dir (in_files ki (dw_calls d)) q \<Longrightarrow>
      covered_since fd d (take_arrival ki directory d) q"
  using add_each_covers[OF assms] by (simp_all add: take_arrival_def watch_add_def walk_visits)

lemma arrivals_keep:
  assumes "kernel_takes fd ki" and "none_moves fd"
  shows "covered fd m d q \<Longrightarrow> covered fd m (fold (take_arrival ki) arrivals d) q"
    and "dw_calls d \<le> dw_calls (fold (take_arrival ki) arrivals d)"
proof -
  show "covered fd m d q \<Longrightarrow> covered fd m (fold (take_arrival ki) arrivals d) q"
    by (induction arrivals arbitrary: d) (simp_all add: take_arrival_covers(1)[OF assms])
  show "dw_calls d \<le> dw_calls (fold (take_arrival ki) arrivals d)"
    by (induction arrivals arbitrary: d) (auto intro: le_trans[OF take_arrival_covers(2)[OF assms]])
qed

lemma arrivals_cover:
  assumes "kernel_takes fd ki" and "none_moves fd" and "q \<noteq> []" and "directory \<in> set arrivals" and "directory \<noteq> []"
    and "prefix (read_path directory) q" and "\<forall>n\<ge>dw_calls d. is_dir (in_files ki n) q"
  shows "covered_since fd d (fold (take_arrival ki) arrivals d) q"
  using assms(4,7)
proof (induction arrivals arbitrary: d)
  case (Cons other arrivals)
  let ?d = "take_arrival ki other d"
  note later = take_arrival_covers(2)[OF assms(1,2), of d other]
  show ?case
  proof (cases "other = directory")
    case True
    from take_arrival_covers(3)[OF assms(1-3,5,6), of d] Cons.prems(2) True have "covered_since fd d ?d q" by simp
    then show ?thesis
      using arrivals_keep[OF assms(1,2), where d = ?d and arrivals = arrivals]
      by (auto simp: covered_since_def intro: less_le_trans)
  next
    case False
    with Cons.prems(1) have "directory \<in> set arrivals" by simp
    moreover have "\<forall>n\<ge>dw_calls ?d. is_dir (in_files ki n) q" using Cons.prems(2) le_trans[OF later] by blast
    ultimately have "covered_since fd ?d (fold (take_arrival ki) arrivals ?d) q" by (rule Cons.IH)
    then show ?thesis using later by (auto simp: covered_since_def intro: le_trans)
  qed
qed simp

lemma clean_shown:
  assumes "list_all plain_name (p @ [name])" and "p \<noteq> []"
  shows "join_names (show_path p) name = show_path (p @ [name])"
proof -
  have shown: "show_path es = ''/'' @ join ''/'' es" if "es \<noteq> []" for es
    using that
  proof (induction es)
    case (Cons e es)
    then show ?case by (cases es) (auto simp: show_path_def)
  qed simp
  have parts: "split (CHR ''/'') (join ''/'' (p @ [name])) = p @ [name]" by (rule split_plain[OF assms(1)]) simp
  have kept: "foldl (clean_step True) [] es = es" if "list_all plain_name es" for es
  proof -
    have "foldl (clean_step True) old es = old @ es" for old
      using that by (induction es arbitrary: old) (auto simp: clean_step_def plain_name_def)
    then show ?thesis by simp
  qed
  have first: "clean_step True [] [] = []" by (simp add: clean_step_def)
  have "clean (''/'' @ join ''/'' (p @ [name])) = ''/'' @ join ''/'' (p @ [name])"
    by (simp add: clean_def Let_def first parts kept[OF assms(1)] del: foldl_append)
  then show ?thesis
    using assms by (simp add: join_names_def shown join_slash plain_name_def)
qed

text \<open>A directory the batch reports made in a covered one.\<close>

definition reported_dir :: "(nat \<Rightarrow> path \<Rightarrow> int) \<Rightarrow> directoryWatch \<Rightarrow> kernelEvent list \<Rightarrow> path \<Rightarrow> bool" where
  "reported_dir fd d batch a \<longleftrightarrow> (\<exists>e\<in>set batch. \<exists>n p. and (ke_mask e) IN_CREATE \<noteq> 0 \<and> and (ke_mask e) IN_ISDIR \<noteq> 0 \<and>
     ke_descriptor e = fd n p \<and> covered fd n d p \<and> p \<noteq> [] \<and> list_all plain_name (p @ [ke_name e]) \<and> a = p @ [ke_name e])"

lemma reported_arrives:
  assumes "reported_dir fd d batch a"
  shows "\<exists>directory\<in>set (map (\<lambda>e. arrival_of (dw_watched d) (ke_descriptor e) (ke_mask e) (ke_name e)) batch).
    directory \<noteq> [] \<and> read_path directory = a"
proof -
  from assms obtain e n p where e: "e \<in> set batch" and bits: "and (ke_mask e) IN_CREATE \<noteq> 0" "and (ke_mask e) IN_ISDIR \<noteq> 0"
    and at: "ke_descriptor e = fd n p" "covered fd n d p" "p \<noteq> []" and plain: "list_all plain_name (p @ [ke_name e])" and a: "a = p @ [ke_name e]"
    unfolding reported_dir_def by blast
  have "arrival_of (dw_watched d) (ke_descriptor e) (ke_mask e) (ke_name e) = show_path (p @ [ke_name e])"
    using bits at clean_shown[OF plain at(3)] by (simp add: arrival_of_def covered_def)
  moreover have "show_path (p @ [ke_name e]) \<noteq> []" by (simp add: show_path_def)
  ultimately show ?thesis using e read_show_path[OF plain] a by (auto intro!: bexI[of _ e])
qed

text \<open>
  Property C19. What the watch of a tree covers, while the kernel takes every watch and no directory is moved. A watch that
  opens covers every directory the tree then holds. A batch of events uncovers none. And where an event of the batch reports a
  directory made in a covered one, that directory and every directory under it that is there is covered when the batch
  is done, however deep it was made before its own watch was added. A directory that is moved into the tree is reported by
  another event, and the driver adds no watch for it.
\<close>

theorem the_watch_covers_what_is_made:
  assumes "kernel_takes fd ki" and "none_moves fd" and "q \<noteq> []" and "list_all event_ok batch" and "dw_open d"
  shows "(prefix tree q \<and> is_dir (in_files ki 0) q \<longrightarrow> (\<exists>n. covered fd n (watch_open ki tree) q)) \<and>
    (\<exists>d'. watch_read ki now (concat (map show_event batch)) (d, seeing) = Some (d', watcher_nudge now seeing) \<and>
      (\<forall>n. covered fd n d q \<longrightarrow> covered fd n d' q) \<and>
      (\<forall>a. reported_dir fd d batch a \<and> prefix a q \<and> (\<forall>n\<ge>dw_calls d. is_dir (in_files ki n) q) \<longrightarrow> covered_since fd d d' q))"
proof -
  have "\<exists>n. covered fd n (watch_open ki tree) q" if "prefix tree q \<and> is_dir (in_files ki 0) q"
  proof -
    from that walk_visits[OF assms(3), of "in_files ki 0" tree] have "q \<in> set (walk_dirs (in_files ki 0) tree)" by simp
    from add_each_covers(3)[OF assms(1,2) this] assms(1) show ?thesis
      by (simp add: watch_open_def watch_add_def kernel_takes_def covered_since_def Let_def) blast
  qed
  moreover
  let ?found = "map (\<lambda>e. arrival_of (dw_watched d) (ke_descriptor e) (ke_mask e) (ke_name e)) batch"
  have "watch_read ki now (concat (map show_event batch)) (d, seeing) = Some (fold (take_arrival ki) ?found d, watcher_nudge now seeing)"
    using assms(5) by (simp add: watch_read_def kernel_events_read_back[OF assms(4)] take_arrival_def[abs_def])
  moreover have "covered_since fd d (fold (take_arrival ki) ?found d) q"
    if "reported_dir fd d batch a \<and> prefix a q \<and> (\<forall>n\<ge>dw_calls d. is_dir (in_files ki n) q)" for a
    using that reported_arrives[of fd d batch a] arrivals_cover[OF assms(1-3)] by blast
  ultimately show ?thesis using arrivals_keep(1)[OF assms(1,2)] by blast
qed

definition small_descriptors :: "nat \<Rightarrow> path \<Rightarrow> int" where
  "small_descriptors n p = (if p = [''t''] then 1 else 2 + int (to_nat p))"

definition deep_kernel :: inotifyKernel where
  "deep_kernel = \<lparr>in_init = True, in_add = (\<lambda>n p mask. Inr (small_descriptors n p)),
     in_files = (\<lambda>n. [([''t''], dir_node), ([''t'', ''d''], dir_node), ([''t'', ''d'', ''e''], dir_node)])\<rparr>"

theorem the_watch_covers_what_is_made_witness:
  "\<exists>d' n. watch_read deep_kernel 7 (show_event \<lparr>ke_descriptor = 1, ke_mask = 0x40000100, ke_cookie = 0, ke_name = ''d'', ke_padding = 15\<rparr>)
      (\<lparr>dw_open = True, dw_watched = [(1, ''/t'')], dw_calls = 1\<rparr>,
       \<lparr>wt_volume = 0, wt_quiesce = 1, wt_written = 0, wt_changes = False, wt_arrived = False, wt_classed = False\<rparr>) =
     Some (d', \<lparr>wt_volume = 0, wt_quiesce = 1, wt_written = 7, wt_changes = True, wt_arrived = False, wt_classed = False\<rparr>) \<and>
     covered small_descriptors n d' [''t'', ''d'', ''e'']"
proof -
  let ?e = "\<lparr>ke_descriptor = 1, ke_mask = 0x40000100, ke_cookie = 0, ke_name = ''d'', ke_padding = 15\<rparr>"
  let ?d = "\<lparr>dw_open = True, dw_watched = [(1, ''/t'')], dw_calls = 1\<rparr>"
  let ?seeing = "\<lparr>wt_volume = 0, wt_quiesce = 1, wt_written = 0, wt_changes = False, wt_arrived = False, wt_classed = False\<rparr>"
  have takes: "kernel_takes small_descriptors deep_kernel" by (simp add: kernel_takes_def deep_kernel_def)
  have stay: "none_moves small_descriptors" by (auto simp: none_moves_def small_descriptors_def split: if_splits)
  have ok: "list_all event_ok [?e]" by (simp add: event_ok_def padded_name_def)
  have bits: "and (0x40000100 :: 32 word) IN_CREATE \<noteq> 0" "and (0x40000100 :: 32 word) IN_ISDIR \<noteq> 0"
    by (simp_all add: IN_CREATE_def IN_ISDIR_def)
  have "covered small_descriptors 0 ?d [''t'']" by (simp add: covered_def small_descriptors_def show_path_def)
  then have reported: "reported_dir small_descriptors ?d [?e] [''t'', ''d'']"
    unfolding reported_dir_def using bits
    by (intro bexI[of _ ?e] exI[of _ 0] exI[of _ "[''t'']"]) (auto simp: small_descriptors_def plain_name_def)
  have there: "is_dir (in_files deep_kernel n) [''t'', ''d'', ''e'']" for n
    by (simp add: deep_kernel_def is_dir_def look_def dir_node_def)
  from the_watch_covers_what_is_made[OF takes stay _ ok, of "[''t'', ''d'', ''e'']" ?d "[''t'']" 7 ?seeing] reported there
  show ?thesis by (force simp: watcher_nudge_def covered_since_def)
qed

end
