(* ===== verification/Locks.thy ===== *)
theory Locks
  imports Volume
begin

section \<open>The lock of a repository (\<open>store.go\<close>)\<close>

text \<open>
  Two volumes of one URL share a bare repository, and a fetch, a publish, a push, a stage and a sweep of it each run
  under its lock. The store makes a repository's mutex the first time one is asked for, so the map of the mutexes has a
  mutex of its own. Here the goroutines that take and release a lock interleave at every step of \<open>lock\<close>.
\<close>

subsection \<open>The steps of a lock\<close>

text \<open>Where a goroutine stands: outside, at each line of \<open>lock\<close>, and with the lock until it calls the release.\<close>

datatype lock_state =
    Apart
  | Asking string
  | Looking string
  | Making string
  | Found string nat
  | Waiting string nat
  | Holding string nat

text \<open>A \<open>sync.Mutex\<close> is locked or not and knows no owner. A mutex has the number of the one made before it.\<close>

record locking =
  lk_mu :: bool
  lk_locks :: "(string \<times> nat) list"
  lk_made :: nat
  lk_locked :: "nat \<Rightarrow> bool"
  lk_at :: "nat \<Rightarrow> lock_state"

definition newStore :: locking where
  "newStore = \<lparr>lk_mu = False, lk_locks = [], lk_made = 0, lk_locked = (\<lambda>m. False), lk_at = (\<lambda>t. Apart)\<rparr>"

text \<open>The next step of a goroutine, where it has one: a goroutine at a locked mutex waits.\<close>

fun lock_move :: "lock_state \<Rightarrow> locking \<Rightarrow> (lock_state \<times> locking) option" where
  "lock_move Apart s = None"
| "lock_move (Asking name) s = (if lk_mu s then None else Some (Looking name, s\<lparr>lk_mu := True\<rparr>))"
| "lock_move (Looking name) s =
     (case map_of (lk_locks s) name of None \<Rightarrow> Some (Making name, s) | Some m \<Rightarrow> Some (Found name m, s))"
| "lock_move (Making name) s =
     Some (Found name (lk_made s), s\<lparr>lk_locks := set_entry name (lk_made s) (lk_locks s), lk_made := Suc (lk_made s)\<rparr>)"
| "lock_move (Found name m) s = Some (Waiting name m, s\<lparr>lk_mu := False\<rparr>)"
| "lock_move (Waiting name m) s =
     (if lk_locked s m then None else Some (Holding name m, s\<lparr>lk_locked := (lk_locked s)(m := True)\<rparr>))"
| "lock_move (Holding name m) s = Some (Apart, s\<lparr>lk_locked := (lk_locked s)(m := False)\<rparr>)"

text \<open>A goroutine calls \<open>lock\<close>, and the goroutines move one at a time and in any order.\<close>

definition lock_calls :: "nat \<Rightarrow> string \<Rightarrow> locking \<Rightarrow> locking option" where
  "lock_calls t name s = (if lk_at s t = Apart then Some (s\<lparr>lk_at := (lk_at s)(t := Asking name)\<rparr>) else None)"

definition lock_moves :: "nat \<Rightarrow> locking \<Rightarrow> locking option" where
  "lock_moves t s = (case lock_move (lk_at s t) s of None \<Rightarrow> None
     | Some (at, s') \<Rightarrow> Some (s'\<lparr>lk_at := (lk_at s)(t := at)\<rparr>))"

inductive lock_reaches :: "locking \<Rightarrow> bool" where
  opens: "lock_reaches newStore"
| calls: "lock_reaches s \<Longrightarrow> lock_calls t name s = Some s' \<Longrightarrow> lock_reaches s'"
| moves: "lock_reaches s \<Longrightarrow> lock_moves t s = Some s' \<Longrightarrow> lock_reaches s'"

subsection \<open>What the steps keep\<close>

text \<open>The goroutines that hold the map's mutex.\<close>

fun in_map :: "lock_state \<Rightarrow> bool" where
  "in_map (Looking name) = True"
| "in_map (Making name) = True"
| "in_map (Found name m) = True"
| "in_map at = False"

text \<open>What a goroutine at each line knows of the map.\<close>

fun knows :: "(string \<times> nat) list \<Rightarrow> lock_state \<Rightarrow> bool" where
  "knows locks (Making name) = (map_of locks name = None)"
| "knows locks (Found name m) = (map_of locks name = Some m)"
| "knows locks (Waiting name m) = (map_of locks name = Some m)"
| "knows locks (Holding name m) = (map_of locks name = Some m)"
| "knows locks at = True"

fun holds_mutex :: "nat \<Rightarrow> lock_state \<Rightarrow> bool" where
  "holds_mutex m (Holding name n) = (n = m)"
| "holds_mutex m at = False"

text \<open>A mutex is locked exactly while one goroutine has it.\<close>

definition taken_by_one :: "(lock_state \<Rightarrow> bool) \<Rightarrow> (nat \<Rightarrow> lock_state) \<Rightarrow> bool \<Rightarrow> bool" where
  "taken_by_one p at locked \<longleftrightarrow> (if locked then \<exists>t. \<forall>u. p (at u) = (u = t) else \<forall>t. \<not> p (at t))"

definition map_ok :: "(string \<times> nat) list \<Rightarrow> nat \<Rightarrow> bool" where
  "map_ok locks made \<longleftrightarrow> (\<forall>name m. map_of locks name = Some m \<longrightarrow> m < made) \<and>
     (\<forall>name name' m. map_of locks name = Some m \<longrightarrow> map_of locks name' = Some m \<longrightarrow> name = name')"

definition lock_ok :: "locking \<Rightarrow> bool" where
  "lock_ok s \<longleftrightarrow> taken_by_one in_map (lk_at s) (lk_mu s) \<and> (\<forall>m. taken_by_one (holds_mutex m) (lk_at s) (lk_locked s m)) \<and>
     (\<forall>t. knows (lk_locks s) (lk_at s t)) \<and> map_ok (lk_locks s) (lk_made s)"

lemma one_enters: "taken_by_one p at False \<Longrightarrow> p here \<Longrightarrow> taken_by_one p (at(t := here)) True"
  by (auto simp: taken_by_one_def)

lemma one_leaves: "taken_by_one p at locked \<Longrightarrow> p (at t) \<Longrightarrow> \<not> p here \<Longrightarrow> taken_by_one p (at(t := here)) False"
  by (auto simp: taken_by_one_def split: if_splits)

lemma one_stays: "taken_by_one p at locked \<Longrightarrow> p here = p (at t) \<Longrightarrow> taken_by_one p (at(t := here)) locked"
  by (auto simp: taken_by_one_def split: if_splits)

lemma one_alone: "taken_by_one p at locked \<Longrightarrow> p (at t) \<Longrightarrow> p (at u) \<Longrightarrow> t = u"
  by (auto simp: taken_by_one_def split: if_splits)

lemma one_locked: "taken_by_one p at locked \<Longrightarrow> locked = (\<exists>t. p (at t))"
  by (auto simp: taken_by_one_def split: if_splits)

lemma lock_okI:
  assumes "taken_by_one in_map ((lk_at s)(t := here)) (lk_mu s')"
    and "\<And>m. taken_by_one (holds_mutex m) ((lk_at s)(t := here)) (lk_locked s' m)"
    and "knows (lk_locks s') here" "\<And>u. u \<noteq> t \<Longrightarrow> knows (lk_locks s') (lk_at s u)" "map_ok (lk_locks s') (lk_made s')"
  shows "lock_ok (s'\<lparr>lk_at := (lk_at s)(t := here)\<rparr>)"
  using assms by (simp add: lock_ok_def)

lemma map_grows: "map_ok locks made \<Longrightarrow> map_of locks name = None \<Longrightarrow> map_ok (set_entry name made locks) (Suc made)"
  by (fastforce simp: map_ok_def map_of_set_entry less_Suc_eq)

lemma move_keeps:
  assumes ok: "lock_ok s" and move: "lock_move (lk_at s t) s = Some (here, s')"
  shows "lock_ok (s'\<lparr>lk_at := (lk_at s)(t := here)\<rparr>)"
proof -
  have map: "taken_by_one in_map (lk_at s) (lk_mu s)" and mutex: "\<And>m. taken_by_one (holds_mutex m) (lk_at s) (lk_locked s m)"
    and known: "\<And>t. knows (lk_locks s) (lk_at s t)" and good: "map_ok (lk_locks s) (lk_made s)"
    using ok by (simp_all add: lock_ok_def)
  have others: "taken_by_one (holds_mutex n) ((lk_at s)(t := here)) (lk_locked s n)"
    if "\<not> holds_mutex n (lk_at s t)" "\<not> holds_mutex n here" for n
    using that by (intro one_stays mutex) simp
  show ?thesis
  proof (cases "lk_at s t")
    case (Asking name)
    with move have here: "here = Looking name" "s' = s\<lparr>lk_mu := True\<rparr>" "\<not> lk_mu s" by (simp_all split: if_splits)
    show ?thesis
      by (rule lock_okI) (use here map Asking others known good in \<open>auto intro: one_enters simp del: fun_upd_apply\<close>)
  next
    case (Looking name)
    with move have here: "s' = s" "in_map here" "\<not> holds_mutex m here" "knows (lk_locks s) here" for m
      by (auto split: option.splits)
    show ?thesis
      by (rule lock_okI) (use here map Looking others known good in \<open>auto intro: one_stays simp del: fun_upd_apply\<close>)
  next
    case (Making name)
    with move have here: "here = Found name (lk_made s)"
      "s' = s\<lparr>lk_locks := set_entry name (lk_made s) (lk_locks s), lk_made := Suc (lk_made s)\<rparr>" by simp_all
    have "knows (set_entry name (lk_made s) (lk_locks s)) (lk_at s u)" if "u \<noteq> t" for u
      using known[of u] known[of t] one_alone[OF map, of t u] Making that by (cases "lk_at s u") (auto simp: map_of_set_entry)
    with known[of t] show ?thesis
      by (intro lock_okI) (use here map Making others good in \<open>auto intro: one_stays map_grows simp: map_of_set_entry simp del: fun_upd_apply\<close>)
  next
    case (Found name m)
    with move known[of t] have here: "here = Waiting name m" "s' = s\<lparr>lk_mu := False\<rparr>" "map_of (lk_locks s) name = Some m" by simp_all
    show ?thesis
      by (rule lock_okI) (use here map Found others known good in \<open>auto intro: one_leaves simp del: fun_upd_apply\<close>)
  next
    case (Waiting name m)
    with move known[of t] have here: "here = Holding name m" "s' = s\<lparr>lk_locked := (lk_locked s)(m := True)\<rparr>" "\<not> lk_locked s m"
      "map_of (lk_locks s) name = Some m" by (simp_all split: if_splits)
    have "taken_by_one (holds_mutex n) ((lk_at s)(t := here)) (lk_locked s' n)" for n
      using mutex[of n] others[of n] here Waiting by (cases "n = m") (simp_all add: one_enters)
    then show ?thesis
      by (intro lock_okI) (use here map Waiting known good in \<open>auto intro: one_stays simp del: fun_upd_apply\<close>)
  next
    case (Holding name m)
    with move have here: "here = Apart" "s' = s\<lparr>lk_locked := (lk_locked s)(m := False)\<rparr>" by simp_all
    have "taken_by_one (holds_mutex n) ((lk_at s)(t := here)) (lk_locked s' n)" for n
      using one_leaves[OF mutex[of n]] others[of n] here Holding by (cases "n = m") simp_all
    then show ?thesis
      by (intro lock_okI) (use here map Holding known good in \<open>auto intro: one_stays simp del: fun_upd_apply\<close>)
  qed (use move in simp)
qed

lemma call_keeps:
  assumes ok: "lock_ok s" and call: "lock_calls t name s = Some s'"
  shows "lock_ok s'"
proof -
  have apart: "lk_at s t = Apart" and s': "s' = s\<lparr>lk_at := (lk_at s)(t := Asking name)\<rparr>"
    using call by (simp_all add: lock_calls_def split: if_splits)
  show ?thesis
    unfolding s' by (rule lock_okI) (use ok apart in \<open>auto simp: lock_ok_def intro: one_stays simp del: fun_upd_apply\<close>)
qed

lemma reaches_ok: "lock_reaches s \<Longrightarrow> lock_ok s"
proof (induction rule: lock_reaches.induct)
  case opens
  show ?case by (simp add: newStore_def lock_ok_def taken_by_one_def map_ok_def)
next
  case (calls s t name s')
  then show ?case by (blast intro: call_keeps)
next
  case (moves s t s')
  then show ?case by (auto simp: lock_moves_def split: option.splits prod.splits intro: move_keeps)
qed

text \<open>
  Property C20. Two goroutines never hold the lock of one repository. Whatever the order in which goroutines ask for the
  locks of repositories, look them up, make them, wait and release them, the two that hold the lock of one repository
  are the same one: a fetch and a publish of one URL never run at once, also when both ask for the first time.
\<close>

theorem one_goroutine_holds_a_repository:
  assumes "lock_reaches s" and "lk_at s t = Holding name m" and "lk_at s u = Holding name n"
  shows "t = u"
proof -
  have ok: "lock_ok s" by (rule reaches_ok[OF assms(1)])
  then have "knows (lk_locks s) (lk_at s t)" "knows (lk_locks s) (lk_at s u)" by (simp_all add: lock_ok_def)
  with assms(2,3) have "m = n" by simp
  moreover from ok have "taken_by_one (holds_mutex m) (lk_at s) (lk_locked s m)" by (simp add: lock_ok_def)
  ultimately show ?thesis using assms(2,3) by (intro one_alone[where p = "holds_mutex m" and at = "lk_at s"]) simp_all
qed

text \<open>Steps by number: a goroutine that calls, or one that moves.\<close>

fun lock_run :: "(nat \<times> string option) list \<Rightarrow> locking \<Rightarrow> locking option" where
  "lock_run [] s = Some s"
| "lock_run ((t, asks) # later) s =
     (case (case asks of Some name \<Rightarrow> lock_calls t name s | None \<Rightarrow> lock_moves t s) of
        None \<Rightarrow> None | Some s' \<Rightarrow> lock_run later s')"

lemma lock_run_reaches: "lock_reaches s \<Longrightarrow> lock_run steps s = Some s' \<Longrightarrow> lock_reaches s'"
  by (induction steps s rule: lock_run.induct) (auto intro: lock_reaches.intros split: option.splits)

text \<open>Both ask for a repository that has no mutex yet, and the steps of the second come between those of the first.\<close>

definition first_come :: "(nat \<times> string option) list" where
  "first_come = [(0, Some ''repo''), (1, Some ''repo''), (0, None), (0, None), (0, None), (0, None), (1, None),
     (1, None), (0, None), (1, None)]"

theorem one_goroutine_holds_a_repository_witness:
  "\<exists>s. lock_run first_come newStore = Some s \<and> lk_at s 0 = Holding ''repo'' 0 \<and> lk_at s 1 = Waiting ''repo'' 0 \<and>
     (\<forall>u. lk_at s u = Holding ''repo'' 0 \<longrightarrow> u = 0)"
proof -
  have "(case lock_run first_come newStore of None \<Rightarrow> False
      | Some s \<Rightarrow> lk_at s 0 = Holding ''repo'' 0 \<and> lk_at s 1 = Waiting ''repo'' 0)" by code_simp
  then obtain s where s: "lock_run first_come newStore = Some s" "lk_at s 0 = Holding ''repo'' 0" "lk_at s 1 = Waiting ''repo'' 0"
    by (auto split: option.splits)
  have "lock_reaches s" using lock_run_reaches[OF opens s(1)] .
  with s one_goroutine_holds_a_repository[of s _ "''repo''" 0 0 0] show ?thesis by blast
qed

subsection \<open>What a lock waits for\<close>

text \<open>The repository a goroutine's call is about.\<close>

fun asks_for :: "lock_state \<Rightarrow> string option" where
  "asks_for Apart = None"
| "asks_for (Asking name) = Some name"
| "asks_for (Looking name) = Some name"
| "asks_for (Making name) = Some name"
| "asks_for (Found name m) = Some name"
| "asks_for (Waiting name m) = Some name"
| "asks_for (Holding name m) = Some name"

lemma lock_moves_iff: "lock_moves t s = None \<longleftrightarrow> lock_move (lk_at s t) s = None"
  by (auto simp: lock_moves_def split: option.splits)

lemma in_map_moves: "in_map (lk_at s t) \<Longrightarrow> lock_moves t s \<noteq> None"
  by (cases "lk_at s t") (auto simp: lock_moves_iff split: option.splits)

text \<open>
  A call waits for its own repository and for nothing else: a goroutine that cannot move waits for one that holds the
  lock of the same repository, which can release it, or for one that is at the map, which can move. So no set of calls
  locks up, and no repository waits for another's fetch.
\<close>

theorem a_lock_waits_for_its_repository:
  assumes "lock_reaches s" and "asks_for (lk_at s t) = Some name" and "lock_moves t s = None"
  shows "\<exists>u. u \<noteq> t \<and> lock_moves u s \<noteq> None \<and> (in_map (lk_at s u) \<or> (\<exists>m. lk_at s u = Holding name m))"
proof -
  have ok: "lock_ok s" by (rule reaches_ok[OF assms(1)])
  show ?thesis
  proof (cases "lk_at s t")
    case (Asking repo)
    with assms(3) have "lk_mu s" by (simp add: lock_moves_iff split: if_splits)
    with ok obtain u where u: "in_map (lk_at s u)" by (auto simp: lock_ok_def dest: one_locked)
    with Asking have "u \<noteq> t" by auto
    with u in_map_moves[OF u] show ?thesis by blast
  next
    case (Waiting repo m)
    with assms(2,3) have locked: "lk_locked s m" "repo = name" by (simp_all add: lock_moves_iff split: if_splits)
    from ok have "taken_by_one (holds_mutex m) (lk_at s) (lk_locked s m)" by (simp add: lock_ok_def)
    from one_locked[OF this] locked(1) obtain u where u: "holds_mutex m (lk_at s u)" by auto
    then obtain other where other: "lk_at s u = Holding other m" by (cases "lk_at s u") auto
    have "knows (lk_locks s) (lk_at s t)" "knows (lk_locks s) (lk_at s u)" "map_ok (lk_locks s) (lk_made s)"
      using ok by (simp_all add: lock_ok_def)
    with Waiting other locked(2) have "other = name" by (auto simp: map_ok_def)
    with other Waiting show ?thesis by (intro exI[of _ u]) (auto simp: lock_moves_iff)
  qed (use assms in \<open>auto simp: lock_moves_iff split: option.splits\<close>)
qed

end
