(* ===== verification/Registry.thy ===== *)
theory Registry
  imports Metrics Node Commands
begin

section \<open>What a scrape shows (\<open>metrics.go\<close>)\<close>

text \<open>
  Which series each plugin puts on its registry, and what a request for \<open>/metrics\<close> answers. The series of the Go runtime
  and of the process come from Prometheus's own collectors: \<open>runtime\<close> lists them. A histogram is shown as its count.
\<close>

subsection \<open>The series\<close>

record series =
  se_name :: string
  se_labels :: "string list"

definition metricLabels :: "string list" where "metricLabels = [''namespace'', ''claim'']"
definition webhookLabels :: "string list" where "webhookLabels = [''result'']"
definition healthLabels :: "string list" where "healthLabels = [''namespace'', ''volume'']"
definition buildInfoLabels :: "string list" where "buildInfoLabels = [''component'', ''version'']"
definition callLabels :: "string list" where "callLabels = [''kind'']"
definition repoLabels :: "string list" where "repoLabels = [''repo'']"

text \<open>\<open>MustRegister\<close> panics on a series whose name the registry has.\<close>

fun MustRegister :: "series list \<Rightarrow> series list \<Rightarrow> series list option" where
  "MustRegister [] held = Some held"
| "MustRegister (s # later) held =
     (if se_name s \<in> se_name ` set held then None else MustRegister later (held @ [s]))"

text \<open>What both plugins register.\<close>

definition shared_series :: "series list" where
  "shared_series = [
     \<lparr>se_name = ''liken_build_info'', se_labels = buildInfoLabels\<rparr>,
     \<lparr>se_name = ''git_csi_reconcile_duration_seconds'', se_labels = callLabels\<rparr>,
     \<lparr>se_name = ''git_csi_reconcile_errors_total'', se_labels = callLabels\<rparr>,
     \<lparr>se_name = ''git_csi_armed'', se_labels = metricLabels\<rparr>,
     \<lparr>se_name = ''git_csi_pending_paths'', se_labels = metricLabels\<rparr>,
     \<lparr>se_name = ''git_csi_unpushed_commits'', se_labels = metricLabels\<rparr>,
     \<lparr>se_name = ''git_csi_last_push_timestamp_seconds'', se_labels = metricLabels\<rparr>,
     \<lparr>se_name = ''git_csi_push_failures_total'', se_labels = metricLabels\<rparr>,
     \<lparr>se_name = ''git_csi_skipped_files'', se_labels = metricLabels\<rparr>,
     \<lparr>se_name = ''git_csi_diverged'', se_labels = metricLabels\<rparr>,
     \<lparr>se_name = ''git_csi_volume_abnormal'', se_labels = healthLabels\<rparr>,
     \<lparr>se_name = ''git_csi_demanded_pulls_total'', se_labels = healthLabels\<rparr>]"

definition webhook_series :: "series list" where
  "webhook_series = [
     \<lparr>se_name = ''git_csi_webhook_requests_total'', se_labels = webhookLabels\<rparr>,
     \<lparr>se_name = ''git_csi_webhook_marked_total'', se_labels = []\<rparr>]"

definition volumesName :: string where "volumesName = ''git_csi_volumes''"

definition newVolumesCollector :: series where
  "newVolumesCollector = \<lparr>se_name = volumesName, se_labels = repoLabels\<rparr>"

definition node_series :: "series list" where
  "node_series = [
     \<lparr>se_name = ''git_csi_watch_restarts_total'', se_labels = callLabels\<rparr>,
     \<lparr>se_name = ''git_csi_fetch_duration_seconds'', se_labels = repoLabels\<rparr>,
     \<lparr>se_name = ''git_csi_fetch_failures_total'', se_labels = repoLabels\<rparr>,
     \<lparr>se_name = ''git_csi_store_bytes'', se_labels = []\<rparr>,
     newVolumesCollector]"

definition register_shared :: "series list \<Rightarrow> series list option" where
  "register_shared runtime = MustRegister (runtime @ shared_series) []"

definition registerWebhook :: "series list \<Rightarrow> series list option" where
  "registerWebhook held = MustRegister webhook_series held"

definition registerNodeFacts :: "series list \<Rightarrow> series list option" where
  "registerNodeFacts held = MustRegister node_series held"

text \<open>The registry of a plugin that started.\<close>

definition started_registry :: "config \<Rightarrow> series list \<Rightarrow> series list option" where
  "started_registry cfg runtime = (case register_shared runtime of None \<Rightarrow> None
     | Some held \<Rightarrow> if cfg_controller cfg then registerWebhook held else registerNodeFacts held)"

subsection \<open>The samples\<close>

type_synonym sample = "string list \<times> int"

definition by_one :: "(string \<times> nat) list \<Rightarrow> sample list" where
  "by_one counters = map (\<lambda>(at, n). ([at], int n)) counters"

definition by_two :: "(labels \<times> int) list \<Rightarrow> sample list" where
  "by_two gauges = map (\<lambda>((a, b), x). ([a, b], x)) gauges"

definition counted_by_two :: "(labels \<times> nat) list \<Rightarrow> sample list" where
  "counted_by_two counters = map (\<lambda>((a, b), n). ([a, b], int n)) counters"

text \<open>The collector of the volumes asks the node at every scrape.\<close>

definition collect_volumes :: "(string \<times> nat) list \<Rightarrow> sample list" where
  "collect_volumes byRepo = by_one byRepo"

text \<open>What each series holds; \<open>others\<close> answers for the runtime's and for the webhook's counters.\<close>

definition samples :: "(string \<Rightarrow> sample list) \<Rightarrow> metrics \<Rightarrow> (string \<times> nat) list \<Rightarrow> string \<Rightarrow> sample list" where
  "samples others m byRepo name = (case map_of [
     (''liken_build_info'', map (\<lambda>(component, version). ([component, version], 1)) (m_buildInfo m)),
     (''git_csi_reconcile_duration_seconds'', by_one (m_calls m)),
     (''git_csi_reconcile_errors_total'', by_one (m_callErrors m)),
     (''git_csi_armed'', by_two (m_armed m)),
     (''git_csi_pending_paths'', by_two (m_pending m)),
     (''git_csi_unpushed_commits'', by_two (m_unpushed m)),
     (''git_csi_last_push_timestamp_seconds'', by_two (m_lastPush m)),
     (''git_csi_push_failures_total'', counted_by_two (m_pushFailures m)),
     (''git_csi_skipped_files'', by_two (m_skipped m)),
     (''git_csi_diverged'', by_two (m_diverged m)),
     (''git_csi_volume_abnormal'', by_two (m_abnormal m)),
     (''git_csi_demanded_pulls_total'', counted_by_two (m_demandedPulls m)),
     (''git_csi_watch_restarts_total'', by_one (m_watchRestarts m)),
     (''git_csi_fetch_duration_seconds'', by_one (m_fetches m)),
     (''git_csi_fetch_failures_total'', by_one (m_fetchFailures m)),
     (''git_csi_store_bytes'', [([], m_storeBytes m)]),
     (volumesName, collect_volumes byRepo)] name of
       None \<Rightarrow> others name | Some found \<Rightarrow> found)"

definition scrape :: "series list \<Rightarrow> (string \<Rightarrow> sample list) \<Rightarrow> metrics \<Rightarrow> (string \<times> nat) list \<Rightarrow> (string \<times> sample) list" where
  "scrape held others m byRepo = concat (map (\<lambda>s. map (Pair (se_name s)) (samples others m byRepo (se_name s))) held)"

text \<open>The listener serves the registry at one path and nothing else.\<close>

definition metrics_handler ::
    "series list \<Rightarrow> (string \<Rightarrow> sample list) \<Rightarrow> metrics \<Rightarrow> (string \<times> nat) list \<Rightarrow> string \<Rightarrow> (string \<times> sample) list option" where
  "metrics_handler held others m byRepo path =
     (if path = ''/metrics'' then Some (scrape held others m byRepo) else None)"

subsection \<open>No start panics\<close>

lemma MustRegister_takes:
  "MustRegister new held = (if distinct (map se_name new) \<and> se_name ` set new \<inter> se_name ` set held = {} then Some (held @ new) else None)"
  by (induction new held rule: MustRegister.induct) auto

definition driver_names :: "string list" where
  "driver_names = map se_name (shared_series @ webhook_series @ node_series)"

lemma driver_names_distinct: "distinct driver_names"
  by code_simp

text \<open>
  A start takes every series it registers. As long as the collectors of the runtime use none of the driver's names, no
  registration of a start panics, on a node or on a controller, and the registry then holds the webhook's counters on a
  controller alone and the volumes, the fetches, the watches and the store's size on a node alone.
\<close>

theorem a_start_registers_every_series:
  assumes "distinct (map se_name runtime)" and "se_name ` set runtime \<inter> set driver_names = {}"
  shows "started_registry cfg runtime =
    Some (runtime @ shared_series @ (if cfg_controller cfg then webhook_series else node_series))"
proof -
  have names: "distinct (map se_name (shared_series @ webhook_series))" "distinct (map se_name (shared_series @ node_series))"
    using driver_names_distinct by (auto simp: driver_names_def)
  have apart: "se_name ` set runtime \<inter> se_name ` set shared_series = {}" "se_name ` set runtime \<inter> se_name ` set webhook_series = {}"
    "se_name ` set runtime \<inter> se_name ` set node_series = {}"
    using assms(2) by (auto simp: driver_names_def)
  then show ?thesis
    using names assms(1)
    by (auto simp: started_registry_def register_shared_def registerWebhook_def registerNodeFacts_def MustRegister_takes)
qed

definition some_runtime :: "series list" where
  "some_runtime = [\<lparr>se_name = ''go_goroutines'', se_labels = []\<rparr>, \<lparr>se_name = ''process_cpu_seconds_total'', se_labels = []\<rparr>]"

theorem a_start_registers_every_series_witness:
  "started_registry \<lparr>cfg_endpoint = [], cfg_nodeID = [], cfg_store = [], cfg_metrics = [], cfg_sweepAfter = 0, cfg_demandMin = 0,
     cfg_webhook = [], cfg_controller = False\<rparr> some_runtime = Some (some_runtime @ shared_series @ node_series)"
proof -
  have "distinct (map se_name some_runtime)" by code_simp
  moreover have "se_name ` set some_runtime \<inter> set driver_names = {}" by code_simp
  ultimately show ?thesis using a_start_registers_every_series by auto
qed

subsection \<open>The volumes of a scrape\<close>

lemma counts_by_key:
  "map_of (foldl (\<lambda>counts x. set_entry (key x) (Suc (case map_of counts (key x) of None \<Rightarrow> 0 | Some n \<Rightarrow> n)) counts) counts xs) k =
     (case length (filter (\<lambda>x. key x = k) xs) of 0 \<Rightarrow> map_of counts k
      | Suc n \<Rightarrow> Some (Suc n + (case map_of counts k of None \<Rightarrow> 0 | Some c \<Rightarrow> c)))"
proof (induction xs arbitrary: counts)
  case (Cons x xs)
  show ?case
    by (simp add: Cons.IH map_of_set_entry split: nat.split option.split)
qed simp

lemma set_entry_keys: "distinct (map fst m) \<Longrightarrow> distinct (map fst (set_entry k a m))"
  by (induction m) (auto simp: set_entry_def)

lemma counts_keys:
  "distinct (map fst counts) \<Longrightarrow> distinct (map fst (foldl (\<lambda>counts x. set_entry (key x) (f counts x) counts) counts xs))"
  by (induction xs arbitrary: counts) (simp_all add: set_entry_keys)

text \<open>The repository a volume of the node's map follows, by its short name.\<close>

definition follows_repo :: "'g outside \<Rightarrow> 'g world \<Rightarrow> string \<Rightarrow> string \<times> nat \<Rightarrow> bool" where
  "follows_repo out w repo entry = (r_name (repository_of out (url_of (w_heap w (snd entry)))) = repo)"

lemma volumesByRepo_counts:
  "(repo, n) \<in> set (volumesByRepo out w) \<longleftrightarrow> 0 < n \<and> n = length (filter (follows_repo out w repo) (n_volumes w))"
proof -
  let ?key = "\<lambda>entry. r_name (repository_of out (url_of (w_heap w (snd entry))))"
  have as_fold: "volumesByRepo out w = foldl (\<lambda>counts x. set_entry (?key x)
      (Suc (case map_of counts (?key x) of None \<Rightarrow> 0 | Some n \<Rightarrow> n)) counts) [] (n_volumes w)"
    by (simp add: volumesByRepo_def case_prod_beta' Let_def)
  have "distinct (map fst (volumesByRepo out w))"
    unfolding as_fold by (rule counts_keys) simp
  then have "(repo, n) \<in> set (volumesByRepo out w) \<longleftrightarrow> map_of (volumesByRepo out w) repo = Some n" by simp
  also have "\<dots> \<longleftrightarrow> 0 < n \<and> n = length (filter (follows_repo out w repo) (n_volumes w))"
    unfolding as_fold counts_by_key by (auto simp: follows_repo_def[abs_def] split: nat.split)
  finally show ?thesis .
qed

text \<open>
  A scrape counts the volumes the node holds now. On a node that started, a request for \<open>/metrics\<close> answers, for each
  repository, the number of volumes in the node's own map that follow it, and says nothing of a repository no volume
  follows, whatever was published and unpublished before.
\<close>

theorem a_scrape_counts_the_volumes_held:
  assumes "distinct (map se_name runtime)" and "se_name ` set runtime \<inter> set driver_names = {}"
    and "started_registry cfg runtime = Some held" and "\<not> cfg_controller cfg"
    and "metrics_handler held others m (volumesByRepo out w) ''/metrics'' = Some shown"
  shows "(volumesName, [repo], n) \<in> set shown \<longleftrightarrow>
    0 < n \<and> n = int (length (filter (follows_repo out w repo) (n_volumes w)))"
proof -
  have "held = runtime @ shared_series @ node_series"
    using a_start_registers_every_series[OF assms(1,2), of cfg] assms(3,4) by simp
  then have there: "volumesName \<in> se_name ` set held" by (simp add: node_series_def newVolumesCollector_def)
  have own: "samples others m (volumesByRepo out w) volumesName = by_one (volumesByRepo out w)"
    by (simp add: samples_def volumesName_def collect_volumes_def)
  have "(volumesName, [repo], n) \<in> set shown \<longleftrightarrow> ([repo], n) \<in> set (by_one (volumesByRepo out w))"
  proof -
    have "shown = scrape held others m (volumesByRepo out w)" using assms(5) by (simp add: metrics_handler_def)
    moreover from there obtain s where "s \<in> set held" "se_name s = volumesName" by auto
    ultimately show ?thesis using own by (auto simp: scrape_def intro!: bexI[of _ s])
  qed
  also have "\<dots> \<longleftrightarrow> (\<exists>k. (repo, k) \<in> set (volumesByRepo out w) \<and> n = int k)" by (auto simp: by_one_def)
  also have "\<dots> \<longleftrightarrow> 0 < n \<and> n = int (length (filter (follows_repo out w repo) (n_volumes w)))"
    by (auto simp: volumesByRepo_counts)
  finally show ?thesis .
qed

end
