(* ===== verification/Spec2Isabelle.thy ===== *)
theory Spec2Isabelle
  imports Prelude Durations Attributes Policy Match Credentials Window Store WorkTree Metadata Push PushLaws
    Follower FetchLoop Mounts Watch Staging Node Steady NodeLaws NodeCalls Sweep SweepLaws NodeRuns
    NodeReplies Repeats Resumes Landing Writes Readers Webhook Placing Metrics NodeGauges Commands Services Arming Inotify
    Locks Registry
begin

text \<open>
  The git CSI driver \<open>git.liken.sh\<close>: a model of the program and the theorems that make it correct.

  The program. One binary serves two plugins. The node plugin (\<open>node.go\<close>, \<open>stage.go\<close>, \<open>readonly.go\<close>) answers the
  kubelet: it turns a git repository into a volume, read-only or writeable. A read-only volume follows its ref: one
  loop per repository (\<open>follow.go\<close>) fetches on a timer or on a demand written on the PersistentVolume
  (\<open>demand.go\<close>) and replaces the published tree in place (\<open>store.go\<close>). A writeable volume is a work tree
  (\<open>worktree.go\<close>) a watch reads (\<open>watch.go\<close>): once a class arms it (\<open>arming.go\<close>, \<open>policy.go\<close>) the driver commits
  what the pod wrote (\<open>commit.go\<close>), records what git cannot carry (\<open>metadata.go\<close>), pushes (\<open>push.go\<close>), reconciles
  with the remote (\<open>reconcile.go\<close>) and falls back to a side branch (\<open>diverged.go\<close>). Credentials come with a call and
  are on disk only around one git call (\<open>credentials.go\<close>, \<open>republish.go\<close>). Records let a restarted driver take its
  volumes back (\<open>records.go\<close>, \<open>mount.go\<close>), and a sweep removes what nothing uses (\<open>sweep.go\<close>). The controller
  plugin (\<open>controller.go\<close>) validates classes and turns a forge's push into demands (\<open>webhook.go\<close>, \<open>verify.go\<close>,
  \<open>payload.go\<close>, \<open>match.go\<close>).

  The state and the outside. \<open>World\<close> holds the record \<open>world\<close>: the file system (\<open>Disk\<close>), git's own state, the log of
  the git calls, the mounts, the Events, the metrics calls, a heap of volumes, and the node's maps, whose entries are
  references into that heap as the code's are pointers. An operation is a state transformer on it. What is not the
  driver's code is a parameter, the record \<open>outside\<close>: what git answers and does to the files (\<open>o_git\<close>), which system
  calls the kernel refuses and what a refused one leaves behind (\<open>o_refuse\<close>, \<open>o_mount\<close>), the clock, the API server's
  lists and classes, SHA-256, JSON, RFC 3339 and Kubernetes quantities. Each answer depends on the number of calls
  made before it, so an answer may change at any time. A theorem that needs more of the outside says so in a hypothesis.
  Integers the code bounds (durations, 32-bit event fields) are kept in their range or as words.

  The theories, by the files they model.
    \<^item> \<open>Prelude\<close>, \<open>Durations\<close>: error values, loops with early return, Go's \<open>strings\<close>, \<open>strconv\<close> and \<open>time.ParseDuration\<close>;
      the interfaces of a pair reader and of a text format.
    \<^item> \<open>Attributes\<close> (\<open>attributes.go\<close>), \<open>Policy\<close> (\<open>policy.go\<close>), \<open>Match\<close> (\<open>match.go\<close>), \<open>Credentials\<close> (\<open>credentials.go\<close>):
      the readers of attributes, classes, pushes and Secrets, whose result does not depend on the order of a Go map.
    \<^item> \<open>Volume\<close> (\<open>volume.go\<close>): the record \<open>volume\<close> and one function per method.
    \<^item> \<open>Disk\<close>, \<open>World\<close> (\<open>git.go\<close>, \<open>events.go\<close>): files, calls, Events, and the bounds that compose (see below).
    \<^item> \<open>Window\<close> (\<open>credentials.go\<close>), \<open>Store\<close>, \<open>Placing\<close>, \<open>Locks\<close> (\<open>store.go\<close>), \<open>WorkTree\<close> (\<open>worktree.go\<close>), \<open>Metadata\<close> (\<open>metadata.go\<close>).
    \<^item> \<open>Push\<close>, \<open>PushLaws\<close>, \<open>Landing\<close> (\<open>push.go\<close>, \<open>commit.go\<close>, \<open>reconcile.go\<close>, \<open>diverged.go\<close>).
    \<^item> \<open>Follower\<close>, \<open>FetchLoop\<close> (\<open>follow.go\<close>, \<open>demand.go\<close>, \<open>republish.go\<close>): the loop's record, its pass, and its select as a
      step relation that interleaves with the node.
    \<^item> \<open>Mounts\<close> (\<open>mount.go\<close>, \<open>records.go\<close>), \<open>Watch\<close>, \<open>Inotify\<close> (\<open>watch.go\<close>), \<open>Arming\<close> (\<open>arming.go\<close>, \<open>listwatch.go\<close>).
    \<^item> \<open>Staging\<close>, \<open>Node\<close> (\<open>node.go\<close>, \<open>stage.go\<close>, \<open>readonly.go\<close>, \<open>records.go\<close>): the kubelet's calls and the resume.
    \<^item> \<open>Sweep\<close>, \<open>SweepLaws\<close> (\<open>sweep.go\<close>), \<open>Metrics\<close>, \<open>NodeGauges\<close>, \<open>Registry\<close> (\<open>metrics.go\<close>).
    \<^item> \<open>Steady\<close>, \<open>NodeLaws\<close>, \<open>NodeCalls\<close>, \<open>NodeRuns\<close>, \<open>NodeReplies\<close>, \<open>Repeats\<close>, \<open>Resumes\<close>, \<open>Writes\<close>,
      \<open>Readers\<close>: what holds of the node over all sequences of calls and loop steps.
    \<^item> \<open>Webhook\<close> (\<open>webhook.go\<close>, \<open>verify.go\<close>, \<open>payload.go\<close>), \<open>Commands\<close> (\<open>cli.go\<close>, \<open>main.go\<close>), \<open>Services\<close> (\<open>server.go\<close>,
      \<open>identity.go\<close>, \<open>controller.go\<close>).

  The interfaces. \<open>step_bound\<close> is the one most proofs rest on: a relation between the states before and after an
  operation that is reflexive and transitive, and its rules carry the relation through binds, branches and loops.
  Its interpretations say which git calls an operation makes, which parts of the state it leaves alone, that the
  books only change in the calls of the kubelet, and more; a property then reads the bound off. \<open>pair_reader\<close> gives
  the order independence of the attribute and class readers, \<open>file_map\<close> the laws of the files, \<open>labelled\<close> the reading of
  a gauge from the log of calls.

  What the theorems show.
    \<^item> What the driver accepts is safe to hand to git, to a shell and to the kernel, and its texts read back: the URL and
      ref checks, the ssh command, the metadata record, the mount table, the status report, the command line.
    \<^item> What it sends is the volume's own and nothing else: pushes go to its ref or side branch without force; a push
      attempt moves the pushed mark only after a push the remote accepted; a commit names what it carries; a losing push ends.
      Nothing but the work of a writeable volume stages, commits, pushes or moves a work tree.
    \<^item> What it keeps is not lost: a reconcile spares uncommitted writes, a replayed record stays in a tree no link leads out of, a
      placement ends with exactly the checkout, the sweep removes only what was sent and keeps the refs in use.
    \<^item> What it holds is in order: the loops, watches and armings are exactly those of the volumes held in every
      reachable state; a mount that takes writes is the target of a writeable volume the node holds, or one the kernel
      refused to detach; refused calls
      change no books, repeated ones change nothing; a restart takes a volume back.
    \<^item> What waits is served: no demand is stranded or lost, a wanted volume gets a pass, the newest copy of a claim
      arms its volume, a directory the pod makes is watched. Two goroutines never hold one repository's lock, and a lock waits for
      its own repository alone.
    \<^item> What is secret leaves the disk with its window unless the kernel keeps it there, and only a verified push marks a volume.
    \<^item> What is reported is right: a labelled gauge shows the last word on its label, an unstaged volume is on none, every call
      is counted once, a scrape counts the volumes the node holds; a start that fails holds no listener, and a run that fails says why.

  Bounds and fuel. \<open>replaceTree\<close> recurses to the depth of the checkout: its fuel is \<open>tree_depth\<close>, and \<open>Placing\<close> proves
  that it never runs out. A push tries a rebase three times (\<open>rebaseAttempts\<close>), a constant of the code. \<open>find_claim\<close>
  and \<open>sweeping\<close> take the number of tries and ticks a run makes before it stops. Every other loop ends by a measure.

  Hypotheses. The runs of \<open>NodeRuns\<close> keep to the CSI protocol (\<open>allowed\<close>): a volume is unstaged after its last unpublish,
  and an inline volume has a handle no PersistentVolume has. \<open>Writes\<close> takes
  the kubelet to unpublish a writeable volume at the target it was published at. \<open>Landing\<close> takes a refused system call
  to name its reason. \<open>Arming\<close> takes a class's parameters to be immutable, the
  watch to deliver the one claim it selects, and the rest of the driver to leave a volume's rules alone. \<open>Inotify\<close> takes
  the kernel to take every watch and no directory to be moved. \<open>Metadata\<close> takes no link to lie on a record's path. \<open>Services\<close> takes \<open>os.CreateTemp\<close> to find a free name.

  Files. The calls of a metadata record's replay resolve symbolic links as the kernel does (\<open>leads_to\<close>); the others name paths
  the driver chose, with no link on them, or entries a listing reported. White space is that of Go, the runes above ASCII as
  the bytes UTF-8 writes.

  Not modelled. The locks of a volume and of the node: a method that holds one for its whole body is one step, and where
  goroutines interleave in the code they interleave in \<open>FetchLoop\<close>, \<open>Arming\<close> and \<open>Locks\<close>; a data race is out of reach.
  gRPC, HTTP, the Prometheus registry beyond its series, client-go's informer, the logger, contexts and deadlines other than as a run that
  ends or a call that fails, the time a comparison takes, the histograms' buckets. A listener's socket file. The text of
  a message, which the driver prints for a person and never reads back, is kept as its format and arguments.
\<close>

end
